(* ===== verification/Proxy_Prelude.thy ===== *)
theory Proxy_Prelude
  imports Main "HOL-Library.Word"
begin

text \<open>
  The vocabulary every theory of the development shares: the types that stand for Go's
  bytes, strings and machine integers, the ways a Go call can end (a value, an error value, a
  run-time panic), the collections of simplification rules the component proofs extend, and
  the generic list and option lemmas that more than one component uses.
\<close>

unbundle bit_operations_syntax

section \<open>Types\<close>

text \<open>
  A Go \<open>byte\<close>, \<open>uint16\<close>, \<open>uint32\<close> and \<open>uint64\<close> is a word of its
  width, so arithmetic wraps where Go's does. A Go \<open>string\<close> is a sequence of bytes and
  is modelled by \<^typ>\<open>string\<close>; a \<open>[]byte\<close> is a list of words.
\<close>

type_synonym byte = "8 word"
type_synonym uint16 = "16 word"
type_synonym uint32 = "32 word"
type_synonym uint64 = "64 word"

text \<open>
  The run-time panics the modelled code can raise. A function that may panic returns
  \<open>panic + 'a\<close>: \<open>Inl p\<close> when the call panics and \<open>Inr x\<close> when it returns.
\<close>

datatype panic = NilDereference | IndexOutOfRange | TypeAssertion | DivideByZero | ReflectValueError | NonPositiveTicker

section \<open>Rule collections\<close>

text \<open>
  \<open>go_std\<close> collects the evaluation rules of the Go standard library model,
  \<open>state_simps\<close> the projections a state update leaves alone, and
  \<open>inv_intros\<close> the invariant-preservation rules.
\<close>

named_theorems go_std
named_theorems state_simps
named_theorems inv_intros

section \<open>Strings and bytes\<close>

definition string_to_bytes :: "string \<Rightarrow> byte list" where
  "string_to_bytes s = map (\<lambda>c. of_nat (of_char c)) s"

definition bytes_to_string :: "byte list \<Rightarrow> string" where
  "bytes_to_string bs = map (\<lambda>b. char_of (unat b)) bs"

lemma byte_less_256 [simp]: "unat (b :: byte) < 256"
  using unsigned_less [of b] by simp

lemma bytes_to_string_to_bytes [simp]: "bytes_to_string (string_to_bytes s) = s"
  by (induction s)
    (simp_all add: bytes_to_string_def string_to_bytes_def unat_of_nat)

lemma string_to_bytes_to_string [simp]: "string_to_bytes (bytes_to_string bs) = bs"
proof (induction bs)
  case Nil
  then show ?case by (simp add: bytes_to_string_def string_to_bytes_def)
next
  case (Cons b bs)
  then show ?case
    by (simp add: bytes_to_string_def string_to_bytes_def)
qed

lemma length_string_to_bytes [simp]: "length (string_to_bytes s) = length s"
  by (simp add: string_to_bytes_def)

lemma length_bytes_to_string [simp]: "length (bytes_to_string bs) = length bs"
  by (simp add: bytes_to_string_def)

lemma string_to_bytes_Nil_iff [simp]: "string_to_bytes s = [] \<longleftrightarrow> s = []"
  by (simp add: string_to_bytes_def)

lemma bytes_to_string_Nil_iff [simp]: "bytes_to_string bs = [] \<longleftrightarrow> bs = []"
  by (simp add: bytes_to_string_def)

section \<open>Lists and options\<close>

lemma remove1_last_move:
  "distinct xs \<Longrightarrow> x \<in> set xs \<Longrightarrow> set (remove1 x xs @ [x]) = set xs"
  by auto

lemma map_remove1_inj:
  "inj_on f (set xs) \<Longrightarrow> x \<in> set xs \<Longrightarrow> map f (remove1 x xs) = remove1 (f x) (map f xs)"
proof (induction xs)
  case Nil
  then show ?case by simp
next
  case (Cons y ys)
  show ?case
  proof (cases "x = y")
    case True
    then show ?thesis by simp
  next
    case False
    with Cons.prems have "f x \<noteq> f y" by (auto simp: inj_on_def)
    with Cons False show ?thesis by auto
  qed
qed

lemma remove1_filter_distinct: "distinct xs \<Longrightarrow> remove1 x xs = filter (\<lambda>y. y \<noteq> x) xs"
  by (simp add: distinct_remove1_removeAll removeAll_filter_not_eq fun_eq_iff eq_commute)

text \<open>The first defined result along a list, in order.\<close>

fun first_some :: "('a \<Rightarrow> 'b option) \<Rightarrow> 'a list \<Rightarrow> 'b option" where
  "first_some f [] = None"
| "first_some f (x # xs) = (case f x of None \<Rightarrow> first_some f xs | Some y \<Rightarrow> Some y)"

lemma first_some_append:
  "first_some f (xs @ ys) =
     (case first_some f xs of None \<Rightarrow> first_some f ys | Some y \<Rightarrow> Some y)"
  by (induction xs) (auto split: option.splits)

lemma first_some_map: "first_some f (map g xs) = first_some (\<lambda>x. f (g x)) xs"
  by (induction xs) (auto split: option.splits)

lemma first_some_None_iff: "first_some f xs = None \<longleftrightarrow> (\<forall>x \<in> set xs. f x = None)"
  by (induction xs) (auto split: option.splits)

lemma first_some_in: "first_some f xs = Some y \<Longrightarrow> \<exists>x \<in> set xs. f x = Some y"
  by (induction xs) (auto split: option.splits)

end
