(* ===== verification/Lru_Cache.thy ===== *)
theory Lru_Cache
  imports Proxy_Prelude
begin

text \<open>
  \<open>common/cache/lrucache.go\<close>: a map from keys to elements of a doubly linked list that
  is kept in order of use, its front being the least recently used entry.

  The linked list is modelled as the list \<open>lru\<close> of its elements, front first. An
  element is a pointer: \<open>elem\<close> is the store that maps it to the \<open>entry\<close> it holds
  and \<open>nextElem\<close> the next unused address, so \<open>cache\<close> (the Go map) and
  \<open>lru\<close> refer to the same entries by address as in the code. The mutex makes each
  operation atomic; one call reads the clock once, as the argument \<open>now\<close> in seconds.
  The calls of the eviction callback are recorded in \<open>evicted\<close>, in order, when a
  callback is set.
\<close>

section \<open>State and operations\<close>

record ('k, 'v) entry =
  key :: 'k
  val :: 'v
  expires :: int

record ('k, 'v) LruCache =
  maxAge :: int
  maxSize :: int
  cache :: "'k \<rightharpoonup> nat"
  lru :: "nat list"
  elem :: "nat \<rightharpoonup> ('k, 'v) entry"
  nextElem :: nat
  updateAgeOnGet :: bool
  staleReturn :: bool
  onEvict :: bool
  evicted :: "('k \<times> 'v) list"

datatype Option =
  WithEvict
| WithUpdateAgeOnGet
| WithAge int
| WithSize int
| WithStale bool

fun apply_option :: "Option \<Rightarrow> ('k, 'v) LruCache \<Rightarrow> ('k, 'v) LruCache" where
  "apply_option WithEvict l = l\<lparr>onEvict := True\<rparr>"
| "apply_option WithUpdateAgeOnGet l = l\<lparr>updateAgeOnGet := True\<rparr>"
| "apply_option (WithAge a) l = l\<lparr>maxAge := a\<rparr>"
| "apply_option (WithSize n) l = l\<lparr>maxSize := n\<rparr>"
| "apply_option (WithStale b) l = l\<lparr>staleReturn := b\<rparr>"

definition NewLRUCache :: "Option list \<Rightarrow> ('k, 'v) LruCache" where
  "NewLRUCache options =
     fold apply_option options
       \<lparr>maxAge = 0, maxSize = 0, cache = Map.empty, lru = [], elem = Map.empty, nextElem = 0,
        updateAgeOnGet = False, staleReturn = False, onEvict = False, evicted = []\<rparr>"

text \<open>The entry an element holds (\<open>le.Value.(*entry)\<close>).\<close>

definition Value :: "('k, 'v) LruCache \<Rightarrow> nat \<Rightarrow> ('k, 'v) entry" where
  "Value c le = the (elem c le)"

text \<open>\<open>container/list\<close>: \<open>MoveToBack\<close>.\<close>

definition MoveToBack :: "nat \<Rightarrow> nat list \<Rightarrow> nat list" where
  "MoveToBack le xs = remove1 le xs @ [le]"

definition deleteElement :: "nat \<Rightarrow> ('k, 'v) LruCache \<Rightarrow> ('k, 'v) LruCache" where
  "deleteElement le c =
     (let e = Value c le
      in c\<lparr>lru := remove1 le (lru c),
           cache := (cache c)(key e := None),
           evicted := evicted c @ (if onEvict c then [(key e, val e)] else [])\<rparr>)"

function deleteWhileExpired :: "int \<Rightarrow> ('k, 'v) LruCache \<Rightarrow> ('k, 'v) LruCache" where
  "deleteWhileExpired now c =
     (case lru c of
        [] \<Rightarrow> c
      | le # _ \<Rightarrow>
          if expires (Value c le) \<le> now then deleteWhileExpired now (deleteElement le c) else c)"
  by pat_completeness auto
termination
  by (relation "measure (\<lambda>(_, c). length (lru c))") (auto simp: deleteElement_def Let_def)

declare deleteWhileExpired.simps [simp del]

definition maybeDeleteOldest :: "int \<Rightarrow> ('k, 'v) LruCache \<Rightarrow> ('k, 'v) LruCache" where
  "maybeDeleteOldest now c =
     (if \<not> staleReturn c \<and> maxAge c > 0 then deleteWhileExpired now c else c)"

text \<open>\<open>get\<close>: the entry found, if any, and the cache after the call.\<close>

definition get :: "int \<Rightarrow> 'k \<Rightarrow> ('k, 'v) LruCache \<Rightarrow> ('k, 'v) entry option \<times> ('k, 'v) LruCache" where
  "get now k c =
     (case cache c k of
        None \<Rightarrow> (None, c)
      | Some le \<Rightarrow>
          if \<not> staleReturn c \<and> maxAge c > 0 \<and> expires (Value c le) \<le> now
          then (None, maybeDeleteOldest now (deleteElement le c))
          else
            let c1 = c\<lparr>lru := MoveToBack le (lru c)\<rparr>;
                e = Value c1 le;
                e1 = (if maxAge c > 0 \<and> updateAgeOnGet c
                      then e\<lparr>expires := now + maxAge c\<rparr> else e)
            in (Some e1, c1\<lparr>elem := (elem c1)(le \<mapsto> e1)\<rparr>))"

definition Get :: "int \<Rightarrow> 'k \<Rightarrow> ('k, 'v) LruCache \<Rightarrow> 'v option \<times> ('k, 'v) LruCache" where
  "Get now k c = (case get now k c of (e, c1) \<Rightarrow> (map_option val e, c1))"

definition GetWithExpire ::
    "int \<Rightarrow> 'k \<Rightarrow> ('k, 'v) LruCache \<Rightarrow> ('v \<times> int) option \<times> ('k, 'v) LruCache" where
  "GetWithExpire now k c =
     (case get now k c of (e, c1) \<Rightarrow> (map_option (\<lambda>e. (val e, expires e)) e, c1))"

definition Exist :: "'k \<Rightarrow> ('k, 'v) LruCache \<Rightarrow> bool" where
  "Exist k c \<longleftrightarrow> cache c k \<noteq> None"

text \<open>\<open>c.cache[k] = c.lru.PushBack (e)\<close> at a fresh element.\<close>

definition pushEntry :: "('k, 'v) entry \<Rightarrow> ('k, 'v) LruCache \<Rightarrow> ('k, 'v) LruCache" where
  "pushEntry e c =
     c\<lparr>elem := (elem c)(nextElem c \<mapsto> e),
       lru := lru c @ [nextElem c],
       cache := (cache c)(key e \<mapsto> nextElem c),
       nextElem := Suc (nextElem c)\<rparr>"

definition SetWithExpire ::
    "int \<Rightarrow> 'k \<Rightarrow> 'v \<Rightarrow> int \<Rightarrow> ('k, 'v) LruCache \<Rightarrow> ('k, 'v) LruCache" where
  "SetWithExpire now k v ex c =
     maybeDeleteOldest now
       (case cache c k of
          Some le \<Rightarrow>
            c\<lparr>lru := MoveToBack le (lru c),
              elem := (elem c)(le \<mapsto> (Value c le)\<lparr>val := v, expires := ex\<rparr>)\<rparr>
        | None \<Rightarrow>
            (let c1 = pushEntry \<lparr>key = k, val = v, expires = ex\<rparr> c
             in if maxSize c1 > 0 \<and> int (length (lru c1)) > maxSize c1
                then deleteElement (hd (lru c1)) c1 else c1))"

definition Set :: "int \<Rightarrow> 'k \<Rightarrow> 'v \<Rightarrow> ('k, 'v) LruCache \<Rightarrow> ('k, 'v) LruCache" where
  "Set now k v c = SetWithExpire now k v (if maxAge c > 0 then now + maxAge c else 0) c"

definition CloneTo :: "('k, 'v) LruCache \<Rightarrow> ('k, 'v) LruCache \<Rightarrow> ('k, 'v) LruCache" where
  "CloneTo c n = fold (\<lambda>le. pushEntry (Value c le)) (lru c) (n\<lparr>lru := [], cache := Map.empty\<rparr>)"

definition SetOnEvict :: "('k, 'v) LruCache \<Rightarrow> ('k, 'v) LruCache" where
  "SetOnEvict c = (if onEvict c then c else c\<lparr>onEvict := True\<rparr>)"

definition Delete :: "'k \<Rightarrow> ('k, 'v) LruCache \<Rightarrow> ('k, 'v) LruCache" where
  "Delete k c = (case cache c k of Some le \<Rightarrow> deleteElement le c | None \<Rightarrow> c)"

section \<open>Well-formedness\<close>

text \<open>
  The map and the linked list agree: a key is mapped to an element exactly when that element
  is in the list and holds the key. Addresses in use are allocated and occur once.
\<close>

definition wf_lru :: "('k, 'v) LruCache \<Rightarrow> bool" where
  "wf_lru c \<longleftrightarrow>
     distinct (lru c) \<and>
     (\<forall>le \<in> set (lru c). le < nextElem c) \<and>
     (\<forall>k le. cache c k = Some le \<longleftrightarrow> le \<in> set (lru c) \<and> key (Value c le) = k)"

text \<open>The contents of a cache, least recently used entry first.\<close>

definition contents :: "('k, 'v) LruCache \<Rightarrow> ('k, 'v) entry list" where
  "contents c = map (Value c) (lru c)"

lemma wf_lru_distinct: "wf_lru c \<Longrightarrow> distinct (lru c)"
  by (simp add: wf_lru_def)

lemma wf_lru_cache: "wf_lru c \<Longrightarrow> cache c k = Some le \<longleftrightarrow> le \<in> set (lru c) \<and> key (Value c le) = k"
  by (simp add: wf_lru_def)

lemma wf_lru_alloc: "wf_lru c \<Longrightarrow> le \<in> set (lru c) \<Longrightarrow> le < nextElem c"
  by (simp add: wf_lru_def)

lemma wf_lru_None: "wf_lru c \<Longrightarrow> cache c k = None \<longleftrightarrow> k \<notin> key ` set (contents c)"
proof -
  assume wf: "wf_lru c"
  have "cache c k \<noteq> None \<longleftrightarrow> (\<exists>le. le \<in> set (lru c) \<and> key (Value c le) = k)"
    using wf_lru_cache [OF wf, of k] by auto
  then show ?thesis by (auto simp: contents_def)
qed

lemma wf_lru_key_inj:
  "wf_lru c \<Longrightarrow> le \<in> set (lru c) \<Longrightarrow> le' \<in> set (lru c) \<Longrightarrow>
   key (Value c le) = key (Value c le') \<Longrightarrow> le = le'"
  using wf_lru_cache [of c "key (Value c le)" le] wf_lru_cache [of c "key (Value c le)" le']
  by simp

lemma distinct_keys_contents: "wf_lru c \<Longrightarrow> distinct (map key (contents c))"
  unfolding contents_def
  by (simp add: distinct_map wf_lru_distinct inj_on_def) (metis wf_lru_key_inj)

section \<open>The abstract cache: a list of entries in order of use\<close>

text \<open>
  What the cache promises, over its contents alone: \<open>find_key\<close> is the lookup,
  \<open>drop_key\<close> removes a key, \<open>put_key\<close> writes an entry and makes it the most
  recently used one, and an entry that does not fit pushes the least recently used one out.
\<close>

definition find_key :: "'k \<Rightarrow> ('k, 'v) entry list \<Rightarrow> ('k, 'v) entry option" where
  "find_key k es = find (\<lambda>e. key e = k) es"

definition drop_key :: "'k \<Rightarrow> ('k, 'v) entry list \<Rightarrow> ('k, 'v) entry list" where
  "drop_key k es = filter (\<lambda>e. key e \<noteq> k) es"

definition put_key :: "('k, 'v) entry \<Rightarrow> ('k, 'v) entry list \<Rightarrow> ('k, 'v) entry list" where
  "put_key e es = drop_key (key e) es @ [e]"

definition trim_size :: "int \<Rightarrow> ('k, 'v) entry list \<Rightarrow> ('k, 'v) entry list" where
  "trim_size n es = (if n > 0 \<and> int (length es) > n then tl es else es)"

definition expire :: "('k, 'v) LruCache \<Rightarrow> int \<Rightarrow> ('k, 'v) entry list \<Rightarrow> ('k, 'v) entry list" where
  "expire c now es =
     (if \<not> staleReturn c \<and> maxAge c > 0 then dropWhile (\<lambda>e. expires e \<le> now) es else es)"

lemma Value_update [simp, state_simps]:
  "Value (c\<lparr>lru := l\<rparr>) le = Value c le"
  "Value (c\<lparr>cache := m\<rparr>) le = Value c le"
  "Value (c\<lparr>evicted := x\<rparr>) le = Value c le"
  "Value (c\<lparr>nextElem := n\<rparr>) le = Value c le"
  "Value (c\<lparr>onEvict := b\<rparr>) le = Value c le"
  "Value (c\<lparr>elem := h\<rparr>) le = the (h le)"
  by (simp_all add: Value_def)

lemma drop_key_notin: "k \<notin> key ` set es \<Longrightarrow> drop_key k es = es"
  unfolding drop_key_def by (rule filter_True) auto

lemma drop_key_append [simp]: "drop_key k (xs @ ys) = drop_key k xs @ drop_key k ys"
  by (simp add: drop_key_def)

lemma set_drop_key: "set (drop_key k es) = {e \<in> set es. key e \<noteq> k}"
  by (simp add: drop_key_def)

lemma find_key_drop_key [simp]:
  "find_key j (drop_key k es) = (if j = k then None else find_key j es)"
  by (induction es) (auto simp: find_key_def drop_key_def)

lemma find_key_append:
  "find_key k (xs @ ys) = (case find_key k xs of None \<Rightarrow> find_key k ys | Some e \<Rightarrow> Some e)"
  by (induction xs) (auto simp: find_key_def)

lemma find_key_put_key: "find_key j (put_key e es) = (if j = key e then Some e else find_key j es)"
  by (simp add: put_key_def find_key_append split: option.split) (simp add: find_key_def)

lemma find_key_None_iff: "find_key k es = None \<longleftrightarrow> k \<notin> key ` set es"
  by (auto simp: find_key_def find_None_iff)

lemma find_key_Some: "find_key k es = Some e \<Longrightarrow> e \<in> set es \<and> key e = k"
  by (auto simp: find_key_def find_Some_iff)

lemma find_key_distinct:
  "distinct (map key es) \<Longrightarrow> e \<in> set es \<Longrightarrow> find_key (key e) es = Some e"
  by (induction es) (auto simp: find_key_def)

section \<open>The operations refine the abstract cache\<close>

lemma contents_length [simp]: "length (contents c) = length (lru c)"
  by (simp add: contents_def)

lemma contents_remove1:
  assumes "wf_lru c" and "le \<in> set (lru c)"
  shows "map (Value c) (remove1 le (lru c)) = drop_key (key (Value c le)) (contents c)"
proof -
  have "filter (\<lambda>x. x \<noteq> le) (lru c) = filter (\<lambda>x. key (Value c x) \<noteq> key (Value c le)) (lru c)"
    by (rule filter_cong) (use assms in \<open>auto dest: wf_lru_key_inj\<close>)
  then show ?thesis
    by (simp add: remove1_filter_distinct wf_lru_distinct assms contents_def drop_key_def
        filter_map o_def)
qed

lemma deleteElement_wf [inv_intros]:
  assumes "wf_lru c" and "le \<in> set (lru c)"
  shows "wf_lru (deleteElement le c)"
proof -
  have "x \<noteq> le \<longleftrightarrow> key (Value c x) \<noteq> key (Value c le)" if "x \<in> set (lru c)" for x
    using wf_lru_key_inj [OF assms(1) that assms(2)] by auto
  with assms show ?thesis
    by (auto simp: wf_lru_def deleteElement_def Let_def)
qed

lemma deleteElement_contents:
  assumes "wf_lru c" and "le \<in> set (lru c)"
  shows "contents (deleteElement le c) = drop_key (key (Value c le)) (contents c)"
proof -
  have "contents (deleteElement le c) = map (Value c) (remove1 le (lru c))"
    by (simp add: contents_def deleteElement_def Let_def)
  with contents_remove1 [OF assms] show ?thesis by simp
qed

lemma deleteElement_hd_contents: "contents (deleteElement (hd (lru c)) c) = tl (contents c)"
  by (cases "lru c") (simp_all add: contents_def deleteElement_def Let_def)

lemma deleteElement_config [simp, state_simps]:
  "maxAge (deleteElement le c) = maxAge c"
  "maxSize (deleteElement le c) = maxSize c"
  "staleReturn (deleteElement le c) = staleReturn c"
  "updateAgeOnGet (deleteElement le c) = updateAgeOnGet c"
  "onEvict (deleteElement le c) = onEvict c"
  by (simp_all add: deleteElement_def Let_def)

lemma deleteWhileExpired_spec:
  "wf_lru c \<Longrightarrow>
   wf_lru (deleteWhileExpired now c) \<and>
   contents (deleteWhileExpired now c) = dropWhile (\<lambda>e. expires e \<le> now) (contents c)"
proof (induction now c rule: deleteWhileExpired.induct)
  case (1 now c)
  show ?case
  proof (cases "lru c")
    case Nil
    with "1.prems" show ?thesis
      by (simp add: deleteWhileExpired.simps [of now c] contents_def)
  next
    case (Cons le ls)
    show ?thesis
    proof (cases "expires (Value c le) \<le> now")
      case True
      from "1.prems" Cons have wf: "wf_lru (deleteElement le c)"
        by (simp add: deleteElement_wf)
      have "contents (deleteElement le c) = tl (contents c)"
        using deleteElement_hd_contents [of c] Cons by simp
      with "1.IH" [OF Cons True wf] Cons True show ?thesis
        by (simp add: deleteWhileExpired.simps [of now c] contents_def)
    next
      case False
      with Cons "1.prems" show ?thesis
        by (simp add: deleteWhileExpired.simps [of now c] contents_def)
    qed
  qed
qed

lemma deleteWhileExpired_config [simp, state_simps]:
  "maxAge (deleteWhileExpired now c) = maxAge c"
  "maxSize (deleteWhileExpired now c) = maxSize c"
  "staleReturn (deleteWhileExpired now c) = staleReturn c"
  "updateAgeOnGet (deleteWhileExpired now c) = updateAgeOnGet c"
proof -
  have "maxAge (deleteWhileExpired now c) = maxAge c \<and>
        maxSize (deleteWhileExpired now c) = maxSize c \<and>
        staleReturn (deleteWhileExpired now c) = staleReturn c \<and>
        updateAgeOnGet (deleteWhileExpired now c) = updateAgeOnGet c"
  proof (induction now c rule: deleteWhileExpired.induct)
    case (1 now c)
    then show ?case
      by (cases "lru c") (simp_all add: deleteWhileExpired.simps [of now c])
  qed
  then show
    "maxAge (deleteWhileExpired now c) = maxAge c"
    "maxSize (deleteWhileExpired now c) = maxSize c"
    "staleReturn (deleteWhileExpired now c) = staleReturn c"
  "updateAgeOnGet (deleteWhileExpired now c) = updateAgeOnGet c"
    by simp_all
qed

lemma maybeDeleteOldest_wf [inv_intros]: "wf_lru c \<Longrightarrow> wf_lru (maybeDeleteOldest now c)"
  by (simp add: maybeDeleteOldest_def deleteWhileExpired_spec)

lemma maybeDeleteOldest_contents:
  "wf_lru c \<Longrightarrow> contents (maybeDeleteOldest now c) = expire c now (contents c)"
  by (simp add: maybeDeleteOldest_def expire_def deleteWhileExpired_spec)

lemma maybeDeleteOldest_config [simp, state_simps]:
  "maxAge (maybeDeleteOldest now c) = maxAge c"
  "maxSize (maybeDeleteOldest now c) = maxSize c"
  "staleReturn (maybeDeleteOldest now c) = staleReturn c"
  "updateAgeOnGet (maybeDeleteOldest now c) = updateAgeOnGet c"
  by (simp_all add: maybeDeleteOldest_def)

lemma Value_pushEntry:
  "wf_lru c \<Longrightarrow> le \<in> set (lru c) \<Longrightarrow> Value (pushEntry e c) le = Value c le"
  using wf_lru_alloc [of c le] by (auto simp: pushEntry_def Value_def)

lemma pushEntry_wf [inv_intros]:
  assumes wf: "wf_lru c" and fresh: "cache c (key e) = None"
  shows "wf_lru (pushEntry e c)"
proof -
  have notin: "nextElem c \<notin> set (lru c)"
    using wf_lru_alloc [OF wf] by blast
  have new: "Value (pushEntry e c) (nextElem c) = e"
    by (simp add: pushEntry_def Value_def)
  have "cache (pushEntry e c) k = Some le \<longleftrightarrow>
        le \<in> set (lru (pushEntry e c)) \<and> key (Value (pushEntry e c) le) = k" for k le
  proof (cases "le = nextElem c")
    case True
    have "cache c k \<noteq> Some (nextElem c)"
      using notin wf_lru_cache [OF wf, of k] by simp
    with True new show ?thesis by (auto simp: pushEntry_def)
  next
    case False
    have "key (Value c le) \<noteq> key e" if "le \<in> set (lru c)"
      using that fresh wf_lru_cache [OF wf, of "key e" le] by auto
    with False show ?thesis
      using Value_pushEntry [OF wf, of le e] wf_lru_cache [OF wf, of k le]
      by (auto simp: pushEntry_def)
  qed
  moreover have "distinct (lru (pushEntry e c))"
    using notin wf_lru_distinct [OF wf] by (simp add: pushEntry_def)
  moreover have "\<forall>le \<in> set (lru (pushEntry e c)). le < nextElem (pushEntry e c)"
    using wf_lru_alloc [OF wf] by (auto simp: pushEntry_def less_Suc_eq)
  ultimately show ?thesis by (simp add: wf_lru_def)
qed

lemma pushEntry_contents: "wf_lru c \<Longrightarrow> contents (pushEntry e c) = contents c @ [e]"
proof -
  assume wf: "wf_lru c"
  have "map (Value (pushEntry e c)) (lru c) = map (Value c) (lru c)"
    using Value_pushEntry [OF wf] by simp
  moreover have "lru (pushEntry e c) = lru c @ [nextElem c]"
    and "Value (pushEntry e c) (nextElem c) = e"
    by (simp_all add: pushEntry_def Value_def)
  ultimately show ?thesis by (simp add: contents_def)
qed

lemma pushEntry_config [simp, state_simps]:
  "maxAge (pushEntry e c) = maxAge c"
  "maxSize (pushEntry e c) = maxSize c"
  "staleReturn (pushEntry e c) = staleReturn c"
  "updateAgeOnGet (pushEntry e c) = updateAgeOnGet c"
  by (simp_all add: pushEntry_def)

text \<open>Moving an element to the back and rewriting its entry under the same key.\<close>

lemma refresh_wf:
  assumes wf: "wf_lru c" and le: "le \<in> set (lru c)" and ke: "key e = key (Value c le)"
  shows "wf_lru (c\<lparr>lru := MoveToBack le (lru c), elem := (elem c)(le \<mapsto> e)\<rparr>)"
    (is "wf_lru ?d")
proof -
  have keys: "key (Value ?d x) = key (Value c x)" for x
    by (simp add: ke Value_def)
  have set: "set (lru ?d) = set (lru c)"
    using wf_lru_distinct [OF wf] le by (auto simp: MoveToBack_def)
  have "distinct (lru ?d)"
    using wf_lru_distinct [OF wf] by (simp add: MoveToBack_def)
  then show ?thesis
    unfolding wf_lru_def keys set
    using wf_lru_cache [OF wf] wf_lru_alloc [OF wf] by simp
qed

lemma refresh_contents:
  assumes wf: "wf_lru c" and le: "le \<in> set (lru c)" and ke: "key e = key (Value c le)"
  shows "contents (c\<lparr>lru := MoveToBack le (lru c), elem := (elem c)(le \<mapsto> e)\<rparr>) =
         put_key e (contents c)"
    (is "contents ?d = _")
proof -
  have "le \<notin> set (remove1 le (lru c))"
    using wf_lru_distinct [OF wf] by simp
  then have "map (Value ?d) (remove1 le (lru c)) = map (Value c) (remove1 le (lru c))"
    by (intro map_cong refl) (auto simp: Value_def)
  moreover have "Value ?d le = e" by (simp add: Value_def)
  ultimately show ?thesis
    unfolding contents_def
    by (simp add: MoveToBack_def contents_remove1 [OF wf le] put_key_def ke
        flip: contents_def)
qed

lemma cache_find_key:
  "wf_lru c \<Longrightarrow> cache c k = Some le \<Longrightarrow> find_key k (contents c) = Some (Value c le)"
  using find_key_distinct [OF distinct_keys_contents, of c "Value c le"] wf_lru_cache [of c k le]
  by (auto simp: contents_def)

lemma cache_find_key_None:
  "wf_lru c \<Longrightarrow> cache c k = None \<longleftrightarrow> find_key k (contents c) = None"
  by (simp add: wf_lru_None find_key_None_iff)

lemma Exist_contents: "wf_lru c \<Longrightarrow> Exist k c \<longleftrightarrow> k \<in> key ` set (contents c)"
  by (simp add: Exist_def wf_lru_None)

text \<open>The abstract \<open>get\<close>: what a lookup returns and what it leaves behind.\<close>

definition get_spec :: "('k, 'v) LruCache \<Rightarrow> int \<Rightarrow> 'k \<Rightarrow> ('k, 'v) entry list \<Rightarrow>
    ('k, 'v) entry option \<times> ('k, 'v) entry list" where
  "get_spec c now k es =
     (case find_key k es of
        None \<Rightarrow> (None, es)
      | Some e \<Rightarrow>
          if \<not> staleReturn c \<and> maxAge c > 0 \<and> expires e \<le> now
          then (None, expire c now (drop_key k es))
          else let e1 = (if maxAge c > 0 \<and> updateAgeOnGet c
                         then e\<lparr>expires := now + maxAge c\<rparr> else e)
               in (Some e1, put_key e1 es))"

definition set_spec :: "('k, 'v) LruCache \<Rightarrow> int \<Rightarrow> 'k \<Rightarrow> 'v \<Rightarrow> int \<Rightarrow> ('k, 'v) entry list \<Rightarrow>
    ('k, 'v) entry list" where
  "set_spec c now k v ex es =
     expire c now
       (if k \<in> key ` set es then put_key \<lparr>key = k, val = v, expires = ex\<rparr> es
        else trim_size (maxSize c) (es @ [\<lparr>key = k, val = v, expires = ex\<rparr>]))"

lemma expire_config:
  "maxAge d = maxAge c \<Longrightarrow> staleReturn d = staleReturn c \<Longrightarrow> expire d = expire c"
  by (rule ext)+ (simp add: expire_def)

lemma get_refines:
  assumes wf: "wf_lru c"
  shows "wf_lru (snd (get now k c)) \<and>
         (fst (get now k c), contents (snd (get now k c))) = get_spec c now k (contents c)"
proof (cases "cache c k")
  case None
  then have "find_key k (contents c) = None"
    using cache_find_key_None [OF wf] by simp
  with None wf show ?thesis
    by (simp add: get_def get_spec_def)
next
  case (Some le)
  then have le: "le \<in> set (lru c)" and k: "key (Value c le) = k"
    using wf_lru_cache [OF wf] by simp_all
  note fk = cache_find_key [OF wf Some]
  show ?thesis
  proof (cases "\<not> staleReturn c \<and> maxAge c > 0 \<and> expires (Value c le) \<le> now")
    case True
    have wf': "wf_lru (deleteElement le c)"
      using wf le by (rule deleteElement_wf)
    have "contents (maybeDeleteOldest now (deleteElement le c)) = expire c now (drop_key k (contents c))"
      using maybeDeleteOldest_contents [OF wf'] deleteElement_contents [OF wf le] k
        expire_config [of "deleteElement le c" c] by simp
    with True Some fk wf' show ?thesis
      by (simp add: get_def get_spec_def maybeDeleteOldest_wf)
  next
    case False
    define e1 where "e1 = (if maxAge c > 0 \<and> updateAgeOnGet c
      then (Value c le)\<lparr>expires := now + maxAge c\<rparr> else Value c le)"
    have ke: "key e1 = key (Value c le)" by (simp add: e1_def)
    have eq: "get now k c = (Some e1, c\<lparr>lru := MoveToBack le (lru c), elem := (elem c)(le \<mapsto> e1)\<rparr>)"
      using False Some by (auto simp: get_def e1_def Let_def)
    from False fk show ?thesis
      using refresh_wf [OF wf le ke] refresh_contents [OF wf le ke]
      by (simp only: eq fst_conv snd_conv) (auto simp: get_spec_def e1_def Let_def)
  qed
qed

lemma get_config [simp, state_simps]:
  "maxAge (snd (get now k c)) = maxAge c"
  "maxSize (snd (get now k c)) = maxSize c"
  "staleReturn (snd (get now k c)) = staleReturn c"
  "updateAgeOnGet (snd (get now k c)) = updateAgeOnGet c"
  by (auto simp: get_def Let_def split: option.split)

lemma SetWithExpire_refines:
  assumes wf: "wf_lru c"
  shows "wf_lru (SetWithExpire now k v ex c) \<and>
         contents (SetWithExpire now k v ex c) = set_spec c now k v ex (contents c)"
proof (cases "cache c k")
  case None
  let ?e = "\<lparr>key = k, val = v, expires = ex\<rparr>"
  let ?c1 = "pushEntry ?e c"
  have wf1: "wf_lru ?c1" using wf None by (simp add: pushEntry_wf)
  have con1: "contents ?c1 = contents c @ [?e]" by (rule pushEntry_contents [OF wf])
  have ne: "lru ?c1 \<noteq> []" by (simp add: pushEntry_def)
  define c2 where "c2 = (if maxSize ?c1 > 0 \<and> int (length (lru ?c1)) > maxSize ?c1
                         then deleteElement (hd (lru ?c1)) ?c1 else ?c1)"
  have wf2: "wf_lru c2"
    using wf1 ne by (simp add: c2_def deleteElement_wf)
  have "contents c2 = trim_size (maxSize c) (contents c @ [?e])"
    using con1 contents_length [of ?c1]
    by (simp add: c2_def trim_size_def deleteElement_hd_contents)
  moreover have "expire c2 = expire c" by (rule expire_config) (simp_all add: c2_def)
  moreover have "k \<notin> key ` set (contents c)" using None wf by (simp add: wf_lru_None)
  moreover have "SetWithExpire now k v ex c = maybeDeleteOldest now c2"
    by (simp add: SetWithExpire_def None c2_def Let_def)
  ultimately show ?thesis
    using wf2 by (simp add: maybeDeleteOldest_wf maybeDeleteOldest_contents set_spec_def)
next
  case (Some le)
  then have le: "le \<in> set (lru c)" and k: "key (Value c le) = k"
    using wf_lru_cache [OF wf] by simp_all
  let ?e = "(Value c le)\<lparr>val := v, expires := ex\<rparr>"
  let ?d = "c\<lparr>lru := MoveToBack le (lru c), elem := (elem c)(le \<mapsto> ?e)\<rparr>"
  have e: "?e = \<lparr>key = k, val = v, expires = ex\<rparr>"
    using k by (simp add: entry.equality)
  have wf': "wf_lru ?d" and con: "contents ?d = put_key ?e (contents c)"
    by (rule refresh_wf [OF wf le] refresh_contents [OF wf le]; simp)+
  have "k \<in> key ` set (contents c)" using Some wf_lru_None [OF wf, of k] by simp
  moreover have "expire ?d = expire c" by (rule expire_config) simp_all
  ultimately show ?thesis
    using wf' con e Some
    by (simp add: SetWithExpire_def maybeDeleteOldest_wf maybeDeleteOldest_contents set_spec_def)
qed

lemma SetWithExpire_config [simp, state_simps]:
  "maxAge (SetWithExpire now k v ex c) = maxAge c"
  "maxSize (SetWithExpire now k v ex c) = maxSize c"
  "staleReturn (SetWithExpire now k v ex c) = staleReturn c"
  "updateAgeOnGet (SetWithExpire now k v ex c) = updateAgeOnGet c"
  by (auto simp: SetWithExpire_def Let_def split: option.split)

lemma SetOnEvict_same [simp]:
  "contents (SetOnEvict c) = contents c" "wf_lru (SetOnEvict c) \<longleftrightarrow> wf_lru c"
  by (simp_all add: SetOnEvict_def contents_def wf_lru_def Value_def cong: map_cong)

lemma Delete_refines:
  "wf_lru c \<Longrightarrow> wf_lru (Delete k c) \<and> contents (Delete k c) = drop_key k (contents c)"
proof (cases "cache c k")
  case None
  moreover assume wf: "wf_lru c"
  ultimately have "k \<notin> key ` set (contents c)" using wf_lru_None [OF wf] by simp
  with None wf show ?thesis by (simp add: Delete_def drop_key_notin)
next
  case (Some le)
  moreover assume wf: "wf_lru c"
  ultimately have "le \<in> set (lru c)" "key (Value c le) = k"
    using wf_lru_cache by metis+
  with Some wf show ?thesis
    by (simp add: Delete_def deleteElement_wf deleteElement_contents)
qed

lemma NewLRUCache_empty:
  "lru (fold apply_option options c) = lru c \<and> cache (fold apply_option options c) = cache c"
proof (induction options arbitrary: c)
  case (Cons x xs)
  then show ?case by (cases x) simp_all
qed simp

lemma NewLRUCache_wf [inv_intros]: "wf_lru (NewLRUCache options)"
  and NewLRUCache_contents [simp]: "contents (NewLRUCache options) = []"
  by (simp_all add: NewLRUCache_def wf_lru_def contents_def NewLRUCache_empty)

lemma fold_pushEntry:
  "wf_lru n \<Longrightarrow> distinct (map key es) \<Longrightarrow> key ` set es \<inter> key ` set (contents n) = {} \<Longrightarrow>
   wf_lru (fold pushEntry es n) \<and> contents (fold pushEntry es n) = contents n @ es"
proof (induction es arbitrary: n)
  case Nil
  then show ?case by simp
next
  case (Cons e es)
  then have "cache n (key e) = None" by (simp add: wf_lru_None)
  with Cons.prems have wf: "wf_lru (pushEntry e n)" by (simp add: pushEntry_wf)
  have con: "contents (pushEntry e n) = contents n @ [e]"
    using Cons.prems(1) by (rule pushEntry_contents)
  show ?case using Cons.IH [OF wf] Cons.prems con by auto
qed

lemma CloneTo_refines:
  assumes "wf_lru c"
  shows "wf_lru (CloneTo c n) \<and> contents (CloneTo c n) = contents c"
proof -
  let ?n = "n\<lparr>lru := [], cache := Map.empty\<rparr>"
  have "wf_lru ?n" and "contents ?n = []" by (simp_all add: wf_lru_def contents_def)
  moreover have "CloneTo c n = fold pushEntry (contents c) ?n"
    by (simp add: CloneTo_def contents_def fold_map o_def)
  ultimately show ?thesis
    using fold_pushEntry [of ?n "contents c"] distinct_keys_contents [OF assms] by simp
qed

section \<open>The interface of a bounded store without expiry\<close>

text \<open>
  What a client that sets no \<open>maxAge\<close> relies on: a store of at most \<open>cap\<close> items,
  listed from the least to the most recently used one.
\<close>

definition without :: "'k \<Rightarrow> ('k \<times> 'v) list \<Rightarrow> ('k \<times> 'v) list" where
  "without k xs = filter (\<lambda>x. fst x \<noteq> k) xs"

locale recency_store =
  fixes inv :: "'c \<Rightarrow> bool"
    and items :: "'c \<Rightarrow> ('k \<times> 'v) list"
    and lookup :: "'k \<Rightarrow> 'c \<Rightarrow> 'v option \<times> 'c"
    and store :: "'k \<Rightarrow> 'v \<Rightarrow> 'c \<Rightarrow> 'c"
    and has :: "'k \<Rightarrow> 'c \<Rightarrow> bool"
    and cap :: nat
  assumes keys_distinct: "inv c \<Longrightarrow> distinct (map fst (items c))"
    and within_cap: "inv c \<Longrightarrow> length (items c) \<le> cap"
    and has_iff: "inv c \<Longrightarrow> has k c \<longleftrightarrow> k \<in> fst ` set (items c)"
    and lookup_inv: "inv c \<Longrightarrow> inv (snd (lookup k c))"
    and lookup_val: "inv c \<Longrightarrow> fst (lookup k c) = map_of (items c) k"
    and lookup_items: "inv c \<Longrightarrow> items (snd (lookup k c)) =
          (case map_of (items c) k of None \<Rightarrow> items c | Some v \<Rightarrow> without k (items c) @ [(k, v)])"
    and store_inv: "inv c \<Longrightarrow> inv (store k v c)"
    and store_items: "inv c \<Longrightarrow> items (store k v c) =
          (if k \<in> fst ` set (items c) then without k (items c) @ [(k, v)]
           else (if length (items c) = cap then tl (items c) else items c) @ [(k, v)])"
begin

lemma lookup_missing: "inv c \<Longrightarrow> k \<notin> fst ` set (items c) \<Longrightarrow> items (snd (lookup k c)) = items c"
  by (simp add: lookup_items map_of_eq_None_iff split: option.split)
     (metis map_of_eq_None_iff option.distinct(1))

lemma lookup_hit:
  "inv c \<Longrightarrow> (k, v) \<in> set (items c) \<Longrightarrow>
   fst (lookup k c) = Some v \<and> items (snd (lookup k c)) = without k (items c) @ [(k, v)]"
  by (simp add: lookup_val lookup_items map_of_is_SomeI keys_distinct)

lemma store_fresh:
  "inv c \<Longrightarrow> k \<notin> fst ` set (items c) \<Longrightarrow> length (items c) < cap \<Longrightarrow>
   items (store k v c) = items c @ [(k, v)]"
  by (simp add: store_items)

lemma store_evicts:
  "inv c \<Longrightarrow> k \<notin> fst ` set (items c) \<Longrightarrow> length (items c) = cap \<Longrightarrow>
   items (store k v c) = tl (items c) @ [(k, v)]"
  by (simp add: store_items)

end

definition lru_items :: "('k, 'v) LruCache \<Rightarrow> ('k \<times> 'v) list" where
  "lru_items c = map (\<lambda>e. (key e, val e)) (contents c)"

definition lru_inv :: "nat \<Rightarrow> ('k, 'v) LruCache \<Rightarrow> bool" where
  "lru_inv n c \<longleftrightarrow>
     wf_lru c \<and> maxAge c = 0 \<and> 0 < n \<and> maxSize c = int n \<and> length (lru c) \<le> n"

lemma map_of_entries:
  "map_of (map (\<lambda>e. (key e, val e)) es) k = map_option val (find_key k es)"
  by (induction es) (auto simp: find_key_def)

lemma map_of_lru_items: "map_of (lru_items c) k = map_option val (find_key k (contents c))"
  by (simp add: lru_items_def map_of_entries)

lemma lru_items_drop_key:
  "map (\<lambda>e. (key e, val e)) (drop_key k es) = without k (map (\<lambda>e. (key e, val e)) es)"
  by (simp add: drop_key_def without_def filter_map o_def)

lemma fst_lru_items: "fst ` set (lru_items c) = key ` set (contents c)"
  by (force simp: lru_items_def)

lemma length_drop_key:
  "distinct (map key es) \<Longrightarrow> k \<in> key ` set es \<Longrightarrow> Suc (length (drop_key k es)) = length es"
proof (induction es)
  case (Cons e es)
  show ?case
  proof (cases "key e = k")
    case True
    with Cons.prems have "drop_key k es = es" by (simp add: drop_key_notin)
    with True show ?thesis by (simp add: drop_key_def)
  next
    case False
    with Cons have "Suc (length (drop_key k es)) = length es" by auto
    with False show ?thesis by (simp add: drop_key_def)
  qed
qed simp

lemma length_put_key:
  "distinct (map key es) \<Longrightarrow> key e \<in> key ` set es \<Longrightarrow> length (put_key e es) = length es"
  by (simp add: put_key_def length_drop_key)

lemma expire_no_age [simp]: "maxAge c = 0 \<Longrightarrow> expire c now es = es"
  by (simp add: expire_def)

lemma get_no_age:
  assumes "wf_lru c" and "maxAge c = 0"
  shows "fst (get now k c) = find_key k (contents c)"
    and "contents (snd (get now k c)) =
           (case find_key k (contents c) of None \<Rightarrow> contents c | Some e \<Rightarrow> put_key e (contents c))"
  using get_refines [OF assms(1), of now k] assms(2)
  by (auto simp: get_spec_def Let_def split: option.splits)

lemma Get_fst_snd [simp]:
  "fst (Get now k c) = map_option val (fst (get now k c))"
  "snd (Get now k c) = snd (get now k c)"
  by (simp_all add: Get_def split: prod.split)

lemma Get_lru_inv [inv_intros]: "lru_inv n c \<Longrightarrow> lru_inv n (snd (get now k c))"
proof -
  assume inv: "lru_inv n c"
  then have wf: "wf_lru c" and age: "maxAge c = 0" by (simp_all add: lru_inv_def)
  have "length (contents (snd (get now k c))) = length (contents c)"
    using find_key_Some [of k "contents c"] distinct_keys_contents [OF wf]
    by (auto simp: get_no_age [OF wf age] length_put_key split: option.split)
  then have "length (lru (snd (get now k c))) = length (lru c)"
    by simp
  with inv get_refines [OF wf] show ?thesis by (simp add: lru_inv_def)
qed

lemma SetWithExpire_length:
  assumes wf: "wf_lru c" and bound: "0 < maxSize c" "int (length (lru c)) \<le> maxSize c"
  shows "int (length (lru (SetWithExpire now k v ex c))) \<le> maxSize c"
proof -
  let ?e = "\<lparr>key = k, val = v, expires = ex\<rparr>"
  define es where "es = (if k \<in> key ` set (contents c) then put_key ?e (contents c)
                         else trim_size (maxSize c) (contents c @ [?e]))"
  have es: "int (length es) \<le> maxSize c"
  proof (cases "k \<in> key ` set (contents c)")
    case True
    then have "length (put_key ?e (contents c)) = length (lru c)"
      using distinct_keys_contents [OF wf] by (simp add: length_put_key)
    with True bound show ?thesis by (simp add: es_def)
  next
    case False
    then have "es = trim_size (maxSize c) (contents c @ [?e])" by (simp add: es_def)
    with bound show ?thesis by (simp add: trim_size_def)
  qed
  have "contents (SetWithExpire now k v ex c) = expire c now es"
    using SetWithExpire_refines [OF wf, of now k v ex] by (simp add: set_spec_def es_def)
  then have "length (lru (SetWithExpire now k v ex c)) = length (expire c now es)"
    by (metis contents_length)
  also have "\<dots> \<le> length es"
    by (simp add: expire_def length_dropWhile_le)
  finally show ?thesis using es by linarith
qed

lemma SetWithExpire_lru_inv [inv_intros]: "lru_inv n c \<Longrightarrow> lru_inv n (SetWithExpire now k v ex c)"
  using SetWithExpire_refines [of c now k v ex] SetWithExpire_length [of c now k v ex]
  by (simp add: lru_inv_def)

lemma Set_lru_inv [inv_intros]: "lru_inv n c \<Longrightarrow> lru_inv n (Set now k v c)"
  by (simp add: Set_def SetWithExpire_lru_inv)

lemma SetWithExpire_lru_items:
  assumes "lru_inv n c"
  shows "lru_items (SetWithExpire now k v ex c) =
    (if k \<in> fst ` set (lru_items c) then without k (lru_items c) @ [(k, v)]
     else (if length (lru_items c) = n then tl (lru_items c) else lru_items c) @ [(k, v)])"
proof -
  from assms have wf: "wf_lru c" and age: "maxAge c = 0" and n: "0 < n" "maxSize c = int n"
    and len: "length (contents c) \<le> n"
    by (simp_all add: lru_inv_def)
  have "contents (SetWithExpire now k v ex c) = set_spec c now k v ex (contents c)"
    using SetWithExpire_refines [OF wf] by simp
  then have con: "contents (SetWithExpire now k v ex c) =
      (if k \<in> key ` set (contents c) then put_key \<lparr>key = k, val = v, expires = ex\<rparr> (contents c)
       else trim_size (int n) (contents c @ [\<lparr>key = k, val = v, expires = ex\<rparr>]))"
    using age n by (simp add: set_spec_def)
  show ?thesis
  proof (cases "k \<in> key ` set (contents c)")
    case True
    with con have "lru_items (SetWithExpire now k v ex c) = without k (lru_items c) @ [(k, v)]"
      by (simp add: lru_items_def put_key_def lru_items_drop_key)
    with True show ?thesis by (simp add: fst_lru_items)
  next
    case False
    have "lru_items (SetWithExpire now k v ex c) =
      (if length (contents c) = n then tl (lru_items c) else lru_items c) @ [(k, v)]"
    proof (cases "length (contents c) = n")
      case full: True
      with n have "contents c \<noteq> []" by (metis length_greater_0_conv)
      with con False full n show ?thesis
        by (simp add: lru_items_def trim_size_def map_tl del: contents_length)
    next
      case room: False
      with len con False show ?thesis
        by (simp add: lru_items_def trim_size_def del: contents_length)
    qed
    with False show ?thesis by (simp add: fst_lru_items) (simp add: lru_items_def)
  qed
qed

lemma Set_lru_items:
  assumes "lru_inv n c"
  shows "lru_items (Set now k v c) =
    (if k \<in> fst ` set (lru_items c) then without k (lru_items c) @ [(k, v)]
     else (if length (lru_items c) = n then tl (lru_items c) else lru_items c) @ [(k, v)])"
  by (simp only: Set_def SetWithExpire_lru_items [OF assms])

text \<open>What was just stored is found, with its expiry.\<close>

lemma get_after_SetWithExpire:
  assumes "lru_inv n c"
  shows "fst (get now1 k (SetWithExpire now k v ex c)) = Some \<lparr>key = k, val = v, expires = ex\<rparr>"
proof -
  let ?e = "\<lparr>key = k, val = v, expires = ex\<rparr>" and ?c = "SetWithExpire now k v ex c"
  from assms have wf: "wf_lru c" and age: "maxAge c = 0" and n: "0 < n" "maxSize c = int n" by (simp_all add: lru_inv_def)
  have con: "contents ?c = (if k \<in> key ` set (contents c) then put_key ?e (contents c) else trim_size (int n) (contents c @ [?e]))"
    using SetWithExpire_refines [OF wf, of now k v ex] age n by (simp add: set_spec_def)
  have "find_key k (contents ?c) = Some ?e"
  proof (cases "k \<in> key ` set (contents c)")
    case True
    then show ?thesis by (simp add: con find_key_put_key)
  next
    case False
    then have no: "find_key k (contents c) = None" by (simp add: find_key_None_iff)
    have "contents c \<noteq> []" if "int (length (contents c @ [?e])) > int n" using that n by (cases "contents c") simp_all
    moreover have "find_key k (tl (contents c)) = None" using no by (cases "contents c") (auto simp: find_key_def split: if_splits)
    moreover have "find_key k [?e] = Some ?e" by (simp add: find_key_def)
    ultimately show ?thesis using False no by (auto simp: con trim_size_def find_key_append)
  qed
  moreover have "wf_lru ?c" "maxAge ?c = 0" using SetWithExpire_refines [OF wf] age by simp_all
  ultimately show ?thesis by (simp add: get_no_age)
qed

interpretation bounded: recency_store "lru_inv n" lru_items "Get now" "Set now" Exist n for n now
proof (unfold_locales, goal_cases)
  case (1 c)
  then show ?case
    using distinct_keys_contents [of c] by (simp add: lru_inv_def lru_items_def o_def)
next
  case (2 c)
  then show ?case by (simp add: lru_inv_def lru_items_def)
next
  case (3 c k)
  then show ?case by (simp add: lru_inv_def fst_lru_items Exist_contents)
next
  case (4 c k)
  then show ?case by (simp add: Get_lru_inv)
next
  case (5 c k)
  then show ?case by (simp add: lru_inv_def map_of_lru_items get_no_age)
next
  case (6 c k)
  then have wf: "wf_lru c" and age: "maxAge c = 0" by (simp_all add: lru_inv_def)
  show ?case
  proof (cases "find_key k (contents c)")
    case None
    then show ?thesis
      using get_no_age(2) [OF wf age, of now k] by (simp add: map_of_lru_items lru_items_def map_of_entries)
  next
    case (Some e)
    then have "key e = k" using find_key_Some by metis
    with Some show ?thesis
      using get_no_age(2) [OF wf age, of now k]
      by (simp add: lru_items_def map_of_entries put_key_def lru_items_drop_key)
  qed
next
  case (7 c k v)
  then show ?case by (rule Set_lru_inv)
next
  case (8 c k v)
  then show ?case by (rule Set_lru_items)
qed

section \<open>Runs\<close>

text \<open>A sequence of calls, each at its own time, with the values the lookups return.\<close>

datatype ('k, 'v) lru_op = OpGet 'k | OpSet 'k 'v | OpSetWithExpire 'k 'v int | OpDelete 'k

fun lru_step :: "int \<Rightarrow> ('k, 'v) lru_op \<Rightarrow> ('k, 'v) LruCache \<Rightarrow> 'v option \<times> ('k, 'v) LruCache" where
  "lru_step now (OpGet k) c = Get now k c"
| "lru_step now (OpSet k v) c = (None, Set now k v c)"
| "lru_step now (OpSetWithExpire k v ex) c = (None, SetWithExpire now k v ex c)"
| "lru_step now (OpDelete k) c = (None, Delete k c)"

fun lru_run :: "(int \<times> ('k, 'v) lru_op) list \<Rightarrow> ('k, 'v) LruCache \<Rightarrow> 'v option list \<times> ('k, 'v) LruCache" where
  "lru_run [] c = ([], c)"
| "lru_run ((now, op) # ops) c =
     (let (r, c1) = lru_step now op c; (rs, c2) = lru_run ops c1 in (r # rs, c2))"

fun spec_step :: "('k, 'v) LruCache \<Rightarrow> int \<Rightarrow> ('k, 'v) lru_op \<Rightarrow> ('k, 'v) entry list \<Rightarrow>
    'v option \<times> ('k, 'v) entry list" where
  "spec_step g now (OpGet k) es = map_prod (map_option val) id (get_spec g now k es)"
| "spec_step g now (OpSet k v) es =
     (None, set_spec g now k v (if maxAge g > 0 then now + maxAge g else 0) es)"
| "spec_step g now (OpSetWithExpire k v ex) es = (None, set_spec g now k v ex es)"
| "spec_step g now (OpDelete k) es = (None, drop_key k es)"

fun spec_run :: "('k, 'v) LruCache \<Rightarrow> (int \<times> ('k, 'v) lru_op) list \<Rightarrow> ('k, 'v) entry list \<Rightarrow>
    'v option list \<times> ('k, 'v) entry list" where
  "spec_run g [] es = ([], es)"
| "spec_run g ((now, op) # ops) es =
     (let (r, es1) = spec_step g now op es; (rs, es2) = spec_run g ops es1 in (r # rs, es2))"

definition same_config :: "('k, 'v) LruCache \<Rightarrow> ('k, 'v) LruCache \<Rightarrow> bool" where
  "same_config g c \<longleftrightarrow> maxAge c = maxAge g \<and> maxSize c = maxSize g \<and>
     staleReturn c = staleReturn g \<and> updateAgeOnGet c = updateAgeOnGet g"

lemma same_config_specs:
  assumes "same_config g c"
  shows "get_spec c = get_spec g" and "set_spec c = set_spec g"
proof -
  have e: "expire c = expire g" using assms by (intro expire_config) (simp_all add: same_config_def)
  have eqs: "maxAge c = maxAge g" "maxSize c = maxSize g" "staleReturn c = staleReturn g"
    "updateAgeOnGet c = updateAgeOnGet g" using assms by (simp_all add: same_config_def)
  show "get_spec c = get_spec g" by (intro ext) (simp only: get_spec_def e eqs)
  show "set_spec c = set_spec g" by (intro ext) (simp only: set_spec_def e eqs)
qed

lemma Delete_config [simp, state_simps]:
  "maxAge (Delete k c) = maxAge c" "maxSize (Delete k c) = maxSize c"
  "staleReturn (Delete k c) = staleReturn c" "updateAgeOnGet (Delete k c) = updateAgeOnGet c"
  by (auto simp: Delete_def split: option.split)

lemma lru_step_simulates:
  assumes wf: "wf_lru c" and g: "same_config g c"
  shows "wf_lru (snd (lru_step now op c)) \<and> same_config g (snd (lru_step now op c)) \<and>
         (fst (lru_step now op c), contents (snd (lru_step now op c))) = spec_step g now op (contents c)"
proof (cases op)
  case (OpGet k)
  then show ?thesis
    using get_refines [OF wf, of now k] g same_config_specs [OF g]
    by (cases "get_spec g now k (contents c)") (auto simp: same_config_def)
next
  case (OpSet k v)
  then show ?thesis
    using SetWithExpire_refines [OF wf] g same_config_specs [OF g]
    by (simp add: Set_def same_config_def)
next
  case (OpSetWithExpire k v ex)
  then show ?thesis
    using SetWithExpire_refines [OF wf] g same_config_specs [OF g] by (simp add: same_config_def)
next
  case (OpDelete k)
  then show ?thesis using Delete_refines [OF wf] g by (simp add: same_config_def)
qed

lemma lru_run_simulates:
  "wf_lru c \<Longrightarrow> same_config g c \<Longrightarrow>
   wf_lru (snd (lru_run ops c)) \<and> same_config g (snd (lru_run ops c)) \<and>
   (fst (lru_run ops c), contents (snd (lru_run ops c))) = spec_run g ops (contents c)"
proof (induction ops arbitrary: c)
  case (Cons x ops)
  obtain now op where x: "x = (now, op)" by (cases x)
  obtain r c1 where s: "lru_step now op c = (r, c1)" by (cases "lru_step now op c")
  from lru_step_simulates [OF Cons.prems, of now op] s have
    c1: "wf_lru c1" "same_config g c1" "spec_step g now op (contents c) = (r, contents c1)" by auto
  obtain rs c2 where r: "lru_run ops c1 = (rs, c2)" by (cases "lru_run ops c1")
  from Cons.IH [OF c1(1,2)] r have
    "wf_lru c2" "same_config g c2" "spec_run g ops (contents c1) = (rs, contents c2)" by simp_all
  then show ?case using s c1(3) x r by simp
qed simp

lemma lru_run_New:
  "wf_lru (snd (lru_run ops (NewLRUCache os))) \<and> same_config (NewLRUCache os) (snd (lru_run ops (NewLRUCache os))) \<and>
   (fst (lru_run ops (NewLRUCache os)), contents (snd (lru_run ops (NewLRUCache os)))) =
     spec_run (NewLRUCache os) ops []"
  using lru_run_simulates [OF NewLRUCache_wf [of os], of "NewLRUCache os" ops]
  by (simp add: same_config_def)

lemma get_length:
  assumes "wf_lru c"
  shows "length (lru (snd (get now k c))) \<le> length (lru c)"
proof -
  have "length (snd (get_spec c now k (contents c))) \<le> length (contents c)"
  proof (cases "find_key k (contents c)")
    case (Some e)
    have exp: "length (expire c now (drop_key k (contents c))) \<le> length (contents c)"
      using length_filter_le [of "\<lambda>e. key e \<noteq> k" "contents c"]
        length_dropWhile_le [of "\<lambda>e. expires e \<le> now" "drop_key k (contents c)"]
      by (simp add: expire_def drop_key_def)
    have "k \<in> key ` set (contents c)" using find_key_Some [OF Some] by force
    then have "length (put_key f (contents c)) = length (contents c)" if "key f = k" for f
      using length_put_key [OF distinct_keys_contents [OF assms], of f] that by simp
    with exp Some find_key_Some [OF Some] show ?thesis by (simp add: get_spec_def Let_def)
  qed (simp add: get_spec_def)
  moreover have "contents (snd (get now k c)) = snd (get_spec c now k (contents c))"
    using get_refines [OF assms, of now k] by (metis snd_conv)
  ultimately show ?thesis by (metis contents_length)
qed

lemma Delete_length: "length (lru (Delete k c)) \<le> length (lru c)"
  by (auto simp: Delete_def deleteElement_def Let_def length_remove1 split: option.split)

lemma lru_run_length:
  assumes "wf_lru c" and "0 < maxSize c" and "int (length (lru c)) \<le> maxSize c"
  shows "int (length (lru (snd (lru_run ops c)))) \<le> maxSize c"
  using assms
proof (induction ops arbitrary: c)
  case (Cons x ops)
  obtain now op where x: "x = (now, op)" by (cases x)
  have wf: "wf_lru (snd (lru_step now op c))" and size: "maxSize (snd (lru_step now op c)) = maxSize c"
    using lru_step_simulates [OF Cons.prems(1), of c now op] by (simp_all add: same_config_def)
  have "int (length (lru (snd (lru_step now op c)))) \<le> maxSize c"
  proof (cases op)
    case (OpGet k)
    then show ?thesis using get_length [OF Cons.prems(1), of now k] Cons.prems(3) by simp
  next
    case (OpDelete k)
    then show ?thesis using Delete_length [of k c] Cons.prems(3) by simp
  qed (simp_all add: Set_def SetWithExpire_length [OF Cons.prems])
  with Cons.IH [OF wf] size Cons.prems(2) x show ?case by (simp add: split_def Let_def)
qed simp

section \<open>Properties\<close>

text \<open>
  C16: for every configuration and every sequence of calls, the cache (a map of pointers into a linked
  list) returns the values and ends with the contents of the abstract cache, a list of entries in order
  of use.
\<close>

theorem lru_run_refines:
  "fst (lru_run ops (NewLRUCache os)) = fst (spec_run (NewLRUCache os) ops []) \<and>
   contents (snd (lru_run ops (NewLRUCache os))) = snd (spec_run (NewLRUCache os) ops []) \<and>
   wf_lru (snd (lru_run ops (NewLRUCache os)))"
  using lru_run_New [of ops os] by (metis fst_conv snd_conv)

text \<open>
  a cache made with a positive \<open>WithSize\<close> never holds more entries than that.
\<close>

theorem lru_run_bounded:
  fixes ops :: "(int \<times> ('k, 'v) lru_op) list"
  assumes "0 < maxSize (NewLRUCache os :: ('k, 'v) LruCache)"
  shows "int (length (contents (snd (lru_run ops (NewLRUCache os))))) \<le>
         maxSize (NewLRUCache os :: ('k, 'v) LruCache)"
proof -
  have "lru (NewLRUCache os :: ('k, 'v) LruCache) = []" by (simp add: NewLRUCache_def NewLRUCache_empty)
  with lru_run_length [OF NewLRUCache_wf assms, of ops] assms show ?thesis by simp
qed

theorem lru_run_bounded_witness:
  "int (length (contents (snd (lru_run [(0, OpSet (1 :: nat) ''a''), (1, OpSet 2 ''b''), (2, OpSet 3 ''c'')]
     (NewLRUCache [WithSize 2]))))) \<le> maxSize (NewLRUCache [WithSize 2] :: (nat, string) LruCache)"
  by (rule lru_run_bounded) (simp add: NewLRUCache_def)

text \<open>
  A cache with an age that does not return stale values returns a value only from an entry
  that has not expired when it is looked up.
\<close>

theorem lru_get_not_expired:
  fixes ops :: "(int \<times> ('k, 'v) lru_op) list"
  assumes "\<not> staleReturn (NewLRUCache os :: ('k, 'v) LruCache)"
    and "0 < maxAge (NewLRUCache os :: ('k, 'v) LruCache)"
    and "Get now k (snd (lru_run ops (NewLRUCache os))) = (Some v, c')"
  shows "\<exists>e \<in> set (contents (snd (lru_run ops (NewLRUCache os)))). key e = k \<and> val e = v \<and> now < expires e"
proof -
  let ?c = "snd (lru_run ops (NewLRUCache os))"
  from lru_run_New [of ops os] have wf: "wf_lru ?c" and g: "same_config (NewLRUCache os) ?c" by auto
  have "fst (Get now k ?c) = Some v" using assms(3) by simp
  with get_refines [OF wf, of now k] have
    "map_option val (fst (get_spec ?c now k (contents ?c))) = Some v" by (metis Get_fst_snd(1) fst_conv)
  with g assms(1,2) obtain e where "find_key k (contents ?c) = Some e" "val e = v" "now < expires e"
    by (auto simp: get_spec_def same_config_def Let_def split: option.splits if_splits)
  with find_key_Some [of k "contents ?c" e] show ?thesis by blast
qed

theorem lru_get_not_expired_witness:
  "\<exists>e \<in> set (contents (snd (lru_run [(0, OpSet (1 :: nat) ''a''), (3, OpSet 2 ''b'')]
       (NewLRUCache [WithAge 10])))). key e = 1 \<and> val e = ''a'' \<and> 7 < expires e"
proof (rule lru_get_not_expired)
  show "Get 7 (1 :: nat) (snd (lru_run [(0, OpSet 1 ''a''), (3, OpSet 2 ''b'')] (NewLRUCache [WithAge 10]))) =
    (Some ''a'', snd (Get 7 (1 :: nat) (snd (lru_run [(0, OpSet 1 ''a''), (3, OpSet 2 ''b'')] (NewLRUCache [WithAge 10])))))"
    by (rule prod_eqI) (code_simp, simp)
qed (simp_all add: NewLRUCache_def)

end
