(* ===== verification/Go_Strings.thy ===== *)
theory Go_Strings
  imports Proxy_Prelude
begin

text \<open>
  The functions of Go's packages \<open>strings\<close> and \<open>strconv\<close> that the modelled code
  calls, over strings as byte sequences. Case mapping (\<open>ToLower\<close>, \<open>EqualFold\<close>)
  acts on the ASCII letters and leaves every other byte alone; a non-ASCII letter, which Go
  would fold by Unicode tables, is therefore treated as caseless.
\<close>

section \<open>Package strings\<close>

text \<open>\<open>strings.Split\<close> with a one-character separator.\<close>

fun Split :: "char \<Rightarrow> string \<Rightarrow> string list" where
  "Split c [] = [[]]"
| "Split c (x # xs) =
     (if x = c then [] # Split c xs
      else case Split c xs of [] \<Rightarrow> [[x]] | y # ys \<Rightarrow> (x # y) # ys)"

text \<open>\<open>strings.SplitN (s, sep, 2)\<close>: cut at the first separator only.\<close>

fun SplitN2 :: "char \<Rightarrow> string \<Rightarrow> string list" where
  "SplitN2 c [] = [[]]"
| "SplitN2 c (x # xs) =
     (if x = c then [[], xs]
      else case SplitN2 c xs of [] \<Rightarrow> [[x]] | y # ys \<Rightarrow> (x # y) # ys)"

lemma SplitN2_two: "\<exists>a. SplitN2 c s = [a] \<or> (\<exists>b. SplitN2 c s = [a, b])"
  by (induction s) auto

fun Join :: "string \<Rightarrow> string list \<Rightarrow> string" where
  "Join sep [] = []"
| "Join sep [x] = x"
| "Join sep (x # y # ys) = x @ sep @ Join sep (y # ys)"

definition TrimLeft :: "char \<Rightarrow> string \<Rightarrow> string" where
  "TrimLeft c s = dropWhile (\<lambda>x. x = c) s"

definition TrimRight :: "char \<Rightarrow> string \<Rightarrow> string" where
  "TrimRight c s = rev (dropWhile (\<lambda>x. x = c) (rev s))"

definition Trim :: "char \<Rightarrow> string \<Rightarrow> string" where
  "Trim c s = TrimRight c (TrimLeft c s)"

definition HasPrefix :: "string \<Rightarrow> string \<Rightarrow> bool" where
  "HasPrefix s p \<longleftrightarrow> take (length p) s = p"

definition HasSuffix :: "string \<Rightarrow> string \<Rightarrow> bool" where
  "HasSuffix s p \<longleftrightarrow> length p \<le> length s \<and> drop (length s - length p) s = p"

fun Contains :: "string \<Rightarrow> string \<Rightarrow> bool" where
  "Contains [] sub \<longleftrightarrow> sub = []"
| "Contains (x # xs) sub \<longleftrightarrow> HasPrefix (x # xs) sub \<or> Contains xs sub"

text \<open>\<open>strings.Count\<close> of a one-character substring.\<close>

definition CountChar :: "string \<Rightarrow> char \<Rightarrow> nat" where
  "CountChar s c = length (filter (\<lambda>x. x = c) s)"

definition lower_char :: "char \<Rightarrow> char" where
  "lower_char c =
     (let n = (of_char c :: nat) in if 65 \<le> n \<and> n \<le> 90 then char_of (n + 32) else c)"

definition ToLower :: "string \<Rightarrow> string" where
  "ToLower s = map lower_char s"

definition EqualFold :: "string \<Rightarrow> string \<Rightarrow> bool" where
  "EqualFold s t \<longleftrightarrow> ToLower s = ToLower t"

subsection \<open>Splitting and joining\<close>

lemma Split_not_Nil [simp]: "Split c s \<noteq> []"
  by (induction s) (auto split: list.splits)

lemma Join_Cons_Cons: "ys \<noteq> [] \<Longrightarrow> Join sep (x # ys) = x @ sep @ Join sep ys"
  by (cases ys) auto

lemma Join_prefix_first: "Join sep ((x # y) # ys) = x # Join sep (y # ys)"
  by (cases ys) auto

lemma Join_Split [simp]: "Join [c] (Split c s) = s"
proof (induction s)
  case Nil
  then show ?case by simp
next
  case (Cons x xs)
  obtain y ys where "Split c xs = y # ys" by (cases "Split c xs") auto
  with Cons show ?case by (auto simp: Join_Cons_Cons Join_prefix_first)
qed

lemma Split_no_sep: "part \<in> set (Split c s) \<Longrightarrow> c \<notin> set part"
proof (induction s arbitrary: part)
  case Nil
  then show ?case by simp
next
  case (Cons x xs)
  obtain y ys where "Split c xs = y # ys" by (cases "Split c xs") auto
  with Cons show ?case by (auto split: if_splits)
qed

lemma Split_single: "c \<notin> set s \<Longrightarrow> Split c s = [s]"
  by (induction s) auto

lemma Split_append_sep: "c \<notin> set s \<Longrightarrow> Split c (s @ c # t) = s # Split c t"
  by (induction s) (auto split: list.splits)

lemma Split_Join: "\<lbrakk>ps \<noteq> []; \<forall>p \<in> set ps. c \<notin> set p\<rbrakk> \<Longrightarrow> Split c (Join [c] ps) = ps"
proof (induction ps)
  case Nil
  then show ?case by simp
next
  case (Cons p ps)
  then show ?case by (cases ps) (auto simp: Split_single Split_append_sep)
qed

lemma Split_last_Nil: "s \<noteq> [] \<Longrightarrow> last s = c \<Longrightarrow> last (Split c s) = [] \<and> Split c s \<noteq> [[]]"
proof (induction s)
  case Nil
  then show ?case by simp
next
  case (Cons x xs)
  obtain y ys where sp: "Split c xs = y # ys" by (cases "Split c xs") auto
  show ?case
  proof (cases "xs = []")
    case True
    with Cons.prems show ?thesis by simp
  next
    case False
    with Cons sp have "last (y # ys) = [] \<and> y # ys \<noteq> [[]]" by simp
    with sp show ?thesis by (auto split: if_splits)
  qed
qed

subsection \<open>Case mapping\<close>

lemma lower_char_idem [simp]: "lower_char (lower_char c) = lower_char c"
proof -
  have "(of_char c :: nat) + 32 < 256" if "of_char c \<le> (90 :: nat)"
    using that by simp
  then show ?thesis by (auto simp: lower_char_def Let_def)
qed

lemma ToLower_idem [simp]: "ToLower (ToLower s) = ToLower s"
  by (simp add: ToLower_def)

lemma EqualFold_refl [simp]: "EqualFold s s"
  by (simp add: EqualFold_def)

lemma EqualFold_sym: "EqualFold s t \<longleftrightarrow> EqualFold t s"
  by (auto simp: EqualFold_def)

subsection \<open>Prefixes, suffixes and substrings\<close>

lemma HasPrefix_append: "HasPrefix s p \<longleftrightarrow> (\<exists>t. s = p @ t)"
  by (metis HasPrefix_def append_eq_conv_conj append_take_drop_id)

lemma HasSuffix_append: "HasSuffix s p \<longleftrightarrow> (\<exists>t. s = t @ p)"
proof
  assume "HasSuffix s p"
  then have "s = take (length s - length p) s @ p"
    by (metis HasSuffix_def append_take_drop_id)
  then show "\<exists>t. s = t @ p" by blast
qed (auto simp: HasSuffix_def)

lemma Contains_append: "Contains s sub \<longleftrightarrow> (\<exists>l r. s = l @ sub @ r)"
proof (induction s)
  case Nil
  then show ?case by auto
next
  case (Cons x xs)
  show ?case
  proof
    assume "Contains (x # xs) sub"
    then consider "HasPrefix (x # xs) sub" | "Contains xs sub" by auto
    then show "\<exists>l r. x # xs = l @ sub @ r"
    proof cases
      case 1
      then show ?thesis by (metis HasPrefix_append append_Nil)
    next
      case 2
      then show ?thesis using Cons.IH by (metis append_Cons)
    qed
  next
    assume "\<exists>l r. x # xs = l @ sub @ r"
    then obtain l r where eq: "x # xs = l @ sub @ r" by blast
    show "Contains (x # xs) sub"
    proof (cases l)
      case Nil
      with eq have "HasPrefix (x # xs) sub" by (auto simp: HasPrefix_append)
      then show ?thesis by simp
    next
      case (Cons y ys)
      with eq have "xs = ys @ sub @ r" by simp
      with Cons.IH show ?thesis by auto
    qed
  qed
qed

section \<open>Package strconv\<close>

definition is_digit :: "char \<Rightarrow> bool" where
  "is_digit c \<longleftrightarrow> (let n = (of_char c :: nat) in 48 \<le> n \<and> n \<le> 57)"

definition digit_val :: "char \<Rightarrow> nat" where
  "digit_val c = of_char c - 48"

definition digit_char :: "nat \<Rightarrow> char" where
  "digit_char d = char_of (48 + d)"

fun utoa :: "nat \<Rightarrow> string" where
  "utoa n = (if n < 10 then [digit_char n] else utoa (n div 10) @ [digit_char (n mod 10)])"

declare utoa.simps [simp del]

text \<open>\<open>strconv.Itoa\<close>.\<close>

definition Itoa :: "int \<Rightarrow> string" where
  "Itoa i = (if i < 0 then CHR ''-'' # utoa (nat (- i)) else utoa (nat i))"

definition digits_val :: "string \<Rightarrow> nat" where
  "digits_val s = foldl (\<lambda>acc c. acc * 10 + digit_val c) 0 s"

text \<open>
  \<open>strconv.ParseUint (s, 10, w)\<close>: base ten, no sign, no underscores; a syntax error or a
  value of more than \<open>w\<close> bits is an error, here \<open>None\<close>.
\<close>

definition ParseUint :: "string \<Rightarrow> nat \<Rightarrow> nat option" where
  "ParseUint s w =
     (if s \<noteq> [] \<and> list_all is_digit s \<and> digits_val s < 2 ^ w then Some (digits_val s) else None)"

text \<open>\<open>strconv.Atoi\<close>: an optional sign, then digits, within the 64-bit \<open>int\<close>.\<close>

definition Atoi :: "string \<Rightarrow> int option" where
  "Atoi s =
     (let neg = (s \<noteq> [] \<and> hd s = CHR ''-'');
          signed = (s \<noteq> [] \<and> (hd s = CHR ''-'' \<or> hd s = CHR ''+''));
          ds = (if signed then tl s else s)
      in if ds = [] \<or> \<not> list_all is_digit ds then None
         else let v = (if neg then - int (digits_val ds) else int (digits_val ds))
              in if - (2 ^ 63) \<le> v \<and> v < 2 ^ 63 then Some v else None)"

text \<open>
  The number \<open>Atoi\<close> returns also with an error, for callers that ignore the error: 0 for a syntax error,
  the nearest \<open>int\<close> for a value out of range.
\<close>

definition Atoi_value :: "string \<Rightarrow> int" where
  "Atoi_value s =
     (case Atoi s of
        Some v \<Rightarrow> v
      | None \<Rightarrow>
          (let signed = (s \<noteq> [] \<and> (hd s = CHR ''-'' \<or> hd s = CHR ''+''));
               ds = (if signed then tl s else s)
           in if ds = [] \<or> \<not> list_all is_digit ds then 0
              else if hd s = CHR ''-'' then - (2 ^ 63) else 2 ^ 63 - 1))"

lemma Atoi_value_Some [simp]: "Atoi s = Some v \<Longrightarrow> Atoi_value s = v"
  by (simp add: Atoi_value_def)

lemma digit_val_char [simp]: "d < 10 \<Longrightarrow> digit_val (digit_char d) = d"
  by (simp add: digit_val_def digit_char_def)

lemma is_digit_char [simp]: "d < 10 \<Longrightarrow> is_digit (digit_char d)"
  by (simp add: is_digit_def digit_char_def)

lemma digits_val_snoc [simp]: "digits_val (s @ [c]) = digits_val s * 10 + digit_val c"
  by (simp add: digits_val_def)

lemma digits_val_utoa [simp]: "digits_val (utoa n) = n"
proof (induction n rule: utoa.induct)
  case (1 n)
  show ?case
  proof (cases "n < 10")
    case True
    then show ?thesis by (simp add: utoa.simps [of n] digits_val_def)
  next
    case False
    with "1.IH" show ?thesis by (simp add: utoa.simps [of n])
  qed
qed

lemma utoa_not_Nil [simp]: "utoa n \<noteq> []"
  by (simp add: utoa.simps [of n])

lemma utoa_digits: "list_all is_digit (utoa n)"
proof (induction n rule: utoa.induct)
  case (1 n)
  then show ?case by (cases "n < 10") (simp_all add: utoa.simps [of n])
qed

lemma utoa_chars: "c \<in> set (utoa n) \<Longrightarrow> is_digit c"
  using utoa_digits [of n] by (simp add: list_all_iff)

lemma utoa_inject [simp]: "utoa m = utoa n \<longleftrightarrow> m = n"
  by (metis digits_val_utoa)

lemma hd_utoa_digit: "is_digit (hd (utoa n))"
  using utoa_digits [of n] by (cases "utoa n") auto

lemma ParseUint_utoa: "n < 2 ^ w \<Longrightarrow> ParseUint (utoa n) w = Some n"
  by (simp add: ParseUint_def utoa_digits)

lemma ParseUint_bound: "ParseUint s w = Some n \<Longrightarrow> n < 2 ^ w"
  by (auto simp: ParseUint_def split: if_splits)

lemma Atoi_utoa: "int n < 2 ^ 63 \<Longrightarrow> Atoi (utoa n) = Some (int n)"
proof -
  assume n: "int n < 2 ^ 63"
  have "hd (utoa n) \<noteq> CHR ''-''" "hd (utoa n) \<noteq> CHR ''+''"
    using hd_utoa_digit [of n] by (auto simp: is_digit_def)
  with n show ?thesis
    by (simp add: Atoi_def Let_def utoa_digits)
qed

lemma Itoa_of_nat: "Itoa (int n) = utoa n"
  by (simp add: Itoa_def)

end
