(* ===== verification/Domain_Trie.thy ===== *)
theory Domain_Trie
  imports Go_Strings
begin

text \<open>
  \<open>component/trie\<close>: a trie over the dot-separated parts of a domain, read from the
  right, with the wildcards \<open>*\<close> (one part), the empty part (a leading dot: any number of
  parts) and \<open>+\<close> (the domain itself and everything below it).

  A \<open>*Node\<close> is a tree value here: the code never shares a node between two parents, so
  updating a node in place is rebuilding the path to it. \<open>Data\<close> is an \<open>interface{}\<close>,
  \<open>None\<close> being nil.
\<close>

section \<open>node.go\<close>

datatype 'a Node = Node (Data: "'a option") (children: "string \<rightharpoonup> 'a Node")

definition newNode :: "'a option \<Rightarrow> 'a Node" where
  "newNode d = Node d Map.empty"

definition getChild :: "'a Node \<Rightarrow> string \<Rightarrow> 'a Node option" where
  "getChild n s = children n s"

definition hasChild :: "'a Node \<Rightarrow> string \<Rightarrow> bool" where
  "hasChild n s \<longleftrightarrow> getChild n s \<noteq> None"

definition addChild :: "'a Node \<Rightarrow> string \<Rightarrow> 'a Node \<Rightarrow> 'a Node" where
  "addChild n s c = Node (Data n) ((children n)(s \<mapsto> c))"

section \<open>domain.go\<close>

definition wildcard :: string where
  "wildcard = ''*''"

definition dotWildcard :: string where
  "dotWildcard = ''''"

definition complexWildcard :: string where
  "complexWildcard = ''+''"

abbreviation domainStep :: char where
  "domainStep \<equiv> CHR ''.''"

datatype trie_error = ErrInvalidDomain

definition ValidAndSplitDomain :: "string \<Rightarrow> string list option" where
  "ValidAndSplitDomain domain =
     (if domain \<noteq> [] \<and> last domain = CHR ''.'' then None
      else let parts = Split domainStep domain
           in if length parts = 1
              then (if hd parts = [] then None else Some parts)
              else (if \<exists>part \<in> set (tl parts). part = [] then None else Some parts))"

text \<open>
  The loop of \<open>insert\<close> walks from the last part to the first, creating the children that
  are missing; here over the reversed parts.
\<close>

fun insert_path :: "string list \<Rightarrow> 'a option \<Rightarrow> 'a Node \<Rightarrow> 'a Node" where
  "insert_path [] data node = Node data (children node)"
| "insert_path (part # parts) data node =
     (let node1 = (if \<not> hasChild node part then addChild node part (newNode None) else node)
      in addChild node1 part (insert_path parts data (the (getChild node1 part))))"

definition insert_trie :: "string list \<Rightarrow> 'a option \<Rightarrow> 'a Node \<Rightarrow> 'a Node" where
  "insert_trie parts data root = insert_path (rev parts) data root"

definition Insert :: "string \<Rightarrow> 'a option \<Rightarrow> 'a Node \<Rightarrow> trie_error + 'a Node" where
  "Insert domain data root =
     (case ValidAndSplitDomain domain of
        None \<Rightarrow> Inl ErrInvalidDomain
      | Some parts \<Rightarrow>
          if hd parts = complexWildcard
          then Inr (insert_trie (dotWildcard # tl parts) data (insert_trie (tl parts) data root))
          else Inr (insert_trie parts data root))"

function search :: "'a Node \<Rightarrow> string list \<Rightarrow> 'a Node option" where
  "search node parts =
     (if parts = [] then Some node
      else
        let static = (case getChild node (last parts) of
                        None \<Rightarrow> None | Some c \<Rightarrow> search c (butlast parts))
        in case static of
             Some n \<Rightarrow> Some n
           | None \<Rightarrow>
               (let wild = (case getChild node wildcard of
                              None \<Rightarrow> None | Some c \<Rightarrow> search c (butlast parts))
                in case wild of
                     Some n \<Rightarrow> Some n
                   | None \<Rightarrow> getChild node dotWildcard))"
  by pat_completeness auto
termination
  by (relation "measure (\<lambda>(_, parts). length parts)") auto

declare search.simps [simp del]

definition Search :: "string \<Rightarrow> 'a Node \<Rightarrow> 'a Node option" where
  "Search domain root =
     (case ValidAndSplitDomain domain of
        None \<Rightarrow> None
      | Some parts \<Rightarrow>
          if hd parts = [] then None
          else case search root parts of
                 None \<Rightarrow> None
               | Some n \<Rightarrow> if Data n = None then None else Some n)"

definition New_trie :: "'a Node" where
  "New_trie = newNode None"

section \<open>The nodes of a trie as a map from paths\<close>

text \<open>\<open>node_at t ps\<close> follows the path \<open>ps\<close> (last part of the domain first).\<close>

fun node_at :: "'a Node \<Rightarrow> string list \<Rightarrow> 'a Node option" where
  "node_at n [] = Some n"
| "node_at n (p # ps) = (case getChild n p of None \<Rightarrow> None | Some c \<Rightarrow> node_at c ps)"

definition data_at :: "'a Node \<Rightarrow> string list \<Rightarrow> 'a option" where
  "data_at n ps = Option.bind (node_at n ps) Data"

lemma getChild_addChild [simp]:
  "getChild (addChild n s c) t = (if t = s then Some c else getChild n t)"
  by (simp add: getChild_def addChild_def)

lemma Data_addChild [simp]: "Data (addChild n s c) = Data n"
  by (simp add: addChild_def)

lemma Data_newNode [simp]: "Data (newNode d) = d"
  by (simp add: newNode_def)

lemma getChild_newNode [simp]: "getChild (newNode d) s = None"
  by (simp add: getChild_def newNode_def)

lemma getChild_Node [simp]: "getChild (Node d (children n)) s = getChild n s"
  by (simp add: getChild_def)

text \<open>One unfolding of \<open>insert_path\<close>, without the intermediate node.\<close>

lemma insert_path_Cons:
  "insert_path (p # ps) d n =
     addChild (if hasChild n p then n else addChild n p (newNode None)) p
       (insert_path ps d (case getChild n p of None \<Rightarrow> newNode None | Some c \<Rightarrow> c))"
  by (auto simp: hasChild_def Let_def split: option.split)

lemma getChild_insert_path:
  "getChild (insert_path (p # ps) d n) q =
     (if q = p then Some (insert_path ps d (case getChild n p of None \<Rightarrow> newNode None | Some c \<Rightarrow> c))
      else getChild n q)"
  by (simp add: insert_path_Cons del: insert_path.simps)

declare insert_path.simps(2) [simp del]

lemma node_at_newNode: "node_at (newNode d) ps = (if ps = [] then Some (newNode d) else None)"
  by (cases ps) simp_all

lemma data_at_insert_path:
  "data_at (insert_path ps d n) qs = (if qs = ps then d else data_at n qs)"
proof (induction ps arbitrary: n qs)
  case Nil
  then show ?case by (cases qs) (simp_all add: data_at_def)
next
  case (Cons p ps)
  show ?case
  proof (cases qs)
    case Nil
    then show ?thesis by (simp add: data_at_def insert_path_Cons)
  next
    case (Cons r rs)
    show ?thesis
    proof (cases "r = p")
      case True
      let ?c = "case getChild n p of None \<Rightarrow> newNode None | Some c \<Rightarrow> c"
      have "data_at (insert_path (p # ps) d n) qs = data_at (insert_path ps d ?c) rs"
        using Cons True by (simp add: data_at_def getChild_insert_path)
      also have "\<dots> = (if rs = ps then d else data_at ?c rs)" by (rule Cons.IH)
      also have "data_at ?c rs = data_at n qs"
        using Cons True
        by (cases "getChild n p") (simp_all add: data_at_def node_at_newNode)
      finally show ?thesis using Cons True by simp
    next
      case False
      with Cons show ?thesis by (simp add: data_at_def getChild_insert_path)
    qed
  qed
qed

text \<open>A node exists on every prefix of the inserted path, and nowhere new otherwise.\<close>

lemma exists_insert_path:
  "node_at (insert_path ps d n) qs \<noteq> None \<longleftrightarrow>
     node_at n qs \<noteq> None \<or> (\<exists>rs. ps = qs @ rs)"
proof (induction ps arbitrary: n qs)
  case Nil
  then show ?case by (cases qs) simp_all
next
  case (Cons p ps)
  show ?case
  proof (cases qs)
    case Nil
    then show ?thesis by simp
  next
    case (Cons r rs)
    show ?thesis
    proof (cases "r = p")
      case True
      let ?c = "case getChild n p of None \<Rightarrow> newNode None | Some c \<Rightarrow> c"
      have "node_at (insert_path (p # ps) d n) qs \<noteq> None \<longleftrightarrow>
            node_at (insert_path ps d ?c) rs \<noteq> None"
        using Cons True by (simp add: getChild_insert_path)
      also have "\<dots> \<longleftrightarrow> node_at ?c rs \<noteq> None \<or> (\<exists>ts. ps = rs @ ts)" by (rule Cons.IH)
      also have "\<dots> \<longleftrightarrow> node_at n qs \<noteq> None \<or> (\<exists>ts. ps = rs @ ts)"
        using Cons True by (cases "getChild n p") (auto simp: node_at_newNode)
      finally show ?thesis using Cons True by simp
    next
      case False
      with Cons show ?thesis by (simp add: getChild_insert_path)
    qed
  qed
qed

section \<open>Search as a walk over candidate paths\<close>

text \<open>
  The paths \<open>search\<close> may return, in the order in which it prefers them: the static part
  before the wildcard, and a dot wildcard only when neither leads anywhere.
\<close>

fun candidates :: "string list \<Rightarrow> string list list" where
  "candidates [] = [[]]"
| "candidates (p # ps) =
     map ((#) p) (candidates ps) @ map ((#) wildcard) (candidates ps) @ [[dotWildcard]]"

lemma node_at_via_child:
  "first_some (node_at n) (map ((#) p) cs) =
     (case getChild n p of None \<Rightarrow> None | Some c \<Rightarrow> first_some (node_at c) cs)"
proof (cases "getChild n p")
  case None
  then show ?thesis by (simp add: first_some_map first_some_None_iff)
next
  case (Some c)
  then show ?thesis by (simp add: first_some_map)
qed

lemma search_candidates: "search n (rev ps) = first_some (node_at n) (candidates ps)"
proof (induction ps arbitrary: n)
  case Nil
  then show ?case by (simp add: search.simps [of n "[]"])
next
  case (Cons p ps)
  have dot: "first_some (node_at n) [[dotWildcard]] = getChild n dotWildcard"
    by (simp split: option.split)
  have parts: "rev (p # ps) \<noteq> []" "last (rev (p # ps)) = p" "butlast (rev (p # ps)) = rev ps"
    by simp_all
  show ?case
    unfolding search.simps [of n "rev (p # ps)"] candidates.simps first_some_append
      node_at_via_child dot parts(2,3) Cons.IH
    using parts(1) by (simp add: Let_def)
qed

lemma candidates_hd: "\<exists>cs. candidates ps = ps # cs"
proof (induction ps)
  case (Cons p ps)
  then show ?case by fastforce
qed simp

lemma search_static: "node_at n ps = Some m \<Longrightarrow> search n (rev ps) = Some m"
  using candidates_hd [of ps] by (auto simp: search_candidates)

section \<open>Which hosts a pattern covers\<close>

definition label_match :: "string \<Rightarrow> string \<Rightarrow> bool" where
  "label_match p l \<longleftrightarrow> p = l \<or> p = wildcard"

text \<open>
  The declarative reading of a stored pattern, both lists from the top-level label down: a
  trailing empty part stands for one or more further labels.
\<close>

fun covers :: "string list \<Rightarrow> string list \<Rightarrow> bool" where
  "covers [] ls \<longleftrightarrow> ls = []"
| "covers (p # ps) [] \<longleftrightarrow> False"
| "covers (p # ps) (l # ls) \<longleftrightarrow>
     (p = dotWildcard \<and> ps = []) \<or> (label_match p l \<and> covers ps ls)"

lemma candidates_iff: "c \<in> set (candidates ls) \<longleftrightarrow> covers c ls"
proof (induction ls arbitrary: c)
  case Nil
  then show ?case by (cases c) auto
next
  case (Cons l ls)
  then show ?case by (cases c) (auto simp: label_match_def)
qed

lemma candidates_dot: "c \<in> set (candidates ls) \<Longrightarrow> length c \<le> length ls"
proof (induction ls arbitrary: c)
  case (Cons l ls)
  then show ?case by (cases c) auto
qed simp

lemma candidate_full:
  "\<lbrakk>c \<in> set (candidates ls); dotWildcard \<notin> set c\<rbrakk> \<Longrightarrow> length c = length ls"
proof (induction ls arbitrary: c)
  case (Cons l ls)
  then show ?case by (cases c) auto
qed simp

text \<open>
  When one path at most is a candidate and exists, \<open>search\<close> returns its node.
\<close>

lemma search_unique:
  assumes "\<And>c. \<lbrakk>c \<in> set (candidates ls); node_at t c \<noteq> None\<rbrakk> \<Longrightarrow> c = p"
  shows "search t (rev ls) = (if p \<in> set (candidates ls) then node_at t p else None)"
proof (cases "search t (rev ls)")
  case None
  then show ?thesis unfolding search_candidates by (auto simp: first_some_None_iff)
next
  case (Some m)
  then obtain c where "c \<in> set (candidates ls)" "node_at t c = Some m"
    using first_some_in [of "node_at t"] unfolding search_candidates by blast
  with assms [of c] Some show ?thesis by auto
qed

text \<open>
  The paths that exist in a trie holding one pattern are the prefixes of the inserted path (of the
  longer one for a \<open>+\<close>); a candidate among them is the pattern itself.
\<close>

lemma prefix_candidate:
  assumes c: "c \<in> set (candidates ls)" "p = c @ rs" and p: "dotWildcard \<notin> set (butlast p)"
  shows "c = take (length ls) p"
proof (cases "dotWildcard \<in> set c")
  case True
  with c(2) p have "rs = []" by (auto simp: butlast_append split: if_splits)
  with c candidates_dot [OF c(1)] show ?thesis by simp
next
  case False
  with candidate_full [OF c(1)] c(2) show ?thesis by simp
qed

lemma search_prefixes:
  assumes ex: "\<And>qs. node_at t qs \<noteq> None \<longleftrightarrow> (\<exists>rs. p = qs @ rs)"
    and data: "\<And>qs. data_at t qs = (if qs \<in> D then Some x else None)"
    and p: "dotWildcard \<notin> set (butlast p)"
  shows "Option.bind (search t (rev ls)) Data = (if \<exists>q \<in> D. covers q ls then Some x else None)"
proof -
  let ?q = "take (length ls) p"
  have uniq: "c = ?q" if "c \<in> set (candidates ls)" "node_at t c \<noteq> None" for c
    using prefix_candidate [OF that(1) _ p] that(2) ex by blast
  have "(\<exists>q \<in> D. covers q ls) \<longleftrightarrow> ?q \<in> set (candidates ls) \<and> ?q \<in> D"
  proof
    assume "\<exists>q \<in> D. covers q ls"
    then obtain q where q: "q \<in> D" "q \<in> set (candidates ls)" by (auto simp: candidates_iff)
    then have "node_at t q \<noteq> None" using data [of q] by (cases "node_at t q") (auto simp: data_at_def)
    with uniq [OF q(2)] q show "?q \<in> set (candidates ls) \<and> ?q \<in> D" by simp
  qed (auto simp: candidates_iff)
  moreover have "search t (rev ls) = (if ?q \<in> set (candidates ls) then node_at t ?q else None)"
    by (rule search_unique) (rule uniq)
  ultimately show ?thesis using data [of ?q] by (simp add: data_at_def)
qed

lemma single_nodes:
  "node_at (insert_path p d New_trie) qs \<noteq> None \<longleftrightarrow> (\<exists>rs. p = qs @ rs)"
  unfolding exists_insert_path by (auto simp: New_trie_def node_at_newNode)

lemma data_at_New_trie [simp]: "data_at New_trie qs = None"
  by (simp add: data_at_def New_trie_def node_at_newNode)

section \<open>The trie as a table of domains\<close>

text \<open>
  A plain domain has no leading empty part and no leading \<open>+\<close>. Its exact entry is the
  data at its own path.
\<close>

definition plain :: "string \<Rightarrow> bool" where
  "plain d \<longleftrightarrow> (case ValidAndSplitDomain d of
                 None \<Rightarrow> False | Some ps \<Rightarrow> hd ps \<noteq> [] \<and> hd ps \<noteq> complexWildcard)"

definition exact :: "'a Node \<Rightarrow> string \<Rightarrow> 'a option" where
  "exact t d = (case ValidAndSplitDomain d of None \<Rightarrow> None | Some ps \<Rightarrow> data_at t (rev ps))"

text \<open>\<open>Insert\<close> as its callers use it that drop the error: the trie is unchanged then.\<close>

definition put_domain :: "string \<Rightarrow> 'a \<Rightarrow> 'a Node \<Rightarrow> 'a Node" where
  "put_domain d x t = (case Insert d (Some x) t of Inl _ \<Rightarrow> t | Inr t' \<Rightarrow> t')"

definition find_domain :: "string \<Rightarrow> 'a Node \<Rightarrow> 'a option" where
  "find_domain d t = Option.bind (Search d t) Data"

lemma ValidAndSplitDomain_Split:
  "ValidAndSplitDomain d = Some ps \<Longrightarrow> ps = Split domainStep d"
  by (auto simp: ValidAndSplitDomain_def Let_def split: if_splits)

lemma ValidAndSplitDomain_inj:
  "ValidAndSplitDomain d = Some ps \<Longrightarrow> ValidAndSplitDomain e = Some ps \<Longrightarrow> d = e"
  by (metis Join_Split ValidAndSplitDomain_Split)

lemma ValidAndSplitDomain_tl:
  "ValidAndSplitDomain d = Some ps \<Longrightarrow> ps \<noteq> [] \<and> [] \<notin> set (tl ps)"
proof -
  assume v: "ValidAndSplitDomain d = Some ps"
  then have ps: "ps = Split domainStep d" by (rule ValidAndSplitDomain_Split)
  show ?thesis
  proof (cases "length ps = 1")
    case True
    then obtain p where "ps = [p]" by (cases ps) auto
    then show ?thesis by simp
  next
    case False
    with v ps show ?thesis by (auto simp: ValidAndSplitDomain_def Let_def split: if_splits)
  qed
qed

text \<open>Which hosts a domain pattern stands for.\<close>

definition match_pattern :: "string \<Rightarrow> string \<Rightarrow> bool" where
  "match_pattern d h =
     (case ValidAndSplitDomain d of
        None \<Rightarrow> False
      | Some ps \<Rightarrow>
          (case ValidAndSplitDomain h of
             None \<Rightarrow> False
           | Some ls \<Rightarrow>
               hd ls \<noteq> [] \<and>
               (if hd ps = complexWildcard
                then covers (rev (tl ps)) (rev ls) \<or> covers (rev (dotWildcard # tl ps)) (rev ls)
                else covers (rev ps) (rev ls))))"

text \<open>The interface the users of the trie rely on for the domains they list by name.\<close>

locale domain_table =
  fixes put :: "string \<Rightarrow> 'a \<Rightarrow> 't \<Rightarrow> 't"
    and find :: "string \<Rightarrow> 't \<Rightarrow> 'a option"
    and entry_of :: "'t \<Rightarrow> string \<Rightarrow> 'a option"
    and named :: "string \<Rightarrow> bool"
  assumes put_entry: "\<lbrakk>named d; named e\<rbrakk> \<Longrightarrow>
            entry_of (put d x t) e = (if e = d then Some x else entry_of t e)"
    and find_entry: "\<lbrakk>named d; entry_of t d = Some x\<rbrakk> \<Longrightarrow> find d t = Some x"
begin

lemma find_put: "named d \<Longrightarrow> find d (put d x t) = Some x"
  by (simp add: find_entry put_entry)

lemma fold_put_entry:
  "\<lbrakk>\<forall>(d, x) \<in> set xs. named d; distinct (map fst xs); named e\<rbrakk> \<Longrightarrow>
   entry_of (fold (\<lambda>(d, x). put d x) xs t) e =
     (case map_of xs e of None \<Rightarrow> entry_of t e | Some x \<Rightarrow> Some x)"
proof (induction xs arbitrary: t)
  case Nil
  then show ?case by simp
next
  case (Cons y ys)
  obtain d x where y: "y = (d, x)" by (cases y)
  with Cons.prems have "map_of ys d = None" by (simp add: map_of_eq_None_iff)
  with Cons y show ?case by (auto simp: put_entry split: option.split)
qed

lemma find_fold_put:
  "\<lbrakk>\<forall>(d, x) \<in> set xs. named d; distinct (map fst xs); (e, y) \<in> set xs\<rbrakk> \<Longrightarrow>
   find e (fold (\<lambda>(d, x). put d x) xs t) = Some y"
  using fold_put_entry [of xs e t] by (intro find_entry) auto

end

interpretation domains: domain_table put_domain find_domain exact plain
proof (unfold_locales, goal_cases)
  case (1 d e x t)
  then obtain ps qs where d: "ValidAndSplitDomain d = Some ps" "hd ps \<noteq> complexWildcard"
    and e: "ValidAndSplitDomain e = Some qs"
    by (auto simp: plain_def split: option.splits)
  then have "put_domain d x t = insert_path (rev ps) (Some x) t"
    by (simp add: put_domain_def Insert_def insert_trie_def)
  moreover have "qs = ps \<longleftrightarrow> e = d" using d e ValidAndSplitDomain_inj by auto
  ultimately show ?case using e by (simp add: exact_def data_at_insert_path)
next
  case (2 d t x)
  then obtain ps m where ps: "ValidAndSplitDomain d = Some ps" "hd ps \<noteq> []"
    and m: "node_at t (rev ps) = Some m" "Data m = Some x"
    by (auto simp: plain_def exact_def data_at_def bind_eq_Some_conv split: option.splits)
  then show ?case
    using search_static [of t "rev ps" m] by (simp add: find_domain_def Search_def)
qed

lemma find_domain_search:
  "find_domain h t =
     (case ValidAndSplitDomain h of
        None \<Rightarrow> None
      | Some ls \<Rightarrow> if hd ls = [] then None else Option.bind (search t ls) Data)"
  by (auto simp: find_domain_def Search_def split: option.split)

lemma single_pattern_search:
  "Option.bind (search (put_domain d x New_trie) (rev ls)) Data =
     (case ValidAndSplitDomain d of
        None \<Rightarrow> None
      | Some ps \<Rightarrow>
          if (if hd ps = complexWildcard
              then covers (rev (tl ps)) ls \<or> covers (rev (dotWildcard # tl ps)) ls
              else covers (rev ps) ls) then Some x else None)"
proof (cases "ValidAndSplitDomain d")
  case None
  then have "put_domain d x New_trie = New_trie" by (simp add: put_domain_def Insert_def)
  moreover have "Option.bind (search New_trie (rev ls)) Data = (if \<exists>q \<in> {}. covers q ls then Some x else None)"
    by (rule search_prefixes [of _ "[]"]) (simp_all, simp add: New_trie_def node_at_newNode)
  ultimately show ?thesis using None by simp
next
  case (Some ps)
  from ValidAndSplitDomain_tl [OF Some] have ps: "ps \<noteq> []" "dotWildcard \<notin> set (tl ps)"
    by (simp_all add: dotWildcard_def)
  show ?thesis
  proof (cases "hd ps = complexWildcard")
    case False
    then have t: "put_domain d x New_trie = insert_path (rev ps) (Some x) New_trie"
      using Some by (simp add: put_domain_def Insert_def insert_trie_def)
    have "butlast (rev ps) = rev (tl ps)" using ps(1) by (cases ps) simp_all
    with ps(2) have "dotWildcard \<notin> set (butlast (rev ps))" by simp
    from search_prefixes [OF single_nodes _ this, of "Some x" "{rev ps}" x ls] False Some
    show ?thesis by (simp add: t data_at_insert_path)
  next
    case True
    let ?p = "rev (tl ps) @ [dotWildcard]"
    let ?t = "insert_path ?p (Some x) (insert_path (rev (tl ps)) (Some x) New_trie)"
    have t: "put_domain d x New_trie = ?t"
      using True Some by (simp add: put_domain_def Insert_def insert_trie_def)
    have ex: "node_at ?t qs \<noteq> None \<longleftrightarrow> (\<exists>rs. ?p = qs @ rs)" for qs
      unfolding exists_insert_path [of ?p] single_nodes by (metis append.assoc)
    have data: "data_at ?t qs = (if qs \<in> {rev (tl ps), ?p} then Some x else None)" for qs
      by (simp add: data_at_insert_path)
    from search_prefixes [OF ex data, of ls] ps(2) True Some show ?thesis by (simp add: t)
  qed
qed

section \<open>Properties\<close>

text \<open>
  C26: \<open>search\<close> returns the first of the paths that may stand for a host which exists in the trie:
  at each part the part itself before \<open>*\<close>, and a dot wildcard only when both lead nowhere.
\<close>

theorem search_first_candidate:
  "search t parts = first_some (node_at t) (candidates (rev parts))"
  using search_candidates [of t "rev parts"] by simp

text \<open>
  In a trie that holds one pattern, a host is found exactly when the pattern stands for it:
  a name for itself, \<open>*\<close> for one part, a leading dot for every proper subdomain and \<open>+\<close> for
  the domain and its subdomains; an invalid pattern is not stored and an invalid host not found.
\<close>

theorem find_single_pattern:
  "find_domain h (put_domain d x New_trie) = (if match_pattern d h then Some x else None)"
proof (cases "ValidAndSplitDomain h")
  case None
  then show ?thesis by (auto simp: find_domain_search match_pattern_def split: option.split)
next
  case (Some ls)
  show ?thesis
    using Some single_pattern_search [of d x "rev ls"]
    by (auto simp: find_domain_search match_pattern_def split: option.split)
qed

text \<open>
  C27: a set of distinct names inserted one after the other is a table: each is found with its own
  data, whatever the trie held before.
\<close>

theorem find_named_domains:
  assumes "\<forall>(d, x) \<in> set xs. plain d" and "distinct (map fst xs)" and "(e, y) \<in> set xs"
  shows "find_domain e (fold (\<lambda>(d, x). put_domain d x) xs t) = Some y"
  using assms by (rule domains.find_fold_put)

theorem find_named_domains_witness:
  "find_domain ''b.com'' (fold (\<lambda>(d, x). put_domain d x) [(''*.com'', 1 :: nat), (''b.com'', 2), (''a.b.com'', 3)]
     New_trie) = Some 2"
  by (rule find_named_domains) (simp_all add: plain_def, code_simp)

text \<open>
  A name below a wildcard hides it: after inserting \<open>*.com\<close> and \<open>a.b.com\<close> the host
  \<open>b.com\<close> is not found, although the pattern \<open>*.com\<close> alone finds it. The node \<open>b.com\<close> that leads
  to \<open>a.b.com\<close> has no data, and \<open>search\<close> does not go on to the wildcard.
\<close>

theorem search_shadowed_wildcard:
  "find_domain ''b.com'' (put_domain ''*.com'' True New_trie) = Some True \<and>
   find_domain ''b.com'' (put_domain ''a.b.com'' True (put_domain ''*.com'' True New_trie)) = None"
  by code_simp

end
