(* ===== verification/Go_Net.thy ===== *)
theory Go_Net
  imports Go_Strings
begin

text \<open>
  The part of Go's package \<open>net\<close> the modelled code calls: addresses, their text form,
  networks and host-port strings, and the big-endian integers of \<open>encoding/binary\<close>.

  A \<open>net.IP\<close> is a byte slice of length 4 or 16; the nil slice is the empty list, so
  \<open>ip = []\<close> is Go's \<open>ip == nil\<close>. (The code never builds an empty address that is not
  nil.) Where Go returns an error the model returns \<open>None\<close>; the code only tests it.
\<close>

section \<open>Addresses\<close>

type_synonym IP = "byte list"

definition v4InV6Prefix :: "byte list" where
  "v4InV6Prefix = replicate 10 0 @ [255, 255]"

definition To4 :: "IP \<Rightarrow> IP" where
  "To4 ip = (if length ip = 4 then ip
             else if length ip = 16 \<and> take 12 ip = v4InV6Prefix then drop 12 ip
             else [])"

definition To16 :: "IP \<Rightarrow> IP" where
  "To16 ip = (if length ip = 4 then v4InV6Prefix @ ip else if length ip = 16 then ip else [])"

text \<open>\<open>net.IPv4 (a, b, c, d)\<close>.\<close>

definition IPv4 :: "byte \<Rightarrow> byte \<Rightarrow> byte \<Rightarrow> byte \<Rightarrow> IP" where
  "IPv4 a b c d = v4InV6Prefix @ [a, b, c, d]"

definition IP_Equal :: "IP \<Rightarrow> IP \<Rightarrow> bool" where
  "IP_Equal ip x =
     (if length ip = length x then ip = x
      else if length ip = 4 \<and> length x = 16 then take 12 x = v4InV6Prefix \<and> ip = drop 12 x
      else if length ip = 16 \<and> length x = 4 then take 12 ip = v4InV6Prefix \<and> drop 12 ip = x
      else False)"

definition IsUnspecified :: "IP \<Rightarrow> bool" where
  "IsUnspecified ip \<longleftrightarrow> IP_Equal ip (IPv4 0 0 0 0) \<or> IP_Equal ip (replicate 16 0)"

definition IsPrivate :: "IP \<Rightarrow> bool" where
  "IsPrivate ip =
     (let ip4 = To4 ip in
      if ip4 \<noteq> [] then
        ip4 ! 0 = 10 \<or>
        (ip4 ! 0 = 172 \<and> ip4 ! 1 AND 240 = 16) \<or>
        (ip4 ! 0 = 192 \<and> ip4 ! 1 = 168)
      else length ip = 16 \<and> ip ! 0 AND 254 = 252)"

lemma To4_length: "To4 ip \<noteq> [] \<Longrightarrow> length (To4 ip) = 4"
  by (auto simp: To4_def split: if_splits)

lemma To4_4 [simp]: "length ip = 4 \<Longrightarrow> To4 ip = ip"
  by (simp add: To4_def)

lemma To4_To16 [simp]: "length ip = 4 \<Longrightarrow> To4 (To16 ip) = ip"
  by (simp add: To4_def To16_def v4InV6Prefix_def)

lemma To4_idem [simp]: "To4 (To4 ip) = To4 ip"
  using To4_length [of ip] by (cases "To4 ip = []") (simp_all add: To4_def)

section \<open>Text form of addresses\<close>

definition hex_char :: "nat \<Rightarrow> char" where
  "hex_char d = (if d < 10 then char_of (48 + d) else char_of (87 + d))"

fun hex :: "nat \<Rightarrow> string" where
  "hex n = (if n < 16 then [hex_char n] else hex (n div 16) @ [hex_char (n mod 16)])"

declare hex.simps [simp del]

fun groups16 :: "byte list \<Rightarrow> nat list" where
  "groups16 (a # b # bs) = (unat a * 256 + unat b) # groups16 bs"
| "groups16 _ = []"

text \<open>The longest run of at least two zero groups, the first one of that length.\<close>

definition zero_run :: "nat list \<Rightarrow> nat \<times> nat" where
  "zero_run gs =
     fold (\<lambda>i (zs, ze). let j = i + length (takeWhile (\<lambda>g. g = 0) (drop i gs))
                         in if 2 \<le> j - i \<and> ze - zs < j - i then (i, j) else (zs, ze))
       [0 ..< length gs] (255, 255)"

definition ipv6_string :: "IP \<Rightarrow> string" where
  "ipv6_string ip =
     (let gs = groups16 ip; (zs, ze) = zero_run gs in
      if zs = 255 then Join '':'' (map hex gs)
      else Join '':'' (map hex (take zs gs)) @ ''::'' @ Join '':'' (map hex (drop ze gs)))"

definition ipv4_string :: "IP \<Rightarrow> string" where
  "ipv4_string ip = Join ''.'' (map (\<lambda>b. utoa (unat b)) ip)"

definition IP_String :: "IP \<Rightarrow> string" where
  "IP_String ip =
     (if ip = [] then ''<nil>''
      else if length ip \<noteq> 4 \<and> length ip \<noteq> 16
      then ''?'' @ concat (map (\<lambda>b. [hex_char (unat b div 16), hex_char (unat b mod 16)]) ip)
      else if To4 ip \<noteq> [] then ipv4_string (To4 ip)
      else ipv6_string ip)"

section \<open>Parsing addresses\<close>

text \<open>\<open>netip.parseIPv4Fields\<close>: four decimal fields, none with a leading zero.\<close>

definition ipv4_field :: "string \<Rightarrow> byte option" where
  "ipv4_field s =
     (if s = [] \<or> \<not> list_all is_digit s \<or> (length s > 1 \<and> hd s = CHR ''0'') \<or> digits_val s > 255
      then None else Some (of_nat (digits_val s)))"

definition parseIPv4Fields :: "string \<Rightarrow> byte list option" where
  "parseIPv4Fields s =
     (case Split CHR ''.'' s of
        [a, b, c, d] \<Rightarrow>
          (case (ipv4_field a, ipv4_field b, ipv4_field c, ipv4_field d) of
             (Some w, Some x, Some y, Some z) \<Rightarrow> Some [w, x, y, z]
           | _ \<Rightarrow> None)
      | _ \<Rightarrow> None)"

definition hex_val :: "char \<Rightarrow> nat option" where
  "hex_val c =
     (let n = (of_char c :: nat) in
      if 48 \<le> n \<and> n \<le> 57 then Some (n - 48)
      else if 97 \<le> n \<and> n \<le> 102 then Some (n - 87)
      else if 65 \<le> n \<and> n \<le> 70 then Some (n - 55)
      else None)"

definition hex_acc :: "string \<Rightarrow> nat" where
  "hex_acc s = foldl (\<lambda>acc c. acc * 16 + the (hex_val c)) 0 s"

text \<open>
  The loop of \<open>netip.parseIPv6\<close>: the rest of the text, the bytes read so far and the
  position of the ellipsis.
\<close>

function parseIPv6_loop ::
    "string \<Rightarrow> byte list \<Rightarrow> nat option \<Rightarrow> (string \<times> byte list \<times> nat option) option" where
  "parseIPv6_loop s ip ellipsis =
     (if length ip \<ge> 16 then Some (s, ip, ellipsis)
      else
        let hs = takeWhile (\<lambda>c. hex_val c \<noteq> None) s; rest = drop (length hs) s in
        if hs = [] \<or> length hs > 4 then None
        else if rest \<noteq> [] \<and> hd rest = CHR ''.'' then
          (if ellipsis = None \<and> length ip \<noteq> 12 then None
           else if length ip + 4 > 16 then None
           else map_option (\<lambda>bs. ([], ip @ bs, ellipsis)) (parseIPv4Fields s))
        else
          let ip1 = ip @ [of_nat (hex_acc hs div 256), of_nat (hex_acc hs mod 256)] in
          if rest = [] then Some ([], ip1, ellipsis)
          else if hd rest \<noteq> CHR '':'' then None
          else if tl rest = [] then None
          else if hd (tl rest) = CHR '':'' then
            (if ellipsis \<noteq> None then None
             else if tl (tl rest) = [] then Some ([], ip1, Some (length ip1))
             else parseIPv6_loop (tl (tl rest)) ip1 (Some (length ip1)))
          else parseIPv6_loop (tl rest) ip1 ellipsis)"
  by pat_completeness auto
termination
  by (relation "measure (\<lambda>(_, ip, _). 16 - length ip)") auto

declare parseIPv6_loop.simps [simp del]

definition parseIPv6 :: "string \<Rightarrow> byte list option" where
  "parseIPv6 s0 =
     (let ell = HasPrefix s0 ''::''; s = (if ell then drop 2 s0 else s0) in
      if ell \<and> s = [] then Some (replicate 16 0)
      else case parseIPv6_loop s [] (if ell then Some 0 else None) of
             None \<Rightarrow> None
           | Some (rest, ip, ellipsis) \<Rightarrow>
               if rest \<noteq> [] then None
               else if length ip < 16 then
                 (case ellipsis of
                    None \<Rightarrow> None
                  | Some e \<Rightarrow> Some (take e ip @ replicate (16 - length ip) 0 @ drop e ip))
               else if ellipsis \<noteq> None then None
               else Some ip)"

text \<open>
  \<open>netip.ParseAddr\<close>: the first of dot, colon and percent sign decides the form. Its
  callers here reject every address with a zone, so a zone is rejected right away.
\<close>

definition ParseAddr :: "string \<Rightarrow> byte list option" where
  "ParseAddr s =
     (case filter (\<lambda>c. c \<in> {CHR ''.'', CHR '':'', CHR ''%''}) s of
        [] \<Rightarrow> None
      | c # _ \<Rightarrow>
          if c = CHR ''.'' then parseIPv4Fields s
          else if c = CHR '':'' \<and> CHR ''%'' \<notin> set s then parseIPv6 s
          else None)"

text \<open>\<open>net.ParseIP\<close>: always the 16-byte form; nil on a syntax error.\<close>

definition ParseIP :: "string \<Rightarrow> IP" where
  "ParseIP s = (case ParseAddr s of None \<Rightarrow> [] | Some ip \<Rightarrow> To16 ip)"

section \<open>Networks\<close>

record IPNet =
  NetIP :: IP
  Mask :: "byte list"

definition CIDRMask_byte :: "nat \<Rightarrow> nat \<Rightarrow> byte" where
  "CIDRMask_byte ones i =
     (if ones \<ge> 8 * (i + 1) then 255
      else if ones \<le> 8 * i then 0
      else NOT (drop_bit (ones - 8 * i) 255))"

definition CIDRMask :: "nat \<Rightarrow> nat \<Rightarrow> byte list" where
  "CIDRMask ones bits = map (CIDRMask_byte ones) [0 ..< bits div 8]"

definition mask_bytes :: "byte list \<Rightarrow> byte list \<Rightarrow> byte list" where
  "mask_bytes m ip = map2 (AND) ip m"

text \<open>\<open>net.ParseCIDR\<close>, its network.\<close>

definition ParseCIDR :: "string \<Rightarrow> IPNet option" where
  "ParseCIDR s =
     (case SplitN2 CHR ''/'' s of
        [a, ms] \<Rightarrow>
          (case ParseAddr a of
             None \<Rightarrow> None
           | Some ip \<Rightarrow>
               if ms = [] \<or> \<not> list_all is_digit ms \<or> digits_val ms > 8 * length ip then None
               else let m = CIDRMask (digits_val ms) (8 * length ip)
                    in Some \<lparr>NetIP = mask_bytes m (if length m = 4 then To4 ip else ip), Mask = m\<rparr>)
      | _ \<Rightarrow> None)"

definition networkNumberAndMask :: "IPNet \<Rightarrow> IP \<times> byte list" where
  "networkNumberAndMask n =
     (let ip = (if To4 (NetIP n) \<noteq> [] then To4 (NetIP n) else NetIP n) in
      if length ip \<noteq> 4 \<and> length ip \<noteq> 16 then ([], [])
      else if length (Mask n) = length ip then (ip, Mask n)
      else if length (Mask n) = 16 \<and> length ip = 4 then (ip, drop 12 (Mask n))
      else ([], []))"

definition IPNet_Contains :: "IPNet \<Rightarrow> IP \<Rightarrow> bool" where
  "IPNet_Contains n ip0 =
     (let (nn, m) = networkNumberAndMask n;
          ip = (if To4 ip0 \<noteq> [] then To4 ip0 else ip0)
      in length ip = length nn \<and> mask_bytes m nn = mask_bytes m ip)"

text \<open>\<open>IPMask.Size\<close>: leading ones and total bits; (0, 0) when the ones are not leading.\<close>

definition IPMask_Size :: "byte list \<Rightarrow> nat \<times> nat" where
  "IPMask_Size m =
     (let bits = concat (map (\<lambda>b. map (\<lambda>i. bit b (7 - i)) [0 ..< 8]) m);
          ones = length (takeWhile (\<lambda>b. b) bits)
      in if list_all (\<lambda>b. \<not> b) (drop ones bits) then (ones, 8 * length m) else (0, 0))"

text \<open>\<open>IPNet.String\<close>: the prefix length, or the mask in hexadecimal when it is not a prefix.\<close>

definition IPNet_String :: "IPNet \<Rightarrow> string" where
  "IPNet_String n =
     (let (nn, m) = networkNumberAndMask n; (ones, bits) = IPMask_Size m in
      if nn = [] \<or> m = [] then ''<nil>''
      else if bits = 0
      then IP_String nn @ ''/'' @ concat (map (\<lambda>b. [hex_char (unat b div 16), hex_char (unat b mod 16)]) m)
      else IP_String nn @ ''/'' @ utoa ones)"

section \<open>Host-port strings\<close>

fun index_of :: "char \<Rightarrow> string \<Rightarrow> nat option" where
  "index_of c [] = None"
| "index_of c (x # xs) = (if x = c then Some 0 else map_option Suc (index_of c xs))"

definition last_index_of :: "char \<Rightarrow> string \<Rightarrow> nat option" where
  "last_index_of c s = map_option (\<lambda>i. length s - 1 - i) (index_of c (rev s))"

definition JoinHostPort :: "string \<Rightarrow> string \<Rightarrow> string" where
  "JoinHostPort host port =
     (if CHR '':'' \<in> set host then ''['' @ host @ '']:'' @ port else host @ '':'' @ port)"

definition SplitHostPort :: "string \<Rightarrow> (string \<times> string) option" where
  "SplitHostPort s =
     (case last_index_of CHR '':'' s of
        None \<Rightarrow> None
      | Some i \<Rightarrow>
          if hd s = CHR ''['' then
            (case index_of CHR '']'' s of
               None \<Rightarrow> None
             | Some e \<Rightarrow>
                 if e + 1 \<noteq> i then None
                 else if CHR ''['' \<in> set (drop 1 s) \<or> CHR '']'' \<in> set (drop (e + 1) s) then None
                 else Some (take (e - 1) (drop 1 s), drop (i + 1) s))
          else
            (let host = take i s in
             if CHR '':'' \<in> set host \<or> CHR ''['' \<in> set s \<or> CHR '']'' \<in> set s then None
             else Some (host, drop (i + 1) s)))"

section \<open>Big-endian integers\<close>

definition PutUint16 :: "uint16 \<Rightarrow> byte list" where
  "PutUint16 v = [ucast (drop_bit 8 v), ucast v]"

definition BE_Uint16 :: "byte list \<Rightarrow> uint16" where
  "BE_Uint16 bs = push_bit 8 (ucast (bs ! 0)) OR ucast (bs ! 1)"

section \<open>Round trips\<close>

lemma BE_Uint16_PutUint16 [simp]: "BE_Uint16 (PutUint16 v) = v"
proof (rule bit_word_eqI)
  fix n
  assume "n < LENGTH(16)"
  then show "bit (BE_Uint16 (PutUint16 v)) n \<longleftrightarrow> bit v n"
    by (auto simp: BE_Uint16_def PutUint16_def bit_simps)
qed

lemma PutUint16_BE_Uint16: "length bs = 2 \<Longrightarrow> PutUint16 (BE_Uint16 bs) = bs"
proof -
  assume "length bs = 2"
  then obtain a b where bs: "bs = [a, b]"
    by (auto simp: numeral_2_eq_2 length_Suc_conv)
  have "ucast (drop_bit 8 (BE_Uint16 bs)) = a"
    by (rule bit_word_eqI) (auto simp: bs BE_Uint16_def bit_simps dest: bit_imp_le_length)
  moreover have "ucast (BE_Uint16 bs) = b"
    by (rule bit_word_eqI) (auto simp: bs BE_Uint16_def bit_simps)
  ultimately show ?thesis by (simp add: PutUint16_def bs)
qed

lemma length_PutUint16 [simp]: "length (PutUint16 v) = 2"
  by (simp add: PutUint16_def)

lemma utoa_leading_zero: "0 < n \<Longrightarrow> hd (utoa n) \<noteq> CHR ''0''"
proof (induction n rule: utoa.induct)
  case (1 n)
  show ?case
  proof (cases "n < 10")
    case True
    with "1.prems" have "digit_char n \<noteq> CHR ''0''"
      using digit_val_char [of n] by (auto simp: digit_val_def)
    with True show ?thesis by (simp add: utoa.simps [of n])
  next
    case False
    with "1.IH" show ?thesis by (simp add: utoa.simps [of n])
  qed
qed

lemma utoa_length_gt_1: "1 < length (utoa n) \<Longrightarrow> 0 < n"
  by (cases "n = 0") (simp_all add: utoa.simps [of 0])

lemma ipv4_field_utoa: "n < 256 \<Longrightarrow> ipv4_field (utoa n) = Some (of_nat n)"
  using utoa_leading_zero [of n] utoa_length_gt_1 [of n]
  by (auto simp: ipv4_field_def utoa_digits)

lemma utoa_no_char: "\<not> is_digit c \<Longrightarrow> c \<notin> set (utoa n)"
  using utoa_chars by blast

lemma not_digits [simp]:
  "\<not> is_digit CHR ''.''" "\<not> is_digit CHR '':''" "\<not> is_digit CHR ''%''"
  "\<not> is_digit CHR ''[''" "\<not> is_digit CHR '']''"
  by (simp_all add: is_digit_def)

lemma parseIPv4Fields_string:
  "parseIPv4Fields (ipv4_string [a, b, c, d]) = Some [a, b, c, d]"
proof -
  have "Split CHR ''.'' (ipv4_string [a, b, c, d]) = map (\<lambda>b. utoa (unat b)) [a, b, c, d]"
    unfolding ipv4_string_def by (rule Split_Join) (auto simp: utoa_no_char)
  then show ?thesis
    by (simp add: parseIPv4Fields_def ipv4_field_utoa)
qed

lemma ParseAddr_ipv4_string: "ParseAddr (ipv4_string [a, b, c, d]) = Some [a, b, c, d]"
proof -
  let ?P = "\<lambda>c. c \<in> {CHR ''.'', CHR '':'', CHR ''%''}"
  have none: "filter ?P (utoa n) = []" for n
    by (auto simp: filter_empty_conv utoa_no_char)
  have "filter ?P (ipv4_string [a, b, c, d]) = ''...''"
    by (simp add: ipv4_string_def none del: insert_iff) simp
  then show ?thesis
    by (simp add: ParseAddr_def parseIPv4Fields_string)
qed

lemma To4_ParseIP_IP_String: "length ip = 4 \<Longrightarrow> To4 (ParseIP (IP_String ip)) = ip"
proof -
  assume len: "length ip = 4"
  then obtain a b c d where ip: "ip = [a, b, c, d]"
    by (auto simp: length_Suc_conv eval_nat_numeral)
  have "IP_String ip = ipv4_string ip"
    using len by (auto simp: IP_String_def)
  then show ?thesis
    by (simp add: ParseIP_def ip ParseAddr_ipv4_string)
qed

lemma index_of_append:
  "c \<notin> set xs \<Longrightarrow> index_of c (xs @ c # ys) = Some (length xs)"
  by (induction xs) auto

lemma last_index_of_append:
  "c \<notin> set ys \<Longrightarrow> last_index_of c (xs @ c # ys) = Some (length xs)"
  using index_of_append [of c "rev ys" "rev xs"]
  by (simp add: last_index_of_def)

definition bracketless :: "string \<Rightarrow> bool" where
  "bracketless s \<longleftrightarrow> CHR ''['' \<notin> set s \<and> CHR '']'' \<notin> set s"

lemma SplitHostPort_JoinHostPort:
  assumes "bracketless host" and "bracketless port" and port: "CHR '':'' \<notin> set port"
  shows "SplitHostPort (JoinHostPort host port) = Some (host, port)"
proof (cases "CHR '':'' \<in> set host")
  case True
  let ?s = "CHR ''['' # host @ CHR '']'' # CHR '':'' # port"
  have s: "JoinHostPort host port = ?s" using True by (simp add: JoinHostPort_def)
  have "last_index_of CHR '':'' ?s = Some (length host + 2)"
    using last_index_of_append [OF port, of "CHR ''['' # host @ '']''"] by simp
  moreover have "index_of CHR '']'' ?s = Some (length host + 1)"
    using index_of_append [of "CHR '']''" "CHR ''['' # host" "CHR '':'' # port"] assms
    by (simp add: bracketless_def)
  ultimately show ?thesis
    using assms by (simp add: s SplitHostPort_def bracketless_def)
next
  case False
  let ?s = "host @ CHR '':'' # port"
  have s: "JoinHostPort host port = ?s" using False by (simp add: JoinHostPort_def)
  have "last_index_of CHR '':'' ?s = Some (length host)"
    by (rule last_index_of_append [OF port])
  moreover have "hd ?s \<noteq> CHR ''[''"
    using assms(1) by (cases host) (auto simp: bracketless_def)
  ultimately show ?thesis
    using assms False by (simp add: s SplitHostPort_def bracketless_def Let_def)
qed

lemma bracketless_utoa [simp]: "bracketless (utoa n)"
  by (simp add: bracketless_def utoa_no_char)

end
