(* ===== verification/Fake_Ip.thy ===== *)
theory Fake_Ip
  imports Lru_Cache Domain_Trie Go_Net
begin

text \<open>
  \<open>component/fakeip/pool.go\<close>: the pool that hands out an address of a configured network
  for every host name it is asked about. One LRU cache holds both directions, under a key per
  host and a key per offset (\<open>interface{}\<close> keys and values, here two datatypes); a pair of
  entries is written and touched together, so the cache evicts whole pairs.
\<close>

section \<open>State and operations\<close>

datatype pkey = KHost string | KOffset uint32

datatype pval = VIP IP | VHost string

record Pool =
  pool_max :: uint32
  pool_min :: uint32
  gateway :: uint32
  offset :: uint32
  host :: "bool Node option"
  ipnet :: IPNet
  pcache :: "(pkey, pval) LruCache"

definition ipToUint :: "IP \<Rightarrow> panic + uint32" where
  "ipToUint ip =
     (if length ip < 4 then Inl IndexOutOfRange
      else Inr (push_bit 24 (ucast (ip ! 0)) + push_bit 16 (ucast (ip ! 1)) +
                push_bit 8 (ucast (ip ! 2)) + ucast (ip ! 3)))"

definition uintToIP :: "uint32 \<Rightarrow> IP" where
  "uintToIP v = [ucast (drop_bit 24 v), ucast (drop_bit 16 v), ucast (drop_bit 8 v), ucast v]"

text \<open>
  The loop of \<open>get\<close>, which moves the offset on until it is back at \<open>current\<close> or finds one
  that is not in use. \<open>None\<close> would be a loop that does not end.
\<close>

partial_function (option) get_loop :: "uint32 \<Rightarrow> Pool \<Rightarrow> (panic + Pool) option" where
  "get_loop current p =
     (if pool_max p - pool_min p = 0 then Some (Inl DivideByZero)
      else let p1 = p\<lparr>offset := (offset p + 1) mod (pool_max p - pool_min p)\<rparr>
           in if offset p1 = current then Some (Inr p1)
              else if \<not> Exist (KOffset (offset p1)) (pcache p1) then Some (Inr p1)
              else get_loop current p1)"

definition pool_get :: "int \<Rightarrow> string \<Rightarrow> Pool \<Rightarrow> (panic + IP \<times> Pool) option" where
  "pool_get now h p =
     (case get_loop (offset p) p of
        None \<Rightarrow> None
      | Some (Inl e) \<Rightarrow> Some (Inl e)
      | Some (Inr p1) \<Rightarrow>
          Some (Inr (uintToIP (pool_min p1 + offset p1 - 1),
                     p1\<lparr>pcache := Set now (KOffset (offset p1)) (VHost h) (pcache p1)\<rparr>)))"

definition Lookup :: "int \<Rightarrow> string \<Rightarrow> Pool \<Rightarrow> (panic + IP \<times> Pool) option" where
  "Lookup now h p =
     (case Get now (KHost h) (pcache p) of
        (Some elm, c1) \<Rightarrow>
          (case elm of
             VHost _ \<Rightarrow> Some (Inl TypeAssertion)
           | VIP ip \<Rightarrow>
               (case ipToUint (To4 ip) of
                  Inl e \<Rightarrow> Some (Inl e)
                | Inr n \<Rightarrow>
                    let off = n - pool_min p + 1
                    in Some (Inr (ip, p\<lparr>pcache := snd (Get now (KOffset off) c1)\<rparr>))))
      | (None, c1) \<Rightarrow>
          (case pool_get now h (p\<lparr>pcache := c1\<rparr>) of
             None \<Rightarrow> None
           | Some (Inl e) \<Rightarrow> Some (Inl e)
           | Some (Inr (ip, p1)) \<Rightarrow>
               Some (Inr (ip, p1\<lparr>pcache := Set now (KHost h) (VIP ip) (pcache p1)\<rparr>))))"

definition LookBack :: "int \<Rightarrow> IP \<Rightarrow> Pool \<Rightarrow> panic + string option \<times> Pool" where
  "LookBack now ip0 p =
     (let ip = To4 ip0 in
      if ip = [] then Inr (None, p)
      else case ipToUint (To4 ip) of
             Inl e \<Rightarrow> Inl e
           | Inr n \<Rightarrow>
               let off = n - pool_min p + 1 in
               (case Get now (KOffset off) (pcache p) of
                  (Some elm, c1) \<Rightarrow>
                    (case elm of
                       VIP _ \<Rightarrow> Inl TypeAssertion
                     | VHost h \<Rightarrow> Inr (Some h, p\<lparr>pcache := snd (Get now (KHost h) c1)\<rparr>))
                | (None, c1) \<Rightarrow> Inr (None, p\<lparr>pcache := c1\<rparr>)))"

definition LookupHost :: "string \<Rightarrow> Pool \<Rightarrow> bool" where
  "LookupHost domain p =
     (case host p of None \<Rightarrow> False | Some t \<Rightarrow> Search domain t \<noteq> None)"

definition pool_Exist :: "IP \<Rightarrow> Pool \<Rightarrow> panic + bool" where
  "pool_Exist ip0 p =
     (let ip = To4 ip0 in
      if ip = [] then Inr False
      else case ipToUint (To4 ip) of
             Inl e \<Rightarrow> Inl e
           | Inr n \<Rightarrow> Inr (Exist (KOffset (n - pool_min p + 1)) (pcache p)))"

definition Gateway :: "Pool \<Rightarrow> IP" where
  "Gateway p = uintToIP (gateway p)"

definition PatchFrom :: "Pool \<Rightarrow> Pool \<Rightarrow> Pool" where
  "PatchFrom p other = p\<lparr>pcache := CloneTo (pcache other) (pcache p)\<rparr>"

datatype fakeip_error = ErrNoValidIP

text \<open>
  \<open>New\<close>: Go's \<open>int\<close> has 64 bits, so \<open>1 << (bits - ones)\<close> is 0 for a shift of 64
  or more.
\<close>

definition New_pool :: "IPNet \<Rightarrow> int \<Rightarrow> bool Node option \<Rightarrow> panic + (fakeip_error + Pool)" where
  "New_pool n sz h =
     (case ipToUint (NetIP n) of
        Inl e \<Rightarrow> Inl e
      | Inr v \<Rightarrow>
          let mn = v + 2;
              (ones, bits) = IPMask_Size (Mask n);
              total = push_bit (bits - ones) (1 :: 64 word) - 2
          in if sint total \<le> 0 then Inr (Inl ErrNoValidIP)
             else Inr (Inr \<lparr>pool_max = mn + ucast total - 1, pool_min = mn, gateway = mn - 1, offset = 0,
                            host = h, ipnet = n, pcache = NewLRUCache [WithSize (sz * 2)]\<rparr>))"

section \<open>Addresses and words\<close>

lemma uint32_bound: "unat (x :: uint32) < 4294967296"
proof -
  have "unat x < 2 ^ LENGTH(32)" by (rule unsigned_less)
  then show ?thesis by simp
qed

lemma ipToUint_uintToIP [simp]: "ipToUint (uintToIP v) = Inr v"
proof -
  let ?b = "\<lambda>k. push_bit k (ucast (ucast (drop_bit k v) :: byte)) :: uint32"
  have bits: "bit (?b k) n \<longleftrightarrow> k \<le> n \<and> n < k + 8 \<and> bit v n" if "k \<le> 24" for k n
    using that by (auto simp: bit_simps dest: bit_imp_le_length)
  have "?b 24 + ?b 16 = ?b 24 OR ?b 16"
    by (rule disjunctive_add) (simp add: bits; arith)
  moreover have "(?b 24 OR ?b 16) + ?b 8 = (?b 24 OR ?b 16) OR ?b 8"
    by (rule disjunctive_add) (simp add: bit_or_iff bits; arith)
  moreover have "((?b 24 OR ?b 16) OR ?b 8) + ?b 0 = ((?b 24 OR ?b 16) OR ?b 8) OR ?b 0"
    by (rule disjunctive_add) (simp only: bit_or_iff bits; linarith)
  moreover have "((?b 24 OR ?b 16) OR ?b 8) OR ?b 0 = v"
  proof (rule bit_word_eqI)
    fix n
    assume "n < LENGTH(32)"
    then have "n < 32" by simp
    then show "bit (((?b 24 OR ?b 16) OR ?b 8) OR ?b 0) n \<longleftrightarrow> bit v n"
      by (simp only: bit_or_iff bits) linarith
  qed
  ultimately show ?thesis by (simp add: ipToUint_def uintToIP_def)
qed

lemma uintToIP_ipToUint:
  assumes "length ip = 4"
  obtains v where "ipToUint ip = Inr v" and "ip = uintToIP v"
proof -
  obtain a b c d where ip: "ip = [a, b, c, d]"
    using assms by (auto simp: length_Suc_conv numeral_eq_Suc)
  let ?b = "\<lambda>k x. push_bit k (ucast (x :: byte)) :: uint32"
  have bits: "bit (?b k x) n \<longleftrightarrow> k \<le> n \<and> n < k + 8 \<and> bit x (n - k)" if "k \<le> 24" for k n x
    using that by (auto simp: bit_simps dest: bit_imp_le_length)
  define v where "v = ?b 24 a OR ?b 16 b OR ?b 8 c OR ?b 0 d"
  have "?b 24 a + ?b 16 b = ?b 24 a OR ?b 16 b"
    by (rule disjunctive_add) (simp only: bits; linarith)
  moreover have "(?b 24 a OR ?b 16 b) + ?b 8 c = (?b 24 a OR ?b 16 b) OR ?b 8 c"
    by (rule disjunctive_add) (simp only: bit_or_iff bits; linarith)
  moreover have "((?b 24 a OR ?b 16 b) OR ?b 8 c) + ?b 0 d = ((?b 24 a OR ?b 16 b) OR ?b 8 c) OR ?b 0 d"
    by (rule disjunctive_add) (simp only: bit_or_iff bits; linarith)
  ultimately have "ipToUint ip = Inr v"
    by (simp add: ipToUint_def ip v_def or.assoc)
  moreover have v: "bit v n \<longleftrightarrow> bit (?b 24 a) n \<or> bit (?b 16 b) n \<or> bit (?b 8 c) n \<or> bit (?b 0 d) n" for n
    by (simp only: v_def bit_or_iff)
  have "ucast (drop_bit k v) = x"
    if "k \<le> 24" "\<And>n. n < 8 \<Longrightarrow> bit v (k + n) \<longleftrightarrow> bit x n" for k and x :: byte
  proof (rule bit_word_eqI)
    fix n
    assume "n < LENGTH(8)"
    then have "n < 8" by simp
    with that(2) [of n] show "bit (ucast (drop_bit k v) :: byte) n \<longleftrightarrow> bit x n"
      by (simp add: bit_simps)
  qed
  from this [of 24 a] this [of 16 b] this [of 8 c] this [of 0 d]
  have "ip = uintToIP v" unfolding uintToIP_def ip v
    using bits [of 0] by (simp add: bits)
  ultimately show ?thesis by (rule that)
qed

lemma length_uintToIP [simp]: "length (uintToIP v) = 4"
  by (simp add: uintToIP_def)

lemma uintToIP_not_Nil [simp]: "uintToIP v \<noteq> []"
  by (simp add: uintToIP_def)

lemma To4_uintToIP [simp]: "To4 (uintToIP v) = uintToIP v"
  by simp

lemma uintToIP_inject [simp]: "uintToIP v = uintToIP w \<longleftrightarrow> v = w"
  by (metis ipToUint_uintToIP sum.inject(2))

section \<open>Pairs of entries in a recency store\<close>

definition flat :: "(('k \<times> 'v) \<times> ('k \<times> 'v)) list \<Rightarrow> ('k \<times> 'v) list" where
  "flat ps = concat (map (\<lambda>(a, b). [a, b]) ps)"

lemma flat_simps [simp]:
  "flat [] = []" "flat ((a, b) # ps) = a # b # flat ps" "flat (ps @ qs) = flat ps @ flat qs"
  by (simp_all add: flat_def)

lemma length_flat [simp]: "length (flat ps) = 2 * length ps"
  by (induction ps) auto

lemma set_flat: "set (flat ps) = fst ` set ps \<union> snd ` set ps"
  by (induction ps) auto

lemma tl_tl_flat: "ps \<noteq> [] \<Longrightarrow> tl (tl (flat ps)) = flat (tl ps)"
  by (cases ps) auto

lemma without_append [simp]: "without k (xs @ ys) = without k xs @ without k ys"
  by (simp add: without_def)

lemma without_Cons [simp]:
  "without k ((k', v) # xs) = (if k' = k then without k xs else (k', v) # without k xs)"
  by (simp add: without_def)

lemma without_notin: "k \<notin> fst ` set xs \<Longrightarrow> without k xs = xs"
  by (induction xs) (auto simp: without_def)

context recency_store
begin

lemma store_pair:
  assumes inv: "inv c" and items: "items c = flat ps"
    and fresh: "k1 \<notin> fst ` set (items c)" "k2 \<notin> fst ` set (items c)" "k1 \<noteq> k2"
    and cap: "cap = 2 * n" "0 < n"
  shows "items (store k2 v2 (store k1 v1 c)) =
         flat ((if length ps = n then tl ps else ps) @ [((k1, v1), (k2, v2))])"
proof (cases "length ps = n")
  case True
  then have ne: "ps \<noteq> []" using cap by auto
  have one: "items (store k1 v1 c) = tl (flat ps) @ [(k1, v1)]"
    using store_evicts [OF inv fresh(1)] items cap True by simp
  have "fst ` set (tl (flat ps)) \<subseteq> fst ` set (items c)"
    using items by (cases "flat ps") auto
  then have k2: "k2 \<notin> fst ` set (items (store k1 v1 c))"
    using fresh one by auto
  have len: "length (items (store k1 v1 c)) = cap"
    using one True cap by simp
  have "tl (flat ps) \<noteq> []" using ne by (cases ps) auto
  then show ?thesis
    using store_evicts [OF store_inv [OF inv] k2 len] one True ne by (simp add: tl_tl_flat)
next
  case False
  have le: "length (items c) < cap"
    using within_cap [OF inv] items cap False by simp
  have one: "items (store k1 v1 c) = flat ps @ [(k1, v1)]"
    using store_fresh [OF inv fresh(1) le] items by simp
  have k2: "k2 \<notin> fst ` set (items (store k1 v1 c))"
    using fresh items one by auto
  have "length (items (store k1 v1 c)) < cap"
    using one le items cap by simp
  from store_fresh [OF store_inv [OF inv] k2 this] one False show ?thesis by simp
qed

lemma touch_pair:
  assumes inv: "inv c" and items: "items c = flat (ps1 @ (a, b) # ps2)"
    and ab: "(a, b) = ((k1, v1), (k2, v2)) \<or> (a, b) = ((k2, v2), (k1, v1))"
  shows "fst (lookup k1 c) = Some v1"
    and "items (snd (lookup k2 (snd (lookup k1 c)))) = flat (ps1 @ ps2 @ [((k1, v1), (k2, v2))])"
proof -
  have dist: "distinct (map fst (items c))" by (rule keys_distinct [OF inv])
  have out: "k1 \<notin> fst ` set (flat ps1) \<and> k1 \<notin> fst ` set (flat ps2) \<and>
    k2 \<notin> fst ` set (flat ps1) \<and> k2 \<notin> fst ` set (flat ps2) \<and> k1 \<noteq> k2"
    using ab dist unfolding items by (elim disjE; simp; metis)
  have "(k1, v1) \<in> set (items c)" using ab items by auto
  from lookup_hit [OF inv this]
  have one: "fst (lookup k1 c) = Some v1"
    "items (snd (lookup k1 c)) = flat ps1 @ (k2, v2) # flat ps2 @ [(k1, v1)]"
    using ab out unfolding items by (auto simp: without_notin)
  from one(1) show "fst (lookup k1 c) = Some v1" .
  have "(k2, v2) \<in> set (items (snd (lookup k1 c)))" using one by simp
  from lookup_hit [OF lookup_inv [OF inv] this] one out
  show "items (snd (lookup k2 (snd (lookup k1 c)))) = flat (ps1 @ ps2 @ [((k1, v1), (k2, v2))])"
    by (simp add: without_notin)
qed

end

section \<open>The invariant of a pool\<close>

abbreviation pool_range :: "Pool \<Rightarrow> uint32" where
  "pool_range p \<equiv> pool_max p - pool_min p"

definition pool_addr :: "Pool \<Rightarrow> uint32 \<Rightarrow> IP" where
  "pool_addr p i = uintToIP (pool_min p + i - 1)"

text \<open>A host and its offset, in the order in which the last call touched the two entries.\<close>

definition link :: "Pool \<Rightarrow> uint32 \<Rightarrow> string \<Rightarrow> (pkey \<times> pval) \<times> (pkey \<times> pval) \<Rightarrow> bool" where
  "link p i h ab \<longleftrightarrow>
     ab = ((KOffset i, VHost h), (KHost h, VIP (pool_addr p i))) \<or>
     ab = ((KHost h, VIP (pool_addr p i)), (KOffset i, VHost h))"

definition linked :: "Pool \<Rightarrow> (pkey \<times> pval) \<times> (pkey \<times> pval) \<Rightarrow> bool" where
  "linked p ab \<longleftrightarrow> (\<exists>i h. i < pool_range p \<and> link p i h ab)"

definition pool_inv :: "nat \<Rightarrow> Pool \<Rightarrow> bool" where
  "pool_inv n p \<longleftrightarrow>
     lru_inv (2 * n) (pcache p) \<and> n < unat (pool_range p) \<and> offset p < pool_range p \<and>
     (\<exists>ps. lru_items (pcache p) = flat ps \<and> (\<forall>ab \<in> set ps. linked p ab))"

lemma unat_step:
  fixes x r :: uint32
  assumes "x < r"
  shows "unat ((x + 1) mod r) = (unat x + 1) mod unat r"
proof -
  have "unat x + 1 < 2 ^ LENGTH(32)"
    using assms uint32_bound [of r] by (simp add: word_less_nat_alt)
  then have "unat (x + 1) = unat x + 1"
    by (simp add: unat_word_ariths)
  then show ?thesis by (simp add: unat_mod_distrib)
qed

lemma mod_step_eq:
  fixes c r :: nat
  assumes "c < r" and "0 < j" and "j \<le> r"
  shows "(c + j) mod r = c \<longleftrightarrow> j = r"
proof
  assume eq: "(c + j) mod r = c"
  show "j = r"
  proof (cases "c + j < r")
    case False
    then have "(c + j) mod r = c + j - r" using assms by (simp add: mod_if)
    with eq assms False show ?thesis by linarith
  qed (use eq assms in simp)
qed (use assms in simp)

lemma mod_reaches:
  fixes c r x :: nat
  assumes "c < r" and "x < r"
  obtains j where "0 < j" and "j \<le> r" and "(c + j) mod r = x"
proof (cases "c < x")
  case True
  then show ?thesis using assms by (intro that [of "x - c"]) auto
next
  case False
  then have "c + (x + r - c) = x + r" using assms by simp
  then show ?thesis using assms False by (intro that [of "x + r - c"]) auto
qed

lemma get_loop_ends:
  assumes r: "r = unat (pool_range p)" and c: "c < r" "unat cur = c"
  shows "\<lbrakk>i < r; unat x = (c + i) mod r;
           \<forall>j. 0 < j \<and> j \<le> i \<longrightarrow> Exist (KOffset (of_nat ((c + j) mod r))) (pcache p)\<rbrakk>
         \<Longrightarrow> \<exists>y. get_loop cur (p\<lparr>offset := x\<rparr>) = Some (Inr (p\<lparr>offset := y\<rparr>)) \<and> y < pool_range p \<and>
           (Exist (KOffset y) (pcache p) \<longrightarrow> (\<forall>z < pool_range p. Exist (KOffset z) (pcache p)))"
proof (induction "r - i" arbitrary: i x rule: less_induct)
  case less
  define y where "y = (x + 1) mod pool_range p"
  have pos: "pool_range p \<noteq> 0" "0 < r" using r c by auto
  have xr: "x < pool_range p" using less.prems(2) pos r by (simp add: word_less_nat_alt)
  have y: "unat y = (c + Suc i) mod r"
    unfolding y_def unat_step [OF xr] less.prems(2) r [symmetric] by (simp add: mod_Suc_eq)
  then have yr: "y < pool_range p" using pos r by (simp add: word_less_nat_alt)
  have ycur: "y = cur \<longleftrightarrow> Suc i = r"
    using mod_step_eq [OF c(1), of "Suc i"] less.prems(1) y c(2) by (auto simp: word_unat_eq_iff)
  have yval: "of_nat ((c + Suc i) mod r) = y" unfolding y [symmetric] by simp
  have unroll: "get_loop cur (p\<lparr>offset := x\<rparr>) =
      (if y = cur \<or> \<not> Exist (KOffset y) (pcache p) then Some (Inr (p\<lparr>offset := y\<rparr>))
       else get_loop cur (p\<lparr>offset := y\<rparr>))"
    using pos by (subst get_loop.simps) (simp add: Let_def y_def)
  have used: "\<forall>j. 0 < j \<and> j \<le> Suc i \<longrightarrow> Exist (KOffset (of_nat ((c + j) mod r))) (pcache p)"
    if "Exist (KOffset y) (pcache p)"
    using less.prems(3) that yval by (auto simp: le_Suc_eq)
  show ?case
  proof (cases "Exist (KOffset y) (pcache p)")
    case False
    with unroll yr show ?thesis by auto
  next
    case True
    show ?thesis
    proof (cases "Suc i = r")
      case wrapped: True
      have "Exist (KOffset z) (pcache p)" if "z < pool_range p" for z
      proof -
        from that have "unat z < r" using r by (simp add: word_less_nat_alt)
        from mod_reaches [OF c(1) this] obtain j where "0 < j" "j \<le> r" "(c + j) mod r = unat z" .
        with used [OF True] wrapped have "Exist (KOffset (of_nat (unat z))) (pcache p)" by metis
        then show ?thesis by simp
      qed
      with unroll ycur wrapped yr show ?thesis by auto
    next
      case False
      with less.prems(1) have "Suc i < r" by simp
      with less.hyps [of "Suc i" y, OF _ _ y used [OF True]] ycur False True unroll
      show ?thesis by auto
    qed
  qed
qed

text \<open>The hosts a pool has an address for, with their offsets, the least recently used one first.\<close>

definition binding :: "pkey \<times> pval \<Rightarrow> (string \<times> uint32) option" where
  "binding kv = (case kv of (KOffset i, VHost h) \<Rightarrow> Some (h, i) | _ \<Rightarrow> None)"

definition bindings :: "Pool \<Rightarrow> (string \<times> uint32) list" where
  "bindings p = List.map_filter binding (lru_items (pcache p))"

lemma binding_simps [simp]:
  "binding (KOffset i, VHost h) = Some (h, i)" "binding (KHost h, v) = None"
  by (simp_all add: binding_def)

lemma map_filter_append [simp]:
  "List.map_filter f (xs @ ys) = List.map_filter f xs @ List.map_filter f ys"
  by (induction xs) (simp_all add: List.map_filter_simps split: option.split)

lemma binding_link [simp]: "link p i h (a, b) \<Longrightarrow> List.map_filter binding [a, b] = [(h, i)]"
  by (auto simp: link_def List.map_filter_simps)

lemma link_fields [simp]:
  "link (p\<lparr>pcache := c\<rparr>) i h ab = link p i h ab" "link (p\<lparr>offset := x\<rparr>) i h ab = link p i h ab"
  "linked (p\<lparr>pcache := c\<rparr>) ab = linked p ab" "linked (p\<lparr>offset := x\<rparr>) ab = linked p ab"
  "pool_addr (p\<lparr>pcache := c\<rparr>) i = pool_addr p i" "pool_addr (p\<lparr>offset := x\<rparr>) i = pool_addr p i"
  by (simp_all add: link_def linked_def pool_addr_def)

lemma linked_induct [consumes 1, case_names Nil Cons]:
  assumes "\<forall>ab \<in> set ps. linked p ab"
    and "P []"
    and "\<And>i h a b ps. i < pool_range p \<Longrightarrow> link p i h (a, b) \<Longrightarrow> \<forall>ab \<in> set ps. linked p ab \<Longrightarrow> P ps \<Longrightarrow> P ((a, b) # ps)"
  shows "P ps"
  using assms(1)
proof (induction ps)
  case (Cons ab ps)
  then obtain i h where "i < pool_range p" "link p i h ab" by (auto simp: linked_def)
  with assms(3) [of i h "fst ab" "snd ab" ps] Cons show ?case by simp
qed (rule assms(2))

lemma binding_Cons:
  "link p i h (a, b) \<Longrightarrow>
   List.map_filter binding (flat ((a, b) # ps)) = (h, i) # List.map_filter binding (flat ps)"
  by (auto simp: link_def List.map_filter_simps)

lemma length_bindings:
  "\<forall>ab \<in> set ps. linked p ab \<Longrightarrow> length (List.map_filter binding (flat ps)) = length ps"
  by (induction rule: linked_induct) (simp_all add: binding_Cons List.map_filter_simps del: flat_simps(2))

lemma bindings_link:
  "\<forall>ab \<in> set ps. linked p ab \<Longrightarrow>
   (h, i) \<in> set (List.map_filter binding (flat ps)) \<longleftrightarrow> (\<exists>ab \<in> set ps. link p i h ab)"
proof (induction rule: linked_induct)
  case (Cons j g a b ps)
  then have "link p i h (a, b) \<longleftrightarrow> i = j \<and> h = g" by (auto simp: link_def)
  with Cons show ?case by (auto simp: binding_Cons simp del: flat_simps(2))
qed (simp add: List.map_filter_simps)

lemma offset_keys:
  "\<forall>ab \<in> set ps. linked p ab \<Longrightarrow>
   KOffset i \<in> fst ` set (flat ps) \<longleftrightarrow> i \<in> snd ` set (List.map_filter binding (flat ps))"
proof (induction rule: linked_induct)
  case (Cons j g a b ps)
  then have "KOffset i \<in> {fst a, fst b} \<longleftrightarrow> i = j" by (auto simp: link_def)
  with Cons show ?case by (simp add: binding_Cons [OF Cons(2)] del: flat_simps(2)) (simp; blast)
qed (simp add: List.map_filter_simps)

lemma host_keys:
  "\<forall>ab \<in> set ps. linked p ab \<Longrightarrow>
   KHost h \<in> fst ` set (flat ps) \<longleftrightarrow> h \<in> fst ` set (List.map_filter binding (flat ps))"
proof (induction rule: linked_induct)
  case (Cons j g a b ps)
  then have "KHost h \<in> {fst a, fst b} \<longleftrightarrow> h = g" by (auto simp: link_def)
  with Cons show ?case by (simp add: binding_Cons [OF Cons(2)] del: flat_simps(2)) (simp; blast)
qed (simp add: List.map_filter_simps)

lemma pool_invE:
  assumes "pool_inv n p"
  obtains ps where "lru_inv (2 * n) (pcache p)" and "0 < n" and "n < unat (pool_range p)"
    and "offset p < pool_range p" and "lru_items (pcache p) = flat ps"
    and "\<forall>ab \<in> set ps. linked p ab"
  using assms that unfolding pool_inv_def lru_inv_def by auto

lemma distinct_bindings:
  assumes "pool_inv n p"
  shows "distinct (map fst (bindings p))" and "distinct (map snd (bindings p))"
    and "length (bindings p) \<le> n"
proof -
  from assms obtain ps where ps: "lru_inv (2 * n) (pcache p)" "lru_items (pcache p) = flat ps"
    "\<forall>ab \<in> set ps. linked p ab" by (elim pool_invE)
  have dist: "distinct (map fst (flat ps))" using bounded.keys_distinct [OF ps(1)] ps(2) by simp
  from ps(3) dist have "distinct (map fst (List.map_filter binding (flat ps))) \<and>
      distinct (map snd (List.map_filter binding (flat ps)))"
  proof (induction rule: linked_induct)
    case (Cons j g a b qs)
    have ks: "KOffset j \<in> {fst a, fst b}" "KHost g \<in> {fst a, fst b}"
      using Cons(2) by (auto simp: link_def)
    have "fst a \<notin> fst ` set (flat qs)" "fst b \<notin> fst ` set (flat qs)"
      using Cons.prems by auto
    with ks have "KOffset j \<notin> fst ` set (flat qs)" "KHost g \<notin> fst ` set (flat qs)"
      by (metis empty_iff insert_iff)+
    then have "j \<notin> snd ` set (List.map_filter binding (flat qs))"
      "g \<notin> fst ` set (List.map_filter binding (flat qs))"
      using offset_keys [OF Cons(3)] host_keys [OF Cons(3)] by auto
    with Cons show ?case by (simp add: binding_Cons [OF Cons(2)] del: flat_simps(2)) simp
  qed (simp add: List.map_filter_simps)
  then show "distinct (map fst (bindings p))" "distinct (map snd (bindings p))"
    by (simp_all add: bindings_def ps(2))
  have "length (flat ps) \<le> 2 * n" using bounded.within_cap [OF ps(1)] ps(2) by simp
  then show "length (bindings p) \<le> n" by (simp add: bindings_def ps(2) length_bindings [OF ps(3)])
qed

section \<open>What the operations do to the bindings\<close>

text \<open>A binding that a call has looked up goes to the end.\<close>

definition touch :: "'a \<Rightarrow> 'a list \<Rightarrow> 'a list" where
  "touch x xs = remove1 x xs @ [x]"

lemma pool_keys:
  assumes "pool_inv n p"
  shows "KOffset i \<in> fst ` set (lru_items (pcache p)) \<longleftrightarrow> i \<in> snd ` set (bindings p)"
    and "KHost h \<in> fst ` set (lru_items (pcache p)) \<longleftrightarrow> h \<in> fst ` set (bindings p)"
proof -
  from assms obtain ps where ps: "lru_items (pcache p) = flat ps" "\<forall>ab \<in> set ps. linked p ab"
    by (elim pool_invE)
  show "KOffset i \<in> fst ` set (lru_items (pcache p)) \<longleftrightarrow> i \<in> snd ` set (bindings p)"
    unfolding bindings_def ps(1) by (rule offset_keys [OF ps(2)])
  show "KHost h \<in> fst ` set (lru_items (pcache p)) \<longleftrightarrow> h \<in> fst ` set (bindings p)"
    unfolding bindings_def ps(1) by (rule host_keys [OF ps(2)])
qed

lemma pool_has_offset:
  assumes "pool_inv n p"
  shows "Exist (KOffset i) (pcache p) \<longleftrightarrow> i \<in> snd ` set (bindings p)"
proof -
  from assms have "lru_inv (2 * n) (pcache p)" by (simp add: pool_inv_def)
  from bounded.has_iff [OF this] pool_keys(1) [OF assms] show ?thesis by simp
qed

lemma offset_free:
  assumes inv: "pool_inv n p"
  shows "\<exists>y < pool_range p. \<not> Exist (KOffset y) (pcache p)"
proof (rule ccontr)
  let ?r = "unat (pool_range p)"
  assume "\<not> ?thesis"
  then have all: "y \<in> snd ` set (bindings p)" if "y < pool_range p" for y
    using that pool_has_offset [OF inv] by auto
  have "{..< ?r} \<subseteq> unat ` snd ` set (bindings p)"
  proof
    fix k
    assume k: "k \<in> {..< ?r}"
    then have "unat (of_nat k :: uint32) = k"
      using uint32_bound [of "pool_range p"] by (simp add: unat_of_nat)
    with k all [of "of_nat k"] show "k \<in> unat ` snd ` set (bindings p)"
      by (force simp: word_less_nat_alt)
  qed
  then have "?r \<le> card (unat ` snd ` set (bindings p))"
    by (metis card_lessThan card_mono finite_imageI List.finite_set)
  also have "\<dots> \<le> length (bindings p)"
    by (metis card_image_le card_length finite_imageI le_trans List.finite_set)
  also have "\<dots> \<le> n" by (rule distinct_bindings(3) [OF inv])
  also have "\<dots> < ?r" using inv by (simp add: pool_inv_def)
  finally show False by simp
qed

lemma pool_get_free:
  assumes inv: "pool_inv n p"
  obtains i where "i < pool_range p" and "i \<notin> snd ` set (bindings p)"
    and "get_loop (offset p) p = Some (Inr (p\<lparr>offset := i\<rparr>))"
proof -
  have off: "offset p < pool_range p" using inv by (simp add: pool_inv_def)
  then have "unat (offset p) < unat (pool_range p)" by (simp add: word_less_nat_alt)
  from get_loop_ends [OF refl this refl, of 0 "offset p"] this
  obtain i where i: "get_loop (offset p) p = Some (Inr (p\<lparr>offset := i\<rparr>))" "i < pool_range p"
    "Exist (KOffset i) (pcache p) \<longrightarrow> (\<forall>z < pool_range p. Exist (KOffset z) (pcache p))"
    by auto
  with offset_free [OF inv] have "\<not> Exist (KOffset i) (pcache p)" by blast
  with i that pool_has_offset [OF inv] show ?thesis by blast
qed

lemma touch_bindings:
  assumes "link p i h ab" and "(h, i) \<notin> set (List.map_filter binding (flat ps1))"
    and "link p i h ab'"
  shows "List.map_filter binding (flat (ps1 @ ps2 @ [ab'])) =
         touch (h, i) (List.map_filter binding (flat (ps1 @ ab # ps2)))"
proof -
  obtain a b a' b' where "ab = (a, b)" "ab' = (a', b')" by (cases ab; cases ab')
  with assms show ?thesis
    by (simp add: touch_def remove1_append binding_Cons [of p i h] List.map_filter_simps
        del: flat_simps(2))
qed

text \<open>
  The two shapes of call that find a binding: the entries are read in the order host, offset
  by \<open>Lookup\<close> and in the order offset, host by \<open>LookBack\<close>.
\<close>

lemma pool_touch:
  fixes now :: int
  assumes inv: "pool_inv n p" and b: "(h, i) \<in> set (bindings p)"
    and k: "k1 = KHost h \<and> v1 = VIP (pool_addr p i) \<and> k2 = KOffset i \<and> v2 = VHost h \<or>
            k1 = KOffset i \<and> v1 = VHost h \<and> k2 = KHost h \<and> v2 = VIP (pool_addr p i)"
  defines "p' \<equiv> p\<lparr>pcache := snd (Get now k2 (snd (Get now k1 (pcache p))))\<rparr>"
  shows "fst (Get now k1 (pcache p)) = Some v1" and "pool_inv n p'"
    and "bindings p' = touch (h, i) (bindings p)"
proof -
  from inv obtain ps where ps: "lru_inv (2 * n) (pcache p)" "n < unat (pool_range p)"
    "offset p < pool_range p" "lru_items (pcache p) = flat ps"
    "\<forall>ab \<in> set ps. linked p ab" by (elim pool_invE)
  from b obtain ab where ab: "ab \<in> set ps" "link p i h ab"
    using bindings_link [OF ps(5)] ps(4) by (auto simp: bindings_def)
  then obtain ps1 ps2 where split: "ps = ps1 @ ab # ps2" by (meson split_list)
  obtain a a' where pair: "ab = (a, a')" by (cases ab)
  have items: "lru_items (pcache p) = flat (ps1 @ (a, a') # ps2)"
    using ps(4) split pair by simp
  have shape: "(a, a') = ((k1, v1), (k2, v2)) \<or> (a, a') = ((k2, v2), (k1, v1))"
    using ab(2) k by (auto simp: link_def pair)
  note touched = bounded.touch_pair [OF ps(1) items shape, of now]
  show "fst (Get now k1 (pcache p)) = Some v1" by (rule touched(1))
  have new: "link p i h ((k1, v1), (k2, v2))" using k by (auto simp: link_def)
  have "i < pool_range p" using ab ps(5) by (auto simp: linked_def link_def)
  with new have "linked p ((k1, v1), (k2, v2))" by (auto simp: linked_def)
  moreover have "lru_inv (2 * n) (snd (Get now k2 (snd (Get now k1 (pcache p)))))"
    by (intro bounded.lookup_inv ps(1))
  ultimately show "pool_inv n p'"
    using ps touched(2) split unfolding pool_inv_def p'_def
    by (auto intro!: exI [of _ "ps1 @ ps2 @ [((k1, v1), (k2, v2))]"])
  have "distinct (map fst (List.map_filter binding (flat ps)))"
    using distinct_bindings(1) [OF inv] ps(4) by (simp add: bindings_def)
  then have "(h, i) \<notin> set (List.map_filter binding (flat ps1))"
    using binding_Cons [of p i h a a' ps2] ab(2) unfolding split pair flat_simps(3) by force
  from touch_bindings [OF ab(2) this new, of ps2] touched(2) split ps(4)
  show "bindings p' = touch (h, i) (bindings p)" by (simp add: bindings_def p'_def)
qed

lemma pool_addr_offset:
  "\<exists>v. ipToUint (To4 (pool_addr p i)) = Inr v \<and> v - pool_min p + 1 = i"
  by (simp add: pool_addr_def)

lemma Lookup_hit:
  assumes "pool_inv n p" and "(h, i) \<in> set (bindings p)"
  obtains c where "Lookup now h p = Some (Inr (pool_addr p i, p\<lparr>pcache := c\<rparr>))"
    and "pool_inv n (p\<lparr>pcache := c\<rparr>)" and "bindings (p\<lparr>pcache := c\<rparr>) = touch (h, i) (bindings p)"
proof -
  note t = pool_touch [OF assms, of "KHost h" "VIP (pool_addr p i)" "KOffset i" "VHost h" now]
  obtain c where c: "Get now (KHost h) (pcache p) = (Some (VIP (pool_addr p i)), c)"
    using t(1) by (cases "Get now (KHost h) (pcache p)") simp
  have "Lookup now h p = Some (Inr (pool_addr p i, p\<lparr>pcache := snd (Get now (KOffset i) c)\<rparr>))"
    unfolding Lookup_def c by (simp add: Let_def pool_addr_def)
  then show ?thesis by (rule that) (use t(2,3) c in simp_all)
qed

lemma LookBack_hit:
  assumes "pool_inv n p" and "(h, i) \<in> set (bindings p)" and ip: "To4 ip = pool_addr p i"
  obtains c where "LookBack now ip p = Inr (Some h, p\<lparr>pcache := c\<rparr>)"
    and "pool_inv n (p\<lparr>pcache := c\<rparr>)" and "bindings (p\<lparr>pcache := c\<rparr>) = touch (h, i) (bindings p)"
proof -
  note t = pool_touch [OF assms(1,2), of "KOffset i" "VHost h" "KHost h" "VIP (pool_addr p i)" now]
  obtain c where c: "Get now (KOffset i) (pcache p) = (Some (VHost h), c)"
    using t(1) by (cases "Get now (KOffset i) (pcache p)") simp
  have "LookBack now ip p = Inr (Some h, p\<lparr>pcache := snd (Get now (KHost h) c)\<rparr>)"
    unfolding LookBack_def ip using c by (simp add: Let_def pool_addr_def)
  then show ?thesis by (rule that) (use t(2,3) c in simp_all)
qed

lemma pool_inv_same_items:
  assumes "pool_inv n p" and "lru_inv (2 * n) c" and "lru_items c = lru_items (pcache p)"
  shows "pool_inv n (p\<lparr>pcache := c\<rparr>)" and "bindings (p\<lparr>pcache := c\<rparr>) = bindings p"
  using assms by (auto simp: pool_inv_def bindings_def)

lemma pool_Get_miss:
  assumes inv: "pool_inv n p" and k: "k \<notin> fst ` set (lru_items (pcache p))"
  obtains c where "Get now k (pcache p) = (None, c)" and "pool_inv n (p\<lparr>pcache := c\<rparr>)"
    and "bindings (p\<lparr>pcache := c\<rparr>) = bindings p" and "lru_items c = lru_items (pcache p)"
proof -
  from inv have lru: "lru_inv (2 * n) (pcache p)" by (simp add: pool_inv_def)
  obtain r c where rc: "Get now k (pcache p) = (r, c)" by (cases "Get now k (pcache p)")
  have "r = None" using bounded.lookup_val [OF lru, of now k] k rc
    by (simp add: map_of_eq_None_iff)
  moreover have items: "lru_items c = lru_items (pcache p)"
    using bounded.lookup_missing [OF lru k, of now] rc by simp
  moreover have "lru_inv (2 * n) c" using bounded.lookup_inv [OF lru, of now k] rc by simp
  ultimately show ?thesis using rc that pool_inv_same_items [OF inv] by auto
qed

lemma LookBack_miss:
  assumes inv: "pool_inv n p" and "\<forall>h i. To4 ip = pool_addr p i \<longrightarrow> (h, i) \<notin> set (bindings p)"
  obtains c where "LookBack now ip p = Inr (None, p\<lparr>pcache := c\<rparr>)"
    and "pool_inv n (p\<lparr>pcache := c\<rparr>)" and "bindings (p\<lparr>pcache := c\<rparr>) = bindings p"
proof (cases "To4 ip = []")
  case True
  then have "LookBack now ip p = Inr (None, p\<lparr>pcache := pcache p\<rparr>)" by (simp add: LookBack_def)
  then show ?thesis by (rule that) (simp_all add: inv)
next
  case False
  from uintToIP_ipToUint [OF To4_length [OF this]]
  obtain v where v: "ipToUint (To4 ip) = Inr v" "To4 ip = uintToIP v" .
  define i where "i = v - pool_min p + 1"
  have "To4 ip = pool_addr p i" by (simp add: v i_def pool_addr_def)
  with assms(2) have "i \<notin> snd ` set (bindings p)" by auto
  with pool_keys [OF inv] have "KOffset i \<notin> fst ` set (lru_items (pcache p))" by simp
  from pool_Get_miss [OF inv this]
  obtain c where c: "Get now (KOffset i) (pcache p) = (None, c)" "pool_inv n (p\<lparr>pcache := c\<rparr>)"
    "bindings (p\<lparr>pcache := c\<rparr>) = bindings p" .
  have "LookBack now ip p = Inr (None, p\<lparr>pcache := c\<rparr>)"
    unfolding LookBack_def using False v c(1) by (simp add: Let_def i_def)
  then show ?thesis by (rule that) (use c in simp_all)
qed

text \<open>Two states of one pool: only the offset and the cache move.\<close>

definition same_net :: "Pool \<Rightarrow> Pool \<Rightarrow> bool" where
  "same_net p q \<longleftrightarrow> (\<exists>x c. q = p\<lparr>offset := x, pcache := c\<rparr>)"

lemma same_net_simps:
  assumes "same_net p q"
  shows "pool_min q = pool_min p" "pool_max q = pool_max p" "pool_addr q i = pool_addr p i"
    "gateway q = gateway p"
  using assms by (auto simp: same_net_def pool_addr_def)

lemma same_net_cache [simp]: "same_net p (p\<lparr>pcache := c\<rparr>)"
  unfolding same_net_def by (rule exI [of _ "offset p"]) auto

lemma same_net_refl [simp]: "same_net p p"
  unfolding same_net_def by (rule exI [of _ "offset p"], rule exI [of _ "pcache p"]) simp

lemma same_net_trans: "same_net p q \<Longrightarrow> same_net q r \<Longrightarrow> same_net p r"
  by (auto simp: same_net_def) blast

lemma Lookup_miss:
  assumes inv: "pool_inv n p" and h: "h \<notin> fst ` set (bindings p)"
  obtains i p' where "Lookup now h p = Some (Inr (pool_addr p i, p'))"
    and "same_net p p'" and "pool_inv n p'"
    and "i < pool_range p" and "i \<notin> snd ` set (bindings p)"
    and "bindings p' = (if length (bindings p) = n then tl (bindings p) else bindings p) @ [(h, i)]"
proof -
  have "KHost h \<notin> fst ` set (lru_items (pcache p))" using pool_keys(2) [OF inv] h by simp
  from pool_Get_miss [OF inv this] obtain c where
    c: "Get now (KHost h) (pcache p) = (None, c)" "pool_inv n (p\<lparr>pcache := c\<rparr>)"
      "bindings (p\<lparr>pcache := c\<rparr>) = bindings p" "lru_items c = lru_items (pcache p)" .
  let ?q = "p\<lparr>pcache := c\<rparr>"
  from pool_get_free [OF c(2)] obtain i where
    i: "i < pool_range p" "i \<notin> snd ` set (bindings p)"
      "get_loop (offset p) ?q = Some (Inr (?q\<lparr>offset := i\<rparr>))" using c(3) by auto
  let ?c = "Set now (KHost h) (VIP (pool_addr p i)) (Set now (KOffset i) (VHost h) c)"
  let ?p = "p\<lparr>offset := i, pcache := ?c\<rparr>"
  have res: "Lookup now h p = Some (Inr (pool_addr p i, ?p))"
    unfolding Lookup_def pool_get_def using c(1) i(3) by (simp add: pool_addr_def)
  from c(2) obtain ps where ps: "lru_inv (2 * n) c" "0 < n" "n < unat (pool_range p)"
    "lru_items c = flat ps" "\<forall>ab \<in> set ps. linked p ab"
    by (auto elim: pool_invE)
  have len: "length ps = length (bindings p)"
    using length_bindings [OF ps(5)] c(4) ps(4) by (simp add: bindings_def)
  let ?ps = "(if length ps = n then tl ps else ps) @ [((KOffset i, VHost h), (KHost h, VIP (pool_addr p i)))]"
  have fresh: "KOffset i \<notin> fst ` set (lru_items c)" "KHost h \<notin> fst ` set (lru_items c)"
    using pool_keys [OF c(2)] c(3) i(2) h by auto
  have items: "lru_items ?c = flat ?ps"
    by (rule bounded.store_pair [OF ps(1,4) fresh _ refl ps(2)]) simp
  have sub: "set (tl ps) \<subseteq> set ps" by (cases ps) auto
  have new: "link p i h ((KOffset i, VHost h), (KHost h, VIP (pool_addr p i)))" by (simp add: link_def)
  have "linked p ab" if "ab \<in> set ?ps" for ab
    using that ps(5) sub new i(1) by (auto simp: linked_def split: if_splits)
  moreover have "lru_inv (2 * n) ?c" by (intro bounded.store_inv ps(1))
  ultimately have "pool_inv n ?p"
    unfolding pool_inv_def using items ps(3) i(1) by (auto intro!: exI [of _ ?ps])
  moreover have "bindings ?p = (if length (bindings p) = n then tl (bindings p) else bindings p) @ [(h, i)]"
  proof -
    have tl: "List.map_filter binding (flat (tl ps)) = tl (List.map_filter binding (flat ps))"
      using ps(5) by (cases rule: linked_induct)
        (simp_all add: binding_Cons List.map_filter_simps(2) del: flat_simps(2))
    show ?thesis
      unfolding bindings_def len [symmetric] using items c(4) ps(4) len tl
      by (simp add: bindings_def List.map_filter_simps)
  qed
  moreover have "same_net p ?p" unfolding same_net_def by blast
  ultimately show ?thesis using res i that by simp
qed

lemma bindings_range:
  assumes "pool_inv n p" and "(h, i) \<in> set (bindings p)"
  shows "i < pool_range p"
proof -
  from assms obtain ps where ps: "lru_items (pcache p) = flat ps" "\<forall>ab \<in> set ps. linked p ab"
    by (elim pool_invE)
  with assms(2) obtain ab where "ab \<in> set ps" "link p i h ab"
    using bindings_link [OF ps(2)] by (auto simp: bindings_def)
  with ps(2) show ?thesis by (auto simp: linked_def link_def)
qed

section \<open>Runs of a pool\<close>

text \<open>A caller's use of a pool: a sequence of look-ups in both directions, each at its own time.\<close>

datatype pool_op = DoLookup string | DoLookBack IP

fun pool_step :: "int \<Rightarrow> pool_op \<Rightarrow> Pool \<Rightarrow> (panic + Pool) option" where
  "pool_step now (DoLookup h) p = map_option (map_sum id snd) (Lookup now h p)"
| "pool_step now (DoLookBack ip) p = Some (map_sum id snd (LookBack now ip p))"

fun pool_run :: "(int \<times> pool_op) list \<Rightarrow> Pool \<Rightarrow> (panic + Pool) option" where
  "pool_run [] p = Some (Inr p)"
| "pool_run ((now, op) # ops) p =
     (case pool_step now op p of
        None \<Rightarrow> None
      | Some (Inl e) \<Rightarrow> Some (Inl e)
      | Some (Inr p1) \<Rightarrow> pool_run ops p1)"

text \<open>What one call does to the bindings: nothing, a touch, or a new one that may evict the oldest.\<close>

definition bindings_step :: "nat \<Rightarrow> (string \<times> uint32) list \<Rightarrow> (string \<times> uint32) list \<Rightarrow> bool" where
  "bindings_step n bs bs' \<longleftrightarrow>
     bs' = bs \<or> (\<exists>b \<in> set bs. bs' = touch b bs) \<or>
     (\<exists>b. bs' = (if length bs = n then tl bs else bs) @ [b])"

lemma pool_step_inv:
  assumes "pool_inv n p"
  obtains p' where "pool_step now op p = Some (Inr p')" and "pool_inv n p'" and "same_net p p'"
    and "bindings_step n (bindings p) (bindings p')"
proof (cases op)
  case (DoLookup h)
  show ?thesis
  proof (cases "h \<in> fst ` set (bindings p)")
    case True
    then obtain i where i: "(h, i) \<in> set (bindings p)" by auto
    from Lookup_hit [OF assms this, of now] obtain c where
      "Lookup now h p = Some (Inr (pool_addr p i, p\<lparr>pcache := c\<rparr>))" "pool_inv n (p\<lparr>pcache := c\<rparr>)"
      "bindings (p\<lparr>pcache := c\<rparr>) = touch (h, i) (bindings p)" .
    with i show ?thesis using that [of "p\<lparr>pcache := c\<rparr>"] DoLookup by (auto simp: bindings_step_def)
  next
    case False
    from Lookup_miss [OF assms this, of now] obtain i p' where
      "Lookup now h p = Some (Inr (pool_addr p i, p'))" "same_net p p'" "pool_inv n p'"
      "bindings p' = (if length (bindings p) = n then tl (bindings p) else bindings p) @ [(h, i)]" .
    then show ?thesis using that [of p'] DoLookup unfolding bindings_step_def by simp
  qed
next
  case (DoLookBack ip)
  show ?thesis
  proof (cases "\<exists>h i. To4 ip = pool_addr p i \<and> (h, i) \<in> set (bindings p)")
    case True
    then obtain h i where hi: "To4 ip = pool_addr p i" "(h, i) \<in> set (bindings p)" by auto
    from LookBack_hit [OF assms this(2,1), of now] obtain c where
      "LookBack now ip p = Inr (Some h, p\<lparr>pcache := c\<rparr>)" "pool_inv n (p\<lparr>pcache := c\<rparr>)"
      "bindings (p\<lparr>pcache := c\<rparr>) = touch (h, i) (bindings p)" .
    with hi(2) show ?thesis using that DoLookBack by (auto simp: bindings_step_def)
  next
    case False
    with LookBack_miss [OF assms, of ip now] obtain c where
      "LookBack now ip p = Inr (None, p\<lparr>pcache := c\<rparr>)" "pool_inv n (p\<lparr>pcache := c\<rparr>)"
      "bindings (p\<lparr>pcache := c\<rparr>) = bindings p" by blast
    then show ?thesis using that DoLookBack by (simp add: bindings_step_def)
  qed
qed

definition recent :: "'a \<Rightarrow> 'a list \<Rightarrow> nat \<Rightarrow> bool" where
  "recent b bs m \<longleftrightarrow> (\<exists>xs ys. bs = xs @ b # ys \<and> length ys \<le> m)"

lemma recent_touch:
  assumes "recent b bs m"
  shows "recent b (touch c bs) (Suc m)"
proof -
  from assms obtain xs ys where bs: "bs = xs @ b # ys" "length ys \<le> m" by (auto simp: recent_def)
  show ?thesis
  proof (cases "c = b")
    case True
    then show ?thesis unfolding recent_def touch_def by (metis le0 list.size(3))
  next
    case False
    show ?thesis
    proof (cases "c \<in> set xs")
      case True
      then have "touch c bs = remove1 c xs @ b # (ys @ [c])" by (simp add: bs touch_def remove1_append)
      with bs(2) show ?thesis unfolding recent_def by (metis Suc_le_mono length_append_singleton)
    next
      case out: False
      with False have "touch c bs = xs @ b # (remove1 c ys @ [c])"
        by (simp add: bs touch_def remove1_append)
      moreover have "length (remove1 c ys @ [c]) \<le> Suc m" using bs(2) by (auto simp: length_remove1)
      ultimately show ?thesis unfolding recent_def by blast
    qed
  qed
qed

lemma recent_step:
  assumes "recent b bs m" and "Suc m < n" and "bindings_step n bs bs'"
  shows "recent b bs' (Suc m)"
proof -
  from assms(1) obtain xs ys where bs: "bs = xs @ b # ys" "length ys \<le> m" by (auto simp: recent_def)
  from assms(3) consider "bs' = bs" | c where "bs' = touch c bs"
    | c where "bs' = (if length bs = n then tl bs else bs) @ [c]"
    unfolding bindings_step_def by blast
  then show ?thesis
  proof cases
    case 1
    with bs show ?thesis unfolding recent_def by (metis le_SucI)
  next
    case 2
    with recent_touch [OF assms(1)] show ?thesis by simp
  next
    case 3
    have "\<exists>xs'. (if length bs = n then tl bs else bs) = xs' @ b # ys"
    proof (cases xs)
      case Nil
      with bs assms(2) show ?thesis by auto
    qed (use bs in auto)
    then obtain xs' where "bs' = xs' @ b # (ys @ [c])" using 3 by auto
    with bs(2) show ?thesis unfolding recent_def by (metis Suc_le_mono length_append_singleton)
  qed
qed

lemma pool_run_inv:
  assumes "pool_inv n p"
  obtains p' where "pool_run ops p = Some (Inr p')" and "pool_inv n p'" and "same_net p p'"
  using assms
proof (induction ops arbitrary: p thesis)
  case Nil
  then show ?case by simp
next
  case (Cons x ops)
  obtain now op where x: "x = (now, op)" by (cases x)
  from pool_step_inv [OF Cons.prems(2), of now op] obtain p1 where
    p1: "pool_step now op p = Some (Inr p1)" "pool_inv n p1" "same_net p p1" .
  from Cons.IH [OF _ p1(2)] obtain p' where
    "pool_run ops p1 = Some (Inr p')" "pool_inv n p'" "same_net p1 p'" by blast
  with p1 x show ?case by (intro Cons.prems(1) [of p']) (auto intro: same_net_trans)
qed

lemma push_bit_total:
  assumes "2 \<le> k" "k \<le> 32"
  shows "sint (push_bit k (1 :: 64 word) - 2) = 2 ^ k - 2"
    and "unat (ucast (push_bit k (1 :: 64 word) - 2) - 1 :: uint32) = 2 ^ k - 3"
proof -
  have "\<forall>k \<in> set [2 ..< 33]. sint (push_bit k (1 :: 64 word) - 2) = 2 ^ k - 2 \<and>
      unat (ucast (push_bit k (1 :: 64 word) - 2) - 1 :: uint32) = 2 ^ k - 3"
    by (simp add: upt_rec_numeral)
  moreover have "k \<in> set [2 ..< 33]" using assms by (simp only: set_upt atLeastLessThan_iff) simp
  ultimately show "sint (push_bit k (1 :: 64 word) - 2) = 2 ^ k - 2"
    and "unat (ucast (push_bit k (1 :: 64 word) - 2) - 1 :: uint32) = 2 ^ k - 3" by blast+
qed

lemma New_pool_ok:
  assumes "ipToUint (NetIP net) = Inr b" and "IPMask_Size (Mask net) = (ones, bits)"
    and "bits - ones = k" "2 \<le> k" "k \<le> 32"
  obtains p where "New_pool net sz h = Inr (Inr p)" and "pool_min p = b + 2" and "gateway p = b + 1"
    and "offset p = 0" and "unat (pool_range p) = 2 ^ k - 3"
    and "pcache p = NewLRUCache [WithSize (sz * 2)]"
proof -
  have "(4::int) \<le> 2 ^ k" using power_increasing [OF assms(4), of "2::int"] by simp
  then have "\<not> sint (push_bit k (1 :: 64 word) - 2) \<le> 0"
    using push_bit_total(1) [OF assms(4,5)] by simp
  moreover have "unat (b + 2 + ucast (push_bit k (1 :: 64 word) - 2) - 1 - (b + 2)) = 2 ^ k - 3"
    using push_bit_total(2) [OF assms(4,5)] by (simp add: algebra_simps)
  ultimately show ?thesis
    using that assms(1-3) by (simp add: New_pool_def Let_def)
qed

lemma New_pool_inv:
  assumes "pcache p = NewLRUCache [WithSize (sz * 2)]" and "0 < sz" and "nat sz < unat (pool_range p)"
    and "offset p = 0"
  shows "pool_inv (nat sz) p" and "bindings p = []"
proof -
  have "offset p < pool_range p" using assms(3,4) by (simp add: word_less_nat_alt)
  moreover have "lru_inv (2 * nat sz) (pcache p)"
    unfolding assms(1) lru_inv_def using assms(2)
    by (auto simp: NewLRUCache_wf) (simp_all add: NewLRUCache_def)
  moreover have "lru_items (pcache p) = flat []" by (simp add: lru_items_def assms(1))
  ultimately show "pool_inv (nat sz) p" "bindings p = []"
    using assms(3) unfolding pool_inv_def bindings_def
    by (auto simp: List.map_filter_simps intro!: exI [of _ "[]"])
qed

lemma pool_run_recent:
  assumes "pool_inv n p" and "recent b (bindings p) m" and "m + length ops < n"
    and "pool_run ops p = Some (Inr p')"
  shows "recent b (bindings p') (m + length ops)"
  using assms
proof (induction ops arbitrary: p m)
  case (Cons x ops)
  obtain now op where x: "x = (now, op)" by (cases x)
  from pool_step_inv [OF Cons.prems(1), of now op] obtain p1 where
    p1: "pool_step now op p = Some (Inr p1)" "pool_inv n p1" "bindings_step n (bindings p) (bindings p1)" .
  have "recent b (bindings p1) (Suc m)"
    using recent_step [OF Cons.prems(2) _ p1(3)] Cons.prems(3) by simp
  from Cons.IH [OF p1(2) this] Cons.prems(3,4) p1(1) x show ?case by simp
qed simp

lemma Lookup_ok:
  assumes inv: "pool_inv n q"
  obtains i q' where "Lookup now name q = Some (Inr (pool_addr q i, q'))" and "pool_inv n q'"
    and "recent (name, i) (bindings q') 0" and "i < pool_range q" and "same_net q q'"
    and "(name, i) \<in> set (bindings q) \<or> name \<notin> fst ` set (bindings q) \<and> i \<notin> snd ` set (bindings q)"
proof (cases "name \<in> fst ` set (bindings q)")
  case True
  then obtain i where i: "(name, i) \<in> set (bindings q)" by auto
  from Lookup_hit [OF inv i, of now] obtain c where
    "Lookup now name q = Some (Inr (pool_addr q i, q\<lparr>pcache := c\<rparr>))"
    "pool_inv n (q\<lparr>pcache := c\<rparr>)" "bindings (q\<lparr>pcache := c\<rparr>) = touch (name, i) (bindings q)" .
  then show ?thesis using bindings_range [OF inv i] i
    by (intro that [of i "q\<lparr>pcache := c\<rparr>"]) (simp_all add: touch_def recent_def)
next
  case False
  from Lookup_miss [OF inv this, of now] obtain i q' where
    "Lookup now name q = Some (Inr (pool_addr q i, q'))" "same_net q q'"
    "pool_inv n q'" "i < pool_range q" "i \<notin> snd ` set (bindings q)"
    "bindings q' = (if length (bindings q) = n then tl (bindings q) else bindings q) @ [(name, i)]" .
  with False show ?thesis by (intro that [of i q']) (simp_all add: recent_def)
qed

lemma recent_in: "recent b bs m \<Longrightarrow> b \<in> set bs"
  by (auto simp: recent_def)

text \<open>
  A pool over an IPv4 network with \<open>k\<close> host bits, used by any sequence of calls, keeps its
  invariant: no call panics, and none loops for ever.
\<close>

lemma pool_run_ok:
  assumes "ipToUint (NetIP net) = Inr b" and "IPMask_Size (Mask net) = (ones, bits)"
    and "bits - ones = k" "k \<le> 32" and "0 < sz" and "sz < 2 ^ k - 3"
  obtains p q where "New_pool net sz h = Inr (Inr p)" and "pool_run ops p = Some (Inr q)"
    and "pool_inv (nat sz) q" and "pool_min q = b + 2" and "gateway q = b + 1"
    and "unat (pool_range q) = 2 ^ k - 3"
proof -
  have k: "2 \<le> k"
  proof (rule ccontr)
    assume "\<not> 2 \<le> k"
    then have "(2::int) ^ k \<le> 2 ^ 1" by (intro power_increasing) simp_all
    with assms(5,6) show False by simp
  qed
  from New_pool_ok [OF assms(1-3) k assms(4), of sz h] obtain p where
    p: "New_pool net sz h = Inr (Inr p)" "pool_min p = b + 2" "gateway p = b + 1" "offset p = 0"
      "unat (pool_range p) = 2 ^ k - 3" "pcache p = NewLRUCache [WithSize (sz * 2)]" .
  have "nat sz < unat (pool_range p)"
  proof -
    have "(3::nat) \<le> 2 ^ k" using power_increasing [OF k, of "2::nat"] by simp
    then have "int (2 ^ k - 3) = 2 ^ k - 3" by (simp add: of_nat_diff)
    with assms(5,6) show ?thesis unfolding p(5) by (simp add: nat_less_iff)
  qed
  from pool_run_inv [OF New_pool_inv(1) [OF p(6) assms(5) this p(4)], of ops] obtain q where
    "pool_run ops p = Some (Inr q)" "pool_inv (nat sz) q" "same_net p q" .
  with p that same_net_simps [of p q] show ?thesis by simp
qed

lemma pool_runD:
  assumes "ipToUint (NetIP net) = Inr b" and "IPMask_Size (Mask net) = (ones, bits)"
    and "bits - ones \<le> 32" and "0 < sz" and "sz < 2 ^ (bits - ones) - 3"
    and "New_pool net sz h = Inr (Inr p)" and "pool_run ops p = Some (Inr q)"
  shows "pool_inv (nat sz) q"
proof -
  from pool_run_ok [OF assms(1,2) refl assms(3-5), of h ops] obtain p' q' where
    "New_pool net sz h = Inr (Inr p')" "pool_run ops p' = Some (Inr q')" "pool_inv (nat sz) q'" .
  with assms(6,7) show ?thesis by simp
qed

lemma LookupE:
  assumes "pool_inv n q" and "Lookup now name q = Some (Inr (ip, q'))"
  obtains i where "ip = pool_addr q i" and "pool_inv n q'" and "recent (name, i) (bindings q') 0"
    and "same_net q q'"
    and "(name, i) \<in> set (bindings q) \<or> name \<notin> fst ` set (bindings q) \<and> i \<notin> snd ` set (bindings q)"
proof -
  from Lookup_ok [OF assms(1), of now name] obtain i r where
    "Lookup now name q = Some (Inr (pool_addr q i, r))" "pool_inv n r"
    "recent (name, i) (bindings r) 0" "i < pool_range q" "same_net q r"
    "(name, i) \<in> set (bindings q) \<or> name \<notin> fst ` set (bindings q) \<and> i \<notin> snd ` set (bindings q)" .
  with assms(2) show ?thesis by (intro that [of i]) simp_all
qed

lemma Lookup_total:
  assumes "pool_inv n q"
  obtains ip q' where "Lookup now name q = Some (Inr (ip, q'))" and "pool_inv n q'"
  using Lookup_ok [OF assms, of now name] that by metis

lemma bindings_unique:
  assumes "pool_inv n q" and "(h1, i) \<in> set (bindings q)" and "(h2, i) \<in> set (bindings q)"
  shows "h1 = h2"
  using distinct_bindings(2) [OF assms(1)] assms(2,3)
    inj_onD [of snd "set (bindings q)" "(h1, i)" "(h2, i)"] by (simp add: distinct_map)

text \<open>The network 192.168.0.0/29, with a pool of two hosts, for the concrete runs below.\<close>

definition small_net :: IPNet where
  "small_net = \<lparr>NetIP = [192, 168, 0, 0], Mask = [255, 255, 255, 248]\<rparr>"

lemma small_net_facts:
  "ipToUint (NetIP small_net) = Inr 3232235520" "IPMask_Size (Mask small_net) = (29, 32)"
  "(32 :: nat) - 29 \<le> 32" "(0 :: int) < 2" "(2 :: int) < 2 ^ (32 - 29) - 3"
  by (simp add: small_net_def ipToUint_def, code_simp, simp_all)

lemma small_net_run:
  obtains p q where "New_pool small_net 2 None = Inr (Inr p)" and "pool_run ops p = Some (Inr q)"
    and "pool_inv 2 q"
proof -
  from pool_run_ok [OF small_net_facts(1,2) refl small_net_facts(3-5), of None ops] obtain p q where
    "New_pool small_net 2 None = Inr (Inr p)" "pool_run ops p = Some (Inr q)" "pool_inv (nat 2) q" .
  then show ?thesis by (intro that) simp_all
qed

section \<open>Properties\<close>







text \<open>
  In a pool over a /30 network every host looked up first gets the address that
  \<open>Gateway\<close> returns; offset 0, which the loop of \<open>get\<close> reaches by wrapping around, is
  the gateway.
\<close>

theorem fakeip_hands_out_gateway:
  assumes "ipToUint (NetIP net) = Inr b" and "IPMask_Size (Mask net) = (30, 32)"
  shows "\<exists>p q. New_pool net sz h = Inr (Inr p) \<and> Lookup now name p = Some (Inr (Gateway p, q))"
proof -
  from New_pool_ok [OF assms refl, of sz h] obtain p where
    p: "New_pool net sz h = Inr (Inr p)" "pool_min p = b + 2" "gateway p = b + 1" "offset p = 0"
      "unat (pool_range p) = 1" "pcache p = NewLRUCache [WithSize (sz * 2)]" by auto
  have range: "pool_range p = 1" using p(5) by (metis unat_1 word_unat_eq_iff)
  obtain c where c: "Get now (KHost name) (pcache p) = (None, c)"
  proof -
    have "cache (pcache p) (KHost name) = None" by (simp add: p(6) NewLRUCache_def)
    then have "Get now (KHost name) (pcache p) = (None, pcache p)" by (simp add: Get_def get_def)
    then show ?thesis by (rule that)
  qed
  have "get_loop 0 (p\<lparr>pcache := c\<rparr>) = Some (Inr (p\<lparr>offset := 0, pcache := c\<rparr>))"
    using range by (subst get_loop.simps) (simp add: p(4))
  then show ?thesis
    unfolding Lookup_def pool_get_def Gateway_def using c p by simp
qed

theorem fakeip_hands_out_gateway_witness:
  "\<exists>p q. New_pool \<lparr>NetIP = [10, 0, 0, 0], Mask = [255, 255, 255, 252]\<rparr> 10 None = Inr (Inr p) \<and>
     Lookup 0 ''foo.com'' p = Some (Inr (Gateway p, q))"
  by (rule fakeip_hands_out_gateway) (simp_all add: ipToUint_def, code_simp)

end
