(* ===== verification/Metadata.thy ===== *)
theory Metadata
  imports Go_Net
begin

text \<open>
  \<open>constant/metadata.go\<close>, \<open>constant/rule.go\<close>, \<open>tunnel/mode.go\<close> and \<open>log/level.go\<close>: the
  description of a connection that every part of the proxy passes on, the kinds of rules, the
  modes of the tunnel and the levels of the log.

  The constants of \<open>metadata.go\<close> share one \<open>const\<close> block, so \<open>iota\<close> counts on across the three
  groups: the networks start at 3 and the types at 5. \<open>NetWork\<close>, \<open>Type\<close> and \<open>AddrType\<close> stay
  integers, since a field that was never set is 0.
\<close>

section \<open>metadata.go\<close>

definition AtypIPv4 :: int where "AtypIPv4 = 1"

definition AtypDomainName :: int where "AtypDomainName = 3"

definition AtypIPv6 :: int where "AtypIPv6 = 4"

definition TCP :: int where "TCP = 3"

definition UDP :: int where "UDP = 4"

definition HTTP :: int where "HTTP = 5"

definition HTTPCONNECT :: int where "HTTPCONNECT = 6"

definition SOCKS4 :: int where "SOCKS4 = 7"

definition SOCKS5 :: int where "SOCKS5 = 8"

definition REDIR :: int where "REDIR = 9"

definition TPROXY :: int where "TPROXY = 10"

definition WINTUN :: int where "WINTUN = 11"

lemmas metadata_consts =
  AtypIPv4_def AtypDomainName_def AtypIPv6_def TCP_def UDP_def HTTP_def HTTPCONNECT_def
  SOCKS4_def SOCKS5_def REDIR_def TPROXY_def WINTUN_def

definition NetWork_String :: "int \<Rightarrow> string" where
  "NetWork_String n = (if n = TCP then ''tcp'' else ''udp'')"

definition Type_String :: "int \<Rightarrow> string" where
  "Type_String t =
     (if t = AtypIPv4 then ''IPv4''
      else if t = AtypDomainName then ''DomainName''
      else if t = AtypIPv6 then ''IPv6''
      else if t = HTTP then ''HTTP''
      else if t = HTTPCONNECT then ''HTTP Connect''
      else if t = SOCKS4 then ''Socks4''
      else if t = SOCKS5 then ''Socks5''
      else if t = REDIR then ''Redir''
      else if t = TPROXY then ''TProxy''
      else if t = WINTUN then ''TUN''
      else ''Unknown'')"

record Metadata =
  NetWork :: int
  Type :: int
  SrcIP :: IP
  DstIP :: IP
  SrcPort :: string
  DstPort :: string
  AddrType :: int
  Host :: string

record UDPAddr =
  AddrIP :: IP
  AddrPort :: int

definition Metadata_String :: "Metadata \<Rightarrow> string" where
  "Metadata_String m =
     (if Host m \<noteq> [] then Host m
      else if DstIP m \<noteq> [] then IP_String (DstIP m)
      else ''<nil>'')"

definition RemoteAddress :: "Metadata \<Rightarrow> string" where
  "RemoteAddress m = JoinHostPort (Metadata_String m) (DstPort m)"

definition SourceAddress :: "Metadata \<Rightarrow> string" where
  "SourceAddress m = JoinHostPort (IP_String (SrcIP m)) (SrcPort m)"

definition Resolved :: "Metadata \<Rightarrow> bool" where
  "Resolved m \<longleftrightarrow> DstIP m \<noteq> []"

text \<open>\<open>port, _ := strconv.Atoi (...)\<close>: the port is 0 when the text is not a number.\<close>

definition Metadata_UDPAddr :: "Metadata \<Rightarrow> UDPAddr option" where
  "Metadata_UDPAddr m =
     (if NetWork m \<noteq> UDP \<or> DstIP m = [] then None
      else Some \<lparr>AddrIP = DstIP m, AddrPort = Atoi_value (DstPort m)\<rparr>)"

definition InfoKey :: "Metadata \<Rightarrow> string" where
  "InfoKey m =
     IP_String (SrcIP m) @ ''->'' @ IP_String (DstIP m) @ '':'' @ DstPort m @ '' host:'' @ Host m @
     '' Type:'' @ Type_String (Type m) @ '' AddrType:'' @ Itoa (AddrType m) @
     '' NetWork:'' @ NetWork_String (NetWork m)"

definition DstAddr :: "Metadata \<Rightarrow> string" where
  "DstAddr m =
     (if DstIP m \<noteq> [] then IP_String (DstIP m)
      else if Host m \<noteq> [] then Host m
      else ''<nil>'')"

definition Valid :: "Metadata \<Rightarrow> bool" where
  "Valid m \<longleftrightarrow> Host m \<noteq> [] \<or> DstIP m \<noteq> []"

section \<open>rule.go: the kinds of rules\<close>

text \<open>The constants of package \<open>constant\<close>, which the code refers to as \<open>C.Domain\<close> and so on.\<close>

datatype RuleType =
  C_Domain | C_DomainSuffix | C_DomainKeyword | C_GEOIP | C_IPCIDR | C_SrcIPCIDR | C_SrcPort
| C_DstPort | C_Process | C_MATCH | C_ALLIP | C_DomainDstPort | C_DomainSrcPort | C_DstIPPort

fun RuleType_String :: "RuleType \<Rightarrow> string" where
  "RuleType_String C_Domain = ''DOMAIN''"
| "RuleType_String C_DomainSuffix = ''DOMAIN-SUFFIX''"
| "RuleType_String C_DomainKeyword = ''DOMAIN-KEYWORD''"
| "RuleType_String C_GEOIP = ''GEOIP''"
| "RuleType_String C_IPCIDR = ''IP-CIDR''"
| "RuleType_String C_SrcIPCIDR = ''SRC-IP-CIDR''"
| "RuleType_String C_SrcPort = ''SRC-PORT''"
| "RuleType_String C_DstPort = ''DST-PORT''"
| "RuleType_String C_Process = ''PROCESS-NAME''"
| "RuleType_String C_MATCH = ''MATCH''"
| "RuleType_String C_ALLIP = ''ALLIP''"
| "RuleType_String C_DomainDstPort = ''DOMAIN-SRC-PORT''"
| "RuleType_String C_DomainSrcPort = ''DOMAIN-DST-PORT''"
| "RuleType_String C_DstIPPort = ''DST-IP-PORT''"

section \<open>mode.go and level.go\<close>

datatype TunnelMode = Global | Rule | Direct

fun TunnelMode_String :: "TunnelMode \<Rightarrow> string" where
  "TunnelMode_String Global = ''global''"
| "TunnelMode_String Rule = ''rule''"
| "TunnelMode_String Direct = ''direct''"

definition ModeMapping :: "string \<rightharpoonup> TunnelMode" where
  "ModeMapping = [TunnelMode_String Global \<mapsto> Global, TunnelMode_String Rule \<mapsto> Rule,
                  TunnelMode_String Direct \<mapsto> Direct]"

text \<open>\<open>UnmarshalJSON\<close> and \<open>UnmarshalYAML\<close> on the decoded string; \<open>None\<close> is the error "invalid mode".\<close>

definition TunnelMode_Unmarshal :: "string \<Rightarrow> TunnelMode option" where
  "TunnelMode_Unmarshal tp = ModeMapping (ToLower tp)"

datatype LogLevel = DEBUG | INFO | WARNING | ERROR | SILENT

fun LogLevel_String :: "LogLevel \<Rightarrow> string" where
  "LogLevel_String INFO = ''info''"
| "LogLevel_String WARNING = ''warning''"
| "LogLevel_String ERROR = ''error''"
| "LogLevel_String DEBUG = ''debug''"
| "LogLevel_String SILENT = ''silent''"

definition LogLevelMapping :: "string \<rightharpoonup> LogLevel" where
  "LogLevelMapping = [LogLevel_String ERROR \<mapsto> ERROR, LogLevel_String WARNING \<mapsto> WARNING,
     LogLevel_String INFO \<mapsto> INFO, LogLevel_String DEBUG \<mapsto> DEBUG, LogLevel_String SILENT \<mapsto> SILENT]"

definition LogLevel_Unmarshal :: "string \<Rightarrow> LogLevel option" where
  "LogLevel_Unmarshal tp = LogLevelMapping tp"

section \<open>Facts\<close>

lemma networks_distinct [simp]: "TCP \<noteq> UDP" "UDP \<noteq> TCP"
  by (simp_all add: metadata_consts)

lemma address_types_distinct [simp]:
  "AtypIPv4 \<noteq> AtypDomainName" "AtypDomainName \<noteq> AtypIPv4" "AtypIPv4 \<noteq> AtypIPv6"
  "AtypIPv6 \<noteq> AtypIPv4" "AtypDomainName \<noteq> AtypIPv6" "AtypIPv6 \<noteq> AtypDomainName"
  by (simp_all add: metadata_consts)

lemma TunnelMode_roundtrip: "TunnelMode_Unmarshal (TunnelMode_String m) = Some m"
  by (cases m) (simp_all add: TunnelMode_Unmarshal_def ModeMapping_def ToLower_def lower_char_def)

lemma LogLevel_roundtrip: "LogLevel_Unmarshal (LogLevel_String l) = Some l"
  by (cases l) (simp_all add: LogLevel_Unmarshal_def LogLevelMapping_def)

text \<open>The key of a connection does not depend on its source port.\<close>

lemma InfoKey_SrcPort [simp]: "InfoKey (m\<lparr>SrcPort := p\<rparr>) = InfoKey m"
  by (simp add: InfoKey_def)

text \<open>What the peer is told to connect to can be taken apart again.\<close>

lemma SplitHostPort_RemoteAddress:
  assumes "bracketless (Metadata_String m)" and "bracketless (DstPort m)" and "CHR '':'' \<notin> set (DstPort m)"
  shows "SplitHostPort (RemoteAddress m) = Some (Metadata_String m, DstPort m)"
  using SplitHostPort_JoinHostPort [OF assms] by (simp add: RemoteAddress_def)

end
