(* ===== verification/Rules.thy ===== *)
theory Rules
  imports Metadata Lru_Cache
begin

text \<open>
  \<open>rule/*.go\<close>: the rules a connection is matched against and their parser. A rule is one of ten
  structs behind the interface \<open>C.Rule\<close>; the datatype \<open>Rule\<close> has a constructor per struct with the
  struct's fields in order.

  Two things a rule calls are not part of the program's own state: the country database behind
  \<open>mmdb.Instance ().Country\<close> (\<open>None\<close> is the nil record it returns for a database of another kind)
  and the search of the operating system's socket tables behind \<open>process.FindProcessName\<close> (empty
  when it fails). They are the fields of \<open>rule_env\<close>. The cache of process names is a global
  variable and is passed through.
\<close>

section \<open>Rules and what their methods return\<close>

datatype Rule =
  Domain string string bool
| DomainSuffix string string bool
| DomainKeyword string string bool
| GEOIP string string bool bool
| IPCIDR IPNet string bool bool bool string bool
| Port string string bool bool
| Process string string bool
| Match string bool
| AllIP string bool
| DomainAndPort string string string bool bool
| NilDomainAndPort

text \<open>
  \<open>NilDomainAndPort\<close> is the nil pointer that \<open>NewDomainAndPort\<close> returns for a bad port: as a
  \<open>C.Rule\<close> it is not nil, and a method that reads a field of it panics.
\<close>

definition DomainAndPort_RuleType :: "bool \<Rightarrow> RuleType" where
  "DomainAndPort_RuleType isSource = (if isSource then C_DomainSrcPort else C_DomainDstPort)"

definition IPCIDR_RuleType :: "bool \<Rightarrow> bool \<Rightarrow> RuleType" where
  "IPCIDR_RuleType isSourceIP isWithPort =
     (if isWithPort then C_DstIPPort else if isSourceIP then C_SrcIPCIDR else C_IPCIDR)"

definition Port_RuleType :: "bool \<Rightarrow> RuleType" where
  "Port_RuleType isSource = (if isSource then C_SrcPort else C_DstPort)"

fun rule_RuleType :: "Rule \<Rightarrow> panic + RuleType" where
  "rule_RuleType (Domain _ _ _) = Inr C_Domain"
| "rule_RuleType (DomainSuffix _ _ _) = Inr C_DomainSuffix"
| "rule_RuleType (DomainKeyword _ _ _) = Inr C_DomainKeyword"
| "rule_RuleType (GEOIP _ _ _ _) = Inr C_GEOIP"
| "rule_RuleType (IPCIDR _ _ isSourceIP _ isWithPort _ _) = Inr (IPCIDR_RuleType isSourceIP isWithPort)"
| "rule_RuleType (Port _ _ isSource _) = Inr (Port_RuleType isSource)"
| "rule_RuleType (Process _ _ _) = Inr C_Process"
| "rule_RuleType (Match _ _) = Inr C_MATCH"
| "rule_RuleType (AllIP _ _) = Inr C_ALLIP"
| "rule_RuleType (DomainAndPort _ _ _ isSource _) = Inr (DomainAndPort_RuleType isSource)"
| "rule_RuleType NilDomainAndPort = Inl NilDereference"

definition IPCIDR_Payload :: "IPNet \<Rightarrow> bool \<Rightarrow> string \<Rightarrow> string" where
  "IPCIDR_Payload ipnet isWithPort port =
     (if isWithPort then IPNet_String ipnet @ '' port: '' @ port else IPNet_String ipnet)"

definition DomainAndPort_Payload :: "string \<Rightarrow> string \<Rightarrow> string" where
  "DomainAndPort_Payload domain port = domain @ '','' @ port"

fun rule_Payload :: "Rule \<Rightarrow> panic + string" where
  "rule_Payload (Domain d _ _) = Inr d"
| "rule_Payload (DomainSuffix s _ _) = Inr s"
| "rule_Payload (DomainKeyword k _ _) = Inr k"
| "rule_Payload (GEOIP c _ _ _) = Inr c"
| "rule_Payload (IPCIDR n _ _ _ isWithPort port _) = Inr (IPCIDR_Payload n isWithPort port)"
| "rule_Payload (Port _ p _ _) = Inr p"
| "rule_Payload (Process _ p _) = Inr p"
| "rule_Payload (Match _ _) = Inr ''''"
| "rule_Payload (AllIP _ _) = Inr ''''"
| "rule_Payload (DomainAndPort d _ p _ _) = Inr (DomainAndPort_Payload d p)"
| "rule_Payload NilDomainAndPort = Inl NilDereference"

fun rule_Adapter :: "Rule \<Rightarrow> panic + string" where
  "rule_Adapter (Domain _ a _) = Inr a"
| "rule_Adapter (DomainSuffix _ a _) = Inr a"
| "rule_Adapter (DomainKeyword _ a _) = Inr a"
| "rule_Adapter (GEOIP _ a _ _) = Inr a"
| "rule_Adapter (IPCIDR _ a _ _ _ _ _) = Inr a"
| "rule_Adapter (Port a _ _ _) = Inr a"
| "rule_Adapter (Process a _ _) = Inr a"
| "rule_Adapter (Match a _) = Inr a"
| "rule_Adapter (AllIP a _) = Inr a"
| "rule_Adapter (DomainAndPort _ a _ _ _) = Inr a"
| "rule_Adapter NilDomainAndPort = Inl NilDereference"

text \<open>\<open>ShouldResolveIP\<close> of the nil pointer reads no field and returns false.\<close>

fun rule_ShouldResolveIP :: "Rule \<Rightarrow> bool" where
  "rule_ShouldResolveIP (GEOIP _ _ noResolveIP _) = (\<not> noResolveIP)"
| "rule_ShouldResolveIP (IPCIDR _ _ _ noResolveIP _ _ _) = (\<not> noResolveIP)"
| "rule_ShouldResolveIP _ = False"

fun rule_MultiDomainDialIP :: "Rule \<Rightarrow> panic + bool" where
  "rule_MultiDomainDialIP (Domain _ _ b) = Inr b"
| "rule_MultiDomainDialIP (DomainSuffix _ _ b) = Inr b"
| "rule_MultiDomainDialIP (DomainKeyword _ _ b) = Inr b"
| "rule_MultiDomainDialIP (GEOIP _ _ _ b) = Inr b"
| "rule_MultiDomainDialIP (IPCIDR _ _ _ _ _ _ b) = Inr b"
| "rule_MultiDomainDialIP (Port _ _ _ b) = Inr b"
| "rule_MultiDomainDialIP (Process _ _ b) = Inr b"
| "rule_MultiDomainDialIP (Match _ b) = Inr b"
| "rule_MultiDomainDialIP (AllIP _ b) = Inr b"
| "rule_MultiDomainDialIP (DomainAndPort _ _ _ _ b) = Inr b"
| "rule_MultiDomainDialIP NilDomainAndPort = Inl NilDereference"

section \<open>Match\<close>

definition Domain_Match :: "string \<Rightarrow> Metadata \<Rightarrow> bool" where
  "Domain_Match domain m = (if AddrType m \<noteq> AtypDomainName then False else Host m = domain)"

definition DomainSuffix_Match :: "string \<Rightarrow> Metadata \<Rightarrow> bool" where
  "DomainSuffix_Match suffix m =
     (if AddrType m \<noteq> AtypDomainName then False
      else HasSuffix (Host m) (''.'' @ suffix) \<or> Host m = suffix)"

definition DomainKeyword_Match :: "string \<Rightarrow> Metadata \<Rightarrow> bool" where
  "DomainKeyword_Match keyword m =
     (if AddrType m \<noteq> AtypDomainName then False else Contains (Host m) keyword)"

record rule_env =
  Country :: "IP \<Rightarrow> string option"
  FindProcessName :: "string \<Rightarrow> IP \<Rightarrow> int \<Rightarrow> string"

definition GEOIP_Match :: "rule_env \<Rightarrow> string \<Rightarrow> Metadata \<Rightarrow> panic + bool" where
  "GEOIP_Match env country m =
     (let ip = DstIP m in
      if ip = [] then Inr False
      else if EqualFold country ''LAN'' then Inr (IsPrivate ip)
      else case Country env ip of
             None \<Rightarrow> Inl NilDereference
           | Some isoCode \<Rightarrow> Inr (EqualFold isoCode country))"

definition IPCIDR_Match :: "IPNet \<Rightarrow> bool \<Rightarrow> bool \<Rightarrow> string \<Rightarrow> Metadata \<Rightarrow> bool" where
  "IPCIDR_Match ipnet isSourceIP isWithPort port m =
     (let ip = (if isSourceIP then SrcIP m else DstIP m) in
      if isWithPort then ip \<noteq> [] \<and> IPNet_Contains ipnet ip \<and> DstPort m = port
      else ip \<noteq> [] \<and> IPNet_Contains ipnet ip)"

definition Port_Match :: "string \<Rightarrow> bool \<Rightarrow> Metadata \<Rightarrow> bool" where
  "Port_Match port isSource m = (if isSource then SrcPort m = port else DstPort m = port)"

definition AllIP_Match :: "Metadata \<Rightarrow> bool" where
  "AllIP_Match m = (if length (Host m) > 1 then False else DstIP m \<noteq> [] \<or> SrcIP m \<noteq> [])"

definition MatchDomain :: "string \<Rightarrow> Metadata \<Rightarrow> bool" where
  "MatchDomain domain m =
     (if AddrType m \<noteq> AtypDomainName then False
      else HasSuffix (Host m) (''.'' @ domain) \<or> Host m = domain)"

definition MatchPort :: "string \<Rightarrow> bool \<Rightarrow> Metadata \<Rightarrow> bool" where
  "MatchPort port isSource m = (if isSource then SrcPort m = port else DstPort m = port)"

definition DomainAndPort_Match :: "string \<Rightarrow> string \<Rightarrow> bool \<Rightarrow> Metadata \<Rightarrow> bool" where
  "DomainAndPort_Match domain port isSource m \<longleftrightarrow> MatchPort port isSource m \<and> MatchDomain domain m"

type_synonym process_cache = "(string, string) LruCache"

definition processCache :: process_cache where
  "processCache = NewLRUCache [WithAge 2, WithSize 64]"

definition process_key :: "Metadata \<Rightarrow> string" where
  "process_key m = NetWork_String (NetWork m) @ '':'' @ IP_String (SrcIP m) @ '':'' @ SrcPort m"

definition Process_Match ::
    "rule_env \<Rightarrow> int \<Rightarrow> string \<Rightarrow> Metadata \<Rightarrow> process_cache \<Rightarrow> bool \<times> process_cache" where
  "Process_Match env now process m pc =
     (let k = process_key m in
      case Get now k pc of
        (Some cached, pc1) \<Rightarrow> (EqualFold cached process, pc1)
      | (None, pc1) \<Rightarrow>
          (case Atoi (SrcPort m) of
             None \<Rightarrow> (False, Set now k '''' pc1)
           | Some srcPort \<Rightarrow>
               let name = FindProcessName env (NetWork_String (NetWork m)) (SrcIP m) srcPort
               in (EqualFold name process, Set now k name pc1)))"

fun rule_Match :: "rule_env \<Rightarrow> int \<Rightarrow> Rule \<Rightarrow> Metadata \<Rightarrow> process_cache \<Rightarrow> panic + bool \<times> process_cache" where
  "rule_Match env now (Domain d _ _) m pc = Inr (Domain_Match d m, pc)"
| "rule_Match env now (DomainSuffix s _ _) m pc = Inr (DomainSuffix_Match s m, pc)"
| "rule_Match env now (DomainKeyword k _ _) m pc = Inr (DomainKeyword_Match k m, pc)"
| "rule_Match env now (GEOIP c _ _ _) m pc = map_sum id (\<lambda>b. (b, pc)) (GEOIP_Match env c m)"
| "rule_Match env now (IPCIDR n _ src _ wp p _) m pc = Inr (IPCIDR_Match n src wp p m, pc)"
| "rule_Match env now (Port _ p src _) m pc = Inr (Port_Match p src m, pc)"
| "rule_Match env now (Process _ p _) m pc = Inr (Process_Match env now p m pc)"
| "rule_Match env now (Match _ _) m pc = Inr (True, pc)"
| "rule_Match env now (AllIP _ _) m pc = Inr (AllIP_Match m, pc)"
| "rule_Match env now (DomainAndPort d _ p src _) m pc = Inr (DomainAndPort_Match d p src m, pc)"
| "rule_Match env now NilDomainAndPort m pc = Inl NilDereference"

section \<open>Construction and parsing\<close>

datatype rule_error = errPayload | UnsupportedRuleType string

definition HasNoResolve :: "string list \<Rightarrow> bool" where
  "HasNoResolve params = list_ex (\<lambda>p. p = ''no-resolve'') params"

definition HasMultiDomainDailIP :: "string list \<Rightarrow> bool" where
  "HasMultiDomainDailIP params = list_ex (\<lambda>p. p = ''dial-ip'') params"

definition NewDomain :: "string \<Rightarrow> string \<Rightarrow> bool \<Rightarrow> Rule" where
  "NewDomain domain adapter multi = Domain (ToLower domain) adapter multi"

definition NewDomainSuffix :: "string \<Rightarrow> string \<Rightarrow> bool \<Rightarrow> Rule" where
  "NewDomainSuffix suffix adapter multi = DomainSuffix (ToLower suffix) adapter multi"

definition NewDomainKeyword :: "string \<Rightarrow> string \<Rightarrow> bool \<Rightarrow> Rule" where
  "NewDomainKeyword keyword adapter multi = DomainKeyword (ToLower keyword) adapter multi"

definition NewGEOIP :: "string \<Rightarrow> string \<Rightarrow> bool \<Rightarrow> bool \<Rightarrow> Rule" where
  "NewGEOIP country adapter noResolveIP multi = GEOIP country adapter noResolveIP multi"

datatype IPCIDROption = WithIPCIDRSourceIP bool | WithIPCIDRNoResolve bool | WithDstPort string

fun apply_IPCIDROption :: "IPCIDROption \<Rightarrow> Rule \<Rightarrow> Rule" where
  "apply_IPCIDROption (WithIPCIDRSourceIP b) (IPCIDR n a src nr wp p multi) = IPCIDR n a b nr wp p multi"
| "apply_IPCIDROption (WithIPCIDRNoResolve b) (IPCIDR n a src nr wp p multi) = IPCIDR n a src b wp p multi"
| "apply_IPCIDROption (WithDstPort port) (IPCIDR n a src nr wp p multi) = IPCIDR n a src nr True port multi"
| "apply_IPCIDROption _ r = r"

definition NewIPCIDR :: "string \<Rightarrow> string \<Rightarrow> bool \<Rightarrow> IPCIDROption list \<Rightarrow> rule_error + Rule" where
  "NewIPCIDR s adapter multi opts =
     (case ParseCIDR s of
        None \<Rightarrow> Inl errPayload
      | Some ipnet \<Rightarrow> Inr (fold apply_IPCIDROption opts (IPCIDR ipnet adapter False False False '''' multi)))"

definition NewPort :: "string \<Rightarrow> string \<Rightarrow> bool \<Rightarrow> bool \<Rightarrow> rule_error + Rule" where
  "NewPort port adapter isSource multi =
     (case Atoi port of None \<Rightarrow> Inl errPayload | Some _ \<Rightarrow> Inr (Port adapter port isSource multi))"

definition NewProcess :: "string \<Rightarrow> string \<Rightarrow> bool \<Rightarrow> rule_error + Rule" where
  "NewProcess process adapter multi = Inr (Process adapter process multi)"

definition NewMatch :: "string \<Rightarrow> bool \<Rightarrow> Rule" where
  "NewMatch adapter multi = Match adapter multi"

definition NewAllIP :: "string \<Rightarrow> bool \<Rightarrow> Rule" where
  "NewAllIP adapter multi = AllIP adapter multi"

definition NewDomainAndPort :: "string \<Rightarrow> string \<Rightarrow> string \<Rightarrow> bool \<Rightarrow> bool \<Rightarrow> Rule" where
  "NewDomainAndPort domain adapter port isSource multi =
     (case Atoi port of
        None \<Rightarrow> NilDomainAndPort
      | Some _ \<Rightarrow> DomainAndPort (ToLower domain) adapter port isSource multi)"

text \<open>\<open>params[0]\<close> panics when there is no parameter.\<close>

definition ParseRule :: "string \<Rightarrow> string \<Rightarrow> string \<Rightarrow> string list \<Rightarrow> panic + (rule_error + Rule)" where
  "ParseRule tp payload target params =
     (let multi = HasMultiDomainDailIP params in
      if tp = ''DOMAIN'' then Inr (Inr (NewDomain payload target multi))
      else if tp = ''DOMAIN-SUFFIX'' then Inr (Inr (NewDomainSuffix payload target multi))
      else if tp = ''DOMAIN-KEYWORD'' then Inr (Inr (NewDomainKeyword payload target multi))
      else if tp = ''GEOIP'' then Inr (Inr (NewGEOIP payload target (HasNoResolve params) multi))
      else if tp = ''IP-CIDR'' \<or> tp = ''IP-CIDR6''
      then Inr (NewIPCIDR payload target multi [WithIPCIDRNoResolve (HasNoResolve params)])
      else if tp = ''SRC-IP-CIDR''
      then Inr (NewIPCIDR payload target multi [WithIPCIDRSourceIP True, WithIPCIDRNoResolve True])
      else if tp = ''DST-IP-PORT''
      then (case params of
              [] \<Rightarrow> Inl IndexOutOfRange
            | p # _ \<Rightarrow> Inr (NewIPCIDR payload target multi [WithDstPort p, WithIPCIDRNoResolve True]))
      else if tp = ''SRC-PORT'' then Inr (NewPort payload target True multi)
      else if tp = ''DST-PORT'' then Inr (NewPort payload target False multi)
      else if tp = ''PROCESS-NAME'' then Inr (NewProcess payload target multi)
      else if tp = ''MATCH'' then Inr (Inr (NewMatch target multi))
      else if tp = ''ALLIP'' then Inr (Inr (NewAllIP target multi))
      else if tp = ''DOMAIN-SRC-PORT''
      then (case params of
              [] \<Rightarrow> Inl IndexOutOfRange
            | p # _ \<Rightarrow> Inr (Inr (NewDomainAndPort payload target p True multi)))
      else if tp = ''DOMAIN-DST-PORT''
      then (case params of
              [] \<Rightarrow> Inl IndexOutOfRange
            | p # _ \<Rightarrow> Inr (Inr (NewDomainAndPort payload target p False multi)))
      else Inr (Inl (UnsupportedRuleType tp)))"

section \<open>What matching depends on\<close>

text \<open>
  Two connections that differ at most in their source port and in the way they came in. A rule that
  does not look at the source port (and is not the nil rule) cannot tell them apart, and neither the
  clock nor the cache of process names plays a part.
\<close>

definition same_conn :: "Metadata \<Rightarrow> Metadata \<Rightarrow> bool" where
  "same_conn m n \<longleftrightarrow> n = m\<lparr>SrcPort := SrcPort n, Type := Type n\<rparr>"

fun port_free :: "Rule \<Rightarrow> bool" where
  "port_free (Port _ _ isSource _) = (\<not> isSource)"
| "port_free (DomainAndPort _ _ _ isSource _) = (\<not> isSource)"
| "port_free (Process _ _ _) = False"
| "port_free NilDomainAndPort = False"
| "port_free _ = True"

definition rule_test :: "rule_env \<Rightarrow> Rule \<Rightarrow> Metadata \<Rightarrow> panic + bool" where
  "rule_test env r m = map_sum id fst (rule_Match env 0 r m processCache)"

lemma map_sum_map_sum: "map_sum f g (map_sum h k x) = map_sum (f \<circ> h) (g \<circ> k) x"
  by (cases x) auto

lemma rule_Match_test:
  assumes "port_free r"
  shows "rule_Match env now r m pc = map_sum id (\<lambda>b. (b, pc)) (rule_test env r m)"
  using assms by (cases r) (auto simp: rule_test_def map_sum_map_sum o_def id_def)

lemma same_conn_fields:
  assumes "same_conn m n"
  shows "NetWork n = NetWork m" "SrcIP n = SrcIP m" "DstIP n = DstIP m" "DstPort n = DstPort m"
    "AddrType n = AddrType m" "Host n = Host m"
proof -
  from assms have n: "n = m\<lparr>SrcPort := SrcPort n, Type := Type n\<rparr>" by (simp add: same_conn_def)
  show "NetWork n = NetWork m" by (subst n) simp
  show "SrcIP n = SrcIP m" by (subst n) simp
  show "DstIP n = DstIP m" by (subst n) simp
  show "DstPort n = DstPort m" by (subst n) simp
  show "AddrType n = AddrType m" by (subst n) simp
  show "Host n = Host m" by (subst n) simp
qed

lemma same_connI:
  "\<lbrakk>NetWork n = NetWork m; SrcIP n = SrcIP m; DstIP n = DstIP m; DstPort n = DstPort m;
    AddrType n = AddrType m; Host n = Host m\<rbrakk> \<Longrightarrow> same_conn m n"
  unfolding same_conn_def by (cases m; cases n) simp

lemma same_conn_refl [simp]: "same_conn m m"
  by (rule same_connI) simp_all

lemma same_conn_sym: "same_conn m n \<Longrightarrow> same_conn n m"
  by (rule same_connI) (simp_all add: same_conn_fields)

lemma same_conn_SrcPort [simp]: "same_conn m (m\<lparr>SrcPort := p\<rparr>)"
  by (rule same_connI) simp_all

lemma same_conn_DstIP: "same_conn m n \<Longrightarrow> same_conn (m\<lparr>DstIP := ip\<rparr>) (n\<lparr>DstIP := ip\<rparr>)"
  by (rule same_connI) (simp_all add: same_conn_fields)

lemma rule_test_cong:
  assumes "port_free r" and "same_conn m n"
  shows "rule_test env r n = rule_test env r m"
  using assms(1) same_conn_fields [OF assms(2)]
  by (cases r)
     (simp_all add: rule_test_def Domain_Match_def DomainSuffix_Match_def DomainKeyword_Match_def
       GEOIP_Match_def IPCIDR_Match_def Port_Match_def AllIP_Match_def DomainAndPort_Match_def
       MatchPort_def MatchDomain_def Let_def)

end
