(* ===== verification/Lru_Api.thy ===== *)
theory Lru_Api
  imports Lru_Cache
begin

text \<open>
  The third-party cache \<open>hashicorp/golang-lru/v2\<close>, which the tunnel and the resolver use beside the
  program's own cache. Its operations are the fields of \<open>lru_api\<close>, an argument of every definition
  that calls them. What its documentation promises is the locale \<open>golang_lru\<close>, over an observation
  \<open>view\<close> of what the cache holds: a value is found after it was added, other entries stay or are
  evicted, \<open>Purge\<close> empties the cache. The program's own bounded cache satisfies it.
\<close>

record ('c, 'k, 'v) lru_api =
  api_Get :: "'k \<Rightarrow> 'c \<Rightarrow> 'v option \<times> 'c"
  api_Add :: "'k \<Rightarrow> 'v \<Rightarrow> 'c \<Rightarrow> 'c"
  api_Contains :: "'k \<Rightarrow> 'c \<Rightarrow> bool"
  api_Remove :: "'k \<Rightarrow> 'c \<Rightarrow> 'c"
  api_Purge :: "'c \<Rightarrow> 'c"

locale golang_lru =
  fixes api :: "('c, 'k, 'v) lru_api"
    and inv :: "'c \<Rightarrow> bool"
    and view :: "'c \<Rightarrow> 'k \<rightharpoonup> 'v"
  assumes Get_val: "inv c \<Longrightarrow> fst (api_Get api k c) = view c k"
    and Get_view: "inv c \<Longrightarrow> view (snd (api_Get api k c)) = view c"
    and Get_inv: "inv c \<Longrightarrow> inv (snd (api_Get api k c))"
    and Add_view: "inv c \<Longrightarrow> view (api_Add api k v c) k = Some v"
    and Add_other: "inv c \<Longrightarrow> j \<noteq> k \<Longrightarrow>
          view (api_Add api k v c) j = view c j \<or> view (api_Add api k v c) j = None"
    and Add_inv: "inv c \<Longrightarrow> inv (api_Add api k v c)"
    and Contains_view: "inv c \<Longrightarrow> api_Contains api k c \<longleftrightarrow> view c k \<noteq> None"
    and Remove_view: "inv c \<Longrightarrow> view (api_Remove api k c) = (view c)(k := None)"
    and Remove_inv: "inv c \<Longrightarrow> inv (api_Remove api k c)"
    and Purge_view: "inv c \<Longrightarrow> view (api_Purge api c) = Map.empty"
    and Purge_inv: "inv c \<Longrightarrow> inv (api_Purge api c)"
begin

lemma Add_Some:
  "inv c \<Longrightarrow> view (api_Add api k v c) j = Some w \<Longrightarrow> (if j = k then w = v else view c j = Some w)"
  using Add_view [of c k v] Add_other [of c j k v] by (cases "j = k") auto

lemma Get_Some: "inv c \<Longrightarrow> api_Get api k c = (Some v, c') \<Longrightarrow> view c k = Some v \<and> view c' = view c \<and> inv c'"
  using Get_val [of c k] Get_view [of c k] Get_inv [of c k] by simp

lemma Get_None: "inv c \<Longrightarrow> api_Get api k c = (None, c') \<Longrightarrow> view c k = None \<and> view c' = view c \<and> inv c'"
  using Get_val [of c k] Get_view [of c k] Get_inv [of c k] by simp

end

section \<open>The program's own cache as an instance\<close>

text \<open>Its size is the one it was made with; \<open>Purge\<close> is a new cache of the same size.\<close>

definition own_api :: "nat \<Rightarrow> (('k, 'v) LruCache, 'k, 'v) lru_api" where
  "own_api n = \<lparr>api_Get = Get 0, api_Add = Set 0, api_Contains = Exist, api_Remove = Delete,
                api_Purge = (\<lambda>c. NewLRUCache [WithSize (int n)])\<rparr>"

definition own_view :: "('k, 'v) LruCache \<Rightarrow> 'k \<rightharpoonup> 'v" where
  "own_view c = map_of (lru_items c)"

lemma map_of_without: "map_of (without k xs) = (map_of xs)(k := None)"
  by (induction xs) (auto simp: without_def fun_eq_iff)

lemma Delete_lru_inv: "lru_inv n c \<Longrightarrow> lru_inv n (Delete k c)"
  using Delete_refines [of c k] Delete_length [of k c] by (simp add: lru_inv_def)

lemma Delete_lru_items: "lru_inv n c \<Longrightarrow> lru_items (Delete k c) = without k (lru_items c)"
  using Delete_refines [of c k] by (simp add: lru_inv_def lru_items_def lru_items_drop_key)

lemma NewLRUCache_lru_inv: "0 < n \<Longrightarrow> lru_inv n (NewLRUCache [WithSize (int n)])"
  using NewLRUCache_wf [of "[WithSize (int n)]"] by (simp add: lru_inv_def NewLRUCache_def)

lemma lru_inv_pos: "lru_inv n c \<Longrightarrow> 0 < n"
  by (simp add: lru_inv_def)

lemma map_of_tl_cases:
  "distinct (map fst xs) \<Longrightarrow> map_of (tl xs) j = map_of xs j \<or> map_of (tl xs) j = None"
  by (cases xs) (auto simp: map_of_eq_None_iff)

interpretation own_cache: golang_lru "own_api n" "lru_inv n" own_view for n
proof (unfold_locales, goal_cases)
  case (1 c k)
  then show ?case by (simp add: own_api_def own_view_def bounded.lookup_val [of n] del: Get_fst_snd)
next
  case (2 c k)
  have d: "distinct (map fst (lru_items c))" by (rule bounded.keys_distinct [OF 2])
  show ?case
  proof (rule ext)
    fix j
    show "own_view (snd (api_Get (own_api n) k c)) j = own_view c j"
      using bounded.lookup_items [OF 2, of 0 k]
      by (cases "map_of (lru_items c) k")
         (auto simp: own_api_def own_view_def map_of_without map_add_def split: option.split)
  qed
next
  case (3 c k)
  then show ?case by (simp add: own_api_def Get_lru_inv)
next
  case (4 c k v)
  have d: "distinct (map fst (lru_items c))" by (rule bounded.keys_distinct [OF 4])
  have "map_of (lru_items c) k = None \<and> map_of (tl (lru_items c)) k = None"
    if "k \<notin> fst ` set (lru_items c)"
  proof -
    have "map_of (lru_items c) k = None" using that by (simp add: map_of_eq_None_iff)
    with map_of_tl_cases [OF d, of k] show ?thesis by metis
  qed
  then show ?case using bounded.store_items [OF 4, of 0 k v]
    by (simp add: own_api_def own_view_def map_of_without map_add_def)
next
  case (5 c j k v)
  have d: "distinct (map fst (lru_items c))" by (rule bounded.keys_distinct [OF 5(1)])
  show ?case using bounded.store_items [OF 5(1), of 0 k v] 5(2) map_of_tl_cases [OF d, of j]
    by (auto simp: own_api_def own_view_def map_of_without map_add_def split: option.split)
next
  case (6 c k v)
  then show ?case by (simp add: own_api_def Set_lru_inv)
next
  case (7 c k)
  then show ?case using bounded.has_iff [OF 7, of k]
    by (simp add: own_api_def own_view_def map_of_eq_None_iff)
next
  case (8 c k)
  then show ?case by (simp add: own_api_def own_view_def Delete_lru_items [OF 8] map_of_without)
next
  case (9 c k)
  then show ?case by (simp add: own_api_def Delete_lru_inv)
next
  case (10 c)
  then show ?case by (simp add: own_api_def own_view_def lru_items_def)
next
  case (11 c)
  then show ?case by (simp add: own_api_def NewLRUCache_lru_inv lru_inv_pos)
qed

end
