(* ===== verification/Resolver.thy ===== *)
theory Resolver
  imports Fake_Ip Rules Lru_Api
begin

text \<open>
  \<open>component/resolver\<close> and \<open>dns/enhancer.go\<close>: from a host to an address through the configured
  hosts and a resolver, and from an address back to the host it was given out for.

  The package variables \<open>DefaultHosts\<close>, \<open>DisableIPv6\<close> and \<open>DefaultResolver\<close> are the fields of
  \<open>resolver_env\<close>; so are the system's resolver (\<open>net.DefaultResolver.LookupIP\<close>,
  \<open>net.ResolveIPAddr\<close>) and the random index \<open>rand.Intn\<close>. The data of a host is an
  \<open>interface{}\<close>: a list of addresses everywhere but in one place of \<open>config.go\<close>, which stores a
  single address.
\<close>

section \<open>resolver.go\<close>

datatype hosts_data = HostIPs "IP list" | HostIP IP

datatype resolver_error = ErrIPNotFound | ErrIPVersion | ErrIPv6Disabled | ErrLookup string

record Resolver =
  r_ResolveIP :: "string \<Rightarrow> resolver_error + IP"
  r_ResolveIPv4 :: "string \<Rightarrow> resolver_error + IP"
  r_ResolveIPv6 :: "string \<Rightarrow> resolver_error + IP"

record resolver_env =
  DefaultHosts :: "hosts_data Node"
  DisableIPv6 :: bool
  DefaultResolver :: "Resolver option"
  LookupIP :: "string \<Rightarrow> string \<Rightarrow> resolver_error + IP list"
  ResolveIPAddr :: "string \<Rightarrow> resolver_error + IP"
  Intn :: "nat \<Rightarrow> nat"

text \<open>\<open>node.Data.([]net.IP)\<close> of the node \<open>Search\<close> finds; no node is the empty list.\<close>

definition hosts_ips :: "resolver_env \<Rightarrow> string \<Rightarrow> panic + IP list option" where
  "hosts_ips env h =
     (case find_domain h (DefaultHosts env) of
        None \<Rightarrow> Inr None
      | Some (HostIPs ips) \<Rightarrow> Inr (Some ips)
      | Some (HostIP _) \<Rightarrow> Inl TypeAssertion)"

text \<open>The last lines of \<open>ResolveIPv4\<close> and \<open>ResolveIPv6\<close>: a random one of the system's answers.\<close>

definition system_lookup :: "resolver_env \<Rightarrow> string \<Rightarrow> string \<Rightarrow> panic + (resolver_error + IP)" where
  "system_lookup env net h =
     (case LookupIP env net h of
        Inl e \<Rightarrow> Inr (Inl e)
      | Inr ips \<Rightarrow>
          if ips = [] then Inr (Inl ErrIPNotFound)
          else if Intn env (length ips) < length ips then Inr (Inr (ips ! Intn env (length ips)))
          else Inl IndexOutOfRange)"

definition ResolveIPv4 :: "resolver_env \<Rightarrow> string \<Rightarrow> panic + (resolver_error + IP)" where
  "ResolveIPv4 env h =
     (case hosts_ips env h of
        Inl e \<Rightarrow> Inl e
      | Inr found \<Rightarrow>
          (case Option.bind found (find (\<lambda>ip. ip \<noteq> [] \<and> To4 ip \<noteq> [])) of
             Some ip \<Rightarrow> Inr (Inr ip)
           | None \<Rightarrow>
               let ip = ParseIP h in
               if ip \<noteq> [] then
                 (if \<not> Contains h '':'' then Inr (Inr ip) else Inr (Inl ErrIPVersion))
               else case DefaultResolver env of
                      Some r \<Rightarrow> Inr (r_ResolveIPv4 r h)
                    | None \<Rightarrow> system_lookup env ''ip4'' h))"

definition ResolveIPv6 :: "resolver_env \<Rightarrow> string \<Rightarrow> panic + (resolver_error + IP)" where
  "ResolveIPv6 env h =
     (if DisableIPv6 env then Inr (Inl ErrIPv6Disabled)
      else case hosts_ips env h of
        Inl e \<Rightarrow> Inl e
      | Inr found \<Rightarrow>
          (case Option.bind found (find (\<lambda>ip. ip \<noteq> [] \<and> To4 ip = [] \<and> To16 ip \<noteq> [])) of
             Some ip \<Rightarrow> Inr (Inr ip)
           | None \<Rightarrow>
               let ip = ParseIP h in
               if ip \<noteq> [] then
                 (if Contains h '':'' then Inr (Inr ip) else Inr (Inl ErrIPVersion))
               else case DefaultResolver env of
                      Some r \<Rightarrow> Inr (r_ResolveIPv6 r h)
                    | None \<Rightarrow> system_lookup env ''ip6'' h))"

definition ResolveIPWithResolver ::
    "resolver_env \<Rightarrow> string \<Rightarrow> Resolver option \<Rightarrow> panic + (resolver_error + IP)" where
  "ResolveIPWithResolver env h r =
     (case hosts_ips env h of
        Inl e \<Rightarrow> Inl e
      | Inr found \<Rightarrow>
          (case Option.bind found (find (\<lambda>ip. ip \<noteq> [])) of
             Some ip \<Rightarrow> Inr (Inr ip)
           | None \<Rightarrow>
               (case r of
                  Some r \<Rightarrow>
                    if DisableIPv6 env then Inr (r_ResolveIPv4 r h) else Inr (r_ResolveIP r h)
                | None \<Rightarrow>
                    if DisableIPv6 env then ResolveIPv4 env h
                    else let ip = ParseIP h in
                         if ip \<noteq> [] then Inr (Inr ip) else Inr (ResolveIPAddr env h))))"

definition ResolveIP :: "resolver_env \<Rightarrow> string \<Rightarrow> panic + (resolver_error + IP)" where
  "ResolveIP env h = ResolveIPWithResolver env h (DefaultResolver env)"

section \<open>dns/enhancer.go\<close>

datatype EnhancedMode = NORMAL | FAKEIP | MAPPING

record ResolverEnhancer =
  emode :: EnhancedMode
  fakePool :: "Pool option"
  mapping :: "(string, string) LruCache option"

definition FakeIPEnabled :: "ResolverEnhancer \<Rightarrow> bool" where
  "FakeIPEnabled h \<longleftrightarrow> emode h = FAKEIP"

definition MappingEnabled :: "ResolverEnhancer \<Rightarrow> bool" where
  "MappingEnabled h \<longleftrightarrow> emode h = FAKEIP \<or> emode h = MAPPING"

definition IsExistFakeIP :: "IP \<Rightarrow> ResolverEnhancer \<Rightarrow> panic + bool" where
  "IsExistFakeIP ip h =
     (if \<not> FakeIPEnabled h then Inr False
      else case fakePool h of None \<Rightarrow> Inr False | Some p \<Rightarrow> pool_Exist ip p)"

definition IsFakeIP :: "IP \<Rightarrow> ResolverEnhancer \<Rightarrow> bool" where
  "IsFakeIP ip h =
     (if \<not> FakeIPEnabled h then False
      else case fakePool h of
             None \<Rightarrow> False
           | Some p \<Rightarrow> IPNet_Contains (ipnet p) ip \<and> \<not> IP_Equal (Gateway p) ip)"

definition FindHostByIP :: "int \<Rightarrow> IP \<Rightarrow> ResolverEnhancer \<Rightarrow> panic + string option \<times> ResolverEnhancer" where
  "FindHostByIP now ip h =
     (case (case fakePool h of
              None \<Rightarrow> Inr (None, h)
            | Some p \<Rightarrow>
                (case LookBack now ip p of
                   Inl e \<Rightarrow> Inl e
                 | Inr (r, p1) \<Rightarrow> Inr (r, h\<lparr>fakePool := Some p1\<rparr>))) of
        Inl e \<Rightarrow> Inl e
      | Inr (Some name, h1) \<Rightarrow> Inr (Some name, h1)
      | Inr (None, h1) \<Rightarrow>
          (case mapping h1 of
             None \<Rightarrow> Inr (None, h1)
           | Some mp \<Rightarrow>
               (case Get now (IP_String ip) mp of
                  (r, mp1) \<Rightarrow> Inr (r, h1\<lparr>mapping := Some mp1\<rparr>))))"

definition Enhancer_PatchFrom :: "ResolverEnhancer \<Rightarrow> ResolverEnhancer \<Rightarrow> ResolverEnhancer" where
  "Enhancer_PatchFrom h other =
     (let h1 = (case (mapping h, mapping other) of
                  (Some m, Some om) \<Rightarrow> h\<lparr>mapping := Some (CloneTo om m)\<rparr> | _ \<Rightarrow> h)
      in case (fakePool h1, fakePool other) of
           (Some p, Some op) \<Rightarrow> h1\<lparr>fakePool := Some (PatchFrom p op)\<rparr> | _ \<Rightarrow> h1)"

definition NewEnhancer :: "EnhancedMode \<Rightarrow> Pool option \<Rightarrow> ResolverEnhancer" where
  "NewEnhancer cfgMode cfgPool =
     (if cfgMode \<noteq> NORMAL
      then \<lparr>emode = (if cfgMode = FAKEIP then MAPPING else cfgMode), fakePool = cfgPool,
            mapping = Some (NewLRUCache [WithSize 4096, WithStale True])\<rparr>
      else \<lparr>emode = cfgMode, fakePool = None, mapping = None\<rparr>)"

section \<open>The package functions over DefaultHostMapper\<close>

definition mapper_FakeIPEnabled :: "ResolverEnhancer option \<Rightarrow> bool" where
  "mapper_FakeIPEnabled mapper = (case mapper of Some h \<Rightarrow> FakeIPEnabled h | None \<Rightarrow> False)"

definition mapper_MappingEnabled :: "ResolverEnhancer option \<Rightarrow> bool" where
  "mapper_MappingEnabled mapper = (case mapper of Some h \<Rightarrow> MappingEnabled h | None \<Rightarrow> False)"

definition mapper_IsFakeIP :: "IP \<Rightarrow> ResolverEnhancer option \<Rightarrow> bool" where
  "mapper_IsFakeIP ip mapper = (case mapper of Some h \<Rightarrow> IsFakeIP ip h | None \<Rightarrow> False)"

definition mapper_IsExistFakeIP :: "IP \<Rightarrow> ResolverEnhancer option \<Rightarrow> panic + bool" where
  "mapper_IsExistFakeIP ip mapper =
     (case mapper of Some h \<Rightarrow> IsExistFakeIP ip h | None \<Rightarrow> Inr False)"

definition mapper_FindHostByIP ::
    "int \<Rightarrow> IP \<Rightarrow> ResolverEnhancer option \<Rightarrow> panic + string option \<times> ResolverEnhancer option" where
  "mapper_FindHostByIP now ip mapper =
     (case mapper of
        Some h \<Rightarrow> map_sum id (map_prod id Some) (FindHostByIP now ip h)
      | None \<Rightarrow> Inr (None, None))"

section \<open>ADGurdMatch\<close>

text \<open>
  Whether a domain is blocked: the first rule of \<open>ADGurdRules\<close> that matches decides, and the answer is
  kept in \<open>ADGurdCache\<close>.
\<close>

fun any_rule_matches :: "rule_env \<Rightarrow> int \<Rightarrow> Rule list \<Rightarrow> Metadata \<Rightarrow> process_cache \<Rightarrow>
    panic + bool \<times> process_cache" where
  "any_rule_matches env now [] m pc = Inr (False, pc)"
| "any_rule_matches env now (r # rs) m pc =
     (case rule_Match env now r m pc of
        Inl e \<Rightarrow> Inl e
      | Inr (True, pc1) \<Rightarrow> Inr (True, pc1)
      | Inr (False, pc1) \<Rightarrow> any_rule_matches env now rs m pc1)"

definition domain_metadata :: "string \<Rightarrow> Metadata" where
  "domain_metadata domain =
     \<lparr>NetWork = 0, Type = 0, SrcIP = [], DstIP = [], SrcPort = '''', DstPort = '''',
      AddrType = AtypDomainName, Host = domain\<rparr>"

definition ADGurdMatch :: "rule_env \<Rightarrow> ('ac, string, bool) lru_api \<Rightarrow> int \<Rightarrow> Rule list \<Rightarrow> string \<Rightarrow>
    'ac \<Rightarrow> process_cache \<Rightarrow> panic + bool \<times> 'ac \<times> process_cache" where
  "ADGurdMatch env api now rs domain ac pc =
     (case api_Get api domain ac of
        (Some v, ac1) \<Rightarrow> Inr (v, ac1, pc)
      | (None, ac1) \<Rightarrow>
          (case any_rule_matches env now rs (domain_metadata domain) pc of
             Inl e \<Rightarrow> Inl e
           | Inr (b, pc1) \<Rightarrow> Inr (b, api_Add api domain b ac1, pc1)))"

end
