(* ===== verification/Tunnel.thy ===== *)
theory Tunnel
  imports Resolver "HOL-Library.AList"
begin

text \<open>
  \<open>tunnel/tunnel.go\<close>, \<open>tunnel/matchRuleCache.go\<close> and \<open>tunnel/rulesSaveDB.go\<close>: from the description
  of a connection to the proxy that carries it.

  The package variables are the record \<open>tunnel\<close>. An outbound is a value of the type \<open>'p\<close>, the
  interface \<open>C.Proxy\<close>, of which matching only asks \<open>SupportUDP\<close>; \<open>None\<close> is a nil \<open>C.Proxy\<close>, the
  value of a name that is not in the map of proxies. The caches are of the third-party kind and
  come with their operations in \<open>tunnel_env\<close>. A value in \<open>Cm\<close> is an \<open>any\<close> holding a rule, a proxy
  or nil.
\<close>

section \<open>State\<close>

datatype 'p cm_value = CmRule Rule | CmProxy 'p | CmNil

record ('p, 'cm, 'dm, 'dt) tunnel_env =
  rules_env :: rule_env
  res_env :: resolver_env
  SupportUDP :: "'p \<Rightarrow> bool"
  cm_api :: "('cm, string, 'p cm_value) lru_api"
  dm_api :: "('dm, string, string) lru_api"
  dt_api :: "('dt, string, int) lru_api"

record ('p, 'cm, 'dm, 'dt) tunnel =
  rules :: "Rule list"
  proxies :: "string \<rightharpoonup> 'p"
  mode :: TunnelMode
  Cm :: 'cm
  Dm :: 'dm
  Dm_se :: 'dm
  Dm_se_domain :: 'dm
  Dm_ttl :: 'dt
  procs :: process_cache
  mapper :: "ResolverEnhancer option"

definition UpdateRules :: "('p, 'cm, 'dm, 'dt) tunnel_env \<Rightarrow> Rule list \<Rightarrow>
    ('p, 'cm, 'dm, 'dt) tunnel \<Rightarrow> ('p, 'cm, 'dm, 'dt) tunnel" where
  "UpdateRules env newRules t = t\<lparr>rules := newRules, Cm := api_Purge (cm_api env) (Cm t)\<rparr>"

definition UpdateProxies :: "(string \<rightharpoonup> 'p) \<Rightarrow> ('p, 'cm, 'dm, 'dt) tunnel \<Rightarrow> ('p, 'cm, 'dm, 'dt) tunnel" where
  "UpdateProxies newProxies t = t\<lparr>proxies := newProxies\<rparr>"

definition SetMode :: "TunnelMode \<Rightarrow> ('p, 'cm, 'dm, 'dt) tunnel \<Rightarrow> ('p, 'cm, 'dm, 'dt) tunnel" where
  "SetMode m t = t\<lparr>mode := m\<rparr>"

section \<open>preHandleMetadata\<close>

datatype tunnel_error = FakeDNSRecordMissing IP

definition needLookupIP :: "('p, 'cm, 'dm, 'dt) tunnel \<Rightarrow> Metadata \<Rightarrow> bool" where
  "needLookupIP t m \<longleftrightarrow> mapper_MappingEnabled (mapper t) \<and> Host m = [] \<and> DstIP m \<noteq> []"

definition is_http_or_socks :: "Metadata \<Rightarrow> bool" where
  "is_http_or_socks m \<longleftrightarrow>
     Type_String (Type m) = ''HTTP'' \<or> Type_String (Type m) = ''HTTP Connect'' \<or>
     Type_String (Type m) = ''Socks4'' \<or> Type_String (Type m) = ''Socks5''"

text \<open>An address written as a host.\<close>

definition ip_host :: "Metadata \<Rightarrow> Metadata" where
  "ip_host m =
     (let ip = ParseIP (Host m) in
      if ip \<noteq> [] then m\<lparr>DstIP := ip, Host := '''',
                       AddrType := (if To4 ip \<noteq> [] then AtypIPv4 else AtypIPv6)\<rparr>
      else m)"

definition preHandleMetadata :: "('p, 'cm, 'dm, 'dt) tunnel_env \<Rightarrow> int \<Rightarrow> Metadata \<Rightarrow>
    ('p, 'cm, 'dm, 'dt) tunnel \<Rightarrow> panic + (tunnel_error + Metadata) \<times> ('p, 'cm, 'dm, 'dt) tunnel" where
  "preHandleMetadata env now m0 t =
     (let m = ip_host m0 in
      if \<not> needLookupIP t m then Inr (Inr m, t)
      else
        case mapper_FindHostByIP now (DstIP m) (mapper t) of
          Inl e \<Rightarrow> Inl e
        | Inr (found, mapper1) \<Rightarrow>
            let t1 = t\<lparr>mapper := mapper1\<rparr>;
                (found1, t2) =
                  (case found of
                     Some h \<Rightarrow> (Some h, t1)
                   | None \<Rightarrow>
                       (case api_Get (dm_api env) (IP_String (DstIP m)) (Dm t1) of
                          (item, dm1) \<Rightarrow>
                            (case item of
                               Some h \<Rightarrow> if h \<noteq> [] then Some h else None
                             | None \<Rightarrow> None, t1\<lparr>Dm := dm1\<rparr>)))
            in case found1 of
                 Some h \<Rightarrow>
                   let m1 = m\<lparr>Host := h\<rparr>;
                       m2 = (if \<not> is_http_or_socks m1 then m1\<lparr>AddrType := AtypDomainName\<rparr> else m1)
                   in if mapper_FakeIPEnabled (mapper t2) then Inr (Inr (m2\<lparr>DstIP := []\<rparr>), t2)
                      else (case find_domain h (DefaultHosts (res_env env)) of
                              None \<Rightarrow> Inr (Inr m2, t2)
                            | Some d \<Rightarrow>
                                if DstIP m2 = [] then
                                  (case d of
                                     HostIP _ \<Rightarrow> Inl TypeAssertion
                                   | HostIPs [] \<Rightarrow> Inl IndexOutOfRange
                                   | HostIPs (ip # _) \<Rightarrow> Inr (Inr (m2\<lparr>DstIP := ip\<rparr>), t2))
                                else Inr (Inr m2, t2))
               | None \<Rightarrow>
                   if mapper_IsFakeIP (DstIP m) (mapper t2)
                   then Inr (Inl (FakeDNSRecordMissing (DstIP m)), t2)
                   else Inr (Inr m, t2))"

section \<open>match\<close>

definition shouldResolveIP :: "Rule \<Rightarrow> Metadata \<Rightarrow> bool" where
  "shouldResolveIP r m \<longleftrightarrow> rule_ShouldResolveIP r \<and> Host m \<noteq> [] \<and> DstIP m = []"

text \<open>
  The body of the loop before \<open>Match\<close>: the host is resolved at most once, for the first rule that
  needs an address.
\<close>

definition resolve_step :: "resolver_env \<Rightarrow> Rule \<Rightarrow> bool \<Rightarrow> Metadata \<Rightarrow> panic + bool \<times> Metadata" where
  "resolve_step renv r resolved m =
     (if \<not> resolved \<and> shouldResolveIP r m then
        (case ResolveIP renv (Host m) of
           Inl e \<Rightarrow> Inl e
         | Inr (Inl err) \<Rightarrow> Inr (True, m)
         | Inr (Inr ip) \<Rightarrow> Inr (True, if DstIP m = [] then m\<lparr>DstIP := ip\<rparr> else m))
      else Inr (resolved, m))"

fun match_loop :: "('p, 'cm, 'dm, 'dt) tunnel_env \<Rightarrow> int \<Rightarrow> (string \<rightharpoonup> 'p) \<Rightarrow> Rule list \<Rightarrow> bool \<Rightarrow>
    Metadata \<Rightarrow> process_cache \<Rightarrow> panic + ('p option \<times> Rule option) \<times> Metadata \<times> process_cache" where
  "match_loop env now ps [] resolved m pc = Inr ((ps ''DIRECT'', None), m, pc)"
| "match_loop env now ps (r # rs) resolved m pc =
     (case resolve_step (res_env env) r resolved m of
        Inl e \<Rightarrow> Inl e
      | Inr (resolved1, m1) \<Rightarrow>
          (case rule_Match (rules_env env) now r m1 pc of
             Inl e \<Rightarrow> Inl e
           | Inr (matched, pc1) \<Rightarrow>
               if matched then
                 (case rule_Adapter r of
                    Inl e \<Rightarrow> Inl e
                  | Inr name \<Rightarrow>
                      (case ps name of
                         None \<Rightarrow> match_loop env now ps rs resolved1 m1 pc1
                       | Some a \<Rightarrow>
                           if NetWork m1 = UDP \<and> \<not> SupportUDP env a
                           then match_loop env now ps rs resolved1 m1 pc1
                           else Inr ((Some a, Some r), m1, pc1)))
               else match_loop env now ps rs resolved1 m1 pc1))"

text \<open>The configured hosts come before the rules.\<close>

definition match_hosts :: "resolver_env \<Rightarrow> Metadata \<Rightarrow> panic + bool \<times> Metadata" where
  "match_hosts renv m =
     (case hosts_ips renv (Host m) of
        Inl e \<Rightarrow> Inl e
      | Inr None \<Rightarrow> Inr (False, m)
      | Inr (Some ips) \<Rightarrow>
          if DstIP m = [] then
            (case ips of [] \<Rightarrow> Inl IndexOutOfRange | ip # _ \<Rightarrow> Inr (True, m\<lparr>DstIP := ip\<rparr>))
          else Inr (True, m))"

definition match :: "('p, 'cm, 'dm, 'dt) tunnel_env \<Rightarrow> int \<Rightarrow> Metadata \<Rightarrow> ('p, 'cm, 'dm, 'dt) tunnel \<Rightarrow>
    panic + ('p option \<times> Rule option) \<times> Metadata \<times> ('p, 'cm, 'dm, 'dt) tunnel" where
  "match env now m t =
     (case match_hosts (res_env env) m of
        Inl e \<Rightarrow> Inl e
      | Inr (resolved, m1) \<Rightarrow>
          (case match_loop env now (proxies t) (rules t) resolved m1 (procs t) of
             Inl e \<Rightarrow> Inl e
           | Inr (res, m2, pc) \<Rightarrow> Inr (res, m2, t\<lparr>procs := pc\<rparr>)))"

section \<open>matchHashMap\<close>

definition setMatchHashMap :: "('p, 'cm, 'dm, 'dt) tunnel_env \<Rightarrow> string \<Rightarrow> 'p cm_value \<Rightarrow>
    ('p, 'cm, 'dm, 'dt) tunnel \<Rightarrow> ('p, 'cm, 'dm, 'dt) tunnel" where
  "setMatchHashMap env k v t = t\<lparr>Cm := api_Add (cm_api env) k v (Cm t)\<rparr>"

text \<open>
  The first look-up: a cached rule is used when it still matches, its proxy is still there and
  carries the network.
\<close>

definition cached_rule :: "('p, 'cm, 'dm, 'dt) tunnel_env \<Rightarrow> int \<Rightarrow> string \<Rightarrow> Metadata \<Rightarrow>
    ('p, 'cm, 'dm, 'dt) tunnel \<Rightarrow> panic + ('p \<times> Rule) option \<times> ('p, 'cm, 'dm, 'dt) tunnel" where
  "cached_rule env now k m t =
     (case api_Get (cm_api env) (k @ ''_rule'') (Cm t) of
        (hashValue, cm1) \<Rightarrow>
          let t1 = t\<lparr>Cm := cm1\<rparr> in
          (case hashValue of
             Some (CmRule r) \<Rightarrow>
               (case rule_Adapter r of
                  Inl e \<Rightarrow> Inl e
                | Inr name \<Rightarrow>
                    (case rule_Match (rules_env env) now r m (procs t1) of
                       Inl e \<Rightarrow> Inl e
                     | Inr (matched, pc1) \<Rightarrow>
                         let t2 = t1\<lparr>procs := pc1\<rparr> in
                         (case (if matched then proxies t2 name else None) of
                            None \<Rightarrow> Inr (None, t2)
                          | Some a \<Rightarrow>
                              if NetWork m = TCP then Inr (Some (a, r), t2)
                              else if NetWork m = UDP \<and> SupportUDP env a then Inr (Some (a, r), t2)
                              else Inr (None, t2))))
           | _ \<Rightarrow> Inr (None, t1)))"

text \<open>The second one: a cached proxy, for connections that no rule matched.\<close>

definition cached_proxy :: "('p, 'cm, 'dm, 'dt) tunnel_env \<Rightarrow> string \<Rightarrow>
    ('p, 'cm, 'dm, 'dt) tunnel \<Rightarrow> panic + 'p option \<times> ('p, 'cm, 'dm, 'dt) tunnel" where
  "cached_proxy env k t =
     (case api_Get (cm_api env) (k @ ''_proxy'') (Cm t) of
        (hashValue, cm1) \<Rightarrow>
          (case hashValue of
             Some (CmProxy a) \<Rightarrow> Inr (Some a, t\<lparr>Cm := cm1\<rparr>)
           | Some (CmRule _) \<Rightarrow> Inl TypeAssertion
           | _ \<Rightarrow> Inr (None, t\<lparr>Cm := cm1\<rparr>)))"

definition matchHashMap :: "('p, 'cm, 'dm, 'dt) tunnel_env \<Rightarrow> int \<Rightarrow> Metadata \<Rightarrow> ('p, 'cm, 'dm, 'dt) tunnel \<Rightarrow>
    panic + ('p option \<times> Rule option) \<times> Metadata \<times> ('p, 'cm, 'dm, 'dt) tunnel" where
  "matchHashMap env now m t =
     (let k = InfoKey m in
      case cached_rule env now k m t of
        Inl e \<Rightarrow> Inl e
      | Inr (Some (a, r), t1) \<Rightarrow> Inr ((Some a, Some r), m, t1)
      | Inr (None, t1) \<Rightarrow>
          (case cached_proxy env k t1 of
             Inl e \<Rightarrow> Inl e
           | Inr (Some a, t2) \<Rightarrow> Inr ((Some a, None), m, t2)
           | Inr (None, t2) \<Rightarrow>
               (case match env now m t2 of
                  Inl e \<Rightarrow> Inl e
                | Inr ((a, r), m1, t3) \<Rightarrow>
                    Inr ((a, r), m1,
                      (case r of
                         Some rule \<Rightarrow> setMatchHashMap env (k @ ''_rule'') (CmRule rule) t3
                       | None \<Rightarrow>
                           setMatchHashMap env (k @ ''_proxy'')
                             (case a of Some p \<Rightarrow> CmProxy p | None \<Rightarrow> CmNil) t3)))))"

definition resolveMetadata :: "('p, 'cm, 'dm, 'dt) tunnel_env \<Rightarrow> int \<Rightarrow> Metadata \<Rightarrow> ('p, 'cm, 'dm, 'dt) tunnel \<Rightarrow>
    panic + ('p option \<times> Rule option) \<times> Metadata \<times> ('p, 'cm, 'dm, 'dt) tunnel" where
  "resolveMetadata env now m t =
     (case mode t of
        Direct \<Rightarrow> Inr ((proxies t ''DIRECT'', None), m, t)
      | Global \<Rightarrow> Inr ((proxies t ''GLOBAL'', None), m, t)
      | Rule \<Rightarrow> matchHashMap env now m t)"

section \<open>DnsPreCache\<close>

text \<open>
  What a DNS answer leaves behind: the host an address was last given out for (\<open>Dm\<close>), the one before
  it when they differ (\<open>Dm_se\<close>, with its domain in \<open>Dm_se_domain\<close>), and the time until which they
  hold (\<open>Dm_ttl\<close>). The clock is read once; times and lifetimes are in seconds.
\<close>

definition DnsPreCache :: "('p, 'cm, 'dm, 'dt) tunnel_env \<Rightarrow> int \<Rightarrow> string \<Rightarrow> string \<Rightarrow> uint32 \<Rightarrow>
    ('p, 'cm, 'dm, 'dt) tunnel \<Rightarrow> ('p, 'cm, 'dm, 'dt) tunnel" where
  "DnsPreCache env now domain ip ttl0 t =
     (let da = dm_api env; ta = dt_api env;
          ttl = (if ttl0 < 2 then 2 else ttl0);
          end_time = now + uint ttl;
          ip_se_key = ip @ ''_se'';
          t1 = t\<lparr>Dm_ttl := api_Add ta domain end_time (Dm_ttl t)\<rparr>;
          (item, dm1) = api_Get da ip (Dm t1);
          t2 = t1\<lparr>Dm := dm1\<rparr>;
          t3 = (case item of
                  None \<Rightarrow> t2
                | Some se_domain \<Rightarrow>
                    if se_domain \<noteq> domain then
                      let t21 = t2\<lparr>Dm_se := api_Add da ip se_domain (Dm_se t2),
                                   Dm_se_domain := api_Add da se_domain '''' (Dm_se_domain t2)\<rparr>;
                          (ip_end, dt1) = api_Get ta ip (Dm_ttl t21)
                      in t21\<lparr>Dm_ttl := api_Add ta ip_se_key
                                (case ip_end of Some e \<Rightarrow> e | None \<Rightarrow> end_time) dt1\<rparr>
                    else t2);
          t4 = t3\<lparr>Dm := api_Add da ip domain (Dm t3), Dm_ttl := api_Add ta ip end_time (Dm_ttl t3)\<rparr>;
          (se_end, dt2) = api_Get ta ip_se_key (Dm_ttl t4);
          t5 = t4\<lparr>Dm_ttl := dt2\<rparr>
      in case se_end of
           None \<Rightarrow> t5
         | Some se_end_time \<Rightarrow>
             if se_end_time < now then
               let (end_item, se1) = api_Get da ip (Dm_se t5);
                   t6 = t5\<lparr>Dm_se := se1\<rparr>;
                   t7 = (case end_item of
                           None \<Rightarrow> t6
                         | Some end_domain \<Rightarrow>
                             if domain \<noteq> end_domain then
                               let (d_end, dt3) = api_Get ta end_domain (Dm_ttl t6);
                                   t61 = t6\<lparr>Dm_ttl := dt3\<rparr>
                               in (case d_end of
                                     None \<Rightarrow> t61
                                   | Some domain_time_out \<Rightarrow>
                                       if domain_time_out < now
                                       then t61\<lparr>Dm_se_domain := api_Remove da end_domain (Dm_se_domain t61)\<rparr>
                                       else t61)
                             else t6)
               in t7\<lparr>Dm_se := api_Remove da ip (Dm_se t7), Dm_ttl := api_Remove ta ip_se_key (Dm_ttl t7)\<rparr>
             else t5)"

definition InSeIP :: "('p, 'cm, 'dm, 'dt) tunnel_env \<Rightarrow> string \<Rightarrow> ('p, 'cm, 'dm, 'dt) tunnel \<Rightarrow> bool" where
  "InSeIP env ip t = (if api_Contains (dm_api env) ip (Dm_se t) then True else False)"

definition InSeDomain :: "('p, 'cm, 'dm, 'dt) tunnel_env \<Rightarrow> string \<Rightarrow> ('p, 'cm, 'dm, 'dt) tunnel \<Rightarrow> bool" where
  "InSeDomain env domain t = (if api_Contains (dm_api env) domain (Dm_se_domain t) then True else False)"

section \<open>Rules in the database\<close>

text \<open>
  The embedded key-value store (\<open>nutsdb\<close>, a third-party package): one bucket of it, with the
  operations the code uses. A failing transaction is only logged, so an operation returns a state.
\<close>

record 'db kv_api =
  kv_GetAll :: "'db \<Rightarrow> (string \<times> string) list"
  kv_Put :: "string \<Rightarrow> string \<Rightarrow> 'db \<Rightarrow> 'db"
  kv_Delete :: "string \<Rightarrow> 'db \<Rightarrow> 'db"

definition TrimArr :: "string list \<Rightarrow> string list" where
  "TrimArr arr = map (Trim CHR '' '') arr"

definition AddStrRule :: "'db kv_api \<Rightarrow> string \<Rightarrow> string \<Rightarrow> 'db \<Rightarrow> 'db" where
  "AddStrRule kv k v db = kv_Put kv k v db"

definition DeleteStrRule :: "'db kv_api \<Rightarrow> string \<Rightarrow> 'db \<Rightarrow> 'db" where
  "DeleteStrRule kv k db = kv_Delete kv k db"

text \<open>
  The loop over the entries: the rules so far, the values to store again under the right key, and
  the keys to delete. \<open>needReSetKey\<close> is a Go map, here an association list with distinct keys.
\<close>

record load_state =
  ld_rules :: "Rule list"
  needReSetKey :: "(string \<times> string) list"
  deleteKey :: "string list"

definition load_entry :: "string \<times> string \<Rightarrow> load_state \<Rightarrow> panic + load_state" where
  "load_entry kv st =
     (let (k, v) = kv; strlist = TrimArr (Split CHR '','' v) in
      if length strlist \<noteq> 3 then Inr (st\<lparr>deleteKey := deleteKey st @ [k]\<rparr>)
      else
        let payload = strlist ! 1;
            (payload1, param) =
              (if CountChar payload CHR '':'' > 0
               then let rule = TrimArr (Split CHR '':'' payload) in (hd rule, tl rule)
               else (payload, [''no-resolve'']))
        in case ParseRule (strlist ! 0) payload1 (strlist ! 2) param of
             Inl e \<Rightarrow> Inl e
           | Inr (Inl err) \<Rightarrow> Inr st
           | Inr (Inr rule) \<Rightarrow>
               (case rule_RuleType rule of
                  Inl e \<Rightarrow> Inl e
                | Inr rt \<Rightarrow>
                    (case rule_Payload rule of
                       Inl e \<Rightarrow> Inl e
                     | Inr pl \<Rightarrow>
                         let good = RuleType_String rt @ pl;
                             st1 = (if k \<noteq> good
                                    then st\<lparr>deleteKey := deleteKey st @ [k],
                                            needReSetKey := AList.update good v (needReSetKey st)\<rparr>
                                    else st)
                         in Inr (st1\<lparr>ld_rules := ld_rules st1 @ [rule]\<rparr>))))"

fun load_entries :: "(string \<times> string) list \<Rightarrow> load_state \<Rightarrow> panic + load_state" where
  "load_entries [] st = Inr st"
| "load_entries (e # es) st =
     (case load_entry e st of Inl p \<Rightarrow> Inl p | Inr st1 \<Rightarrow> load_entries es st1)"

text \<open>\<open>LoadStrRule\<close> collects into the package variable \<open>rules\<close>.\<close>

definition LoadStrRule :: "'db kv_api \<Rightarrow> 'db \<Rightarrow> ('p, 'cm, 'dm, 'dt) tunnel \<Rightarrow>
    panic + Rule list \<times> 'db \<times> ('p, 'cm, 'dm, 'dt) tunnel" where
  "LoadStrRule kv db t =
     (case load_entries (kv_GetAll kv db) \<lparr>ld_rules = [], needReSetKey = [], deleteKey = []\<rparr> of
        Inl e \<Rightarrow> Inl e
      | Inr st \<Rightarrow>
          let db1 = fold (\<lambda>(k, v). AddStrRule kv k v) (needReSetKey st) db;
              db2 = fold (DeleteStrRule kv) (deleteKey st) db1
          in Inr (ld_rules st, db2, t\<lparr>rules := ld_rules st\<rparr>))"

definition LoadRule :: "'db kv_api \<Rightarrow> Rule list \<Rightarrow> 'db \<Rightarrow> ('p, 'cm, 'dm, 'dt) tunnel \<Rightarrow>
    panic + Rule list \<times> 'db \<times> ('p, 'cm, 'dm, 'dt) tunnel" where
  "LoadRule kv rs db t =
     (case LoadStrRule kv db t of
        Inl e \<Rightarrow> Inl e
      | Inr (loaded, db1, t1) \<Rightarrow> Inr (loaded @ rs, db1, t1))"

end
