(* ===== verification/Rule_Cache.thy ===== *)
theory Rule_Cache
  imports Tunnel
begin

text \<open>
  The cache of matched rules in front of \<open>match\<close>: when does \<open>matchHashMap\<close> give the answer that
  \<open>match\<close> would give?
\<close>

section \<open>Matching without the clock and the process cache\<close>

definition usable :: "('p, 'cm, 'dm, 'dt) tunnel_env \<Rightarrow> (string \<rightharpoonup> 'p) \<Rightarrow> Metadata \<Rightarrow> Rule \<Rightarrow> 'p option" where
  "usable env ps m r =
     (case rule_Adapter r of
        Inl _ \<Rightarrow> None
      | Inr name \<Rightarrow>
          (case ps name of
             None \<Rightarrow> None
           | Some a \<Rightarrow> if NetWork m = UDP \<and> \<not> SupportUDP env a then None else Some a))"

fun match_pure :: "('p, 'cm, 'dm, 'dt) tunnel_env \<Rightarrow> (string \<rightharpoonup> 'p) \<Rightarrow> Rule list \<Rightarrow> bool \<Rightarrow> Metadata \<Rightarrow>
    panic + ('p option \<times> Rule option) \<times> Metadata" where
  "match_pure env ps [] resolved m = Inr ((ps ''DIRECT'', None), m)"
| "match_pure env ps (r # rs) resolved m =
     (case resolve_step (res_env env) r resolved m of
        Inl e \<Rightarrow> Inl e
      | Inr (resolved1, m1) \<Rightarrow>
          (case rule_test (rules_env env) r m1 of
             Inl e \<Rightarrow> Inl e
           | Inr matched \<Rightarrow>
               (case (if matched then usable env ps m1 r else None) of
                  Some a \<Rightarrow> Inr ((Some a, Some r), m1)
                | None \<Rightarrow> match_pure env ps rs resolved1 m1)))"

lemma rule_Adapter_port_free: "port_free r \<Longrightarrow> \<exists>name. rule_Adapter r = Inr name"
  by (cases r) auto

lemma match_loop_pure:
  "list_all port_free rs \<Longrightarrow>
   match_loop env now ps rs b m pc = map_sum id (\<lambda>(res, m1). (res, m1, pc)) (match_pure env ps rs b m)"
proof (induction rs arbitrary: b m)
  case (Cons r rs)
  then have r: "port_free r" and rs: "list_all port_free rs" by simp_all
  obtain name where name: "rule_Adapter r = Inr name" using rule_Adapter_port_free [OF r] by blast
  show ?case
  proof (cases "resolve_step (res_env env) r b m")
    case (Inr x)
    obtain b1 m1 where x: "x = (b1, m1)" by (cases x)
    note IH = Cons.IH [OF rs, of b1 m1]
    show ?thesis
    proof (cases "rule_test (rules_env env) r m1")
      case (Inr matched)
      then show ?thesis
        using \<open>resolve_step _ _ _ _ = Inr x\<close> x IH name
        by (cases matched) (simp_all add: rule_Match_test [OF r] usable_def split: option.split)
    qed (use Inr x in \<open>simp add: rule_Match_test [OF r]\<close>)
  qed simp
qed simp

text \<open>Connections that differ in the source port and the inbound type only get the same answer.\<close>

definition base :: "Metadata \<Rightarrow> Metadata" where
  "base m = m\<lparr>SrcPort := '''', Type := 0\<rparr>"

lemma same_conn_base: "same_conn m n \<longleftrightarrow> base m = base n"
proof
  assume "same_conn m n"
  then have "n = m\<lparr>SrcPort := SrcPort n, Type := Type n\<rparr>" by (simp add: same_conn_def)
  then have "base n = base (m\<lparr>SrcPort := SrcPort n, Type := Type n\<rparr>)" by simp
  then show "base m = base n" by (simp add: base_def)
next
  assume "base m = base n"
  then show "same_conn m n" unfolding base_def same_conn_def by (cases m; cases n) simp
qed

lemma resolve_step_same:
  assumes "same_conn m n"
  shows "map_sum id (map_prod id base) (resolve_step renv r b m) =
         map_sum id (map_prod id base) (resolve_step renv r b n)"
  using assms same_conn_fields [OF assms] same_conn_DstIP [OF assms]
  by (auto simp: resolve_step_def shouldResolveIP_def same_conn_base split: sum.split)

lemma match_pure_same:
  assumes "list_all port_free rs" and "same_conn m n"
  shows "map_sum id (map_prod id base) (match_pure env ps rs b m) =
         map_sum id (map_prod id base) (match_pure env ps rs b n)"
  using assms
proof (induction rs arbitrary: b m n)
  case Nil
  then show ?case by (simp add: same_conn_base)
next
  case (Cons r rs)
  then have r: "port_free r" and rs: "list_all port_free rs" by simp_all
  note step = resolve_step_same [OF Cons.prems(2), of "res_env env" r b]
  show ?case
  proof (cases "resolve_step (res_env env) r b m")
    case (Inl e)
    with step show ?thesis by (cases "resolve_step (res_env env) r b n") simp_all
  next
    case (Inr x)
    obtain b1 m1 where x: "x = (b1, m1)" by (cases x)
    with step Inr obtain n1 where
      n1: "resolve_step (res_env env) r b n = Inr (b1, n1)" "same_conn m1 n1"
      by (cases "resolve_step (res_env env) r b n") (auto simp: same_conn_base)
    have t: "rule_test (rules_env env) r n1 = rule_test (rules_env env) r m1"
      by (rule rule_test_cong [OF r n1(2)])
    have u: "usable env ps n1 r = usable env ps m1 r"
      unfolding usable_def same_conn_fields(1) [OF n1(2)] ..
    show ?thesis
      using Cons.IH [OF rs n1(2), of b1] n1 Inr x t u
      by (cases "rule_test (rules_env env) r m1"; cases "usable env ps m1 r")
         (auto simp: same_conn_base)
  qed
qed

text \<open>The answer of \<open>match\<close>, as a function of the rules, the proxies and the connection alone.\<close>

definition answer :: "('p, 'cm, 'dm, 'dt) tunnel_env \<Rightarrow> (string \<rightharpoonup> 'p) \<Rightarrow> Rule list \<Rightarrow> Metadata \<Rightarrow>
    panic + ('p option \<times> Rule option)" where
  "answer env ps rs m =
     (case match_hosts (res_env env) m of
        Inl e \<Rightarrow> Inl e
      | Inr (b, m1) \<Rightarrow> map_sum id fst (match_pure env ps rs b m1))"

lemma match_answer:
  assumes "list_all port_free (rules t)"
  shows "map_sum id fst (match env now m t) = answer env (proxies t) (rules t) m"
proof (cases "match_hosts (res_env env) m")
  case (Inr x)
  obtain b m1 where x: "x = (b, m1)" by (cases x)
  show ?thesis
    unfolding match_def answer_def Inr x match_loop_pure [OF assms] prod.case sum.case
    by (cases "match_pure env (proxies t) (rules t) b m1") auto
qed (simp add: match_def answer_def)

lemma match_state:
  assumes "list_all port_free (rules t)" and "match env now m t = Inr (res, m1, t1)"
  shows "t1 = t"
proof -
  obtain b m0 where h: "match_hosts (res_env env) m = Inr (b, m0)"
    using assms(2) by (cases "match_hosts (res_env env) m") (auto simp: match_def)
  show ?thesis
    using assms(2) unfolding match_def h match_loop_pure [OF assms(1)] prod.case sum.case
    by (cases "match_pure env (proxies t) (rules t) b m0") auto
qed

lemma match_hosts_same:
  assumes "same_conn m n"
  shows "map_sum id (map_prod id base) (match_hosts renv m) = map_sum id (map_prod id base) (match_hosts renv n)"
  using assms same_conn_fields [OF assms] same_conn_DstIP [OF assms]
  by (auto simp: match_hosts_def same_conn_base split: sum.split option.split list.split)

lemma answer_same:
  assumes "list_all port_free rs" and "same_conn m n"
  shows "answer env ps rs m = answer env ps rs n"
proof (cases "match_hosts (res_env env) m")
  case (Inl e)
  with match_hosts_same [OF assms(2), of "res_env env"] show ?thesis
    by (cases "match_hosts (res_env env) n") (simp_all add: answer_def)
next
  case (Inr x)
  obtain b m1 where x: "x = (b, m1)" by (cases x)
  with match_hosts_same [OF assms(2), of "res_env env"] Inr obtain n1 where
    n1: "match_hosts (res_env env) n = Inr (b, n1)" "same_conn m1 n1"
    by (cases "match_hosts (res_env env) n") (auto simp: same_conn_base)
  have fst_base: "map_sum id fst y = map_sum id fst (map_sum id (map_prod id base) y)"
    for y :: "panic + ('p option \<times> Rule option) \<times> Metadata"
    by (cases y) auto
  show ?thesis
    unfolding answer_def Inr x n1(1) using match_pure_same [OF assms(1) n1(2), of env ps b]
    by (simp add: fst_base [of "match_pure env ps rs b m1"] fst_base [of "match_pure env ps rs b n1"])
qed

section \<open>The key of a connection\<close>

text \<open>
  Connections between IPv4 addresses (or with an address that is not known yet) whose host and port
  have no blanks: the form in which the inbounds describe them.
\<close>

definition clean_ip :: "IP \<Rightarrow> bool" where
  "clean_ip ip \<longleftrightarrow> ip = [] \<or> length ip = 4"

definition clean :: "Metadata \<Rightarrow> bool" where
  "clean m \<longleftrightarrow> clean_ip (SrcIP m) \<and> clean_ip (DstIP m) \<and> CHR '' '' \<notin> set (DstPort m) \<and>
     CHR '' '' \<notin> set (Host m) \<and> NetWork m \<in> {TCP, UDP} \<and> 0 \<le> AddrType m"

lemma split_at:
  assumes "xs @ c # ys = xs' @ c # ys'" and "c \<notin> set xs" and "c \<notin> set xs'"
  shows "xs = xs' \<and> ys = ys'"
  using assms by (induction xs arbitrary: xs') (auto simp: Cons_eq_append_conv)

lemma IP_String_chars:
  "clean_ip ip \<Longrightarrow> c \<in> set (IP_String ip) \<Longrightarrow> c \<in> set ''<nil>.'' \<or> is_digit c"
proof -
  assume ip: "clean_ip ip" and c: "c \<in> set (IP_String ip)"
  show ?thesis
  proof (cases "ip = []")
    case True
    with c show ?thesis by (auto simp: IP_String_def)
  next
    case False
    with ip have "length ip = 4" by (simp add: clean_ip_def)
    then obtain x y z w where xs: "ip = [x, y, z, w]"
      by (auto simp: length_Suc_conv numeral_eq_Suc)
    with c show ?thesis
      by (auto simp: IP_String_def ipv4_string_def dest: utoa_chars)
  qed
qed

lemma IP_String_inject:
  assumes "clean_ip ip" "clean_ip ip'" "IP_String ip = IP_String ip'"
  shows "ip = ip'"
proof -
  have rt: "To4 (ParseIP (IP_String x)) = x" if "clean_ip x" for x
  proof (cases "x = []")
    case True
    then show ?thesis by (simp add: IP_String_def) code_simp
  next
    case False
    with that show ?thesis by (simp add: clean_ip_def To4_ParseIP_IP_String)
  qed
  show ?thesis using rt [OF assms(1)] rt [OF assms(2)] assms(3) by metis
qed

lemma IP_String_no_sep:
  assumes "clean_ip ip"
  shows "CHR ''-'' \<notin> set (IP_String ip)" and "CHR '':'' \<notin> set (IP_String ip)"
  using IP_String_chars [OF assms, of "CHR ''-''"] IP_String_chars [OF assms, of "CHR '':''"]
  by (auto simp: is_digit_def)

lemma split_at_last:
  assumes "xs @ c # ys = xs' @ c # ys'" and "c \<notin> set ys" and "c \<notin> set ys'"
  shows "xs = xs' \<and> ys = ys'"
proof -
  from assms(1) have "rev (xs @ c # ys) = rev (xs' @ c # ys')" by simp
  then have "rev ys @ c # rev xs = rev ys' @ c # rev xs'" by simp
  from split_at [OF this] assms(2,3) show ?thesis by simp
qed

lemma key_tail:
  assumes "t @ '' AddrType:'' @ utoa a @ '' NetWork:'' @ w = t' @ '' AddrType:'' @ utoa a' @ '' NetWork:'' @ w'"
    and "CHR '':'' \<notin> set w" and "CHR '':'' \<notin> set w'"
  shows "t = t' \<and> a = a' \<and> w = w'"
proof -
  have colon: "CHR '':'' \<notin> set (utoa n)" for n by (simp add: utoa_no_char)
  have "(t @ '' AddrType:'' @ utoa a @ '' NetWork'') @ CHR '':'' # w =
        (t' @ '' AddrType:'' @ utoa a' @ '' NetWork'') @ CHR '':'' # w'" using assms(1) by simp
  from split_at_last [OF this assms(2,3)] have w: "w = w'"
    and pre: "(t @ '' AddrType:'' @ utoa a) @ '' NetWork'' = (t' @ '' AddrType:'' @ utoa a') @ '' NetWork''"
    by simp_all
  from pre have "t @ '' AddrType:'' @ utoa a = t' @ '' AddrType:'' @ utoa a'"
    by (rule append_same_eq [THEN iffD1])
  then have "(t @ '' AddrType'') @ CHR '':'' # utoa a = (t' @ '' AddrType'') @ CHR '':'' # utoa a'" by simp
  from split_at_last [OF this colon colon] w show ?thesis by simp
qed

lemma InfoKey_inject:
  assumes "clean m" "clean n" "InfoKey m = InfoKey n"
  shows "same_conn m n"
proof -
  note c = assms(1,2) [unfolded clean_def]
  let ?tail = "\<lambda>m. Type_String (Type m) @ '' AddrType:'' @ Itoa (AddrType m) @ '' NetWork:'' @ NetWork_String (NetWork m)"
  have "IP_String (SrcIP m) @ CHR ''-'' # (''>'' @ IP_String (DstIP m) @ '':'' @ DstPort m @ '' host:'' @ Host m @ '' Type:'' @ ?tail m) =
        IP_String (SrcIP n) @ CHR ''-'' # (''>'' @ IP_String (DstIP n) @ '':'' @ DstPort n @ '' host:'' @ Host n @ '' Type:'' @ ?tail n)"
    using assms(3) by (simp add: InfoKey_def)
  from split_at [OF this] c IP_String_no_sep have src: "IP_String (SrcIP m) = IP_String (SrcIP n)"
    and "IP_String (DstIP m) @ CHR '':'' # (DstPort m @ '' host:'' @ Host m @ '' Type:'' @ ?tail m) =
         IP_String (DstIP n) @ CHR '':'' # (DstPort n @ '' host:'' @ Host n @ '' Type:'' @ ?tail n)" by simp_all
  from split_at [OF this(2)] c IP_String_no_sep have dst: "IP_String (DstIP m) = IP_String (DstIP n)"
    and "DstPort m @ CHR '' '' # (''host:'' @ Host m @ '' Type:'' @ ?tail m) =
         DstPort n @ CHR '' '' # (''host:'' @ Host n @ '' Type:'' @ ?tail n)" by simp_all
  from split_at [OF this(2)] c have port: "DstPort m = DstPort n"
    and "Host m @ CHR '' '' # (''Type:'' @ ?tail m) = Host n @ CHR '' '' # (''Type:'' @ ?tail n)" by simp_all
  from split_at [OF this(2)] c have host: "Host m = Host n" and tail: "?tail m = ?tail n" by simp_all
  have net: "CHR '':'' \<notin> set (NetWork_String k)" for k by (simp add: NetWork_String_def)
  from tail c have "Type_String (Type m) @ '' AddrType:'' @ utoa (nat (AddrType m)) @ '' NetWork:'' @ NetWork_String (NetWork m) =
      Type_String (Type n) @ '' AddrType:'' @ utoa (nat (AddrType n)) @ '' NetWork:'' @ NetWork_String (NetWork n)"
    by (simp add: Itoa_def)
  from key_tail [OF this net net] c have "AddrType m = AddrType n" "NetWork_String (NetWork m) = NetWork_String (NetWork n)"
    by (simp_all add: eq_nat_nat_iff)
  moreover from this(2) c have "NetWork m = NetWork n" by (auto simp: NetWork_String_def split: if_splits)
  ultimately show ?thesis
    using src dst port host c IP_String_inject by (intro same_connI) simp_all
qed

section \<open>Facts about the answer\<close>

lemma rule_test_no_ip:
  "port_free r \<Longrightarrow> DstIP m = [] \<Longrightarrow> \<exists>b. rule_test env r m = Inr b"
  by (cases r) (auto simp: rule_test_def GEOIP_Match_def Let_def)

lemma resolve_step_NetWork:
  "resolve_step renv r b m = Inr (b1, m1) \<Longrightarrow> NetWork m1 = NetWork m \<and> (DstIP m \<noteq> [] \<longrightarrow> m1 = m)"
  by (auto simp: resolve_step_def shouldResolveIP_def split: if_splits sum.splits)

lemma match_hosts_NetWork:
  "match_hosts renv m = Inr (b, m1) \<Longrightarrow> NetWork m1 = NetWork m \<and> (DstIP m \<noteq> [] \<longrightarrow> m1 = m)"
  by (auto simp: match_hosts_def split: sum.splits option.splits if_splits list.splits)

lemma usable_cong: "NetWork m = NetWork n \<Longrightarrow> usable env ps m r = usable env ps n r"
  by (auto simp: usable_def split: sum.split option.split)

lemma match_pure_usable:
  assumes "match_pure env ps rs b m = Inr ((x, Some r), m1)"
  shows "usable env ps m r = x \<and> x \<noteq> None \<and> r \<in> set rs \<and>
         (DstIP m \<noteq> [] \<longrightarrow> rule_test (rules_env env) r m = Inr True)"
  using assms
proof (induction rs arbitrary: b m)
  case (Cons q qs)
  obtain b1 m2 where st: "resolve_step (res_env env) q b m = Inr (b1, m2)"
    using Cons.prems by (auto split: sum.splits)
  note net = resolve_step_NetWork [OF st]
  obtain matched where te: "rule_test (rules_env env) q m2 = Inr matched"
    using Cons.prems st by (auto split: sum.splits)
  show ?case
  proof (cases "if matched then usable env ps m2 q else None")
    case (Some a)
    then have "matched" "usable env ps m2 q = Some a" by (auto split: if_splits)
    moreover have "x = Some a" "r = q" using Cons.prems st te Some by auto
    ultimately show ?thesis using net te usable_cong [of m2 m env ps q] by auto
  next
    case None
    then have "match_pure env ps qs b1 m2 = Inr ((x, Some r), m1)" using Cons.prems st te by simp
    from Cons.IH [OF this] net usable_cong [of m2 m env ps r] show ?thesis by auto
  qed
qed simp

lemma answer_usable:
  assumes "answer env ps rs m = Inr (x, Some r)" and "list_all port_free rs"
  shows "\<exists>a. x = Some a \<and> usable env ps m r = Some a" and "port_free r"
    and "\<exists>b. rule_test (rules_env env) r m = Inr b"
proof -
  obtain b m1 where h: "match_hosts (res_env env) m = Inr (b, m1)"
    using assms(1) by (auto simp: answer_def split: sum.splits)
  obtain m2 where p: "match_pure env ps rs b m1 = Inr ((x, Some r), m2)"
    using assms(1) h by (cases "match_pure env ps rs b m1") (auto simp: answer_def)
  note u = match_pure_usable [OF p] and net = match_hosts_NetWork [OF h]
  show "\<exists>a. x = Some a \<and> usable env ps m r = Some a"
    using u net usable_cong [of m1 m env ps r] by auto
  show pf: "port_free r" using u assms(2) by (simp add: list_all_iff)
  show "\<exists>b. rule_test (rules_env env) r m = Inr b"
    using rule_test_no_ip [OF pf] u net by (cases "DstIP m = []") auto
qed

text \<open>A connection that no rule takes is carried by the proxy named DIRECT.\<close>

lemma match_pure_DIRECT:
  "match_pure env ps rs b m = Inr ((x, None), m1) \<Longrightarrow> x = ps ''DIRECT''"
  by (induction rs arbitrary: b m) (auto split: sum.splits prod.splits option.splits if_splits)

lemma answer_DIRECT: "answer env ps rs m = Inr (x, None) \<Longrightarrow> x = ps ''DIRECT''"
proof -
  assume a: "answer env ps rs m = Inr (x, None)"
  obtain b m1 where h: "match_hosts (res_env env) m = Inr (b, m1)"
    using a by (auto simp: answer_def split: sum.splits)
  then show ?thesis
    using a match_pure_DIRECT by (cases "match_pure env ps rs b m1") (auto simp: answer_def)
qed

section \<open>The cache answers as match does\<close>

locale rule_cache = golang_lru "cm_api env" inv view
  for env :: "('p, 'cm, 'dm, 'dt) tunnel_env" and inv :: "'cm \<Rightarrow> bool"
    and view :: "'cm \<Rightarrow> string \<rightharpoonup> 'p cm_value"
begin

definition rule_ok :: "('p, 'cm, 'dm, 'dt) tunnel \<Rightarrow> Metadata \<Rightarrow> 'p cm_value \<Rightarrow> bool" where
  "rule_ok t m v \<longleftrightarrow> (\<exists>r a. v = CmRule r \<and> answer env (proxies t) (rules t) m = Inr (Some a, Some r))"

definition proxy_ok :: "('p, 'cm, 'dm, 'dt) tunnel \<Rightarrow> Metadata \<Rightarrow> 'p cm_value \<Rightarrow> bool" where
  "proxy_ok t m v \<longleftrightarrow>
     (\<exists>x. answer env (proxies t) (rules t) m = Inr (x, None) \<and>
          v = (case x of Some a \<Rightarrow> CmProxy a | None \<Rightarrow> CmNil))"

definition cm_ok :: "('p, 'cm, 'dm, 'dt) tunnel \<Rightarrow> bool" where
  "cm_ok t \<longleftrightarrow> inv (Cm t) \<and>
     (\<forall>m v. clean m \<longrightarrow> view (Cm t) (InfoKey m @ ''_rule'') = Some v \<longrightarrow> rule_ok t m v) \<and>
     (\<forall>m v. clean m \<longrightarrow> view (Cm t) (InfoKey m @ ''_proxy'') = Some v \<longrightarrow> proxy_ok t m v)"

lemma cm_okD:
  assumes "cm_ok t"
  shows "inv (Cm t)"
    and "clean m \<Longrightarrow> view (Cm t) (InfoKey m @ ''_rule'') = Some v \<Longrightarrow> rule_ok t m v"
    and "clean m \<Longrightarrow> view (Cm t) (InfoKey m @ ''_proxy'') = Some v \<Longrightarrow> proxy_ok t m v"
  using assms by (simp_all add: cm_ok_def)

lemma cm_ok_view:
  assumes "cm_ok t" and "inv (Cm t')" and "\<And>k v. view (Cm t') k = Some v \<Longrightarrow> view (Cm t) k = Some v"
    and "proxies t' = proxies t" and "rules t' = rules t"
  shows "cm_ok t'"
  unfolding cm_ok_def rule_ok_def proxy_ok_def assms(4,5)
  using cm_okD(2,3) [OF assms(1)] assms(2,3) by (auto simp: rule_ok_def proxy_ok_def)

lemma suffix_keys: "k @ ''_rule'' \<noteq> k' @ ''_proxy''"
proof
  assume "k @ ''_rule'' = k' @ ''_proxy''"
  then have "last (k @ ''_rule'') = last (k' @ ''_proxy'')" by simp
  then show False by simp
qed

lemma cm_ok_add_rule:
  assumes ok: "cm_ok t" and m: "clean m" and pf: "list_all port_free (rules t)"
    and a: "answer env (proxies t) (rules t) m = Inr (Some a, Some r)"
  shows "cm_ok (setMatchHashMap env (InfoKey m @ ''_rule'') (CmRule r) t)"
proof -
  let ?t = "setMatchHashMap env (InfoKey m @ ''_rule'') (CmRule r) t"
  note inv = cm_okD(1) [OF ok]
  have view: "view (Cm ?t) j = Some w \<Longrightarrow>
      (if j = InfoKey m @ ''_rule'' then w = CmRule r else view (Cm t) j = Some w)" for j w
    using Add_Some [OF inv] by (simp add: setMatchHashMap_def)
  have "rule_ok t n v" if n: "clean n" "view (Cm ?t) (InfoKey n @ ''_rule'') = Some v" for n v
  proof (cases "InfoKey n = InfoKey m")
    case True
    with InfoKey_inject [OF n(1) m] have "answer env (proxies t) (rules t) n = answer env (proxies t) (rules t) m"
      using answer_same [OF pf] by blast
    with view [OF n(2)] True a show ?thesis by (simp add: rule_ok_def)
  next
    case False
    with view [OF n(2)] cm_okD(2) [OF ok n(1)] show ?thesis by simp
  qed
  moreover have "proxy_ok t n v" if "clean n" "view (Cm ?t) (InfoKey n @ ''_proxy'') = Some v" for n v
    using view [OF that(2)] cm_okD(3) [OF ok that(1)] suffix_keys [of "InfoKey m" "InfoKey n"] by simp
  ultimately show ?thesis
    unfolding cm_ok_def using Add_inv [OF inv]
    by (simp add: rule_ok_def proxy_ok_def setMatchHashMap_def)
qed

lemma cm_ok_add_proxy:
  assumes ok: "cm_ok t" and m: "clean m" and pf: "list_all port_free (rules t)"
    and a: "answer env (proxies t) (rules t) m = Inr (x, None)"
  shows "cm_ok (setMatchHashMap env (InfoKey m @ ''_proxy'') (case x of Some p \<Rightarrow> CmProxy p | None \<Rightarrow> CmNil) t)"
proof -
  let ?v = "case x of Some p \<Rightarrow> CmProxy p | None \<Rightarrow> CmNil"
  let ?t = "setMatchHashMap env (InfoKey m @ ''_proxy'') ?v t"
  note inv = cm_okD(1) [OF ok]
  have view: "view (Cm ?t) j = Some w \<Longrightarrow>
      (if j = InfoKey m @ ''_proxy'' then w = ?v else view (Cm t) j = Some w)" for j w
    using Add_Some [OF inv] by (simp add: setMatchHashMap_def)
  have "proxy_ok t n v" if n: "clean n" "view (Cm ?t) (InfoKey n @ ''_proxy'') = Some v" for n v
  proof (cases "InfoKey n = InfoKey m")
    case True
    with InfoKey_inject [OF n(1) m] have "answer env (proxies t) (rules t) n = answer env (proxies t) (rules t) m"
      using answer_same [OF pf] by blast
    with view [OF n(2)] True a show ?thesis by (simp add: proxy_ok_def)
  next
    case False
    with view [OF n(2)] cm_okD(3) [OF ok n(1)] show ?thesis by simp
  qed
  moreover have "rule_ok t n v" if "clean n" "view (Cm ?t) (InfoKey n @ ''_rule'') = Some v" for n v
    using view [OF that(2)] cm_okD(2) [OF ok that(1)] suffix_keys [of "InfoKey n" "InfoKey m"] by simp
  ultimately show ?thesis
    unfolding cm_ok_def using Add_inv [OF inv]
    by (simp add: rule_ok_def proxy_ok_def setMatchHashMap_def)
qed

end

context rule_cache
begin

lemma cm_ok_Get:
  assumes "cm_ok t" and "api_Get (cm_api env) k (Cm t) = (hv, cm1)"
  shows "cm_ok (t\<lparr>Cm := cm1\<rparr>)" and "hv = view (Cm t) k"
proof -
  note inv = cm_okD(1) [OF assms(1)]
  show "hv = view (Cm t) k" using Get_val [OF inv, of k] assms(2) by simp
  have "inv cm1" "view cm1 = view (Cm t)"
    using Get_inv [OF inv, of k] Get_view [OF inv, of k] assms(2) by simp_all
  then show "cm_ok (t\<lparr>Cm := cm1\<rparr>)" by (intro cm_ok_view [OF assms(1)]) simp_all
qed

lemma cached_rule_ok:
  assumes ok: "cm_ok t" and m: "clean m" and pf: "list_all port_free (rules t)"
  obtains cm1 where "cm_ok (t\<lparr>Cm := cm1\<rparr>)" and
    "cached_rule env now (InfoKey m) m t = Inr (None, t\<lparr>Cm := cm1\<rparr>)"
  | cm1 a r where "cm_ok (t\<lparr>Cm := cm1\<rparr>)" and
    "cached_rule env now (InfoKey m) m t = Inr (Some (a, r), t\<lparr>Cm := cm1\<rparr>)"
    "answer env (proxies t) (rules t) m = Inr (Some a, Some r)"
proof -
  obtain hv cm1 where g: "api_Get (cm_api env) (InfoKey m @ ''_rule'') (Cm t) = (hv, cm1)"
    by (cases "api_Get (cm_api env) (InfoKey m @ ''_rule'') (Cm t)")
  note ok1 = cm_ok_Get(1) [OF ok g] and hv = cm_ok_Get(2) [OF ok g]
  show ?thesis
  proof (cases hv)
    case None
    then show ?thesis by (intro that(1) [OF ok1]) (simp add: cached_rule_def g)
  next
    case (Some v)
    then have "rule_ok t m v" using cm_okD(2) [OF ok m, of v] hv by simp
    then obtain r a where
      v: "v = CmRule r" and ans: "answer env (proxies t) (rules t) m = Inr (Some a, Some r)"
      by (auto simp: rule_ok_def)
    note u = answer_usable [OF ans pf]
    from u(1) obtain name where name: "rule_Adapter r = Inr name" "proxies t name = Some a"
      and udp: "NetWork m = UDP \<longrightarrow> SupportUDP env a"
      by (auto simp: usable_def split: sum.splits option.splits if_splits)
    from u(3) obtain b where b: "rule_test (rules_env env) r m = Inr b" by blast
    have net: "NetWork m = TCP \<or> NetWork m = UDP" using m by (simp add: clean_def)
    have eq: "cached_rule env now (InfoKey m) m t =
        Inr (if b then Some (a, r) else None, t\<lparr>Cm := cm1\<rparr>)"
      using g Some v name b udp net
      by (auto simp: cached_rule_def Let_def rule_Match_test [OF u(2)])
    show ?thesis
    proof (cases b)
      case True
      with eq ans show ?thesis by (intro that(2) [OF ok1, of a r]) simp_all
    next
      case False
      with eq show ?thesis by (intro that(1) [OF ok1]) simp
    qed
  qed
qed

lemma cached_proxy_ok:
  assumes ok: "cm_ok t" and m: "clean m"
  obtains cm1 where "cm_ok (t\<lparr>Cm := cm1\<rparr>)" and
    "cached_proxy env (InfoKey m) t = Inr (None, t\<lparr>Cm := cm1\<rparr>)"
  | cm1 a where "cm_ok (t\<lparr>Cm := cm1\<rparr>)" and
    "cached_proxy env (InfoKey m) t = Inr (Some a, t\<lparr>Cm := cm1\<rparr>)"
    "answer env (proxies t) (rules t) m = Inr (Some a, None)"
proof -
  obtain hv cm1 where g: "api_Get (cm_api env) (InfoKey m @ ''_proxy'') (Cm t) = (hv, cm1)"
    by (cases "api_Get (cm_api env) (InfoKey m @ ''_proxy'') (Cm t)")
  note ok1 = cm_ok_Get(1) [OF ok g] and hv = cm_ok_Get(2) [OF ok g]
  show ?thesis
  proof (cases hv)
    case None
    then show ?thesis by (intro that(1) [OF ok1]) (simp add: cached_proxy_def g)
  next
    case (Some v)
    then have "proxy_ok t m v" using cm_okD(3) [OF ok m, of v] hv by simp
    then obtain x where
      ans: "answer env (proxies t) (rules t) m = Inr (x, None)"
      and v: "v = (case x of Some a \<Rightarrow> CmProxy a | None \<Rightarrow> CmNil)"
      by (auto simp: proxy_ok_def)
    show ?thesis
    proof (cases x)
      case (Some a)
      with ans v \<open>hv = Some v\<close> show ?thesis
        by (intro that(2) [OF ok1, of a]) (simp_all add: cached_proxy_def g)
    next
      case None
      with v \<open>hv = Some v\<close> show ?thesis by (intro that(1) [OF ok1]) (simp add: cached_proxy_def g)
    qed
  qed
qed

lemma matchHashMap_answer:
  assumes ok: "cm_ok t" and m: "clean m" and pf: "list_all port_free (rules t)"
  shows "map_sum id fst (matchHashMap env now m t) = answer env (proxies t) (rules t) m \<and>
    (\<forall>res m1 t1. matchHashMap env now m t = Inr (res, m1, t1) \<longrightarrow>
       cm_ok t1 \<and> rules t1 = rules t \<and> proxies t1 = proxies t)"
proof (cases rule: cached_rule_ok [OF ok m pf, of now])
  case (2 cm1 a r)
  then show ?thesis by (auto simp: matchHashMap_def Let_def)
next
  case (1 cm1)
  let ?t1 = "t\<lparr>Cm := cm1\<rparr>"
  show ?thesis
  proof (cases rule: cached_proxy_ok [OF 1(1) m])
    case (2 cm2 a)
    with 1 show ?thesis by (auto simp: matchHashMap_def Let_def)
  next
    case miss: (1 cm2)
    let ?t2 = "t\<lparr>Cm := cm2\<rparr>"
    have ok2: "cm_ok ?t2" and pf2: "list_all port_free (rules ?t2)" using miss(1) pf by simp_all
    have ans: "map_sum id fst (match env now m ?t2) = answer env (proxies t) (rules t) m"
      using match_answer [OF pf2, of env now m] by simp
    show ?thesis
    proof (cases "match env now m ?t2")
      case (Inl e)
      with 1 miss ans show ?thesis by (auto simp: matchHashMap_def Let_def)
    next
      case (Inr y)
      obtain x ro m1 t3 where y: "y = ((x, ro), m1, t3)" by (metis prod.exhaust)
      have t3: "t3 = ?t2" using match_state [OF pf2] Inr y by blast
      have a2: "answer env (proxies ?t2) (rules ?t2) m = Inr (x, ro)" using ans Inr y by simp
      show ?thesis
      proof (cases ro)
        case None
        with cm_ok_add_proxy [OF ok2 m pf2] a2 1 miss ans Inr y t3 show ?thesis
          by (auto simp: matchHashMap_def Let_def setMatchHashMap_def)
      next
        case (Some r)
        with answer_usable(1) [of env "proxies ?t2" "rules ?t2" m x r] a2 pf2 obtain a where "x = Some a" by auto
        with Some cm_ok_add_rule [OF ok2 m pf2, of a r] a2 1 miss ans Inr y t3 show ?thesis
          by (auto simp: matchHashMap_def Let_def setMatchHashMap_def)
      qed
    qed
  qed
qed

end

section \<open>Runs\<close>

text \<open>A sequence of connections served by \<open>matchHashMap\<close>, and by \<open>match\<close> alone.\<close>

fun hash_run :: "('p, 'cm, 'dm, 'dt) tunnel_env \<Rightarrow> (int \<times> Metadata) list \<Rightarrow> ('p, 'cm, 'dm, 'dt) tunnel \<Rightarrow>
    panic + ('p option \<times> Rule option) list" where
  "hash_run env [] t = Inr []"
| "hash_run env ((now, m) # ms) t =
     (case matchHashMap env now m t of
        Inl e \<Rightarrow> Inl e
      | Inr (res, m1, t1) \<Rightarrow> map_sum id ((#) res) (hash_run env ms t1))"

fun match_run :: "('p, 'cm, 'dm, 'dt) tunnel_env \<Rightarrow> (int \<times> Metadata) list \<Rightarrow> ('p, 'cm, 'dm, 'dt) tunnel \<Rightarrow>
    panic + ('p option \<times> Rule option) list" where
  "match_run env [] t = Inr []"
| "match_run env ((now, m) # ms) t =
     (case match env now m t of
        Inl e \<Rightarrow> Inl e
      | Inr (res, m1, t1) \<Rightarrow> map_sum id ((#) res) (match_run env ms t1))"

lemma match_run_state:
  "list_all port_free (rules t) \<Longrightarrow> rules t' = rules t \<Longrightarrow> proxies t' = proxies t \<Longrightarrow>
   match_run env ms t' = match_run env ms t"
proof (induction ms arbitrary: t t')
  case (Cons x ms)
  obtain now m where x: "x = (now, m)" by (cases x)
  have pf': "list_all port_free (rules t')" using Cons.prems by simp
  have eq: "map_sum id fst (match env now m t') = map_sum id fst (match env now m t)"
    using match_answer [OF pf'] match_answer [OF Cons.prems(1)] Cons.prems(2,3) by simp
  show ?case
  proof (cases "match env now m t")
    case (Inl e)
    with eq x show ?thesis by (cases "match env now m t'") auto
  next
    case (Inr y)
    obtain res m1 t1 where y: "y = (res, m1, t1)" by (cases y)
    with Inr eq obtain m1' t1' where y': "match env now m t' = Inr (res, m1', t1')"
      by (cases "match env now m t'") auto
    have "t1 = t" "t1' = t'" using match_state [OF Cons.prems(1)] match_state [OF pf'] Inr y y' by blast+
    with Cons.IH [OF Cons.prems] Inr y y' x show ?thesis by simp
  qed
qed simp

context rule_cache
begin

lemma hash_run_match_run:
  assumes "cm_ok t" and "list_all port_free (rules t)" and "\<forall>(now, m) \<in> set ms. clean m"
  shows "hash_run env ms t = match_run env ms t"
  using assms
proof (induction ms arbitrary: t)
  case (Cons x ms)
  obtain now m where x: "x = (now, m)" by (cases x)
  then have m: "clean m" and ms: "\<forall>(now, m) \<in> set ms. clean m" using Cons.prems(3) by auto
  note h = matchHashMap_answer [OF Cons.prems(1) m Cons.prems(2), of now]
  note a = match_answer [OF Cons.prems(2), of env now m]
  have eq: "map_sum id fst (matchHashMap env now m t) = map_sum id fst (match env now m t)"
    using h a by simp
  show ?case
  proof (cases "matchHashMap env now m t")
    case (Inl e)
    with eq x show ?thesis by (cases "match env now m t") auto
  next
    case (Inr y)
    obtain res m1 t1 where y: "y = (res, m1, t1)" by (cases y)
    with h Inr have ok1: "cm_ok t1" and t1: "rules t1 = rules t" "proxies t1 = proxies t"
      and "answer env (proxies t) (rules t) m = Inr res" by auto
    with a obtain m2 t2 where d: "match env now m t = Inr (res, m2, t2)"
      by (cases "match env now m t") auto
    have t2: "t2 = t" using match_state [OF Cons.prems(2) d] .
    have "hash_run env ms t1 = match_run env ms t1"
      using Cons.IH [OF ok1] t1 Cons.prems(2) ms by simp
    also have "\<dots> = match_run env ms t"
      using match_run_state [OF Cons.prems(2) t1] .
    finally show ?thesis using Inr y d t2 x by simp
  qed
qed simp

lemma cm_ok_UpdateRules:
  assumes "inv (Cm t)"
  shows "cm_ok (UpdateRules env rs t)"
  using assms Purge_view Purge_inv by (simp add: cm_ok_def UpdateRules_def)

end

interpretation own_rules: rule_cache "env\<lparr>cm_api := own_api n\<rparr>" "lru_inv n" own_view
  for env :: "('p, (string, 'p cm_value) LruCache, 'dm, 'dt) tunnel_env" and n
  unfolding rule_cache_def by (simp add: own_cache.golang_lru_axioms)

section \<open>Properties\<close>

text \<open>
  A concrete tunnel for the examples: outbounds are names, the third-party caches are instances of the
  program's own cache, and nothing resolves.
\<close>

definition no_resolver :: resolver_env where
  "no_resolver = \<lparr>DefaultHosts = New_trie, DisableIPv6 = True, DefaultResolver = None,
     LookupIP = (\<lambda>_ _. Inl (ErrLookup ''no such host'')), ResolveIPAddr = (\<lambda>_. Inl (ErrLookup ''no such host'')),
     Intn = (\<lambda>_. 0)\<rparr>"

definition demo_env :: "(string, (string, string cm_value) LruCache, (string, string) LruCache,
    (string, int) LruCache) tunnel_env" where
  "demo_env = \<lparr>rules_env = \<lparr>Country = (\<lambda>_. Some ''US''), FindProcessName = (\<lambda>_ _ _. '''')\<rparr>,
     res_env = no_resolver, SupportUDP = (\<lambda>p. p \<noteq> ''http''),
     cm_api = own_api 16, dm_api = own_api 16, dt_api = own_api 16\<rparr>"

definition demo_tunnel :: "(string, (string, string cm_value) LruCache, (string, string) LruCache,
    (string, int) LruCache) tunnel" where
  "demo_tunnel = \<lparr>rules = [], proxies = [''DIRECT'' \<mapsto> ''direct'', ''PROXY'' \<mapsto> ''http''], mode = Rule,
     Cm = NewLRUCache [WithSize 16], Dm = NewLRUCache [WithSize 16], Dm_se = NewLRUCache [WithSize 16],
     Dm_se_domain = NewLRUCache [WithSize 16], Dm_ttl = NewLRUCache [WithSize 16],
     procs = processCache, mapper = None\<rparr>"

definition demo_conn :: "string \<Rightarrow> Metadata" where
  "demo_conn srcPort = \<lparr>NetWork = TCP, Type = SOCKS5, SrcIP = [192, 168, 1, 7], DstIP = [], SrcPort = srcPort,
     DstPort = ''443'', AddrType = AtypDomainName, Host = ''www.example.com''\<rparr>"



text \<open>
  A rule on the source port breaks this. The key of a connection leaves its source port out, so a
  connection from port 1000, for which a SRC-PORT rule names another proxy, gets the cached rule of
  an earlier connection from port 2000.
\<close>

theorem rule_cache_source_port:
  "hash_run demo_env [(0, demo_conn ''2000''), (1, demo_conn ''1000'')]
     (UpdateRules demo_env [Port ''PROXY'' ''1000'' True False, Match ''DIRECT'' False] demo_tunnel) =
     Inr [(Some ''direct'', Some (Match ''DIRECT'' False)), (Some ''direct'', Some (Match ''DIRECT'' False))] \<and>
   match_run demo_env [(0, demo_conn ''2000''), (1, demo_conn ''1000'')]
     (UpdateRules demo_env [Port ''PROXY'' ''1000'' True False, Match ''DIRECT'' False] demo_tunnel) =
     Inr [(Some ''direct'', Some (Match ''DIRECT'' False)),
          (Some ''http'', Some (Port ''PROXY'' ''1000'' True False))]"
  by code_simp

end
