(* ===== verification/Match_Spec.thy ===== *)
theory Match_Spec
  imports Rule_Cache
begin

text \<open>
  What \<open>match\<close> promises, declaratively: the first rule in order that takes the connection, where a
  rule takes it when it matches and its proxy is known and carries the network. The host is resolved
  once, when the first rule that needs an address is reached, so the rules before that one see the
  connection without an address.
\<close>

definition takes :: "('p, 'cm, 'dm, 'dt) tunnel_env \<Rightarrow> (string \<rightharpoonup> 'p) \<Rightarrow> Metadata \<Rightarrow> Rule \<Rightarrow> bool" where
  "takes env ps m r \<longleftrightarrow> rule_test (rules_env env) r m = Inr True \<and> usable env ps m r \<noteq> None"

definition first_taker :: "('p, 'cm, 'dm, 'dt) tunnel_env \<Rightarrow> (string \<rightharpoonup> 'p) \<Rightarrow> Metadata \<Rightarrow> Rule list \<Rightarrow>
    'p option \<times> Rule option" where
  "first_taker env ps m rs =
     (case find (takes env ps m) rs of
        Some r \<Rightarrow> (usable env ps m r, Some r)
      | None \<Rightarrow> (ps ''DIRECT'', None))"

definition first_match :: "('p, 'cm, 'dm, 'dt) tunnel_env \<Rightarrow> (string \<rightharpoonup> 'p) \<Rightarrow> Rule list \<Rightarrow> Metadata \<Rightarrow>
    panic + ('p option \<times> Rule option)" where
  "first_match env ps rs m =
     (let pre = takeWhile (\<lambda>r. \<not> shouldResolveIP r m) rs;
          post = dropWhile (\<lambda>r. \<not> shouldResolveIP r m) rs
      in if post = [] \<or> find (takes env ps m) pre \<noteq> None then Inr (first_taker env ps m pre)
         else case ResolveIP (res_env env) (Host m) of
                Inl e \<Rightarrow> Inl e
              | Inr (Inl err) \<Rightarrow> Inr (first_taker env ps m post)
              | Inr (Inr ip) \<Rightarrow> Inr (first_taker env ps (m\<lparr>DstIP := ip\<rparr>) post))"

definition geo_total :: "('p, 'cm, 'dm, 'dt) tunnel_env \<Rightarrow> bool" where
  "geo_total env \<longleftrightarrow> (\<forall>ip. Country (rules_env env) ip \<noteq> None)"

lemma rule_test_total:
  assumes "port_free r" and "geo_total env"
  shows "\<exists>b. rule_test (rules_env env) r m = Inr b"
proof -
  have "Country (rules_env env) (DstIP m) \<noteq> None" using assms(2) by (simp add: geo_total_def)
  then show ?thesis
    using assms(1) by (cases r) (auto simp: rule_test_def GEOIP_Match_def Let_def split: option.split)
qed

lemma first_taker_Cons:
  "first_taker env ps m (r # rs) =
     (if takes env ps m r then (usable env ps m r, Some r) else first_taker env ps m rs)"
  by (simp add: first_taker_def)

text \<open>One rule, once the connection is as the rule will see it.\<close>

lemma match_pure_step:
  assumes "port_free r" and "geo_total env" and "resolve_step (res_env env) r b m = Inr (b1, m1)"
  shows "map_sum id fst (match_pure env ps (r # rs) b m) =
         (if takes env ps m1 r then Inr (usable env ps m1 r, Some r)
          else map_sum id fst (match_pure env ps rs b1 m1))"
proof -
  obtain t where t: "rule_test (rules_env env) r m1 = Inr t"
    using rule_test_total [OF assms(1,2)] by blast
  show ?thesis
    using assms(3) t by (cases t) (auto simp: takes_def split: option.split)
qed

declare match_pure.simps(2) [simp del]

lemma match_pure_resolved:
  "list_all port_free rs \<Longrightarrow> geo_total env \<Longrightarrow>
   map_sum id fst (match_pure env ps rs True m) = Inr (first_taker env ps m rs)"
proof (induction rs)
  case (Cons r rs)
  then have "resolve_step (res_env env) r True m = Inr (True, m)" by (simp add: resolve_step_def)
  from match_pure_step [OF _ Cons.prems(2) this, of ps rs] Cons
  show ?case by (simp add: first_taker_Cons id_def)
qed (simp add: first_taker_def)

lemma match_pure_first:
  "list_all port_free rs \<Longrightarrow> geo_total env \<Longrightarrow>
   map_sum id fst (match_pure env ps rs False m) = first_match env ps rs m"
proof (induction rs)
  case Nil
  then show ?case by (simp add: first_match_def first_taker_def)
next
  case (Cons r rs)
  then have r: "port_free r" and rs: "list_all port_free (r # rs)" by simp_all
  show ?case
  proof (cases "shouldResolveIP r m")
    case False
    then have "resolve_step (res_env env) r False m = Inr (False, m)" by (simp add: resolve_step_def)
    note step = match_pure_step [OF r Cons.prems(2) this, of ps rs]
    have IH: "map_sum id fst (match_pure env ps rs False m) = first_match env ps rs m"
      using Cons by (simp add: id_def)
    show ?thesis
    proof (cases "takes env ps m r")
      case True
      with step False show ?thesis by (simp add: first_match_def Let_def first_taker_Cons id_def)
    next
      case no: False
      then have "first_match env ps (r # rs) m = first_match env ps rs m"
        using False by (simp add: first_match_def Let_def first_taker_Cons)
      with step IH no show ?thesis by (simp add: id_def)
    qed
  next
    case True
    then have ip: "DstIP m = []" by (simp add: shouldResolveIP_def)
    have first: "first_match env ps (r # rs) m =
        (case ResolveIP (res_env env) (Host m) of
           Inl e \<Rightarrow> Inl e
         | Inr (Inl err) \<Rightarrow> Inr (first_taker env ps m (r # rs))
         | Inr (Inr ip) \<Rightarrow> Inr (first_taker env ps (m\<lparr>DstIP := ip\<rparr>) (r # rs)))"
      using True by (simp add: first_match_def Let_def)
    show ?thesis
    proof (cases "ResolveIP (res_env env) (Host m)")
      case (Inl e)
      with True first show ?thesis by (simp add: resolve_step_def match_pure.simps(2))
    next
      case (Inr res)
      let ?m = "case res of Inl _ \<Rightarrow> m | Inr ip \<Rightarrow> m\<lparr>DstIP := ip\<rparr>"
      have "resolve_step (res_env env) r False m = Inr (True, ?m)"
        using True Inr ip by (auto simp: resolve_step_def split: sum.split)
      note step = match_pure_step [OF r Cons.prems(2) this, of ps rs]
      have "map_sum id fst (match_pure env ps (r # rs) False m) = Inr (first_taker env ps ?m (r # rs))"
        unfolding step first_taker_Cons using match_pure_resolved [OF _ Cons.prems(2), of rs ps ?m] rs by simp
      with first Inr show ?thesis by (cases res) (simp_all add: id_def)
    qed
  qed
qed

section \<open>The proxy of a matched connection\<close>

definition carries :: "('p, 'cm, 'dm, 'dt) tunnel_env \<Rightarrow> (string \<rightharpoonup> 'p) \<Rightarrow> Metadata \<Rightarrow> 'p option \<Rightarrow> Rule \<Rightarrow> bool" where
  "carries env ps m x r \<longleftrightarrow>
     (\<exists>a name. x = Some a \<and> rule_Adapter r = Inr name \<and> ps name = Some a \<and>
        (NetWork m = UDP \<longrightarrow> SupportUDP env a))"

lemma cached_rule_carries:
  assumes "cached_rule env now k m t = Inr (Some (a, r), t1)"
  shows "carries env (proxies t) m (Some a) r"
  using assms unfolding carries_def
  by (auto simp: cached_rule_def Let_def split: prod.splits option.splits cm_value.splits
      sum.splits if_splits)

lemma cached_proxies:
  assumes "cached_rule env now k m t = Inr (y, t1)" and "cached_proxy env k t1 = Inr (z, t2)"
  shows "proxies t2 = proxies t"
proof -
  have "proxies t1 = proxies t"
    using assms(1) by (auto simp: cached_rule_def Let_def split: prod.splits option.splits
        cm_value.splits sum.splits if_splits)
  moreover have "proxies t2 = proxies t1"
    using assms(2) by (auto simp: cached_proxy_def split: prod.splits option.splits cm_value.splits)
  ultimately show ?thesis by simp
qed

lemma match_loop_carries:
  assumes "match_loop env now ps rs b m pc = Inr ((x, Some r), m1, pc1)"
  shows "carries env ps m x r"
  using assms
proof (induction rs arbitrary: b m pc)
  case (Cons q qs)
  obtain b1 m2 where st: "resolve_step (res_env env) q b m = Inr (b1, m2)"
    using Cons.prems by (auto split: sum.splits)
  note net = resolve_step_NetWork [OF st]
  obtain matched pc2 where ma: "rule_Match (rules_env env) now q m2 pc = Inr (matched, pc2)"
    using Cons.prems st by (auto split: sum.splits)
  have rest: "carries env ps m x r" if "match_loop env now ps qs b1 m2 pc2 = Inr ((x, Some r), m1, pc1)"
    using Cons.IH [OF that] net by (simp add: carries_def)
  show ?case
  proof (cases matched)
    case True
    obtain name where name: "rule_Adapter q = Inr name"
      using Cons.prems st ma True by (auto split: sum.splits)
    show ?thesis
    proof (cases "ps name")
      case None
      with Cons.prems st ma True name rest show ?thesis by simp
    next
      case (Some a)
      show ?thesis
      proof (cases "NetWork m2 = UDP \<and> \<not> SupportUDP env a")
        case True
        with Cons.prems st ma \<open>matched\<close> name Some rest show ?thesis by simp
      next
        case False
        with name Some net have "carries env ps m (Some a) q" by (auto simp: carries_def)
        moreover have "x = Some a" "r = q" using Cons.prems st ma \<open>matched\<close> name Some False by auto
        ultimately show ?thesis by simp
      qed
    qed
  qed (use Cons.prems st ma rest in simp)
qed simp

lemma match_carries:
  assumes "match env now m t = Inr ((x, Some r), m1, t1)"
  shows "carries env (proxies t) m x r"
proof -
  obtain b m0 where h: "match_hosts (res_env env) m = Inr (b, m0)"
    using assms by (auto simp: match_def split: sum.splits)
  then obtain pc1 where "match_loop env now (proxies t) (rules t) b m0 (procs t) = Inr ((x, Some r), m1, pc1)"
    using assms by (auto simp: match_def split: sum.splits prod.splits)
  from match_loop_carries [OF this] match_hosts_NetWork [OF h] show ?thesis by (simp add: carries_def)
qed

section \<open>Properties\<close>



text \<open>
  Whatever the caches hold, a connection that is matched by a rule is given the proxy the rule
  names, and a UDP connection one that carries UDP.
\<close>

theorem matched_proxy_usable:
  assumes "matchHashMap env now m t = Inr ((x, Some r), m1, t1)"
  shows "\<exists>a name. x = Some a \<and> rule_Adapter r = Inr name \<and> proxies t name = Some a \<and>
           (NetWork m = UDP \<longrightarrow> SupportUDP env a)"
proof -
  let ?k = "InfoKey m"
  obtain y t2 where c: "cached_rule env now ?k m t = Inr (y, t2)"
    using assms by (cases "cached_rule env now ?k m t") (auto simp: matchHashMap_def Let_def)
  have "carries env (proxies t) m x r"
  proof (cases y)
    case (Some ar)
    with c assms have "ar = (the x, r)" "x \<noteq> None" by (cases ar; auto simp: matchHashMap_def Let_def)+
    with c Some cached_rule_carries [of env now ?k m t "the x" r t2] show ?thesis by simp
  next
    case None
    obtain z t3 where d: "cached_proxy env ?k t2 = Inr (z, t3)"
      using assms c None by (cases "cached_proxy env ?k t2") (auto simp: matchHashMap_def Let_def)
    have "z = None" using assms c None d by (cases z) (auto simp: matchHashMap_def Let_def)
    with assms c None d obtain t4 where "match env now m t3 = Inr ((x, Some r), m1, t4)"
      by (cases "match env now m t3") (auto simp: matchHashMap_def Let_def)
    from match_carries [OF this] cached_proxies [OF c d] show ?thesis by simp
  qed
  then show ?thesis by (simp add: carries_def)
qed

theorem matched_proxy_usable_witness:
  "\<exists>a name. Some ''http'' = Some a \<and> rule_Adapter (Match ''PROXY'' False) = Inr name \<and>
     proxies (demo_tunnel\<lparr>rules := [Match ''PROXY'' False]\<rparr>) name = Some a \<and>
     (NetWork (demo_conn ''1000'') = UDP \<longrightarrow> SupportUDP demo_env a)"
proof (rule matched_proxy_usable)
  let ?r = "matchHashMap demo_env 0 (demo_conn ''1000'') (demo_tunnel\<lparr>rules := [Match ''PROXY'' False]\<rparr>)"
  have "map_sum id (\<lambda>(x, m, t). (x, m)) ?r = Inr ((Some ''http'', Some (Match ''PROXY'' False)), demo_conn ''1000'')"
    by code_simp
  then show "?r = Inr ((Some ''http'', Some (Match ''PROXY'' False)), demo_conn ''1000'', snd (snd (projr ?r)))"
    by (cases ?r) auto
qed

end
