(* ===== verification/Go_Conn.thy ===== *)
theory Go_Conn
  imports Go_Net
begin

text \<open>
  A connection as the handshakes see it (\<open>net.Conn\<close>, \<open>io.ReadWriter\<close>): the bytes the peer sends
  before it closes its side, the bytes written so far, and the number of writes that succeed before
  the connection breaks. An operation returns a Go error or a value, and the connection after it;
  what was read and written stays when a later step fails.
\<close>

record Conn =
  rx :: "byte list"
  tx :: "byte list"
  budget :: nat

datatype io_error = EOF | ErrUnexpectedEOF | ErrWrite

type_synonym ('e, 'a) io = "Conn \<Rightarrow> ('e + 'a) \<times> Conn"

definition io_return :: "'a \<Rightarrow> ('e, 'a) io" where
  "io_return x c = (Inr x, c)"

definition io_fail :: "'e \<Rightarrow> ('e, 'a) io" where
  "io_fail e c = (Inl e, c)"

definition io_bind :: "('e, 'a) io \<Rightarrow> ('a \<Rightarrow> ('e, 'b) io) \<Rightarrow> ('e, 'b) io" where
  "io_bind m f c = (case m c of (Inl e, c1) \<Rightarrow> (Inl e, c1) | (Inr x, c1) \<Rightarrow> f x c1)"

text \<open>\<open>io.ReadFull\<close> into a buffer of \<open>n\<close> bytes; a partial read consumes what there is.\<close>

definition ReadFull :: "(io_error \<Rightarrow> 'e) \<Rightarrow> nat \<Rightarrow> ('e, byte list) io" where
  "ReadFull wrap n c =
     (if n \<le> length (rx c) then (Inr (take n (rx c)), c\<lparr>rx := drop n (rx c)\<rparr>)
      else (Inl (wrap (if rx c = [] then EOF else ErrUnexpectedEOF)), c\<lparr>rx := []\<rparr>))"

text \<open>\<open>Read\<close> of a single byte.\<close>

definition ReadByte :: "(io_error \<Rightarrow> 'e) \<Rightarrow> ('e, byte) io" where
  "ReadByte wrap c =
     (case rx c of [] \<Rightarrow> (Inl (wrap EOF), c) | b # bs \<Rightarrow> (Inr b, c\<lparr>rx := bs\<rparr>))"

definition Write :: "(io_error \<Rightarrow> 'e) \<Rightarrow> byte list \<Rightarrow> ('e, unit) io" where
  "Write wrap bs c =
     (if budget c = 0 then (Inl (wrap ErrWrite), c)
      else (Inr (), c\<lparr>tx := tx c @ bs, budget := budget c - 1\<rparr>))"

text \<open>A write whose error is ignored.\<close>

definition Write_ignore :: "byte list \<Rightarrow> ('e, unit) io" where
  "Write_ignore bs c = (Inr (), snd (Write (\<lambda>e. e) bs c))"

section \<open>Facts\<close>

lemma io_bind_return [simp, go_std]: "io_bind (io_return x) f c = f x c"
  by (simp add: io_bind_def io_return_def)

lemma io_bind_fail [simp, go_std]: "io_bind (io_fail e) f c = (Inl e, c)"
  by (simp add: io_bind_def io_fail_def)

lemma io_bind_Inr [go_std]: "m c = (Inr x, c1) \<Longrightarrow> io_bind m f c = f x c1"
  by (simp add: io_bind_def)

lemma io_bind_Inl [go_std]: "m c = (Inl e, c1) \<Longrightarrow> io_bind m f c = (Inl e, c1)"
  by (simp add: io_bind_def)

lemma ReadFull_append [simp]:
  "length bs = n \<Longrightarrow> ReadFull wrap n \<lparr>rx = bs @ rest, tx = t, budget = k\<rparr> = (Inr bs, \<lparr>rx = rest, tx = t, budget = k\<rparr>)"
  by (simp add: ReadFull_def)

lemma ReadByte_Cons [simp]:
  "ReadByte wrap \<lparr>rx = b # rest, tx = t, budget = k\<rparr> = (Inr b, \<lparr>rx = rest, tx = t, budget = k\<rparr>)"
  by (simp add: ReadByte_def)

lemma Write_ok [simp]:
  "0 < k \<Longrightarrow> Write wrap bs \<lparr>rx = r, tx = t, budget = k\<rparr> = (Inr (), \<lparr>rx = r, tx = t @ bs, budget = k - 1\<rparr>)"
  by (simp add: Write_def)

lemma ReadFull_result:
  "ReadFull wrap n c = (Inr bs, c1) \<Longrightarrow>
   length bs = n \<and> rx c = bs @ rx c1 \<and> tx c1 = tx c \<and> budget c1 = budget c"
  by (auto simp: ReadFull_def split: if_splits)

lemma ReadByte_result:
  "ReadByte wrap c = (Inr b, c1) \<Longrightarrow> rx c = b # rx c1 \<and> tx c1 = tx c \<and> budget c1 = budget c"
  by (auto simp: ReadByte_def split: list.splits)

lemma Write_result:
  "Write wrap bs c = (Inr u, c1) \<Longrightarrow> rx c1 = rx c \<and> tx c1 = tx c @ bs"
  by (auto simp: Write_def split: if_splits)

section \<open>Slices\<close>

text \<open>
  \<open>a[i:j]\<close> and \<open>a[i]\<close> with Go's bounds checks. The slices taken here are of complete packets and
  addresses, whose capacity plays no part.
\<close>

definition slice :: "nat \<Rightarrow> nat \<Rightarrow> 'a list \<Rightarrow> panic + 'a list" where
  "slice i j a = (if i \<le> j \<and> j \<le> length a then Inr (take (j - i) (drop i a)) else Inl IndexOutOfRange)"

definition index :: "'a list \<Rightarrow> nat \<Rightarrow> panic + 'a" where
  "index a i = (if i < length a then Inr (a ! i) else Inl IndexOutOfRange)"

definition and_then :: "'e + 'a \<Rightarrow> ('a \<Rightarrow> 'e + 'b) \<Rightarrow> 'e + 'b" where
  "and_then x f = (case x of Inl e \<Rightarrow> Inl e | Inr y \<Rightarrow> f y)"

lemma and_then_simps [simp]: "and_then (Inl e) f = Inl e" "and_then (Inr x) f = f x"
  by (simp_all add: and_then_def)

end
