(* ===== verification/Auth.thy ===== *)
theory Auth
  imports Main
begin

text \<open>
  \<open>component/auth/auth.go\<close>: the users a listener accepts. The storage is a \<open>sync.Map\<close>; \<open>usernames\<close>
  lists its keys in the order of the map, which Go leaves open, here the order of the first
  occurrence.
\<close>

record AuthUser =
  User :: string
  Pass :: string

record Authenticator =
  storage :: "string \<rightharpoonup> string"
  usernames :: "string list"

definition Verify :: "Authenticator \<Rightarrow> string \<Rightarrow> string \<Rightarrow> bool" where
  "Verify au user pass \<longleftrightarrow> (case storage au user of None \<Rightarrow> False | Some realPass \<Rightarrow> realPass = pass)"

definition Users :: "Authenticator \<Rightarrow> string list" where
  "Users au = usernames au"

definition NewAuthenticator :: "AuthUser list \<Rightarrow> Authenticator option" where
  "NewAuthenticator users =
     (if length users = 0 then None
      else Some \<lparr>storage = fold (\<lambda>u s. s(User u \<mapsto> Pass u)) users Map.empty,
                 usernames = remdups (map User users)\<rparr>)"

text \<open>The last entry of a user counts; nobody else is let in.\<close>

lemma storage_last:
  "fold (\<lambda>u s. s(User u \<mapsto> Pass u)) us Map.empty k = Some pw \<longleftrightarrow>
    (\<exists>xs u ys. us = xs @ u # ys \<and> User u = k \<and> Pass u = pw \<and> (\<forall>v \<in> set ys. User v \<noteq> k))"
    (is "?lookup us \<longleftrightarrow> ?last us")
proof (induction us rule: rev_induct)
  case (snoc u us)
  have last: "?last (us @ [u]) \<longleftrightarrow> (if User u = k then Pass u = pw else ?last us)"
  proof (cases "User u = k")
    case True
    have "Pass u = pw" if "us @ [u] = xs @ v # ys" "User v = k" "Pass v = pw" "\<forall>w \<in> set ys. User w \<noteq> k"
      for xs v ys
      using that True by (cases ys rule: rev_cases) auto
    moreover have "?last (us @ [u])" if "Pass u = pw"
      using that True by (intro exI [of _ us] exI [of _ u] exI [of _ "[]"]) simp
    ultimately show ?thesis using True by auto
  next
    case False
    show ?thesis
    proof
      assume "?last (us @ [u])"
      then obtain xs v ys where v: "us @ [u] = xs @ v # ys" "User v = k" "Pass v = pw" "\<forall>w \<in> set ys. User w \<noteq> k"
        by blast
      with False obtain zs where "ys = zs @ [u]" by (cases ys rule: rev_cases) auto
      with v False show "if User u = k then Pass u = pw else ?last us" by auto
    next
      assume "if User u = k then Pass u = pw else ?last us"
      with False obtain xs v ys where "us = xs @ v # ys" "User v = k" "Pass v = pw" "\<forall>w \<in> set ys. User w \<noteq> k"
        by auto
      with False show "?last (us @ [u])"
        by (intro exI [of _ xs] exI [of _ v] exI [of _ "ys @ [u]"]) auto
    qed
  qed
  show ?case unfolding last using snoc.IH by auto
qed simp

lemma Verify_NewAuthenticator:
  assumes "NewAuthenticator users = Some au"
  shows "Verify au user pass \<longleftrightarrow>
    (\<exists>us u vs. users = us @ u # vs \<and> User u = user \<and> Pass u = pass \<and> (\<forall>v \<in> set vs. User v \<noteq> user))"
proof -
  have "storage au = fold (\<lambda>u s. s(User u \<mapsto> Pass u)) users Map.empty"
    using assms by (auto simp: NewAuthenticator_def split: if_splits)
  then have "Verify au user pass \<longleftrightarrow> fold (\<lambda>u s. s(User u \<mapsto> Pass u)) users Map.empty user = Some pass"
    by (auto simp: Verify_def split: option.splits)
  then show ?thesis by (simp only: storage_last)
qed

end
