(* ===== verification/Socks5.thy ===== *)
theory Socks5
  imports Go_Conn Auth
begin

text \<open>
  \<open>transport/socks5/socks5.go\<close>: SOCKS addresses, the handshakes of both sides, and the framing of
  UDP packets. An \<open>Addr\<close> is a byte list, \<open>nil\<close> the empty one.
\<close>

type_synonym Addr = "byte list"
type_synonym Command = byte

definition CmdConnect :: Command where "CmdConnect = 1"
definition CmdBind :: Command where "CmdBind = 2"
definition CmdUDPAssociate :: Command where "CmdUDPAssociate = 3"

definition socks_AtypIPv4 :: byte where "socks_AtypIPv4 = 1"
definition socks_AtypDomainName :: byte where "socks_AtypDomainName = 3"
definition socks_AtypIPv6 :: byte where "socks_AtypIPv6 = 4"

definition MaxAddrLen :: nat where "MaxAddrLen = 1 + 1 + 255 + 2"
definition MaxAuthLen :: nat where "MaxAuthLen = 255"

datatype socks_error = SockIO io_error | ErrAuth | ErrCommandNotSupported | ErrAddressNotSupported
  | ErrVersion | ErrRejected | ErrNeedAuth | ErrShortBuffer
  | ErrInsufficientLength | ErrReserved | ErrFragmented | ErrUDPHeader | ErrAddressInvalid

record User =
  Username :: string
  Password :: string

lemmas socks_consts = CmdConnect_def CmdBind_def CmdUDPAssociate_def
  socks_AtypIPv4_def socks_AtypDomainName_def socks_AtypIPv6_def

section \<open>Addresses\<close>

text \<open>
  \<open>hostLen\<close> is a \<open>uint16\<close>, so \<open>2 + hostLen + 1\<close> does not wrap.
\<close>

definition port_of :: "byte \<Rightarrow> byte \<Rightarrow> int" where
  "port_of h l = push_bit 8 (uint h) OR uint l"

definition Addr_String :: "Addr \<Rightarrow> panic + string" where
  "Addr_String a =
     and_then (index a 0) (\<lambda>t.
       if t = socks_AtypDomainName then
         and_then (index a 1) (\<lambda>l. let hostLen = unat l in
         and_then (slice 2 (2 + hostLen) a) (\<lambda>h.
         and_then (index a (2 + hostLen)) (\<lambda>p.
         and_then (index a (2 + hostLen + 1)) (\<lambda>q.
           Inr (JoinHostPort (bytes_to_string h) (Itoa (port_of p q)))))))
       else if t = socks_AtypIPv4 then
         and_then (slice 1 5 a) (\<lambda>h.
         and_then (index a 5) (\<lambda>p.
         and_then (index a 6) (\<lambda>q.
           Inr (JoinHostPort (IP_String h) (Itoa (port_of p q))))))
       else if t = socks_AtypIPv6 then
         and_then (slice 1 17 a) (\<lambda>h.
         and_then (index a 17) (\<lambda>p.
         and_then (index a 18) (\<lambda>q.
           Inr (JoinHostPort (IP_String h) (Itoa (port_of p q))))))
       else Inr (JoinHostPort [] []))"

text \<open>\<open>UDPAddr\<close> returns a nil pointer (\<open>None\<close>) for an address that is not an IP.\<close>

definition Addr_UDPAddr :: "Addr \<Rightarrow> panic + (IP \<times> uint16) option" where
  "Addr_UDPAddr a =
     (if length a = 0 then Inr None
      else if a ! 0 = socks_AtypIPv4 then
        and_then (slice 1 5 a) (\<lambda>h. and_then (slice 5 7 a) (\<lambda>p. Inr (Some (h, BE_Uint16 p))))
      else if a ! 0 = socks_AtypIPv6 then
        and_then (slice 1 17 a) (\<lambda>h. and_then (slice 17 19 a) (\<lambda>p. Inr (Some (h, BE_Uint16 p))))
      else Inr None)"

definition SplitAddr :: "byte list \<Rightarrow> Addr" where
  "SplitAddr b =
     (if length b < 1 then []
      else if b ! 0 = socks_AtypDomainName then
        (if length b < 2 then []
         else let addrLen = 1 + 1 + unat (b ! 1) + 2
              in if length b < addrLen then [] else take addrLen b)
      else if b ! 0 = socks_AtypIPv4 then (if length b < 7 then [] else take 7 b)
      else if b ! 0 = socks_AtypIPv6 then (if length b < 19 then [] else take 19 b)
      else [])"

definition socks_ParseAddr :: "string \<Rightarrow> Addr" where
  "socks_ParseAddr s =
     (case SplitHostPort s of
        None \<Rightarrow> []
      | Some (host, port) \<Rightarrow>
          (let ip = ParseIP host;
               addr = (if ip \<noteq> [] then
                         (if To4 ip \<noteq> [] then Some (socks_AtypIPv4 # To4 ip) else Some (socks_AtypIPv6 # ip))
                       else if 255 < length host then None
                       else Some (socks_AtypDomainName # of_nat (length host) # string_to_bytes host))
           in case addr of
                None \<Rightarrow> []
              | Some a \<Rightarrow>
                  (case ParseUint port 16 of
                     None \<Rightarrow> []
                   | Some portnum \<Rightarrow> a @ PutUint16 (of_nat portnum))))"

text \<open>
  A \<open>net.Addr\<close> is a \<open>*net.UDPAddr\<close>, a \<open>*net.TCPAddr\<close> (without a zone), or some other address with
  its string.
\<close>

datatype NetAddr = NetUDPAddr IP int | NetTCPAddr IP int | OtherAddr string

definition ipEmptyString :: "IP \<Rightarrow> string" where
  "ipEmptyString ip = (if length ip = 0 then [] else IP_String ip)"

fun NetAddr_String :: "NetAddr \<Rightarrow> string" where
  "NetAddr_String (NetUDPAddr ip port) = JoinHostPort (ipEmptyString ip) (Itoa port)"
| "NetAddr_String (NetTCPAddr ip port) = JoinHostPort (ipEmptyString ip) (Itoa port)"
| "NetAddr_String (OtherAddr s) = s"

fun NetAddr_ip_port :: "NetAddr \<Rightarrow> IP \<times> int" where
  "NetAddr_ip_port (NetUDPAddr ip port) = (ip, port)"
| "NetAddr_ip_port (NetTCPAddr ip port) = (ip, port)"
| "NetAddr_ip_port (OtherAddr s) = ([], 0)"

text \<open>
  \<open>DefaultMask\<close> is nil exactly for an IP that is no IPv4 address. \<open>copy\<close> fills the sixteen bytes of
  the IPv6 form.
\<close>

definition ParseAddrToSocksAddr :: "NetAddr \<Rightarrow> Addr" where
  "ParseAddrToSocksAddr addr =
     (let (hostip, port) = NetAddr_ip_port addr
      in if hostip = [] then socks_ParseAddr (NetAddr_String addr)
         else if To4 hostip \<noteq> [] then socks_AtypIPv4 # To4 hostip @ PutUint16 (word_of_int port)
         else socks_AtypIPv6 # take 16 (hostip @ replicate 16 0) @ PutUint16 (word_of_int port))"

section \<open>UDP packets\<close>

text \<open>
  The results of \<open>DecodeUDPPacket\<close> are \<open>addr\<close>, \<open>payload\<close> and \<open>err\<close>; when the address cannot be
  split, \<open>payload\<close> is set all the same.
\<close>

definition DecodeUDPPacket :: "byte list \<Rightarrow> Addr \<times> byte list \<times> socks_error option" where
  "DecodeUDPPacket packet =
     (if length packet < 5 then ([], [], Some ErrInsufficientLength)
      else if take 2 packet \<noteq> [0, 0] then ([], [], Some ErrReserved)
      else if packet ! 2 \<noteq> 0 then ([], [], Some ErrFragmented)
      else let addr = SplitAddr (drop 3 packet)
           in (addr, drop (3 + length addr) packet, if addr = [] then Some ErrUDPHeader else None))"

definition EncodeUDPPacket :: "Addr \<Rightarrow> byte list \<Rightarrow> socks_error + byte list" where
  "EncodeUDPPacket addr payload =
     (if addr = [] then Inl ErrAddressInvalid else Inr ([0, 0, 0] @ addr @ payload))"

section \<open>Handshakes\<close>

definition ReadAddr :: "nat \<Rightarrow> (socks_error, Addr) io" where
  "ReadAddr blen =
     (if blen < MaxAddrLen then io_fail ErrShortBuffer
      else io_bind (ReadFull SockIO 1) (\<lambda>t.
        if t ! 0 = socks_AtypDomainName then
          io_bind (ReadFull SockIO 1) (\<lambda>l.
          io_bind (ReadFull SockIO (unat (l ! 0) + 2)) (\<lambda>r. io_return (t @ l @ r)))
        else if t ! 0 = socks_AtypIPv4 then
          io_bind (ReadFull SockIO 6) (\<lambda>r. io_return (t @ r))
        else if t ! 0 = socks_AtypIPv6 then
          io_bind (ReadFull SockIO 18) (\<lambda>r. io_return (t @ r))
        else io_fail ErrAddressNotSupported))"

text \<open>
  The user and password sub-negotiation of the server, then the whole handshake. \<open>local\<close> is the
  string of the connection's local address. The replies \<open>{1, 1}\<close> are written without a look at
  the error.
\<close>

definition reject_auth :: "(socks_error, 'a) io" where
  "reject_auth = io_bind (Write_ignore [1, 1]) (\<lambda>_. io_fail ErrAuth)"

definition server_auth :: "Authenticator \<Rightarrow> (socks_error, unit) io" where
  "server_auth au =
     io_bind (Write SockIO [5, 2]) (\<lambda>_.
     io_bind (ReadFull SockIO 2) (\<lambda>header.
     let userLen = unat (header ! 1)
     in if userLen \<le> 0 then reject_auth
        else io_bind (ReadFull SockIO userLen) (\<lambda>user.
             io_bind (ReadByte SockIO) (\<lambda>h.
             let passLen = unat h
             in if passLen \<le> 0 then reject_auth
                else io_bind (ReadFull SockIO passLen) (\<lambda>pass.
                     if \<not> Verify au (bytes_to_string user) (bytes_to_string pass) then reject_auth
                     else Write SockIO [1, 0])))))"

definition socks5_ServerHandshake ::
  "Authenticator option \<Rightarrow> string \<Rightarrow> (socks_error, Addr \<times> Command) io" where
  "socks5_ServerHandshake authenticator localaddr =
     io_bind (ReadFull SockIO 2) (\<lambda>buf.
     io_bind (ReadFull SockIO (unat (buf ! 1))) (\<lambda>_.
     io_bind (case authenticator of Some au \<Rightarrow> server_auth au | None \<Rightarrow> Write SockIO [5, 0]) (\<lambda>_.
     io_bind (ReadFull SockIO 3) (\<lambda>buf.
     let command = buf ! 1
     in io_bind (ReadAddr MaxAddrLen) (\<lambda>addr.
        if command = CmdConnect \<or> command = CmdUDPAssociate then
          (let localAddr = socks_ParseAddr localaddr
           in if localAddr = [] then io_fail ErrAddressNotSupported
              else io_bind (Write SockIO ([5, 0, 0] @ localAddr)) (\<lambda>_. io_return (addr, command)))
        else io_fail ErrCommandNotSupported)))))"

definition auth_message :: "User \<Rightarrow> byte list" where
  "auth_message u =
     [1, of_nat (length (Username u))] @ string_to_bytes (Username u) @
     [of_nat (length (Password u))] @ string_to_bytes (Password u)"

definition socks5_ClientHandshake ::
  "Addr \<Rightarrow> Command \<Rightarrow> User option \<Rightarrow> (socks_error, Addr) io" where
  "socks5_ClientHandshake addr command user =
     io_bind (Write SockIO (if user \<noteq> None then [5, 1, 2] else [5, 1, 0])) (\<lambda>_.
     io_bind (ReadFull SockIO 2) (\<lambda>buf.
     if buf ! 0 \<noteq> 5 then io_fail ErrVersion
     else io_bind
       (if buf ! 1 = 2 then
          (case user of
             None \<Rightarrow> io_fail ErrAuth
           | Some u \<Rightarrow>
               io_bind (Write SockIO (auth_message u)) (\<lambda>_.
               io_bind (ReadFull SockIO 2) (\<lambda>buf.
               if buf ! 1 \<noteq> 0 then io_fail ErrRejected else io_return ())))
        else if buf ! 1 \<noteq> 0 then io_fail ErrNeedAuth
        else io_return ()) (\<lambda>_.
     io_bind (Write SockIO ([5, command, 0] @ addr)) (\<lambda>_.
     io_bind (ReadFull SockIO 3) (\<lambda>_.
     ReadAddr MaxAddrLen)))))"

section \<open>The encoding of an endpoint\<close>

text \<open>
  The wire format of RFC 1928 as a datatype and its encoding, the reference the operations are
  compared with.
\<close>

datatype endpoint = EpIPv4 IP uint16 | EpDomain "byte list" uint16 | EpIPv6 IP uint16

fun wf_ep :: "endpoint \<Rightarrow> bool" where
  "wf_ep (EpIPv4 ip p) \<longleftrightarrow> length ip = 4"
| "wf_ep (EpDomain h p) \<longleftrightarrow> length h \<le> 255"
| "wf_ep (EpIPv6 ip p) \<longleftrightarrow> length ip = 16"

fun encode_ep :: "endpoint \<Rightarrow> Addr" where
  "encode_ep (EpIPv4 ip p) = socks_AtypIPv4 # ip @ PutUint16 p"
| "encode_ep (EpDomain h p) = socks_AtypDomainName # of_nat (length h) # h @ PutUint16 p"
| "encode_ep (EpIPv6 ip p) = socks_AtypIPv6 # ip @ PutUint16 p"

definition valid_addr :: "Addr \<Rightarrow> bool" where
  "valid_addr a \<longleftrightarrow> a \<noteq> [] \<and> SplitAddr a = a"

lemma unat_byte_length: "length h \<le> 255 \<Longrightarrow> unat (of_nat (length h) :: byte) = length h"
  by (simp add: unat_of_nat)

lemma atyp_distinct [simp]:
  "socks_AtypIPv4 \<noteq> socks_AtypDomainName" "socks_AtypIPv6 \<noteq> socks_AtypDomainName"
  "socks_AtypIPv6 \<noteq> socks_AtypIPv4"
  by (simp_all add: socks_consts)

lemma encode_ep_not_Nil [simp]: "encode_ep ep \<noteq> []"
  by (cases ep) simp_all

lemma SplitAddr_encode [simp]: "wf_ep ep \<Longrightarrow> SplitAddr (encode_ep ep @ rest) = encode_ep ep"
  by (cases ep) (simp_all add: SplitAddr_def unat_byte_length Let_def)

lemma split_port: "length xs = n + 2 \<Longrightarrow> xs = take n xs @ PutUint16 (BE_Uint16 (drop n xs))"
  by (simp add: PutUint16_BE_Uint16)

lemma SplitAddr_cases:
  assumes "SplitAddr b \<noteq> []"
  obtains ep rest where "wf_ep ep" "b = encode_ep ep @ rest" "SplitAddr b = encode_ep ep"
proof -
  from assms obtain t bs where b: "b = t # bs" by (cases b) (auto simp: SplitAddr_def)
  consider (dom) "t = socks_AtypDomainName" | (v4) "t = socks_AtypIPv4" | (v6) "t = socks_AtypIPv6"
    using assms by (auto simp: b SplitAddr_def split: if_splits)
  then have "\<exists>ep rest. wf_ep ep \<and> b = encode_ep ep @ rest"
  proof cases
    case dom
    with assms obtain l cs where bs: "bs = l # cs" by (cases bs) (auto simp: b SplitAddr_def)
    let ?xs = "take (unat l + 2) cs"
    have len: "length ?xs = unat l + 2"
      using assms dom by (auto simp: b bs SplitAddr_def Let_def split: if_splits)
    have l: "unat l \<le> 255" using byte_less_256 [of l] by linarith
    have "wf_ep (EpDomain (take (unat l) ?xs) (BE_Uint16 (drop (unat l) ?xs)))" using l by simp
    moreover have "b = encode_ep (EpDomain (take (unat l) ?xs) (BE_Uint16 (drop (unat l) ?xs))) @ drop (unat l + 2) cs"
      using split_port [OF len] len dom by (simp add: b bs min_absorb2)
    ultimately show ?thesis by blast
  next
    case v4
    let ?xs = "take 6 bs"
    have len: "length ?xs = 4 + 2"
      using assms v4 by (auto simp: b SplitAddr_def Let_def split: if_splits)
    have "wf_ep (EpIPv4 (take 4 ?xs) (BE_Uint16 (drop 4 ?xs)))" using len by simp
    moreover have "b = encode_ep (EpIPv4 (take 4 ?xs) (BE_Uint16 (drop 4 ?xs))) @ drop 6 bs"
      using split_port [OF len] v4 by (simp add: b)
    ultimately show ?thesis by blast
  next
    case v6
    let ?xs = "take 18 bs"
    have len: "length ?xs = 16 + 2"
      using assms v6 by (auto simp: b SplitAddr_def Let_def split: if_splits)
    have "wf_ep (EpIPv6 (take 16 ?xs) (BE_Uint16 (drop 16 ?xs)))" using len by simp
    moreover have "b = encode_ep (EpIPv6 (take 16 ?xs) (BE_Uint16 (drop 16 ?xs))) @ drop 18 bs"
      using split_port [OF len] v6 by (simp add: b)
    ultimately show ?thesis by blast
  qed
  then show ?thesis using that SplitAddr_encode by blast
qed

lemma valid_addr_iff: "valid_addr a \<longleftrightarrow> (\<exists>ep. wf_ep ep \<and> a = encode_ep ep)"
proof
  assume "valid_addr a"
  then have "SplitAddr a \<noteq> []" "SplitAddr a = a" by (auto simp: valid_addr_def)
  then show "\<exists>ep. wf_ep ep \<and> a = encode_ep ep" by (metis SplitAddr_cases)
next
  assume "\<exists>ep. wf_ep ep \<and> a = encode_ep ep"
  then show "valid_addr a" using SplitAddr_encode [of _ "[]"] by (auto simp: valid_addr_def)
qed

lemma SplitAddr_valid [simp]: "valid_addr a \<Longrightarrow> SplitAddr (a @ rest) = a"
  by (auto simp: valid_addr_iff)

lemma SplitAddr_result: "SplitAddr b \<noteq> [] \<Longrightarrow> valid_addr (SplitAddr b) \<and> (\<exists>rest. b = SplitAddr b @ rest)"
  by (erule SplitAddr_cases) (auto simp: valid_addr_iff)

lemma length_valid_addr: "valid_addr a \<Longrightarrow> 4 \<le> length a"
  by (auto simp: valid_addr_iff elim!: wf_ep.elims)

lemma ReadAddr_encode:
  "wf_ep ep \<Longrightarrow> ReadAddr MaxAddrLen \<lparr>rx = encode_ep ep @ rest, tx = t, budget = k\<rparr> =
     (Inr (encode_ep ep), \<lparr>rx = rest, tx = t, budget = k\<rparr>)"
  by (cases ep) (simp_all add: ReadAddr_def io_bind_def io_return_def ReadFull_def unat_byte_length)

lemma ReadAddr_valid:
  "valid_addr a \<Longrightarrow> ReadAddr MaxAddrLen \<lparr>rx = a @ rest, tx = t, budget = k\<rparr> =
     (Inr a, \<lparr>rx = rest, tx = t, budget = k\<rparr>)"
  by (auto simp: valid_addr_iff ReadAddr_encode)

section \<open>Framing of UDP packets\<close>

lemma drop_3_plus [simp]: "drop (3 + n) (x # y # z # xs) = drop n xs"
  by (simp add: eval_nat_numeral)

text \<open>
  C28: the two functions that frame a UDP packet are inverse to each other. A packet decodes without
  an error, to an address and a payload, exactly when the address is a complete SOCKS address and the
  packet is what \<open>EncodeUDPPacket\<close> makes of the two.
\<close>

theorem udp_packet_codec:
  "DecodeUDPPacket packet = (a, payload, None) \<longleftrightarrow> valid_addr a \<and> EncodeUDPPacket a payload = Inr packet"
proof
  assume dec: "DecodeUDPPacket packet = (a, payload, None)"
  then have p: "5 \<le> length packet" "take 2 packet = [0, 0]" "packet ! 2 = 0"
    and a: "a = SplitAddr (drop 3 packet)" "a \<noteq> []" "payload = drop (3 + length a) packet"
    by (auto simp: DecodeUDPPacket_def Let_def split: if_splits)
  from p obtain rest where packet: "packet = [0, 0, 0] @ rest"
    by (cases packet; cases "tl packet"; cases "tl (tl packet)") auto
  from a have v: "valid_addr a" "\<exists>more. rest = a @ more"
    using SplitAddr_result [of rest] by (simp_all add: packet)
  then obtain more where "rest = a @ more" by blast
  then have "packet = [0, 0, 0] @ a @ more" "payload = more"
    using a(3) by (simp_all add: packet)
  then show "valid_addr a \<and> EncodeUDPPacket a payload = Inr packet"
    using v(1) a(2) by (simp add: EncodeUDPPacket_def)
next
  assume "valid_addr a \<and> EncodeUDPPacket a payload = Inr packet"
  then have v: "valid_addr a" and packet: "packet = [0, 0, 0] @ a @ payload"
    by (auto simp: EncodeUDPPacket_def split: if_splits)
  then show "DecodeUDPPacket packet = (a, payload, None)"
    using length_valid_addr [OF v] by (auto simp: DecodeUDPPacket_def)
qed

section \<open>Handshakes\<close>

lemma ReadFull_conn:
  "length bs = n \<Longrightarrow> rx c = bs @ rest \<Longrightarrow> ReadFull wrap n c = (Inr bs, c\<lparr>rx := rest\<rparr>)"
  by (simp add: ReadFull_def)

lemma server_auth_accepts:
  assumes "Verify au (Username u) (Password u)"
    and "0 < length (Username u)" "length (Username u) \<le> 255"
    and "0 < length (Password u)" "length (Password u) \<le> 255"
  shows "server_auth au \<lparr>rx = auth_message u @ rest, tx = t, budget = Suc (Suc k)\<rparr> =
    (Inr (), \<lparr>rx = rest, tx = t @ [5, 2, 1, 0], budget = k\<rparr>)"
proof -
  have "unat (of_nat (length (Username u)) :: byte) = length (Username u)"
    "unat (of_nat (length (Password u)) :: byte) = length (Password u)"
    using assms by (simp_all add: unat_of_nat)
  with assms show ?thesis
    by (simp add: server_auth_def auth_message_def io_bind_def Write_def ReadFull_def ReadByte_def Let_def)
qed

lemma server_auth_result:
  assumes "server_auth au c = (Inr (), c1)"
  shows "\<exists>v user pass. rx c = [v, of_nat (length user)] @ user @ [of_nat (length pass)] @ pass @ rx c1 \<and>
    0 < length user \<and> length user \<le> 255 \<and> 0 < length pass \<and> length pass \<le> 255 \<and>
    Verify au (bytes_to_string user) (bytes_to_string pass)"
proof -
  from assms obtain c2 c3 c4 c5 c6 header user h pass where
    steps: "Write SockIO [5, 2] c = (Inr (), c2)" "ReadFull SockIO 2 c2 = (Inr header, c3)"
      "ReadFull SockIO (unat (header ! 1)) c3 = (Inr user, c4)" "ReadByte SockIO c4 = (Inr h, c5)"
      "ReadFull SockIO (unat h) c5 = (Inr pass, c6)" "Write SockIO [1, 0] c6 = (Inr (), c1)"
    and pos: "0 < unat (header ! 1)" "0 < unat h"
    and ok: "Verify au (bytes_to_string user) (bytes_to_string pass)"
    by (auto simp: server_auth_def io_bind_def reject_auth_def io_fail_def Write_ignore_def Let_def
        split: prod.splits sum.splits if_splits)
  note reads = Write_result [OF steps(1)] ReadFull_result [OF steps(2)] ReadFull_result [OF steps(3)]
    ReadByte_result [OF steps(4)] ReadFull_result [OF steps(5)] Write_result [OF steps(6)]
  have hd2: "header = [header ! 0, header ! 1]"
    using reads(2) by (cases header; cases "tl header") auto
  have "rx c = [header ! 0, header ! 1] @ user @ [h] @ pass @ rx c1"
    using reads hd2 by simp
  moreover have "of_nat (length user) = header ! 1" "of_nat (length pass) = h"
    using reads by simp_all
  moreover have "length user \<le> 255" "length pass \<le> 255"
    using reads byte_less_256 [of "header ! 1"] byte_less_256 [of h] by linarith+
  ultimately show ?thesis using pos ok reads
    by (intro exI [of _ "header ! 0"] exI [of _ user] exI [of _ pass]) simp
qed

lemma ReadAddr_result:
  assumes "ReadAddr MaxAddrLen c = (Inr a, c1)"
  shows "valid_addr a \<and> rx c = a @ rx c1 \<and> tx c1 = tx c"
proof -
  have one: "length t = 1 \<Longrightarrow> t = [t ! 0]" for t :: "byte list"
    by (cases t) auto
  from assms obtain t c2 where t: "ReadFull SockIO 1 c = (Inr t, c2)"
    by (auto simp: ReadAddr_def io_bind_def MaxAddrLen_def split: prod.splits sum.splits)
  note t_res = ReadFull_result [OF t]
  consider (dom) "t ! 0 = socks_AtypDomainName" | (v4) "t ! 0 = socks_AtypIPv4" | (v6) "t ! 0 = socks_AtypIPv6"
    using assms t by (auto simp: ReadAddr_def io_bind_def io_fail_def MaxAddrLen_def split: if_splits)
  then show ?thesis
  proof cases
    case dom
    with assms t obtain l r c3 c4 where rd: "ReadFull SockIO 1 c2 = (Inr l, c3)"
      "ReadFull SockIO (unat (l ! 0) + 2) c3 = (Inr r, c1)" and a: "a = t @ l @ r"
      by (auto simp: ReadAddr_def io_bind_def io_return_def MaxAddrLen_def split: prod.splits sum.splits)
    note res = ReadFull_result [OF rd(1)] ReadFull_result [OF rd(2)]
    have tl: "t = [socks_AtypDomainName]" "l = [l ! 0]"
      using one [of t] one [of l] t_res res dom by simp_all
    have "a = socks_AtypDomainName # l ! 0 # r" using a tl by simp
    then have "valid_addr a" using res by (simp add: valid_addr_def SplitAddr_def)
    then show ?thesis using a t_res res by simp
  next
    case v4
    with assms t obtain r where rd: "ReadFull SockIO 6 c2 = (Inr r, c1)" and a: "a = t @ r"
      by (auto simp: ReadAddr_def io_bind_def io_return_def MaxAddrLen_def split: prod.splits sum.splits)
    note res = ReadFull_result [OF rd]
    have "a = socks_AtypIPv4 # r" using one [of t] t_res v4 a by simp
    then have "valid_addr a" using res by (simp add: valid_addr_def SplitAddr_def)
    then show ?thesis using a t_res res by simp
  next
    case v6
    with assms t obtain r where rd: "ReadFull SockIO 18 c2 = (Inr r, c1)" and a: "a = t @ r"
      by (auto simp: ReadAddr_def io_bind_def io_return_def MaxAddrLen_def split: prod.splits sum.splits)
    note res = ReadFull_result [OF rd]
    have "a = socks_AtypIPv6 # r" using one [of t] t_res v6 a by simp
    then have "valid_addr a" using res by (simp add: valid_addr_def SplitAddr_def)
    then show ?thesis using a t_res res by simp
  qed
qed

text \<open>The part of the handshake after the authentication.\<close>

lemma server_handshake_steps:
  assumes "socks5_ServerHandshake authenticator loc c = (Inr (addr, command), c1)"
  obtains buf ms c2 c3 c4 req c5 c6 where
    "ReadFull SockIO 2 c = (Inr buf, c2)" "ReadFull SockIO (unat (buf ! 1)) c2 = (Inr ms, c3)"
    "(case authenticator of Some au \<Rightarrow> server_auth au | None \<Rightarrow> Write SockIO [5, 0]) c3 = (Inr (), c4)"
    "ReadFull SockIO 3 c4 = (Inr req, c5)" "ReadAddr MaxAddrLen c5 = (Inr addr, c6)" "command = req ! 1"
    "command = CmdConnect \<or> command = CmdUDPAssociate"
    "Write SockIO ([5, 0, 0] @ socks_ParseAddr loc) c6 = (Inr (), c1)"
  using assms
  by (auto simp: socks5_ServerHandshake_def io_bind_def io_return_def io_fail_def Let_def
      split: prod.splits sum.splits if_splits)

text \<open>
  C10: nobody gets past the SOCKS5 handshake without a password when the listener has users. If the
  handshake succeeds, the client has sent a user and a password that the authenticator accepts, and
  after them a request for CONNECT or UDP ASSOCIATE with the complete address that is returned;
  nothing beyond it has been read.
\<close>

theorem socks5_server_authenticates:
  assumes "socks5_ServerHandshake (Some au) loc c = (Inr (addr, command), c1)"
  shows "\<exists>v n ms w user pass x y. rx c = [v, n] @ ms @ [w, of_nat (length user)] @ user @
      [of_nat (length pass)] @ pass @ [x, command, y] @ addr @ rx c1 \<and> length ms = unat n \<and>
    user \<noteq> [] \<and> length user \<le> 255 \<and> pass \<noteq> [] \<and> length pass \<le> 255 \<and>
    Verify au (bytes_to_string user) (bytes_to_string pass) \<and>
    valid_addr addr \<and> (command = CmdConnect \<or> command = CmdUDPAssociate)"
proof -
  from assms obtain buf ms c2 c3 c4 req c5 c6 where steps:
    "ReadFull SockIO 2 c = (Inr buf, c2)" "ReadFull SockIO (unat (buf ! 1)) c2 = (Inr ms, c3)"
    "server_auth au c3 = (Inr (), c4)" "ReadFull SockIO 3 c4 = (Inr req, c5)"
    "ReadAddr MaxAddrLen c5 = (Inr addr, c6)" "command = req ! 1"
    "command = CmdConnect \<or> command = CmdUDPAssociate"
    "Write SockIO ([5, 0, 0] @ socks_ParseAddr loc) c6 = (Inr (), c1)"
    by (rule server_handshake_steps) simp
  note res = ReadFull_result [OF steps(1)] ReadFull_result [OF steps(2)] ReadFull_result [OF steps(4)]
    ReadAddr_result [OF steps(5)] Write_result [OF steps(8)]
  from server_auth_result [OF steps(3)] obtain w user pass where au:
    "rx c3 = [w, of_nat (length user)] @ user @ [of_nat (length pass)] @ pass @ rx c4"
    "0 < length user" "length user \<le> 255" "0 < length pass" "length pass \<le> 255"
    "Verify au (bytes_to_string user) (bytes_to_string pass)"
    by blast
  have "buf = [buf ! 0, buf ! 1]" using res(1) by (cases buf; cases "tl buf") auto
  moreover have "req = [req ! 0, req ! 1, req ! 2]"
    using res(3) by (cases req; cases "tl req"; cases "tl (tl req)") auto
  ultimately have "rx c = [buf ! 0, buf ! 1] @ ms @ [w, of_nat (length user)] @ user @
      [of_nat (length pass)] @ pass @ [req ! 0, command, req ! 2] @ addr @ rx c1"
    using res au(1) steps(6) by simp
  moreover have "length ms = unat (buf ! 1)" "valid_addr addr" using res by simp_all
  moreover have "user \<noteq> []" "pass \<noteq> []" using au by auto
  ultimately show ?thesis using au(3,5,6) steps(7) by blast
qed

definition demo_auth :: Authenticator where
  "demo_auth = \<lparr>storage = [''u'' \<mapsto> ''pw''], usernames = [''u'']\<rparr>"

definition demo_client :: Conn where
  "demo_client = \<lparr>rx = [5, 1, 2, 1, 1, 117, 2, 112, 119, 5, 1, 0, 1, 10, 0, 0, 1, 0, 80, 42], tx = [], budget = 9\<rparr>"



lemma demo_local: "socks_ParseAddr ''127.0.0.1:1080'' = [1, 127, 0, 0, 1, 4, 56]"
proof -
  have "To4 (ParseIP ''127.0.0.1'') = [127, 0, 0, 1]"
    by (simp add: ParseIP_def ParseAddr_def parseIPv4Fields_def ipv4_field_def is_digit_def digits_val_def digit_val_def)
  moreover have "SplitHostPort ''127.0.0.1:1080'' = Some (''127.0.0.1'', ''1080'')"
    by (simp add: SplitHostPort_def last_index_of_def)
  moreover have "ParseUint ''1080'' 16 = Some 1080"
    by (simp add: ParseUint_def is_digit_def digits_val_def digit_val_def)
  moreover have "PutUint16 1080 = [4, 56]" by code_simp
  moreover have "ip \<noteq> []" if "To4 ip \<noteq> []" for ip
    using that by (auto simp: To4_def)
  ultimately show ?thesis by (auto simp: socks_ParseAddr_def socks_consts Let_def)
qed

lemma demo_chars: "char_of (117 :: nat) = CHR ''u''" "char_of (112 :: nat) = CHR ''p''" "char_of (119 :: nat) = CHR ''w''"
  by code_simp+

lemma demo_server_run:
  "socks5_ServerHandshake (Some demo_auth) ''127.0.0.1:1080'' demo_client =
     (Inr ([1, 10, 0, 0, 1, 0, 80], CmdConnect),
      \<lparr>rx = [42], tx = [5, 2, 1, 0, 5, 0, 0, 1, 127, 0, 0, 1, 4, 56], budget = 6\<rparr>)"
  by (simp add: socks5_ServerHandshake_def server_auth_def ReadAddr_def io_bind_def io_return_def ReadFull_def
      ReadByte_def Write_def Let_def demo_local demo_client_def demo_auth_def Verify_def bytes_to_string_def
      socks_consts MaxAddrLen_def demo_chars)

theorem socks5_server_authenticates_witness:
  "\<exists>v n ms w user pass x y. rx demo_client = [v, n] @ ms @ [w, of_nat (length user)] @ user @
      [of_nat (length pass)] @ pass @ [x, CmdConnect, y] @ [1, 10, 0, 0, 1, 0, 80] @ [42] \<and> length ms = unat n \<and>
    user \<noteq> [] \<and> length user \<le> 255 \<and> pass \<noteq> [] \<and> length pass \<le> 255 \<and>
    Verify demo_auth (bytes_to_string user) (bytes_to_string pass) \<and>
    valid_addr [1, 10, 0, 0, 1, 0, 80] \<and> (CmdConnect = CmdConnect \<or> CmdConnect = CmdUDPAssociate)"
  using socks5_server_authenticates [OF demo_server_run] by simp

text \<open>
  The handshakes of the two sides fit together. A client that asks for a complete address with
  CONNECT or UDP ASSOCIATE, with a user the server accepts where it asks for one, and the server end
  up with each other: what the client writes makes the server return the requested address and
  command, what the server writes makes the client return the address the server is bound to, and
  neither reads a byte of the traffic that follows.
\<close>

theorem socks5_handshake_agree:
  assumes addr: "valid_addr addr" and cmd: "command = CmdConnect \<or> command = CmdUDPAssociate"
    and loc: "valid_addr (socks_ParseAddr loc)"
    and auth: "case authenticator of None \<Rightarrow> True
      | Some au \<Rightarrow> (case user of None \<Rightarrow> False
          | Some u \<Rightarrow> Verify au (Username u) (Password u) \<and> Username u \<noteq> [] \<and> length (Username u) \<le> 255 \<and>
              Password u \<noteq> [] \<and> length (Password u) \<le> 255)"
  shows "\<exists>req rep k1 k2.
    socks5_ServerHandshake authenticator loc \<lparr>rx = req @ up, tx = [], budget = 3\<rparr> =
      (Inr (addr, command), \<lparr>rx = up, tx = rep, budget = k1\<rparr>) \<and>
    socks5_ClientHandshake addr command user \<lparr>rx = rep @ down, tx = [], budget = 3\<rparr> =
      (Inr (socks_ParseAddr loc), \<lparr>rx = down, tx = req, budget = k2\<rparr>)"
proof (cases authenticator)
  case None
  let ?req = "[5, 1, if user \<noteq> None then 2 else 0] @ [5, command, 0] @ addr"
  let ?rep = "[5, 0] @ [5, 0, 0] @ socks_ParseAddr loc"
  have "socks5_ServerHandshake None loc \<lparr>rx = ?req @ up, tx = [], budget = 3\<rparr> =
      (Inr (addr, command), \<lparr>rx = up, tx = ?rep, budget = 1\<rparr>)"
    using addr cmd loc
    by (auto simp: socks5_ServerHandshake_def io_bind_def io_return_def ReadFull_def Write_def Let_def
        ReadAddr_valid valid_addr_def)
  moreover have "socks5_ClientHandshake addr command user \<lparr>rx = ?rep @ down, tx = [], budget = 3\<rparr> =
      (Inr (socks_ParseAddr loc), \<lparr>rx = down, tx = ?req, budget = 1\<rparr>)"
    by (simp add: socks5_ClientHandshake_def io_bind_def io_return_def ReadFull_def Write_def Let_def
        ReadAddr_valid [OF loc])
  ultimately show ?thesis using None by blast
next
  case (Some au)
  with auth obtain u where u: "user = Some u" "Verify au (Username u) (Password u)" "0 < length (Username u)"
    "length (Username u) \<le> 255" "0 < length (Password u)" "length (Password u) \<le> 255"
    by (auto split: option.splits)
  let ?req = "[5, 1, 2] @ auth_message u @ [5, command, 0] @ addr"
  let ?rep = "[5, 2, 1, 0] @ [5, 0, 0] @ socks_ParseAddr loc"
  have "server_auth au \<lparr>rx = auth_message u @ [5, command, 0] @ addr @ up, tx = [], budget = Suc (Suc 1)\<rparr> =
      (Inr (), \<lparr>rx = [5, command, 0] @ addr @ up, tx = [5, 2, 1, 0], budget = 1\<rparr>)"
    using server_auth_accepts [OF u(2-6), of "[5, command, 0] @ addr @ up" "[]" 1] by simp
  then have "socks5_ServerHandshake (Some au) loc \<lparr>rx = ?req @ up, tx = [], budget = 3\<rparr> =
      (Inr (addr, command), \<lparr>rx = up, tx = ?rep, budget = 0\<rparr>)"
    using addr cmd loc
    by (auto simp: socks5_ServerHandshake_def io_bind_def io_return_def ReadFull_def Write_def Let_def
        ReadAddr_valid valid_addr_def eval_nat_numeral)
  moreover have "socks5_ClientHandshake addr command user \<lparr>rx = ?rep @ down, tx = [], budget = 3\<rparr> =
      (Inr (socks_ParseAddr loc), \<lparr>rx = down, tx = ?req, budget = 0\<rparr>)"
    by (simp add: socks5_ClientHandshake_def io_bind_def io_return_def ReadFull_def Write_def Let_def
        ReadAddr_valid [OF loc] u(1))
  ultimately show ?thesis using Some by blast
qed

theorem socks5_handshake_agree_witness:
  "\<exists>req rep k1 k2.
    socks5_ServerHandshake (Some demo_auth) ''127.0.0.1:1080'' \<lparr>rx = req @ [42], tx = [], budget = 3\<rparr> =
      (Inr ([1, 10, 0, 0, 1, 0, 80], CmdConnect), \<lparr>rx = [42], tx = rep, budget = k1\<rparr>) \<and>
    socks5_ClientHandshake [1, 10, 0, 0, 1, 0, 80] CmdConnect (Some \<lparr>Username = ''u'', Password = ''pw''\<rparr>)
        \<lparr>rx = rep @ [7], tx = [], budget = 3\<rparr> =
      (Inr (socks_ParseAddr ''127.0.0.1:1080''), \<lparr>rx = [7], tx = req, budget = k2\<rparr>)"
proof (rule socks5_handshake_agree)
  show "valid_addr [1, 10, 0, 0, 1, 0, 80]" by (simp add: valid_addr_def SplitAddr_def socks_consts)
  show "valid_addr (socks_ParseAddr ''127.0.0.1:1080'')"
    by (simp add: demo_local valid_addr_def SplitAddr_def socks_consts)
qed (simp_all add: demo_auth_def Verify_def)

section \<open>Addresses and strings\<close>

lemma port_of_PutUint16: "PutUint16 p = [h, l] \<Longrightarrow> port_of h l = uint p"
proof -
  assume "PutUint16 p = [h, l]"
  then have hl: "h = ucast (drop_bit 8 p)" "l = ucast p" by (simp_all add: PutUint16_def)
  show ?thesis
  proof (rule bit_eqI)
    fix n
    show "bit (port_of h l) n \<longleftrightarrow> bit (uint p) n"
      by (auto simp: port_of_def hl bit_simps dest: bit_imp_le_length)
  qed
qed

lemma ParseUint_port: "ParseUint (Itoa (uint (p :: uint16))) 16 = Some (unat p)"
proof -
  have "Itoa (uint p) = utoa (unat p)" using Itoa_of_nat [of "unat p"] by simp
  moreover have "unat p < 2 ^ 16" using unsigned_less [of p, where 'a = nat] by simp
  ultimately show ?thesis by (simp add: ParseUint_utoa)
qed

lemma bracketless_port [simp]: "bracketless (Itoa (uint (p :: uint16)))" "CHR '':'' \<notin> set (Itoa (uint p))"
  using Itoa_of_nat [of "unat p"] by (simp_all add: utoa_no_char)

lemma bracketless_ipv4_string [simp]: "bracketless (ipv4_string [a, b, c, d])"
  by (simp add: bracketless_def ipv4_string_def utoa_no_char)

lemma socks_ParseAddr_join:
  assumes "bracketless host"
  shows "socks_ParseAddr (JoinHostPort host (Itoa (uint (p :: uint16)))) =
    (if ParseIP host \<noteq> [] then
       (if To4 (ParseIP host) \<noteq> [] then socks_AtypIPv4 # To4 (ParseIP host) @ PutUint16 p
        else socks_AtypIPv6 # ParseIP host @ PutUint16 p)
     else if 255 < length host then []
     else socks_AtypDomainName # of_nat (length host) # string_to_bytes host @ PutUint16 p)"
  using assms by (simp add: socks_ParseAddr_def SplitHostPort_JoinHostPort ParseUint_port Let_def)

lemma Addr_String_encode:
  "wf_ep ep \<Longrightarrow> Addr_String (encode_ep ep) =
     Inr (case ep of EpIPv4 ip p \<Rightarrow> JoinHostPort (IP_String ip) (Itoa (uint p))
          | EpDomain h p \<Rightarrow> JoinHostPort (bytes_to_string h) (Itoa (uint p))
          | EpIPv6 ip p \<Rightarrow> JoinHostPort (IP_String ip) (Itoa (uint p)))"
proof -
  assume wf: "wf_ep ep"
  have nth: "i < 2 \<Longrightarrow> (xs @ PutUint16 p) ! (length xs + i) = PutUint16 p ! i" for xs p i
    by (simp add: nth_append)
  have port: "port_of (PutUint16 p ! 0) (PutUint16 p ! 1) = uint p" for p
    by (rule port_of_PutUint16) (simp add: PutUint16_def)
  show ?thesis
  proof (cases ep)
    case (EpIPv4 ip p)
    then show ?thesis using wf nth [of 0 ip p] nth [of 1 ip p] port [of p]
      by (simp add: Addr_String_def index_def slice_def)
  next
    case (EpDomain h p)
    then show ?thesis using wf nth [of 0 h p] nth [of 1 h p] port [of p]
      by (simp add: Addr_String_def index_def slice_def unat_byte_length Let_def)
  next
    case (EpIPv6 ip p)
    then show ?thesis using wf nth [of 0 ip p] nth [of 1 ip p] port [of p]
      by (simp add: Addr_String_def index_def slice_def)
  qed
qed

lemma To4_not_Nil: "To4 ip \<noteq> [] \<Longrightarrow> ip \<noteq> []"
  by (auto simp: To4_def)

lemma IP_String_To4: "To4 ip \<noteq> [] \<Longrightarrow> IP_String ip = ipv4_string (To4 ip)"
  using To4_not_Nil [of ip] by (auto simp: IP_String_def To4_def split: if_splits)

lemma socks_ParseAddr_ipv4:
  assumes "length ip = 4"
  shows "socks_ParseAddr (JoinHostPort (ipv4_string ip) (Itoa (uint (p :: uint16)))) =
    socks_AtypIPv4 # ip @ PutUint16 p"
proof -
  from assms obtain a b c d where ip: "ip = [a, b, c, d]"
    by (auto simp: length_Suc_conv eval_nat_numeral)
  have "IP_String ip = ipv4_string ip" using assms IP_String_To4 [of ip] by (simp add: To4_def ip)
  then have t: "To4 (ParseIP (ipv4_string ip)) = ip" using To4_ParseIP_IP_String [OF assms] by simp
  then have "ParseIP (ipv4_string ip) \<noteq> []" using To4_not_Nil [of "ParseIP (ipv4_string ip)"] ip by simp
  then show ?thesis using t ip socks_ParseAddr_join [of "ipv4_string ip" p] by simp
qed

text \<open>
  Printing a SOCKS address and parsing the string gives the address again, for IPv4 addresses
  and for domain names that hold no bracket and are not themselves the text of an IP address.
\<close>

theorem socks_addr_string_roundtrip:
  assumes "wf_ep ep"
    and "case ep of EpIPv4 ip p \<Rightarrow> True
      | EpDomain h p \<Rightarrow> bracketless (bytes_to_string h) \<and> ParseIP (bytes_to_string h) = []
      | EpIPv6 ip p \<Rightarrow> False"
  shows "\<exists>s. Addr_String (encode_ep ep) = Inr s \<and> socks_ParseAddr s = encode_ep ep"
proof (cases ep)
  case (EpIPv4 ip p)
  then have "length ip = 4" using assms(1) by simp
  moreover from this have "IP_String ip = ipv4_string ip"
    using IP_String_To4 [of ip] by (cases ip) (simp_all add: To4_def)
  ultimately show ?thesis
    using Addr_String_encode [OF assms(1)] EpIPv4 socks_ParseAddr_ipv4 [of ip p] by simp
next
  case (EpDomain h p)
  then show ?thesis
    using assms Addr_String_encode [OF assms(1)] by (simp add: socks_ParseAddr_join)
qed (use assms in simp)

theorem socks_addr_string_roundtrip_witness:
  "(\<exists>s. Addr_String (encode_ep (EpIPv4 [10, 0, 0, 1] 80)) = Inr s \<and>
      socks_ParseAddr s = encode_ep (EpIPv4 [10, 0, 0, 1] 80)) \<and>
   (\<exists>s. Addr_String (encode_ep (EpDomain (string_to_bytes ''a'') 443)) = Inr s \<and>
      socks_ParseAddr s = encode_ep (EpDomain (string_to_bytes ''a'') 443))"
proof
  show "\<exists>s. Addr_String (encode_ep (EpIPv4 [10, 0, 0, 1] 80)) = Inr s \<and>
      socks_ParseAddr s = encode_ep (EpIPv4 [10, 0, 0, 1] 80)"
    by (rule socks_addr_string_roundtrip) simp_all
  have "ParseIP ''a'' = []" by (simp add: ParseIP_def ParseAddr_def)
  then show "\<exists>s. Addr_String (encode_ep (EpDomain (string_to_bytes ''a'') 443)) = Inr s \<and>
      socks_ParseAddr s = encode_ep (EpDomain (string_to_bytes ''a'') 443)"
    by (intro socks_addr_string_roundtrip) (simp_all add: bracketless_def)
qed

text \<open>
  C19: \<open>ParseAddrToSocksAddr\<close> is the fast path its comment announces: for a UDP or TCP address with
  an IPv4 host (in either of its two lengths) and a port in range it returns what \<open>ParseAddr\<close> returns
  for the string of the address.
\<close>

theorem socks_addr_fast_path:
  assumes "NetAddr_ip_port addr = (ip, port)" "To4 ip \<noteq> []" "0 \<le> port" "port < 2 ^ 16"
  shows "ParseAddrToSocksAddr addr = socks_ParseAddr (NetAddr_String addr)"
proof -
  have port: "uint (word_of_int port :: uint16) = port"
    using assms by (simp add: unsigned_of_int take_bit_int_eq_self)
  have "NetAddr_String addr = JoinHostPort (ipv4_string (To4 ip)) (Itoa (uint (word_of_int port :: uint16)))"
    using assms(1,2) IP_String_To4 [of ip] To4_not_Nil [of ip]
    by (cases addr) (auto simp: ipEmptyString_def port)
  then have "socks_ParseAddr (NetAddr_String addr) = socks_AtypIPv4 # To4 ip @ PutUint16 (word_of_int port)"
    using socks_ParseAddr_ipv4 [OF To4_length [OF assms(2)]] by simp
  then show ?thesis
    using assms(1,2) To4_not_Nil [of ip] by (simp add: ParseAddrToSocksAddr_def)
qed

theorem socks_addr_fast_path_witness:
  "ParseAddrToSocksAddr (NetUDPAddr [10, 0, 0, 1] 53) = socks_ParseAddr (NetAddr_String (NetUDPAddr [10, 0, 0, 1] 53))"
  by (rule socks_addr_fast_path [of _ "[10, 0, 0, 1]" 53]) (simp_all add: To4_def)

lemma ParseAddrToSocksAddr_UDPAddr:
  assumes "NetAddr_ip_port addr = (ip, port)" "To4 ip \<noteq> []"
  shows "Addr_UDPAddr (ParseAddrToSocksAddr addr) = Inr (Some (To4 ip, word_of_int port))"
  using assms To4_length [of ip] To4_not_Nil [of ip]
  by (simp add: ParseAddrToSocksAddr_def Addr_UDPAddr_def slice_def)

end
