(* ===== verification/Socks4.thy ===== *)
theory Socks4
  imports Socks5
begin

text \<open>
  \<open>transport/socks4/socks4.go\<close>: the SOCKS4 and SOCKS4A handshakes of both sides.
\<close>

definition socks4_Version :: byte where "socks4_Version = 4"
definition RequestGranted :: byte where "RequestGranted = 90"
definition RequestRejected :: byte where "RequestRejected = 91"
definition RequestIdentdFailed :: byte where "RequestIdentdFailed = 92"
definition RequestIdentdMismatched :: byte where "RequestIdentdMismatched = 93"

datatype socks4_error = S4IO io_error | errVersionMismatched | errCommandNotSupported | errIPv6NotSupported
  | ErrRequestRejected | ErrRequestIdentdFailed | ErrRequestIdentdMismatched | ErrRequestUnknownCode
  | ErrHostPort | ErrPort

lemmas socks4_consts = socks4_Version_def RequestGranted_def RequestRejected_def
  RequestIdentdFailed_def RequestIdentdMismatched_def CmdConnect_def

definition isReservedIP :: "IP \<Rightarrow> bool" where
  "isReservedIP ip \<longleftrightarrow>
     (let subnet = \<lparr>NetIP = IPv4 0 0 0 0, Mask = [255, 255, 255, 0]\<rparr>
      in \<not> IsUnspecified ip \<and> IPNet_Contains subnet ip)"

text \<open>The loop reads byte by byte, up to the first zero byte or the end of the stream.\<close>

fun read_null :: "byte list \<Rightarrow> (byte list \<times> byte list) option" where
  "read_null [] = None"
| "read_null (b # bs) =
     (if b = 0 then Some ([], bs)
      else case read_null bs of None \<Rightarrow> None | Some (xs, rest) \<Rightarrow> Some (b # xs, rest))"

definition readUntilNull :: "(socks4_error, byte list) io" where
  "readUntilNull c =
     (case read_null (rx c) of
        None \<Rightarrow> (Inl (S4IO EOF), c\<lparr>rx := []\<rparr>)
      | Some (xs, rest) \<Rightarrow> (Inr xs, c\<lparr>rx := rest\<rparr>))"

text \<open>
  The reply is written even when the user is refused; its error only counts when there is no other.
\<close>

definition socks4_ServerHandshake :: "Authenticator option \<Rightarrow> (socks4_error, string \<times> Command) io" where
  "socks4_ServerHandshake authenticator =
     io_bind (ReadFull S4IO 8) (\<lambda>req.
     if req ! 0 \<noteq> socks4_Version then io_fail errVersionMismatched
     else let command = req ! 1
     in if command \<noteq> CmdConnect then io_fail errCommandNotSupported
     else let dstIP = drop 4 req; dstPort = take 2 (drop 2 req)
     in io_bind readUntilNull (\<lambda>userID.
        io_bind (if isReservedIP dstIP then readUntilNull else io_return []) (\<lambda>target.
        let host = bytes_to_string target;
            port = Itoa (uint (BE_Uint16 dstPort));
            addr = (if host \<noteq> [] then JoinHostPort host port else JoinHostPort (IP_String dstIP) port);
            granted = (case authenticator of None \<Rightarrow> True | Some au \<Rightarrow> Verify au (bytes_to_string userID) []);
            code = (if granted then RequestGranted else RequestIdentdMismatched);
            reply = [0, code] @ dstPort @ dstIP
        in if granted then io_bind (Write S4IO reply) (\<lambda>_. io_return (addr, command))
           else io_bind (Write_ignore reply) (\<lambda>_. io_fail ErrRequestIdentdMismatched))))"

definition socks4_ClientHandshake :: "string \<Rightarrow> Command \<Rightarrow> string \<Rightarrow> (socks4_error, unit) io" where
  "socks4_ClientHandshake addr command userID =
     (case SplitHostPort addr of
        None \<Rightarrow> io_fail ErrHostPort
      | Some (host, portStr) \<Rightarrow>
        (case ParseUint portStr 16 of
           None \<Rightarrow> io_fail ErrPort
         | Some port \<Rightarrow>
             let ip0 = ParseIP host;
                 ip = (if ip0 = [] then To4 (IPv4 0 0 0 1) else ip0)
             in if ip0 \<noteq> [] \<and> To4 ip0 = [] then io_fail errIPv6NotSupported
                else let dstIP = To4 ip;
                         req = [socks4_Version, command] @ PutUint16 (of_nat port) @ dstIP @
                               string_to_bytes userID @ [0] @
                               (if isReservedIP dstIP then string_to_bytes host @ [0] else [])
                     in io_bind (Write S4IO req) (\<lambda>_.
                        io_bind (ReadFull S4IO 8) (\<lambda>resp.
                        if resp ! 0 \<noteq> 0 then io_fail errVersionMismatched
                        else if resp ! 1 = RequestGranted then io_return ()
                        else if resp ! 1 = RequestRejected then io_fail ErrRequestRejected
                        else if resp ! 1 = RequestIdentdFailed then io_fail ErrRequestIdentdFailed
                        else if resp ! 1 = RequestIdentdMismatched then io_fail ErrRequestIdentdMismatched
                        else io_fail ErrRequestUnknownCode))))"

section \<open>Facts\<close>

lemma read_null_append: "0 \<notin> set xs \<Longrightarrow> read_null (xs @ 0 # rest) = Some (xs, rest)"
  by (induction xs) auto

lemma readUntilNull_append:
  "0 \<notin> set xs \<Longrightarrow> readUntilNull \<lparr>rx = xs @ 0 # rest, tx = t, budget = k\<rparr> = (Inr xs, \<lparr>rx = rest, tx = t, budget = k\<rparr>)"
  by (simp add: readUntilNull_def read_null_append)

lemma isReservedIP_4:
  "isReservedIP [a, b, c, d] \<longleftrightarrow> a = 0 \<and> b = 0 \<and> c = 0 \<and> d \<noteq> 0"
proof -
  have full: "x AND 255 = x" for x :: byte
  proof -
    have "(255 :: byte) = - 1" by code_simp
    then show ?thesis by (simp only: and.right_neutral)
  qed
  have "To4 (IPv4 0 0 0 0) = [0, 0, 0, 0]" by (simp add: To4_def IPv4_def v4InV6Prefix_def)
  then show ?thesis
    by (auto simp: isReservedIP_def IsUnspecified_def IP_Equal_def IPv4_def v4InV6Prefix_def Let_def
        IPNet_Contains_def networkNumberAndMask_def mask_bytes_def full numeral_eq_Suc)
qed

lemma no_null: "CHR 0x00 \<notin> set s \<Longrightarrow> 0 \<notin> set (string_to_bytes s)"
proof
  assume a: "CHR 0x00 \<notin> set s" and "0 \<in> set (string_to_bytes s)"
  then obtain c where c: "c \<in> set s" "(of_nat (of_char c) :: byte) = 0"
    by (auto simp: string_to_bytes_def)
  then have "unat (of_nat (of_char c) :: byte) = 0" by simp
  then have "(of_char c :: nat) = 0" by (simp add: unat_of_nat)
  then have "c = char_of (0 :: nat)" by (metis char_of_char)
  then have "c = CHR 0x00" by (simp add: char_of_def)
  with a c show False by simp
qed

section \<open>Agreement of the two sides\<close>

lemma take_drop_req:
  "length p = 2 \<Longrightarrow> length ip = 4 \<Longrightarrow> drop 4 ([v, c] @ p @ ip) = ip \<and> take 2 (drop 2 ([v, c] @ p @ ip)) = p"
  by (auto simp: length_Suc_conv numeral_2_eq_2 eval_nat_numeral)

lemma socks4_server_run:
  assumes "length ip = 4" "0 \<notin> set uid"
    and "case authenticator of None \<Rightarrow> True | Some au \<Rightarrow> Verify au (bytes_to_string uid) []"
    and "if isReservedIP ip then 0 \<notin> set target \<and> tail = target @ 0 # up else target = [] \<and> tail = up"
  shows "socks4_ServerHandshake authenticator
      \<lparr>rx = [socks4_Version, CmdConnect] @ PutUint16 p @ ip @ uid @ 0 # tail, tx = [], budget = Suc k\<rparr> =
    (Inr (JoinHostPort (if target \<noteq> [] then bytes_to_string target else IP_String ip) (Itoa (uint p)), CmdConnect),
     \<lparr>rx = up, tx = [0, RequestGranted] @ PutUint16 p @ ip, budget = k\<rparr>)"
proof -
  let ?req = "[socks4_Version, CmdConnect] @ PutUint16 p @ ip"
  have "ReadFull S4IO 8 \<lparr>rx = ?req @ uid @ 0 # tail, tx = [], budget = Suc k\<rparr> =
      (Inr ?req, \<lparr>rx = uid @ 0 # tail, tx = [], budget = Suc k\<rparr>)"
    using assms(1) by (intro ReadFull_append) simp
  moreover have "readUntilNull \<lparr>rx = uid @ 0 # tail, tx = [], budget = Suc k\<rparr> =
      (Inr uid, \<lparr>rx = tail, tx = [], budget = Suc k\<rparr>)"
    using assms(2) by (rule readUntilNull_append)
  moreover have "(if isReservedIP ip then readUntilNull else io_return []) \<lparr>rx = tail, tx = [], budget = Suc k\<rparr> =
      (Inr target, \<lparr>rx = up, tx = [], budget = Suc k\<rparr>)"
    using assms(4) by (auto simp: readUntilNull_append io_return_def split: if_splits)
  moreover have "drop 4 ?req = ip" "take 2 (drop 2 ?req) = PutUint16 p"
    using take_drop_req [of "PutUint16 p" ip] assms(1) by simp_all
  ultimately show ?thesis
    using assms(3)
    by (simp add: socks4_ServerHandshake_def io_bind_def io_return_def Let_def split: option.splits)
qed

text \<open>
  C29: the SOCKS4 handshakes of the two sides fit together. For a host that is an IPv4 address, or a
  name without brackets and zero bytes (SOCKS4A), and a user without zero bytes that the server
  accepts, what the client writes makes the server return the requested host and port, what the
  server writes makes the client succeed, and neither reads a byte of what follows.
\<close>

theorem socks4_handshake_agree:
  assumes name: "bracketless name" "CHR 0x00 \<notin> set name" "name \<noteq> []" and uid: "CHR 0x00 \<notin> set uid"
    and ip: "ParseIP name = [] \<or> To4 (ParseIP name) \<noteq> [] \<and> \<not> isReservedIP (To4 (ParseIP name))"
    and auth: "case authenticator of None \<Rightarrow> True | Some au \<Rightarrow> Verify au uid []"
  shows "\<exists>req rep.
    socks4_ServerHandshake authenticator \<lparr>rx = req @ up, tx = [], budget = 1\<rparr> =
      (Inr (JoinHostPort (if ParseIP name = [] then name else IP_String (To4 (ParseIP name))) (Itoa (uint (p :: uint16))), CmdConnect),
       \<lparr>rx = up, tx = rep, budget = 0\<rparr>) \<and>
    socks4_ClientHandshake (JoinHostPort name (Itoa (uint p))) CmdConnect uid \<lparr>rx = rep @ down, tx = [], budget = 1\<rparr> =
      (Inr (), \<lparr>rx = down, tx = req, budget = 0\<rparr>)"
proof -
  let ?dom = "ParseIP name = []"
  define dst where "dst = (if ?dom then [0, 0, 0, 1] else To4 (ParseIP name))"
  define tgt where "tgt = (if ?dom then string_to_bytes name else [])"
  have d4: "To4 (IPv4 0 0 0 1) = [0, 0, 0, 1]" by (simp add: To4_def IPv4_def v4InV6Prefix_def)
  have len: "length dst = 4" using ip To4_length [of "ParseIP name"] by (auto simp: dst_def)
  have res: "isReservedIP dst = ?dom" using ip by (auto simp: dst_def isReservedIP_4)
  have auth': "case authenticator of None \<Rightarrow> True | Some au \<Rightarrow> Verify au (bytes_to_string (string_to_bytes uid)) []"
    using auth by (simp only: bytes_to_string_to_bytes)
  let ?req = "[socks4_Version, CmdConnect] @ PutUint16 p @ dst @ string_to_bytes uid @
    0 # (if ?dom then string_to_bytes name @ [0] else [])"
  let ?rep = "[0, RequestGranted] @ PutUint16 p @ dst"
  have "socks4_ServerHandshake authenticator \<lparr>rx = ?req @ up, tx = [], budget = Suc 0\<rparr> =
      (Inr (JoinHostPort (if tgt \<noteq> [] then bytes_to_string tgt else IP_String dst) (Itoa (uint p)), CmdConnect),
       \<lparr>rx = up, tx = ?rep, budget = 0\<rparr>)"
    using socks4_server_run [OF len no_null [OF uid] auth', of tgt
        "(if ?dom then string_to_bytes name @ [0] else []) @ up" up p 0] res no_null [OF name(2)]
    by (auto simp: tgt_def)
  moreover have "(if tgt \<noteq> [] then bytes_to_string tgt else IP_String dst) =
      (if ?dom then name else IP_String (To4 (ParseIP name)))"
    using name(3) by (simp add: tgt_def dst_def)
  moreover have "socks4_ClientHandshake (JoinHostPort name (Itoa (uint p))) CmdConnect uid
      \<lparr>rx = ?rep @ down, tx = [], budget = 1\<rparr> = (Inr (), \<lparr>rx = down, tx = ?req, budget = 0\<rparr>)"
  proof -
    have "ReadFull S4IO 8 \<lparr>rx = ?rep @ down, tx = ?req, budget = 0\<rparr> =
        (Inr ?rep, \<lparr>rx = down, tx = ?req, budget = 0\<rparr>)"
      using len by (intro ReadFull_append) simp
    then show ?thesis
      using name(1) ip res
      by (auto simp: socks4_ClientHandshake_def SplitHostPort_JoinHostPort ParseUint_port Let_def io_bind_def
          io_return_def d4 dst_def)
  qed
  ultimately show ?thesis
    unfolding One_nat_def by (intro exI [of _ ?req] exI [of _ ?rep] conjI) simp_all
qed

theorem socks4_handshake_agree_witness:
  "\<exists>req rep.
    socks4_ServerHandshake None \<lparr>rx = req @ [9], tx = [], budget = 1\<rparr> =
      (Inr (JoinHostPort (if ParseIP ''a'' = [] then ''a'' else IP_String (To4 (ParseIP ''a''))) (Itoa (uint (80 :: uint16))), CmdConnect),
       \<lparr>rx = [9], tx = rep, budget = 0\<rparr>) \<and>
    socks4_ClientHandshake (JoinHostPort ''a'' (Itoa (uint (80 :: uint16)))) CmdConnect ''u'' \<lparr>rx = rep @ [7], tx = [], budget = 1\<rparr> =
      (Inr (), \<lparr>rx = [7], tx = req, budget = 0\<rparr>)"
proof (rule socks4_handshake_agree)
  show "ParseIP ''a'' = [] \<or> To4 (ParseIP ''a'') \<noteq> [] \<and> \<not> isReservedIP (To4 (ParseIP ''a''))"
    by (simp add: ParseIP_def ParseAddr_def)
qed (simp_all add: bracketless_def)

end
