(* ===== verification/Statistic.thy ===== *)
theory Statistic
  imports Rules
begin

text \<open>
  \<open>tunnel/statistic/tracker.go\<close> and \<open>tunnel/statistic/manager.go\<close>: the trackers that count the
  traffic of the connections, and the manager that sums it up once a second.

  A tracker is a Go pointer whose fields the handlers change; here it is an index into the list
  \<open>trackers\<close> of the manager's state, and the index stands for its UUID, which is fresh for every
  tracker. \<open>connections\<close> holds the keys of the \<open>sync.Map\<close>; \<open>Range\<close> visits them in the order of the
  list. The counters are \<open>int64\<close> and wrap. Of the wrapped connection only matters whether it is
  there (\<open>None\<close> is nil) and open.
\<close>

section \<open>Types\<close>

type_synonym int64 = "64 word"

datatype tracker_kind = TcpTracker | UdpTracker

record trackerInfo =
  tr_kind :: tracker_kind
  RawConn :: "bool option"
  tr_Metadata :: Metadata
  UploadTotal :: int64
  TempUpload :: int64
  DownloadTotal :: int64
  TempDownload :: int64
  Start :: int
  Chain :: "string list"
  tr_Rule :: string
  RulePayload :: string
  MarkGC :: bool
  ModeZeroCopy :: bool
  firstClose :: bool

record Manager =
  trackers :: "trackerInfo list"
  connections :: "nat list"
  uploadTemp :: int64
  downloadTemp :: int64
  uploadBlip :: int64
  downloadBlip :: int64
  uploadTotal :: int64
  downloadTotal :: int64

datatype conn_error = ErrClosed

definition DefaultManager :: Manager where
  "DefaultManager =
     \<lparr>trackers = [], connections = [], uploadTemp = 0, downloadTemp = 0, uploadBlip = 0,
      downloadBlip = 0, uploadTotal = 0, downloadTotal = 0\<rparr>"

section \<open>Manager\<close>

definition Join_conn :: "nat \<Rightarrow> Manager \<Rightarrow> Manager" where
  "Join_conn c m = (if c \<in> set (connections m) then m else m\<lparr>connections := connections m @ [c]\<rparr>)"

definition Leave :: "nat \<Rightarrow> Manager \<Rightarrow> Manager" where
  "Leave c m = m\<lparr>connections := filter (\<lambda>d. d \<noteq> c) (connections m)\<rparr>"

definition Now :: "Manager \<Rightarrow> int64 \<times> int64" where
  "Now m = (uploadBlip m, downloadBlip m)"

record Snapshot =
  snap_DownloadTotal :: int64
  snap_UploadTotal :: int64
  snap_Connections :: "nat list"

definition Manager_Snapshot :: "Manager \<Rightarrow> Snapshot" where
  "Manager_Snapshot m =
     \<lparr>snap_DownloadTotal = downloadTotal m, snap_UploadTotal = uploadTotal m,
      snap_Connections = connections m\<rparr>"

definition ResetStatistic :: "Manager \<Rightarrow> Manager" where
  "ResetStatistic m =
     m\<lparr>uploadTemp := 0, uploadBlip := 0, uploadTotal := 0,
       downloadTemp := 0, downloadBlip := 0, downloadTotal := 0\<rparr>"

text \<open>
  One pass of the loop in \<open>handle\<close>: the visit of a connection, with the two sums of the pass, and
  the update of the manager after all of them.
\<close>

definition handle_visit :: "nat \<Rightarrow> int64 \<times> int64 \<times> trackerInfo list \<Rightarrow> int64 \<times> int64 \<times> trackerInfo list" where
  "handle_visit c =
     (\<lambda>(up, down, ts).
        let t = ts ! c
        in if ModeZeroCopy t then (up, down, ts)
           else (up + (UploadTotal t - TempUpload t), down + (DownloadTotal t - TempDownload t),
                 ts[c := t\<lparr>TempUpload := UploadTotal t, TempDownload := DownloadTotal t\<rparr>]))"

definition handle_tick :: "Manager \<Rightarrow> Manager" where
  "handle_tick m =
     (let (allTempUpload, allTemDownLoad, ts) = fold handle_visit (connections m) (0, 0, trackers m)
      in m\<lparr>trackers := ts, uploadBlip := allTempUpload, downloadBlip := allTemDownLoad,
           uploadTotal := uploadTotal m + allTempUpload,
           downloadTotal := downloadTotal m + allTemDownLoad\<rparr>)"

section \<open>Trackers\<close>

definition set_tracker :: "nat \<Rightarrow> (trackerInfo \<Rightarrow> trackerInfo) \<Rightarrow> Manager \<Rightarrow> Manager" where
  "set_tracker c f m = m\<lparr>trackers := (trackers m)[c := f (trackers m ! c)]\<rparr>"

definition SetDownloadTotal :: "nat \<Rightarrow> int64 \<Rightarrow> Manager \<Rightarrow> Manager" where
  "SetDownloadTotal c download m =
     (let m1 = set_tracker c (\<lambda>t. t\<lparr>DownloadTotal := DownloadTotal t + download\<rparr>) m
      in m1\<lparr>downloadTotal := downloadTotal m1 + download\<rparr>)"

definition SetUploadTotal :: "nat \<Rightarrow> int64 \<Rightarrow> Manager \<Rightarrow> Manager" where
  "SetUploadTotal c upload m =
     (let m1 = set_tracker c (\<lambda>t. t\<lparr>UploadTotal := UploadTotal t + upload\<rparr>) m
      in m1\<lparr>uploadTotal := uploadTotal m1 + upload\<rparr>)"

definition SetModeZeroCopy :: "nat \<Rightarrow> bool \<Rightarrow> Manager \<Rightarrow> Manager" where
  "SetModeZeroCopy c b = set_tracker c (\<lambda>t. t\<lparr>ModeZeroCopy := b\<rparr>)"

text \<open>\<open>n\<close> is the count the wrapped connection returns.\<close>

definition tcp_Read :: "nat \<Rightarrow> int64 \<Rightarrow> Manager \<Rightarrow> Manager" where
  "tcp_Read c n = set_tracker c (\<lambda>t. t\<lparr>DownloadTotal := DownloadTotal t + n\<rparr>)"

definition tcp_Write :: "nat \<Rightarrow> int64 \<Rightarrow> Manager \<Rightarrow> Manager" where
  "tcp_Write c n = set_tracker c (\<lambda>t. t\<lparr>UploadTotal := UploadTotal t + n\<rparr>)"

definition udp_ReadFrom :: "nat \<Rightarrow> int64 \<Rightarrow> Manager \<Rightarrow> Manager" where
  "udp_ReadFrom c n = set_tracker c (\<lambda>t. t\<lparr>DownloadTotal := DownloadTotal t + n\<rparr>)"

definition udp_WriteTo :: "nat \<Rightarrow> int64 \<Rightarrow> Manager \<Rightarrow> Manager" where
  "udp_WriteTo c n = set_tracker c (\<lambda>t. t\<lparr>UploadTotal := UploadTotal t + n\<rparr>)"

text \<open>
  \<open>Close\<close>: a connection whose chain ends in \<open>"ERROR"\<close> is only marked the first time. Closing a
  closed connection gives an error. \<open>Chain[len (Chain) - 1]\<close> panics on an empty chain.
\<close>

definition tcp_Close :: "nat \<Rightarrow> Manager \<Rightarrow> panic + conn_error option \<times> Manager" where
  "tcp_Close c m =
     (let tt = trackers m ! c
      in if Chain tt = [] then Inl IndexOutOfRange
         else if last (Chain tt) = ''ERROR'' \<and> MarkGC tt = False
         then Inr (None, set_tracker c (\<lambda>t. t\<lparr>MarkGC := True\<rparr>) m)
         else let m1 = Leave c m
              in case RawConn tt of
                   None \<Rightarrow> Inr (None, m1)
                 | Some is_open \<Rightarrow>
                     Inr (if is_open then None else Some ErrClosed,
                          set_tracker c (\<lambda>t. t\<lparr>RawConn := Some False, firstClose := False\<rparr>) m1))"

definition udp_Close :: "nat \<Rightarrow> Manager \<Rightarrow> panic + conn_error option \<times> Manager" where
  "udp_Close c m =
     (let ut = trackers m ! c
      in if Chain ut = [] then Inl IndexOutOfRange
         else if last (Chain ut) = ''ERROR'' \<and> MarkGC ut = False
         then Inr (None, set_tracker c (\<lambda>t. t\<lparr>MarkGC := True\<rparr>) m)
         else let m1 = Leave c m
              in case RawConn ut of
                   None \<Rightarrow> Inr (None, m1)
                 | Some is_open \<Rightarrow>
                     Inr (if is_open then None else Some ErrClosed,
                          set_tracker c (\<lambda>t. t\<lparr>RawConn := Some False, firstClose := False\<rparr>) m1))"

definition tracker_Close :: "nat \<Rightarrow> Manager \<Rightarrow> panic + conn_error option \<times> Manager" where
  "tracker_Close c m =
     (case tr_kind (trackers m ! c) of TcpTracker \<Rightarrow> tcp_Close c m | UdpTracker \<Rightarrow> udp_Close c m)"

text \<open>
  The constructors. \<open>conn\<close> is nil or has the chain \<open>conn.Chains ()\<close>; \<open>rule\<close> and \<open>proxy\<close> may be nil,
  and of the proxy only its name matters. A rule pointer that is nil inside panics.
\<close>

definition rule_strings :: "Rule option \<Rightarrow> panic + string \<times> string" where
  "rule_strings rule =
     (case rule of
        None \<Rightarrow> Inr ([], [])
      | Some r \<Rightarrow>
          (case rule_RuleType r of
             Inl p \<Rightarrow> Inl p
           | Inr ty \<Rightarrow>
               (case rule_Payload r of Inl p \<Rightarrow> Inl p | Inr pl \<Rightarrow> Inr (RuleType_String ty, pl))))"

definition new_trackerInfo :: "tracker_kind \<Rightarrow> string list option \<Rightarrow> Metadata \<Rightarrow> int \<Rightarrow> string list \<Rightarrow> string \<times> string \<Rightarrow> trackerInfo" where
  "new_trackerInfo kind conn metadata now chain rs =
     \<lparr>tr_kind = kind, RawConn = map_option (\<lambda>_. True) conn, tr_Metadata = metadata, UploadTotal = 0,
      TempUpload = 0, DownloadTotal = 0, TempDownload = 0, Start = now, Chain = chain,
      tr_Rule = fst rs, RulePayload = snd rs, MarkGC = False, ModeZeroCopy = False, firstClose = True\<rparr>"

definition add_tracker :: "trackerInfo \<Rightarrow> Manager \<Rightarrow> nat \<times> Manager" where
  "add_tracker t m =
     (let c = length (trackers m) in (c, Join_conn c (m\<lparr>trackers := trackers m @ [t]\<rparr>)))"

definition NewTCPTracker :: "string list option \<Rightarrow> Metadata \<Rightarrow> int \<Rightarrow> Rule option \<Rightarrow> string option \<Rightarrow> Manager \<Rightarrow>
    panic + nat \<times> Manager" where
  "NewTCPTracker conn metadata now rule proxy m =
     (let chain = (case conn of
                     Some ch \<Rightarrow> ch
                   | None \<Rightarrow> (case proxy of Some name \<Rightarrow> [''DISP'', name] | None \<Rightarrow> [''INIT'']))
      in case rule_strings rule of
           Inl p \<Rightarrow> Inl p
         | Inr rs \<Rightarrow> Inr (add_tracker (new_trackerInfo TcpTracker conn metadata now chain rs) m))"

definition NewUDPTracker :: "string list option \<Rightarrow> Metadata \<Rightarrow> int \<Rightarrow> Rule option \<Rightarrow> string option \<Rightarrow> Manager \<Rightarrow>
    panic + nat \<times> Manager" where
  "NewUDPTracker conn metadata now rule proxy m =
     (let chain = (case conn of
                     Some ch \<Rightarrow> ch
                   | None \<Rightarrow> (case proxy of Some name \<Rightarrow> [''PRELOAD'', name] | None \<Rightarrow> [''INIT'']))
      in case rule_strings rule of
           Inl p \<Rightarrow> Inl p
         | Inr rs \<Rightarrow> Inr (add_tracker (new_trackerInfo UdpTracker conn metadata now chain rs) m))"

text \<open>
  One pass of \<open>end_errors_conn\<close>: every connection of the map whose chain ends in \<open>"ERROR"\<close> is
  closed; an error of \<open>Close\<close> does not end the pass.
\<close>

fun end_errors :: "nat list \<Rightarrow> Manager \<Rightarrow> panic + Manager" where
  "end_errors [] m = Inr m"
| "end_errors (c # cs) m =
     (let tinfo = trackers m ! c
      in if Chain tinfo = [] then Inl IndexOutOfRange
         else if last (Chain tinfo) = ''ERROR''
         then (case tracker_Close c m of Inl p \<Rightarrow> Inl p | Inr (_, m1) \<Rightarrow> end_errors cs m1)
         else end_errors cs m)"

definition end_errors_conn :: "Manager \<Rightarrow> panic + Manager" where
  "end_errors_conn m = end_errors (connections m) m"

section \<open>Runs\<close>

text \<open>
  The calls the handlers and the two tickers make, in any order. A call on a tracker that was never
  made is no call.
\<close>

datatype stat_op = OpNewTCP "string list option" Metadata int "Rule option" "string option"
  | OpNewUDP "string list option" Metadata int "Rule option" "string option"
  | OpRead nat int64 | OpWrite nat int64 | OpClose nat | OpTick | OpEndErrors

fun stat_step :: "stat_op \<Rightarrow> Manager \<Rightarrow> panic + Manager" where
  "stat_step (OpNewTCP conn md now r p) m = map_sum id snd (NewTCPTracker conn md now r p m)"
| "stat_step (OpNewUDP conn md now r p) m = map_sum id snd (NewUDPTracker conn md now r p m)"
| "stat_step (OpRead c n) m =
     Inr (if c < length (trackers m) then
            (case tr_kind (trackers m ! c) of TcpTracker \<Rightarrow> tcp_Read c n m | UdpTracker \<Rightarrow> udp_ReadFrom c n m)
          else m)"
| "stat_step (OpWrite c n) m =
     Inr (if c < length (trackers m) then
            (case tr_kind (trackers m ! c) of TcpTracker \<Rightarrow> tcp_Write c n m | UdpTracker \<Rightarrow> udp_WriteTo c n m)
          else m)"
| "stat_step (OpClose c) m =
     (if c < length (trackers m) then map_sum id snd (tracker_Close c m) else Inr m)"
| "stat_step OpTick m = Inr (handle_tick m)"
| "stat_step OpEndErrors m = end_errors_conn m"

fun stat_run :: "stat_op list \<Rightarrow> Manager \<Rightarrow> panic + Manager" where
  "stat_run [] m = Inr m"
| "stat_run (op # ops) m = (case stat_step op m of Inl p \<Rightarrow> Inl p | Inr m1 \<Rightarrow> stat_run ops m1)"

section \<open>Facts\<close>

lemma udp_Close_eq: "udp_Close = tcp_Close"
  by (simp add: fun_eq_iff udp_Close_def tcp_Close_def)

lemma udp_count_eq: "udp_ReadFrom = tcp_Read" "udp_WriteTo = tcp_Write"
  by (simp_all add: fun_eq_iff udp_ReadFrom_def tcp_Read_def udp_WriteTo_def tcp_Write_def)

lemma tracker_Close_eq: "tracker_Close = tcp_Close"
  by (simp add: fun_eq_iff tracker_Close_def udp_Close_eq split: tracker_kind.split)

lemma sum_list_map_update:
  fixes f :: "'a \<Rightarrow> 'b::ab_group_add"
  shows "c < length ts \<Longrightarrow> sum_list (map f (ts[c := t])) = sum_list (map f ts) + (f t - f (ts ! c))"
proof (induction ts arbitrary: c)
  case (Cons a ts)
  then show ?case by (cases c) (simp_all add: algebra_simps)
qed simp

text \<open>What every operation keeps of a tracker that it does not count for.\<close>

definition mgr_inv :: "Manager \<Rightarrow> bool" where
  "mgr_inv m \<longleftrightarrow> distinct (connections m) \<and> (\<forall>c \<in> set (connections m). c < length (trackers m)) \<and>
     (\<forall>t \<in> set (trackers m). \<not> ModeZeroCopy t)"

definition counted :: "Manager \<Rightarrow> bool" where
  "counted m \<longleftrightarrow> uploadTotal m = sum_list (map TempUpload (trackers m)) \<and>
     downloadTotal m = sum_list (map TempDownload (trackers m))"

lemma set_tracker_keeps:
  assumes "c < length (trackers m)" "\<And>t. ModeZeroCopy (f t) = ModeZeroCopy t"
    "\<And>t. TempUpload (f t) = TempUpload t" "\<And>t. TempDownload (f t) = TempDownload t"
    and "mgr_inv m" "counted m"
  shows "mgr_inv (set_tracker c f m) \<and> counted (set_tracker c f m)"
  using assms
  by (auto simp: mgr_inv_def counted_def set_tracker_def sum_list_map_update
      dest!: subsetD [OF set_update_subset_insert])

lemma Leave_keeps: "mgr_inv m \<Longrightarrow> counted m \<Longrightarrow> mgr_inv (Leave c m) \<and> counted (Leave c m)"
  by (auto simp: mgr_inv_def counted_def Leave_def)

lemma tcp_Close_keeps:
  assumes "tcp_Close c m = Inr (e, m1)" "c < length (trackers m)" "mgr_inv m" "counted m"
  shows "mgr_inv m1 \<and> counted m1 \<and> length (trackers m1) = length (trackers m)"
proof -
  let ?f = "\<lambda>t :: trackerInfo. t\<lparr>MarkGC := True\<rparr>"
  let ?g = "\<lambda>t :: trackerInfo. t\<lparr>RawConn := Some False, firstClose := False\<rparr>"
  have l: "c < length (trackers (Leave c m))" using assms(2) by (simp add: Leave_def)
  have "m1 \<in> {set_tracker c ?f m, Leave c m, set_tracker c ?g (Leave c m)}"
    using assms(1) by (auto simp: tcp_Close_def Let_def split: if_splits option.splits)
  moreover have "mgr_inv (set_tracker c ?f m) \<and> counted (set_tracker c ?f m)"
    using assms by (intro set_tracker_keeps) simp_all
  moreover have "mgr_inv (set_tracker c ?g (Leave c m)) \<and> counted (set_tracker c ?g (Leave c m))"
    using assms Leave_keeps l by (intro set_tracker_keeps) simp_all
  ultimately show ?thesis using Leave_keeps [of m c] assms
    by (auto simp: set_tracker_def Leave_def)
qed

lemma end_errors_keeps:
  "end_errors cs m = Inr m1 \<Longrightarrow> \<forall>c \<in> set cs. c < length (trackers m) \<Longrightarrow> mgr_inv m \<Longrightarrow> counted m \<Longrightarrow>
   mgr_inv m1 \<and> counted m1"
proof (induction cs m rule: end_errors.induct)
  case (2 c cs m)
  show ?case
  proof (cases "last (Chain (trackers m ! c)) = ''ERROR''")
    case True
    with "2.prems" obtain e m2 where cl: "tcp_Close c m = Inr (e, m2)" and e: "end_errors cs m2 = Inr m1"
      by (auto simp: tracker_Close_eq Let_def split: if_splits sum.splits)
    have k: "mgr_inv m2 \<and> counted m2 \<and> length (trackers m2) = length (trackers m)"
      using "2.prems"(2-4) by (intro tcp_Close_keeps [OF cl]) auto
    show ?thesis
      using "2.IH"(1) [of "trackers m ! c" "(e, m2)" e m2] True cl e k "2.prems"
      by (auto simp: tracker_Close_eq Let_def split: if_splits)
  next
    case False
    then show ?thesis using "2.IH"(2) [of "trackers m ! c"] "2.prems" by (auto simp: Let_def split: if_splits)
  qed
qed simp

text \<open>A pass over some connections: what it adds up is what it moves into the \<open>Temp\<close> counters.\<close>

lemma fold_handle_visit:
  assumes "fold handle_visit cs (up, down, ts) = (up', down', ts')" "distinct cs"
    "\<forall>c \<in> set cs. c < length ts" "\<forall>t \<in> set ts. \<not> ModeZeroCopy t"
  shows "length ts' = length ts \<and> (\<forall>t \<in> set ts'. \<not> ModeZeroCopy t) \<and>
    map UploadTotal ts' = map UploadTotal ts \<and> map DownloadTotal ts' = map DownloadTotal ts \<and>
    sum_list (map TempUpload ts') = sum_list (map TempUpload ts) + (up' - up) \<and>
    sum_list (map TempDownload ts') = sum_list (map TempDownload ts) + (down' - down) \<and>
    (\<forall>c \<in> set cs. TempUpload (ts' ! c) = UploadTotal (ts' ! c) \<and> TempDownload (ts' ! c) = DownloadTotal (ts' ! c)) \<and>
    (\<forall>c. c \<notin> set cs \<longrightarrow> ts' ! c = ts ! c)"
  using assms
proof (induction cs arbitrary: up down ts)
  case (Cons c cs)
  let ?t = "ts ! c"
  let ?ts = "ts[c := ?t\<lparr>TempUpload := UploadTotal ?t, TempDownload := DownloadTotal ?t\<rparr>]"
  have c: "c < length ts" and z: "\<not> ModeZeroCopy ?t" using Cons.prems by simp_all
  have visit: "handle_visit c (up, down, ts) =
      (up + (UploadTotal ?t - TempUpload ?t), down + (DownloadTotal ?t - TempDownload ?t), ?ts)"
    using z by (simp add: handle_visit_def Let_def)
  have upd: "map UploadTotal ?ts = map UploadTotal ts" "map DownloadTotal ?ts = map DownloadTotal ts"
    by (simp_all add: map_update) (simp_all add: list_update_same_conv c)
  have nz: "\<forall>t \<in> set ?ts. \<not> ModeZeroCopy t"
    using Cons.prems(4) z by (auto dest!: subsetD [OF set_update_subset_insert])
  have IH: "length ts' = length ?ts \<and> (\<forall>t \<in> set ts'. \<not> ModeZeroCopy t) \<and>
    map UploadTotal ts' = map UploadTotal ?ts \<and> map DownloadTotal ts' = map DownloadTotal ?ts \<and>
    sum_list (map TempUpload ts') = sum_list (map TempUpload ?ts) + (up' - (up + (UploadTotal ?t - TempUpload ?t))) \<and>
    sum_list (map TempDownload ts') = sum_list (map TempDownload ?ts) + (down' - (down + (DownloadTotal ?t - TempDownload ?t))) \<and>
    (\<forall>c \<in> set cs. TempUpload (ts' ! c) = UploadTotal (ts' ! c) \<and> TempDownload (ts' ! c) = DownloadTotal (ts' ! c)) \<and>
    (\<forall>c. c \<notin> set cs \<longrightarrow> ts' ! c = ?ts ! c)"
    using Cons.prems nz visit by (intro Cons.IH) simp_all
  have "TempUpload (ts' ! c) = UploadTotal (ts' ! c) \<and> TempDownload (ts' ! c) = DownloadTotal (ts' ! c)"
    using IH Cons.prems(2) c by simp
  moreover have "sum_list (map TempUpload ?ts) = sum_list (map TempUpload ts) + (UploadTotal ?t - TempUpload ?t)"
    "sum_list (map TempDownload ?ts) = sum_list (map TempDownload ts) + (DownloadTotal ?t - TempDownload ?t)"
    by (subst sum_list_map_update [OF c], simp)+
  ultimately show ?case using IH upd by (simp add: c)
qed simp

lemma handle_tick_keeps:
  assumes "mgr_inv m" "counted m"
  shows "mgr_inv (handle_tick m) \<and> counted (handle_tick m)"
proof -
  obtain up down ts where f: "fold handle_visit (connections m) (0, 0, trackers m) = (up, down, ts)"
    by (metis prod_cases3)
  show ?thesis
    using fold_handle_visit [OF f] assms
    by (simp add: handle_tick_def f mgr_inv_def counted_def)
qed

lemma add_tracker_keeps:
  assumes "mgr_inv m" "counted m" "\<not> ModeZeroCopy t" "TempUpload t = 0" "TempDownload t = 0"
  shows "mgr_inv (snd (add_tracker t m)) \<and> counted (snd (add_tracker t m))"
  using assms by (auto simp: add_tracker_def Join_conn_def mgr_inv_def counted_def Let_def)

lemma new_tracker_keeps:
  assumes "mgr_inv m" "counted m"
  shows "mgr_inv (snd (add_tracker (new_trackerInfo k conn md now ch rs) m))"
    "counted (snd (add_tracker (new_trackerInfo k conn md now ch rs) m))"
  using add_tracker_keeps [OF assms, of "new_trackerInfo k conn md now ch rs"]
  by (simp_all add: new_trackerInfo_def)

lemma count_keeps:
  assumes "c < length (trackers m)" "mgr_inv m" "counted m"
  shows "mgr_inv (tcp_Read c n m)" "counted (tcp_Read c n m)"
    "mgr_inv (tcp_Write c n m)" "counted (tcp_Write c n m)"
  using set_tracker_keeps [OF assms(1) _ _ _ assms(2,3), of "\<lambda>t. t\<lparr>DownloadTotal := DownloadTotal t + n\<rparr>"]
    set_tracker_keeps [OF assms(1) _ _ _ assms(2,3), of "\<lambda>t. t\<lparr>UploadTotal := UploadTotal t + n\<rparr>"]
  by (simp_all add: tcp_Read_def tcp_Write_def)

lemma stat_step_keeps:
  assumes "stat_step op m = Inr m1" "mgr_inv m" "counted m"
  shows "mgr_inv m1 \<and> counted m1"
proof (cases op)
  case (OpNewTCP conn md now r p)
  then show ?thesis using assms
    by (auto simp: NewTCPTracker_def Let_def split: sum.splits intro!: new_tracker_keeps)
next
  case (OpNewUDP conn md now r p)
  then show ?thesis using assms
    by (auto simp: NewUDPTracker_def Let_def split: sum.splits intro!: new_tracker_keeps)
next
  case (OpRead c n)
  then show ?thesis using assms
    by (auto simp: udp_count_eq count_keeps split: if_splits tracker_kind.splits)
next
  case (OpWrite c n)
  then show ?thesis using assms
    by (auto simp: udp_count_eq count_keeps split: if_splits tracker_kind.splits)
next
  case (OpClose c)
  then show ?thesis using assms tcp_Close_keeps
    by (fastforce simp: tracker_Close_eq map_sum_def split: if_splits sum.splits)
next
  case OpTick
  then show ?thesis using assms handle_tick_keeps [of m] by simp
next
  case OpEndErrors
  then show ?thesis using assms
    by (intro end_errors_keeps [of "connections m" m m1]) (auto simp: end_errors_conn_def mgr_inv_def)
qed

lemma stat_run_keeps: "stat_run ops m = Inr m1 \<Longrightarrow> mgr_inv m \<Longrightarrow> counted m \<Longrightarrow> mgr_inv m1 \<and> counted m1"
  by (induction ops arbitrary: m) (auto split: sum.splits dest: stat_step_keeps)

lemma DefaultManager_ok: "mgr_inv DefaultManager" "counted DefaultManager"
  by (simp_all add: mgr_inv_def counted_def DefaultManager_def)

section \<open>Accounting\<close>

definition gone :: "Manager \<Rightarrow> nat list" where
  "gone m = filter (\<lambda>c. c \<notin> set (connections m)) [0 ..< length (trackers m)]"

lemma sum_split_gone:
  fixes f g :: "trackerInfo \<Rightarrow> int64"
  assumes "\<forall>c \<in> set (connections m). c < length (trackers m) \<longrightarrow> f (trackers m ! c) = g (trackers m ! c)"
  shows "sum_list (map f (trackers m)) =
    sum_list (map g (trackers m)) + (\<Sum>c \<leftarrow> gone m. f (trackers m ! c) - g (trackers m ! c))"
proof -
  let ?d = "\<lambda>c. f (trackers m ! c) - g (trackers m ! c)"
  have nth: "map h (trackers m) = map (\<lambda>c. h (trackers m ! c)) [0 ..< length (trackers m)]"
    for h :: "trackerInfo \<Rightarrow> int64"
    using map_map [of h "(!) (trackers m)" "[0 ..< length (trackers m)]"] by (simp only: map_nth o_def)
  have "sum_list (map f (trackers m)) - sum_list (map g (trackers m)) = (\<Sum>c \<leftarrow> [0 ..< length (trackers m)]. ?d c)"
    by (simp only: nth sum_list_subtractf)
  also have "\<dots> = (\<Sum>c \<leftarrow> gone m. ?d c)"
  proof -
    have "\<forall>c \<in> set cs. c \<in> set (connections m) \<longrightarrow> ?d c = 0 \<Longrightarrow>
      (\<Sum>c \<leftarrow> cs. ?d c) = (\<Sum>c \<leftarrow> filter (\<lambda>c. c \<notin> set (connections m)) cs. ?d c)" for cs
      by (induction cs) auto
    from this [of "[0 ..< length (trackers m)]"] show ?thesis
      using assms unfolding gone_def by simp
  qed
  finally show ?thesis by (simp add: algebra_simps)
qed

lemma handle_tick_current:
  assumes "mgr_inv m" "c \<in> set (connections (handle_tick m))"
  shows "TempUpload (trackers (handle_tick m) ! c) = UploadTotal (trackers (handle_tick m) ! c)"
    "TempDownload (trackers (handle_tick m) ! c) = DownloadTotal (trackers (handle_tick m) ! c)"
proof -
  obtain up down ts where f: "fold handle_visit (connections m) (0, 0, trackers m) = (up, down, ts)"
    by (metis prod_cases3)
  show "TempUpload (trackers (handle_tick m) ! c) = UploadTotal (trackers (handle_tick m) ! c)"
    "TempDownload (trackers (handle_tick m) ! c) = DownloadTotal (trackers (handle_tick m) ! c)"
    using fold_handle_visit [OF f] assms by (simp_all add: handle_tick_def f mgr_inv_def)
qed


definition demo_md :: Metadata where
  "demo_md = \<lparr>NetWork = TCP, Type = SOCKS5, SrcIP = [10, 0, 0, 2], DstIP = [1, 1, 1, 1], SrcPort = ''4000'',
     DstPort = ''443'', AddrType = 1, Host = []\<rparr>"

lemmas stat_eval = DefaultManager_def NewTCPTracker_def NewUDPTracker_def rule_strings_def new_trackerInfo_def
  add_tracker_def Join_conn_def tcp_Write_def tcp_Read_def set_tracker_def handle_tick_def handle_visit_def
  tracker_Close_eq tcp_Close_def Leave_def end_errors_conn_def gone_def Let_def


text \<open>What a connection transfers between the last tick and its end is in no total.\<close>

lemma traffic_lost_on_close:
  "\<exists>m. stat_run [OpNewTCP (Some [''DIRECT'']) md now None None, OpWrite 0 n, OpClose 0, OpTick] DefaultManager = Inr m \<and>
    map UploadTotal (trackers m) = [n] \<and> uploadTotal m = 0"
  by (simp add: stat_eval)

section \<open>Connections in error\<close>

definition in_error :: "trackerInfo \<Rightarrow> bool" where
  "in_error t \<longleftrightarrow> last (Chain t) = ''ERROR''"

definition chained :: "Manager \<Rightarrow> bool" where
  "chained m \<longleftrightarrow> distinct (connections m) \<and>
     (\<forall>c \<in> set (connections m). c < length (trackers m) \<and> Chain (trackers m ! c) \<noteq> [])"

lemma tcp_Close_in_error:
  assumes "c < length (trackers m)" "Chain (trackers m ! c) \<noteq> []" "in_error (trackers m ! c)"
  obtains e m1 where "tcp_Close c m = Inr (e, m1)" "map Chain (trackers m1) = map Chain (trackers m)"
    "connections m1 = (if MarkGC (trackers m ! c) then filter (\<lambda>d. d \<noteq> c) (connections m) else connections m)"
    "MarkGC (trackers m1 ! c)" "\<forall>d. d \<noteq> c \<longrightarrow> trackers m1 ! d = trackers m ! d"
proof -
  have upd: "map Chain ((trackers m)[c := t]) = map Chain (trackers m)" if "Chain t = Chain (trackers m ! c)" for t
    using that assms(1) by (simp add: map_update list_update_same_conv)
  show ?thesis
  proof (cases "MarkGC (trackers m ! c)")
    case False
    then show ?thesis
      using assms by (intro that [of None "set_tracker c (\<lambda>t. t\<lparr>MarkGC := True\<rparr>) m"]) (auto simp: tcp_Close_def in_error_def set_tracker_def upd)
  next
    case True
    show ?thesis
    proof (cases "RawConn (trackers m ! c)")
      case None
      with True assms show ?thesis
        by (intro that [of None "Leave c m"]) (auto simp: tcp_Close_def in_error_def Leave_def)
    next
      case (Some b)
      with True assms show ?thesis
        by (intro that [of "if b then None else Some ErrClosed"
              "set_tracker c (\<lambda>t. t\<lparr>RawConn := Some False, firstClose := False\<rparr>) (Leave c m)"])
          (auto simp: tcp_Close_def in_error_def Leave_def set_tracker_def upd)
    qed
  qed
qed

lemma nth_map_Chain:
  "map Chain (trackers m1) = map Chain (trackers m) \<Longrightarrow>
   length (trackers m1) = length (trackers m) \<and> (\<forall>d < length (trackers m). Chain (trackers m1 ! d) = Chain (trackers m ! d))"
  by (metis length_map nth_map)

lemma end_errors_pass:
  assumes "distinct cs" "\<forall>c \<in> set cs. c < length (trackers m) \<and> Chain (trackers m ! c) \<noteq> []"
  shows "\<exists>m1. end_errors cs m = Inr m1 \<and> map Chain (trackers m1) = map Chain (trackers m) \<and>
    connections m1 = filter (\<lambda>c. \<not> (c \<in> set cs \<and> in_error (trackers m ! c) \<and> MarkGC (trackers m ! c))) (connections m) \<and>
    (\<forall>c \<in> set cs. in_error (trackers m ! c) \<longrightarrow> MarkGC (trackers m1 ! c)) \<and>
    (\<forall>c. c \<notin> set cs \<longrightarrow> trackers m1 ! c = trackers m ! c)"
  using assms
proof (induction cs arbitrary: m)
  case (Cons c cs)
  have c: "c < length (trackers m)" "Chain (trackers m ! c) \<noteq> []" "c \<notin> set cs" "distinct cs"
    using Cons.prems by simp_all
  show ?case
  proof (cases "in_error (trackers m ! c)")
    case True
    obtain e m1 where m1: "tcp_Close c m = Inr (e, m1)" "map Chain (trackers m1) = map Chain (trackers m)"
      "connections m1 = (if MarkGC (trackers m ! c) then filter (\<lambda>d. d \<noteq> c) (connections m) else connections m)"
      "MarkGC (trackers m1 ! c)" "\<forall>d. d \<noteq> c \<longrightarrow> trackers m1 ! d = trackers m ! d"
      using tcp_Close_in_error [OF c(1,2) True] .
    have "\<forall>d \<in> set cs. d < length (trackers m1) \<and> Chain (trackers m1 ! d) \<noteq> []"
      using nth_map_Chain [OF m1(2)] Cons.prems by simp
    from Cons.IH [OF c(4) this] obtain m2 where m2: "end_errors cs m1 = Inr m2"
      "map Chain (trackers m2) = map Chain (trackers m1)"
      "connections m2 = filter (\<lambda>d. \<not> (d \<in> set cs \<and> in_error (trackers m1 ! d) \<and> MarkGC (trackers m1 ! d))) (connections m1)"
      "\<forall>d \<in> set cs. in_error (trackers m1 ! d) \<longrightarrow> MarkGC (trackers m2 ! d)"
      "\<forall>d. d \<notin> set cs \<longrightarrow> trackers m2 ! d = trackers m1 ! d"
      by blast
    have same: "d \<in> set cs \<Longrightarrow> trackers m1 ! d = trackers m ! d" for d
      using m1(5) c(3) by auto
    have "end_errors (c # cs) m = Inr m2"
      using c True m1(1) m2(1) by (simp add: tracker_Close_eq in_error_def)
    moreover have "connections m2 = filter (\<lambda>d. \<not> (d \<in> set (c # cs) \<and> in_error (trackers m ! d) \<and> MarkGC (trackers m ! d))) (connections m)"
      unfolding m2(3) m1(3) using same True c(3) by (auto intro!: filter_cong)
    ultimately show ?thesis using m1 m2 same c(3) True by auto
  next
    case False
    have "\<forall>d \<in> set cs. d < length (trackers m) \<and> Chain (trackers m ! d) \<noteq> []" using Cons.prems by simp
    from Cons.IH [OF c(4) this] obtain m2 where m2: "end_errors cs m = Inr m2"
      "map Chain (trackers m2) = map Chain (trackers m)"
      "connections m2 = filter (\<lambda>d. \<not> (d \<in> set cs \<and> in_error (trackers m ! d) \<and> MarkGC (trackers m ! d))) (connections m)"
      "\<forall>d \<in> set cs. in_error (trackers m ! d) \<longrightarrow> MarkGC (trackers m2 ! d)"
      "\<forall>d. d \<notin> set cs \<longrightarrow> trackers m2 ! d = trackers m ! d"
      by blast
    have "end_errors (c # cs) m = Inr m2" using False c m2(1) by (simp add: in_error_def)
    moreover have "connections m2 = filter (\<lambda>d. \<not> (d \<in> set (c # cs) \<and> in_error (trackers m ! d) \<and> MarkGC (trackers m ! d))) (connections m)"
      unfolding m2(3) using False by (auto intro!: filter_cong)
    ultimately show ?thesis using m2 False by auto
  qed
qed simp

text \<open>
  a connection that failed is shown for a while and then collected. Two passes of the collector
  run through without a panic and leave exactly the connections whose chain does not end in
  \<open>"ERROR"\<close>, in their order.
\<close>

theorem error_conns_collected:
  assumes "chained m"
  shows "\<exists>m1 m2. end_errors_conn m = Inr m1 \<and> end_errors_conn m1 = Inr m2 \<and>
    connections m2 = filter (\<lambda>c. \<not> in_error (trackers m ! c)) (connections m)"
proof -
  have cs: "distinct (connections m)" "\<forall>c \<in> set (connections m). c < length (trackers m) \<and> Chain (trackers m ! c) \<noteq> []"
    using assms by (auto simp: chained_def)
  obtain m1 where m1: "end_errors (connections m) m = Inr m1" "map Chain (trackers m1) = map Chain (trackers m)"
    "connections m1 = filter (\<lambda>c. \<not> (c \<in> set (connections m) \<and> in_error (trackers m ! c) \<and> MarkGC (trackers m ! c))) (connections m)"
    "\<forall>c \<in> set (connections m). in_error (trackers m ! c) \<longrightarrow> MarkGC (trackers m1 ! c)"
    using end_errors_pass [OF cs] by blast
  have sub: "set (connections m1) \<subseteq> set (connections m)" using m1(3) by auto
  have err: "c \<in> set (connections m) \<Longrightarrow> in_error (trackers m1 ! c) = in_error (trackers m ! c)" for c
    using nth_map_Chain [OF m1(2)] cs(2) by (simp add: in_error_def)
  have cs1: "distinct (connections m1)" "\<forall>c \<in> set (connections m1). c < length (trackers m1) \<and> Chain (trackers m1 ! c) \<noteq> []"
    using m1(3) cs nth_map_Chain [OF m1(2)] by auto
  obtain m2 where m2: "end_errors (connections m1) m1 = Inr m2"
    "connections m2 = filter (\<lambda>c. \<not> (c \<in> set (connections m1) \<and> in_error (trackers m1 ! c) \<and> MarkGC (trackers m1 ! c))) (connections m1)"
    using end_errors_pass [OF cs1] by blast
  have "connections m2 = filter (\<lambda>c. \<not> in_error (trackers m ! c)) (connections m1)"
    unfolding m2(2) using sub err m1(4) by (auto intro!: filter_cong)
  also have "\<dots> = filter (\<lambda>c. \<not> in_error (trackers m ! c)) (connections m)"
    unfolding m1(3) by (auto intro!: filter_cong)
  finally show ?thesis using m1(1) m2(1) by (auto simp: end_errors_conn_def)
qed

theorem error_conns_collected_witness:
  "\<exists>m m1 m2. stat_run [OpNewTCP (Some [''p'', ''ERROR'']) demo_md 0 None None, OpNewTCP (Some [''DIRECT'']) demo_md 0 None None]
      DefaultManager = Inr m \<and>
    end_errors_conn m = Inr m1 \<and> end_errors_conn m1 = Inr m2 \<and> connections m = [0, 1] \<and> connections m2 = [1]"
proof -
  obtain m where m: "stat_run [OpNewTCP (Some [''p'', ''ERROR'']) demo_md 0 None None, OpNewTCP (Some [''DIRECT'']) demo_md 0 None None]
      DefaultManager = Inr m"
    by (simp add: stat_eval)
  have cs: "connections m = [0, 1]" using m by (auto simp: stat_eval)
  have "chained m" using m by (auto simp: stat_eval chained_def)
  from error_conns_collected [OF this] obtain m1 m2 where
    "end_errors_conn m = Inr m1" "end_errors_conn m1 = Inr m2"
    "connections m2 = filter (\<lambda>c. \<not> in_error (trackers m ! c)) (connections m)"
    by blast
  moreover have "filter (\<lambda>c. \<not> in_error (trackers m ! c)) (connections m) = [1]"
    using m by (auto simp: stat_eval in_error_def)
  ultimately show ?thesis using m cs by auto
qed

end
