(* ===== verification/Inbound.thy ===== *)
theory Inbound
  imports Socks4 Statistic
begin

text \<open>
  \<open>adapter/inbound\<close>, \<open>context/conn.go\<close>, \<open>context/packetconn.go\<close> and the SOCKS listener
  \<open>listener/socks\<close>: how a client's request becomes a connection for the tunnel.
\<close>

section \<open>Parsing the target\<close>

definition no_metadata :: Metadata where
  "no_metadata =
     \<lparr>NetWork = 0, Type = 0, SrcIP = [], DstIP = [], SrcPort = [], DstPort = [], AddrType = 0, Host = []\<rparr>"

text \<open>
  In the domain case \<open>2 + target[1]\<close> is an addition of bytes, which wraps.
\<close>

definition parseSocksAddr :: "Addr \<Rightarrow> panic + Metadata" where
  "parseSocksAddr target =
     and_then (index target 0) (\<lambda>t.
       let metadata = no_metadata\<lparr>AddrType := uint t\<rparr>
       in if t = socks_AtypDomainName then
            and_then (index target 1) (\<lambda>l.
            and_then (slice 2 (unat (2 + l)) target) (\<lambda>h.
            and_then (index target (unat (2 + l))) (\<lambda>p.
            and_then (index target (unat (2 + l + 1))) (\<lambda>q.
              Inr (metadata\<lparr>Host := TrimRight CHR ''.'' (bytes_to_string h), DstPort := Itoa (port_of p q)\<rparr>)))))
          else if t = socks_AtypIPv4 then
            and_then (slice 1 5 target) (\<lambda>ip.
            and_then (index target 5) (\<lambda>p.
            and_then (index target 6) (\<lambda>q.
              Inr (metadata\<lparr>DstIP := ip, DstPort := Itoa (port_of p q)\<rparr>))))
          else if t = socks_AtypIPv6 then
            and_then (slice 1 17 target) (\<lambda>ip.
            and_then (index target 17) (\<lambda>p.
            and_then (index target 18) (\<lambda>q.
              Inr (metadata\<lparr>DstIP := ip, DstPort := Itoa (port_of p q)\<rparr>))))
          else Inr metadata)"

text \<open>\<open>URL.Hostname\<close> and \<open>URL.Port\<close> of the host part of a URL.\<close>

definition validOptionalPort :: "string \<Rightarrow> bool" where
  "validOptionalPort port \<longleftrightarrow> port = [] \<or> hd port = CHR '':'' \<and> list_all is_digit (tl port)"

definition url_splitHostPort :: "string \<Rightarrow> string \<times> string" where
  "url_splitHostPort hostPort =
     (let (h, p) = (case last_index_of CHR '':'' hostPort of
                      None \<Rightarrow> (hostPort, [])
                    | Some i \<Rightarrow> if validOptionalPort (drop i hostPort) then (take i hostPort, drop (i + 1) hostPort)
                                else (hostPort, []))
      in if h \<noteq> [] \<and> hd h = CHR ''['' \<and> last h = CHR '']'' then (butlast (tl h), p) else (h, p))"

definition parseHTTPAddr :: "string \<Rightarrow> Metadata" where
  "parseHTTPAddr url_host =
     (let (h, p) = url_splitHostPort url_host;
          port = (if p = [] then ''80'' else p);
          h = TrimRight CHR ''.'' h;
          metadata = no_metadata\<lparr>NetWork := TCP, AddrType := AtypDomainName, Host := h, DstIP := [], DstPort := port\<rparr>;
          ip = ParseIP h
      in if ip \<noteq> [] then metadata\<lparr>AddrType := (if To4 ip = [] then AtypIPv6 else AtypIPv4), DstIP := ip\<rparr>
         else metadata)"

definition parseAddr :: "string \<Rightarrow> (IP \<times> string) option" where
  "parseAddr addr =
     (case SplitHostPort addr of None \<Rightarrow> None | Some (host, port) \<Rightarrow> Some (ParseIP host, port))"

definition with_source :: "string \<Rightarrow> Metadata \<Rightarrow> Metadata" where
  "with_source source metadata =
     (case parseAddr source of
        None \<Rightarrow> metadata
      | Some (ip, port) \<Rightarrow> metadata\<lparr>SrcIP := ip, SrcPort := port\<rparr>)"

section \<open>Contexts\<close>

text \<open>The identifier of a context plays no part in what is modelled.\<close>

record ConnContext =
  ctx_metadata :: Metadata
  ctx_tcp :: "nat option"

definition NewConnContext :: "Metadata \<Rightarrow> int \<Rightarrow> Manager \<Rightarrow> panic + ConnContext \<times> Manager" where
  "NewConnContext metadata now m =
     (if NetWork metadata = TCP then
        and_then (NewTCPTracker None metadata now None None m) (\<lambda>(tcpTrack, m1).
          Inr (\<lparr>ctx_metadata = metadata, ctx_tcp = Some tcpTrack\<rparr>, Join_conn tcpTrack m1))
      else Inr (\<lparr>ctx_metadata = metadata, ctx_tcp = None\<rparr>, m))"

definition NewHTTP :: "Addr \<Rightarrow> string \<Rightarrow> int \<Rightarrow> Manager \<Rightarrow> panic + ConnContext \<times> Manager" where
  "NewHTTP target source now m =
     and_then (parseSocksAddr target) (\<lambda>metadata.
       NewConnContext (with_source source (metadata\<lparr>NetWork := TCP, Type := HTTP\<rparr>)) now m)"

definition NewHTTPS :: "string \<Rightarrow> string \<Rightarrow> int \<Rightarrow> Manager \<Rightarrow> panic + ConnContext \<times> Manager" where
  "NewHTTPS url_host source now m =
     NewConnContext (with_source source ((parseHTTPAddr url_host)\<lparr>Type := HTTPCONNECT\<rparr>)) now m"

definition NewSocket :: "Addr \<Rightarrow> string \<Rightarrow> int \<Rightarrow> int \<Rightarrow> Manager \<Rightarrow> panic + ConnContext \<times> Manager" where
  "NewSocket target remote source now m =
     and_then (parseSocksAddr target) (\<lambda>metadata.
       NewConnContext (with_source remote (metadata\<lparr>NetWork := TCP, Type := source\<rparr>)) now m)"

text \<open>A packet for the tunnel: its payload, the address it came from, and its metadata.\<close>

record PacketAdapter =
  pa_data :: "byte list"
  pa_local :: NetAddr
  pa_metadata :: Metadata

definition NewPacket :: "Addr \<Rightarrow> byte list \<Rightarrow> NetAddr \<Rightarrow> int \<Rightarrow> panic + PacketAdapter" where
  "NewPacket target payload rAddr source =
     and_then (parseSocksAddr target) (\<lambda>metadata.
       Inr \<lparr>pa_data = payload, pa_local = rAddr,
            pa_metadata = with_source (NetAddr_String rAddr) (metadata\<lparr>NetWork := UDP, Type := source\<rparr>)\<rparr>)"

section \<open>The SOCKS listener\<close>

text \<open>
  What becomes of an accepted connection: it is closed, handed to the tunnel, or kept open as the
  control connection of a UDP association until the client goes.
\<close>

datatype accepted = ConnClosed | ToTunnel ConnContext | UDPControl

record sock =
  sk_conn :: Conn
  sk_local :: string
  sk_remote :: string

definition HandleSocks4 :: "Authenticator option \<Rightarrow> int \<Rightarrow> sock \<Rightarrow> Manager \<Rightarrow> panic + accepted \<times> sock \<times> Manager" where
  "HandleSocks4 au now sk m =
     (case socks4_ServerHandshake au (sk_conn sk) of
        (Inl err, c) \<Rightarrow> Inr (ConnClosed, sk\<lparr>sk_conn := c\<rparr>, m)
      | (Inr (addr, _), c) \<Rightarrow>
          and_then (NewSocket (socks_ParseAddr addr) (sk_remote sk) SOCKS4 now m) (\<lambda>(ctx, m1).
            Inr (ToTunnel ctx, sk\<lparr>sk_conn := c\<rparr>, m1)))"

definition HandleSocks5 :: "Authenticator option \<Rightarrow> int \<Rightarrow> sock \<Rightarrow> Manager \<Rightarrow> panic + accepted \<times> sock \<times> Manager" where
  "HandleSocks5 au now sk m =
     (case socks5_ServerHandshake au (sk_local sk) (sk_conn sk) of
        (Inl err, c) \<Rightarrow> Inr (ConnClosed, sk\<lparr>sk_conn := c\<rparr>, m)
      | (Inr (target, command), c) \<Rightarrow>
          if command = CmdUDPAssociate then Inr (UDPControl, sk\<lparr>sk_conn := c\<rparr>, m)
          else and_then (NewSocket target (sk_remote sk) SOCKS5 now m) (\<lambda>(ctx, m1).
                 Inr (ToTunnel ctx, sk\<lparr>sk_conn := c\<rparr>, m1)))"

definition handleSocks :: "Authenticator option \<Rightarrow> int \<Rightarrow> sock \<Rightarrow> Manager \<Rightarrow> panic + accepted \<times> sock \<times> Manager" where
  "handleSocks au now sk m =
     (case rx (sk_conn sk) of
        [] \<Rightarrow> Inr (ConnClosed, sk, m)
      | head # _ \<Rightarrow>
          if head = socks4_Version then HandleSocks4 au now sk m
          else if head = 5 then HandleSocks5 au now sk m
          else Inr (ConnClosed, sk, m))"

text \<open>
  The UDP side. The queue to the tunnel is bounded; a packet that finds it full is dropped.
\<close>

definition handleSocksUDP :: "nat \<Rightarrow> byte list \<Rightarrow> NetAddr \<Rightarrow> PacketAdapter list \<Rightarrow> panic + PacketAdapter list" where
  "handleSocksUDP cap buf addr queue =
     (case DecodeUDPPacket buf of
        (_, _, Some err) \<Rightarrow> Inr queue
      | (target, payload, None) \<Rightarrow>
          and_then (NewPacket target payload addr SOCKS5) (\<lambda>p.
            Inr (if length queue < cap then queue @ [p] else queue)))"

definition WriteBack :: "byte list \<Rightarrow> NetAddr \<Rightarrow> socks_error + byte list" where
  "WriteBack b addr = EncodeUDPPacket (ParseAddrToSocksAddr addr) b"

section \<open>The target of a request\<close>

fun ep_metadata :: "endpoint \<Rightarrow> Metadata" where
  "ep_metadata (EpIPv4 ip p) = no_metadata\<lparr>AddrType := AtypIPv4, DstIP := ip, DstPort := Itoa (uint p)\<rparr>"
| "ep_metadata (EpDomain h p) =
     no_metadata\<lparr>AddrType := AtypDomainName, Host := TrimRight CHR ''.'' (bytes_to_string h), DstPort := Itoa (uint p)\<rparr>"
| "ep_metadata (EpIPv6 ip p) = no_metadata\<lparr>AddrType := AtypIPv6, DstIP := ip, DstPort := Itoa (uint p)\<rparr>"

fun short_ep :: "endpoint \<Rightarrow> bool" where
  "short_ep (EpDomain h p) \<longleftrightarrow> length h \<le> 252"
| "short_ep ep \<longleftrightarrow> wf_ep ep"

lemma nth_port: "i < 2 \<Longrightarrow> (xs @ PutUint16 p) ! (length xs + i) = PutUint16 p ! i"
  by (simp add: nth_append)

lemma port_of_nth [simp]: "port_of (PutUint16 p ! 0) (PutUint16 p ! Suc 0) = uint p"
  by (rule port_of_PutUint16) (simp add: PutUint16_def)

lemma parseSocksAddr_encode:
  assumes "short_ep ep"
  shows "parseSocksAddr (encode_ep ep) = Inr (ep_metadata ep)"
proof (cases ep)
  case (EpIPv4 ip p)
  then show ?thesis using assms nth_port [of 0 ip p] nth_port [of 1 ip p]
    by (simp add: parseSocksAddr_def index_def slice_def Let_def socks_consts metadata_consts)
next
  case (EpIPv6 ip p)
  then show ?thesis using assms nth_port [of 0 ip p] nth_port [of 1 ip p]
    by (simp add: parseSocksAddr_def index_def slice_def Let_def socks_consts metadata_consts)
next
  case (EpDomain h p)
  let ?l = "of_nat (length h) :: byte"
  have n: "length h \<le> 252" using assms EpDomain by simp
  have "unat (2 + ?l) = 2 + length h"
    using n of_nat_add [of 2 "length h", where 'a = "8 word"] unat_of_nat [of "2 + length h", where 'a = 8] by simp
  moreover have "unat (2 + ?l + 1) = 3 + length h"
    using n of_nat_add [of 3 "length h", where 'a = "8 word"] unat_of_nat [of "3 + length h", where 'a = 8]
    by (simp add: add.commute add.left_commute)
  moreover have atyp_dom: "uint socks_AtypDomainName = AtypDomainName" by (simp add: socks_consts metadata_consts)
  ultimately show ?thesis
    using EpDomain n nth_port [of 0 h p] nth_port [of 1 h p]
    by (simp add: parseSocksAddr_def index_def slice_def Let_def atyp_dom numeral_2_eq_2 numeral_3_eq_3)
qed

text \<open>A name of 254 or 255 bytes makes \<open>2 + target[1]\<close> wrap to 0 or 1, below the start of the slice.\<close>

lemma parseSocksAddr_long:
  assumes "length h = 254 \<or> length h = 255"
  shows "parseSocksAddr (encode_ep (EpDomain h p)) = Inl IndexOutOfRange"
proof -
  have "unat (2 + (of_nat (length h) :: byte)) < 2" using assms by (elim disjE) simp_all
  then show ?thesis by (simp add: parseSocksAddr_def index_def slice_def Let_def)
qed

lemma NewConnContext_TCP:
  "NetWork md = TCP \<Longrightarrow> \<exists>m1. NewConnContext md now m = Inr (\<lparr>ctx_metadata = md, ctx_tcp = Some (length (trackers m))\<rparr>, m1) \<and>
     length (trackers m) \<in> set (connections m1) \<and> length (trackers m1) = Suc (length (trackers m)) \<and>
     tr_Metadata (trackers m1 ! length (trackers m)) = md"
  by (auto simp: NewConnContext_def NewTCPTracker_def rule_strings_def add_tracker_def Join_conn_def
      new_trackerInfo_def Let_def nth_append)

lemma NetWork_with_source [simp]: "NetWork (with_source s md) = NetWork md"
  by (simp add: with_source_def split: option.splits prod.splits)

text \<open>
  What a SOCKS5 client asks for is what the tunnel gets. A request for CONNECT to an IP address
  or to a name of at most 252 bytes, without authentication, is answered, and handed to the tunnel
  with exactly that address, port and name (without a final dot), the client as its source, and a
  tracker that the manager lists.
\<close>

theorem socks5_request_reaches_tunnel:
  assumes "short_ep ep" "wf_ep ep" "valid_addr (socks_ParseAddr loc)"
  shows "\<exists>ctx c m1. HandleSocks5 None now
      \<lparr>sk_conn = \<lparr>rx = [5, 1, 0] @ [5, CmdConnect, 0] @ encode_ep ep @ up, tx = [], budget = 2\<rparr>,
       sk_local = loc, sk_remote = remote\<rparr> m =
      Inr (ToTunnel ctx, \<lparr>sk_conn = c, sk_local = loc, sk_remote = remote\<rparr>, m1) \<and>
    rx c = up \<and> tx c = [5, 0] @ [5, 0, 0] @ socks_ParseAddr loc \<and>
    ctx_metadata ctx = with_source remote ((ep_metadata ep)\<lparr>NetWork := TCP, Type := SOCKS5\<rparr>) \<and>
    ctx_tcp ctx = Some (length (trackers m)) \<and> length (trackers m) \<in> set (connections m1)"
proof -
  have "socks5_ServerHandshake None loc
      \<lparr>rx = [5, 1, 0] @ [5, CmdConnect, 0] @ encode_ep ep @ up, tx = [], budget = 2\<rparr> =
      (Inr (encode_ep ep, CmdConnect), \<lparr>rx = up, tx = [5, 0] @ [5, 0, 0] @ socks_ParseAddr loc, budget = 0\<rparr>)"
    using assms(2,3)
    by (auto simp: socks5_ServerHandshake_def io_bind_def io_return_def ReadFull_def Write_def Let_def
        ReadAddr_encode valid_addr_def)
  moreover obtain m1 where "NewConnContext (with_source remote ((ep_metadata ep)\<lparr>NetWork := TCP, Type := SOCKS5\<rparr>)) now m =
      Inr (\<lparr>ctx_metadata = with_source remote ((ep_metadata ep)\<lparr>NetWork := TCP, Type := SOCKS5\<rparr>),
            ctx_tcp = Some (length (trackers m))\<rparr>, m1)" "length (trackers m) \<in> set (connections m1)"
    using NewConnContext_TCP [of "with_source remote ((ep_metadata ep)\<lparr>NetWork := TCP, Type := SOCKS5\<rparr>)" now m] by auto
  ultimately show ?thesis
    using parseSocksAddr_encode [OF assms(1)]
    by (simp add: HandleSocks5_def NewSocket_def CmdConnect_def CmdUDPAssociate_def)
qed

theorem socks5_request_reaches_tunnel_witness:
  "\<exists>ctx c m1. HandleSocks5 None 0
      \<lparr>sk_conn = \<lparr>rx = [5, 1, 0] @ [5, CmdConnect, 0] @ encode_ep (EpIPv4 [1, 1, 1, 1] 443) @ [22], tx = [], budget = 2\<rparr>,
       sk_local = ''127.0.0.1:1080'', sk_remote = ''127.0.0.1:5000''\<rparr> DefaultManager =
      Inr (ToTunnel ctx, \<lparr>sk_conn = c, sk_local = ''127.0.0.1:1080'', sk_remote = ''127.0.0.1:5000''\<rparr>, m1) \<and>
    rx c = [22] \<and> tx c = [5, 0] @ [5, 0, 0] @ socks_ParseAddr ''127.0.0.1:1080'' \<and>
    ctx_metadata ctx = with_source ''127.0.0.1:5000'' ((ep_metadata (EpIPv4 [1, 1, 1, 1] 443))\<lparr>NetWork := TCP, Type := SOCKS5\<rparr>) \<and>
    ctx_tcp ctx = Some (length (trackers DefaultManager)) \<and> length (trackers DefaultManager) \<in> set (connections m1)"
  by (rule socks5_request_reaches_tunnel)
    (simp_all add: demo_local valid_addr_def SplitAddr_def socks_consts)

lemma parseSocksAddr_nil: "parseSocksAddr [] = Inl IndexOutOfRange"
  by (simp add: parseSocksAddr_def index_def)

text \<open>
  A client can bring the proxy down with a long name. A SOCKS5 request for a name of 254 or 255
  bytes passes the handshake, and then the handler panics while it parses the address, because the
  end of the slice is computed in a byte.
\<close>

theorem socks5_long_name_panics:
  assumes "length h = 254 \<or> length h = 255" "valid_addr (socks_ParseAddr loc)"
  shows "HandleSocks5 None now
      \<lparr>sk_conn = \<lparr>rx = [5, 1, 0] @ [5, CmdConnect, 0] @ encode_ep (EpDomain h p) @ up, tx = [], budget = 2\<rparr>,
       sk_local = loc, sk_remote = remote\<rparr> m = Inl IndexOutOfRange"
proof -
  have "wf_ep (EpDomain h p)" using assms(1) by auto
  then have "socks5_ServerHandshake None loc
      \<lparr>rx = [5, 1, 0] @ [5, CmdConnect, 0] @ encode_ep (EpDomain h p) @ up, tx = [], budget = 2\<rparr> =
      (Inr (encode_ep (EpDomain h p), CmdConnect), \<lparr>rx = up, tx = [5, 0] @ [5, 0, 0] @ socks_ParseAddr loc, budget = 0\<rparr>)"
    using assms(2) ReadAddr_encode [of "EpDomain h p" up]
    by (auto simp: socks5_ServerHandshake_def io_bind_def io_return_def ReadFull_def Write_def Let_def valid_addr_def)
  then show ?thesis
    using parseSocksAddr_long [OF assms(1), of p]
    by (simp add: HandleSocks5_def NewSocket_def CmdConnect_def CmdUDPAssociate_def)
qed

theorem socks5_long_name_panics_witness:
  "HandleSocks5 None 0
      \<lparr>sk_conn = \<lparr>rx = [5, 1, 0] @ [5, CmdConnect, 0] @ encode_ep (EpDomain (replicate 255 97) 80) @ [], tx = [], budget = 2\<rparr>,
       sk_local = ''127.0.0.1:1080'', sk_remote = ''10.0.0.2:5000''\<rparr> DefaultManager = Inl IndexOutOfRange"
  by (rule socks5_long_name_panics) (simp_all add: demo_local valid_addr_def SplitAddr_def socks_consts)

text \<open>
  The same over SOCKS4A. A request with a name of more than 255 bytes is granted, \<open>ParseAddr\<close>
  returns nil for it, and \<open>NewSocket\<close> indexes the nil address.
\<close>

theorem socks4_long_name_panics:
  assumes "255 < length h" "0 \<notin> set h" "bracketless (bytes_to_string h)" "ParseIP (bytes_to_string h) = []"
  shows "HandleSocks4 None now
      \<lparr>sk_conn = \<lparr>rx = [socks4_Version, CmdConnect] @ PutUint16 p @ [0, 0, 0, 1] @ [] @ 0 # h @ 0 # up, tx = [], budget = 1\<rparr>,
       sk_local = loc, sk_remote = remote\<rparr> m = Inl IndexOutOfRange"
proof -
  have "h \<noteq> []" using assms(1) by auto
  then have "socks4_ServerHandshake None
      \<lparr>rx = [socks4_Version, CmdConnect] @ PutUint16 p @ [0, 0, 0, 1] @ [] @ 0 # h @ 0 # up, tx = [], budget = Suc 0\<rparr> =
      (Inr (JoinHostPort (bytes_to_string h) (Itoa (uint p)), CmdConnect),
       \<lparr>rx = up, tx = [0, RequestGranted] @ PutUint16 p @ [0, 0, 0, 1], budget = 0\<rparr>)"
    using socks4_server_run [of "[0, 0, 0, 1]" "[]" None h "h @ 0 # up" up p 0] assms(2)
    by (simp add: isReservedIP_4)
  moreover have "socks_ParseAddr (JoinHostPort (bytes_to_string h) (Itoa (uint p))) = []"
    using assms by (simp add: socks_ParseAddr_join)
  ultimately show ?thesis by (simp add: HandleSocks4_def NewSocket_def parseSocksAddr_nil)
qed

theorem socks4_long_name_panics_witness:
  "HandleSocks4 None 0
      \<lparr>sk_conn = \<lparr>rx = [socks4_Version, CmdConnect] @ PutUint16 80 @ [0, 0, 0, 1] @ [] @ 0 # replicate 256 97 @ 0 # [], tx = [], budget = 1\<rparr>,
       sk_local = ''127.0.0.1:1080'', sk_remote = ''10.0.0.2:5000''\<rparr> DefaultManager = Inl IndexOutOfRange"
proof (rule socks4_long_name_panics)
  have s: "bytes_to_string (replicate 256 97) = replicate 256 CHR ''a''"
  proof -
    have "char_of (97 :: nat) = CHR ''a''" by code_simp
    then show ?thesis by (simp add: bytes_to_string_def map_replicate)
  qed
  show "ParseIP (bytes_to_string (replicate 256 97)) = []" "bracketless (bytes_to_string (replicate 256 97))"
    unfolding s by (simp_all add: ParseIP_def ParseAddr_def bracketless_def filter_empty_conv)
qed simp_all

end
