(* ===== verification/Handlers.thy ===== *)
theory Handlers
  imports Inbound Rule_Cache
begin

text \<open>
  The handlers of \<open>tunnel/tunnel.go\<close> and \<open>tunnel/connection.go\<close>, the NAT table
  \<open>component/nat/table.go\<close>, and the clean-up of connections in \<open>tunnel/matchRuleCache.go\<close>.

  A handler runs on the tunnel, the manager of the trackers and the UDP sessions. The outbounds are
  arguments: \<open>Dial\<close> and \<open>DialUDP\<close> give an error text or the chain of the new connection. Times for
  deadlines are in nanoseconds (\<open>nano\<close>), those of the caches in seconds (\<open>now\<close>).
\<close>

section \<open>The NAT table\<close>

text \<open>
  A \<open>sync.Map\<close> that holds packet connections, here the number of a UDP session, and locks.
  \<open>item.(C.PacketConn)\<close> panics on a lock.
\<close>

datatype nat_item = NatPC nat | NatLock

type_synonym Table = "string \<rightharpoonup> nat_item"

definition nat_New :: Table where
  "nat_New = Map.empty"

definition nat_Set :: "string \<Rightarrow> nat \<Rightarrow> Table \<Rightarrow> Table" where
  "nat_Set nkey pc t = t(nkey \<mapsto> NatPC pc)"

definition nat_Get :: "string \<Rightarrow> Table \<Rightarrow> panic + nat option" where
  "nat_Get nkey t =
     (case t nkey of
        None \<Rightarrow> Inr None
      | Some (NatPC pc) \<Rightarrow> Inr (Some pc)
      | Some NatLock \<Rightarrow> Inl TypeAssertion)"

definition GetOrCreateLock :: "string \<Rightarrow> Table \<Rightarrow> (panic + bool) \<times> Table" where
  "GetOrCreateLock nkey t =
     (case t nkey of
        None \<Rightarrow> (Inr False, t(nkey \<mapsto> NatLock))
      | Some NatLock \<Rightarrow> (Inr True, t)
      | Some (NatPC _) \<Rightarrow> (Inl TypeAssertion, t))"

definition nat_Delete :: "string \<Rightarrow> Table \<Rightarrow> Table" where
  "nat_Delete nkey t = t(nkey := None)"

section \<open>State\<close>

record udp_session =
  us_tracker :: nat
  us_fAddr :: "UDPAddr option"
  lastUpdate :: int
  readDeadline :: "int option"

record ('p, 'cm, 'dm, 'dt) proxy_state =
  tun :: "('p, 'cm, 'dm, 'dt) tunnel"
  mgr :: Manager
  natTable :: Table
  sessions :: "udp_session list"
  currentConns :: int
  maxConns :: int

record 'p dial_env =
  Name :: "'p \<Rightarrow> string"
  Dial :: "'p \<Rightarrow> Metadata \<Rightarrow> string + string list"
  DialUDP :: "'p \<Rightarrow> Metadata \<Rightarrow> string + string list"

definition second :: int where "second = 1000000000"
definition udpTimeout :: int where "udpTimeout = 60 * second"

definition track :: "nat \<Rightarrow> (trackerInfo \<Rightarrow> trackerInfo) \<Rightarrow> ('p, 'cm, 'dm, 'dt) proxy_state \<Rightarrow> ('p, 'cm, 'dm, 'dt) proxy_state" where
  "track c f st = st\<lparr>mgr := set_tracker c f (mgr st)\<rparr>"

definition close_track :: "nat \<Rightarrow> ('p, 'cm, 'dm, 'dt) proxy_state \<Rightarrow> panic + ('p, 'cm, 'dm, 'dt) proxy_state" where
  "close_track c st = and_then (tracker_Close c (mgr st)) (\<lambda>(_, m). Inr (st\<lparr>mgr := m\<rparr>))"

section \<open>TCP\<close>

datatype 'p tcp_outcome = TcpNotValid | TcpPreHandle tunnel_error
  | TcpDialError 'p "Rule option" string | TcpRelayed 'p "Rule option" Metadata

definition Dial_type :: "Metadata \<Rightarrow> string" where
  "Dial_type m =
     (if AddrType m = AtypDomainName then ''Dial-Domain''
      else if AddrType m = AtypIPv4 \<or> AddrType m = AtypIPv6 then ''Dial-IP''
      else ''Dial-Unkown'')"

text \<open>
  \<open>relay\<close>: the circuit breaker, then the traffic until both directions end, given by the calls on
  the trackers made in the meantime. Every way out closes the right side, the tracker.
\<close>

definition relay :: "stat_op list \<Rightarrow> nat \<Rightarrow> ('p, 'cm, 'dm, 'dt) proxy_state \<Rightarrow> panic + ('p, 'cm, 'dm, 'dt) proxy_state" where
  "relay ops c st =
     (let count = currentConns st + 1
      in if count > maxConns st then close_track c st
         else and_then (stat_run ops (mgr st)) (\<lambda>m. close_track c (st\<lparr>mgr := m\<rparr>)))"

definition multi_domain :: "Rule option \<Rightarrow> Metadata \<Rightarrow> panic + Metadata" where
  "multi_domain rule metadata =
     (case rule of
        None \<Rightarrow> Inr metadata
      | Some r \<Rightarrow>
          and_then (rule_MultiDomainDialIP r) (\<lambda>multi.
            Inr (if multi \<and> \<not> is_http_or_socks metadata
                 then metadata\<lparr>AddrType := (if To4 (DstIP metadata) \<noteq> [] then AtypIPv4 else AtypIPv6)\<rparr>
                 else metadata)))"

text \<open>
  The handler after the metadata is resolved: dialling, and what the tracker shows.
\<close>

definition tcp_dial :: "'p dial_env \<Rightarrow> stat_op list \<Rightarrow> nat \<Rightarrow> 'p \<Rightarrow> Rule option \<Rightarrow> Metadata \<Rightarrow>
    ('p, 'cm, 'dm, 'dt) proxy_state \<Rightarrow> panic + 'p tcp_outcome \<times> ('p, 'cm, 'dm, 'dt) proxy_state" where
  "tcp_dial denv ops c proxy rule metadata st =
     and_then (rule_strings rule) (\<lambda>rs.
     let st1 = (case rule of
                  Some _ \<Rightarrow> track c (\<lambda>t. t\<lparr>tr_Rule := fst rs, RulePayload := snd rs,
                                        Chain := [fst rs, snd rs, Name denv proxy, ''DAIL'', ''TRACE'']\<rparr>) st
                | None \<Rightarrow> track c (\<lambda>t. t\<lparr>Chain := [Name denv proxy, ''DAIL'', ''TRACE'']\<rparr>) st)
     in and_then (multi_domain rule metadata) (\<lambda>dialed.
     case Dial denv proxy dialed of
       Inl err \<Rightarrow>
         and_then (close_track c (track c (\<lambda>t. t\<lparr>Chain :=
             (case rule of
                None \<Rightarrow> [Name denv proxy, err, ''ERROR'']
              | Some _ \<Rightarrow> [Name denv proxy, fst rs, snd rs, err, ''ERROR''])\<rparr>) st1)) (\<lambda>st2.
           Inr (TcpDialError proxy rule err, st2))
     | Inr chain \<Rightarrow>
         let st2 = track c (\<lambda>t. t\<lparr>RawConn := Some True, Chain := chain @ [Dial_type dialed]\<rparr>) st1
         in and_then (relay ops c st2) (\<lambda>st3.
            and_then (close_track c st3) (\<lambda>st4.
            and_then (close_track c st4) (\<lambda>st5.
              Inr (TcpRelayed proxy rule dialed, st5))))))"

text \<open>
  \<open>handleTCPConn\<close>. The tracker of the context is used before it is tested for nil.
\<close>

definition handleTCPConn :: "('p, 'cm, 'dm, 'dt) tunnel_env \<Rightarrow> 'p dial_env \<Rightarrow> int \<Rightarrow> stat_op list \<Rightarrow> ConnContext \<Rightarrow>
    ('p, 'cm, 'dm, 'dt) proxy_state \<Rightarrow> panic + 'p tcp_outcome \<times> ('p, 'cm, 'dm, 'dt) proxy_state" where
  "handleTCPConn env denv now ops ctx st =
     (case ctx_tcp ctx of
        None \<Rightarrow> Inl NilDereference
      | Some c \<Rightarrow>
          let st1 = track c (\<lambda>t. t\<lparr>Chain := [''DISP'', ''TRACE'']\<rparr>) st;
              metadata = ctx_metadata ctx
          in if \<not> Valid metadata then and_then (close_track c st1) (\<lambda>st2. Inr (TcpNotValid, st2))
             else let st2 = track c (\<lambda>t. t\<lparr>Chain := [''PREH'', ''TRACE'']\<rparr>) st1
             in and_then (preHandleMetadata env now metadata (tun st2)) (\<lambda>(r, tun1).
                let st3 = st2\<lparr>tun := tun1\<rparr>
                in case r of
                     Inl err \<Rightarrow> and_then (close_track c st3) (\<lambda>st4. Inr (TcpPreHandle err, st4))
                   | Inr metadata1 \<Rightarrow>
                       let st4 = track c (\<lambda>t. t\<lparr>Chain := [''MDNS'', ''TRACE'']\<rparr>) st3
                       in and_then (resolveMetadata env now metadata1 (tun st4)) (\<lambda>((proxy, rule), metadata2, tun2).
                          let st5 = st4\<lparr>tun := tun2\<rparr>
                          in case proxy of
                               None \<Rightarrow> Inl NilDereference
                             | Some p \<Rightarrow> tcp_dial denv ops c p rule metadata2 st5)))"

section \<open>UDP\<close>

datatype udp_error = UdpResolve resolver_error | UdpAddrInvalid | UdpWrite | UdpDial string

definition NeedUpdateDeadline :: "int \<Rightarrow> int \<Rightarrow> udp_session \<Rightarrow> bool" where
  "NeedUpdateDeadline nano timeout s \<longleftrightarrow> nano - lastUpdate s > timeout div 3"

definition upd_session :: "nat \<Rightarrow> (udp_session \<Rightarrow> udp_session) \<Rightarrow> ('p, 'cm, 'dm, 'dt) proxy_state \<Rightarrow> ('p, 'cm, 'dm, 'dt) proxy_state" where
  "upd_session k f st = st\<lparr>sessions := (sessions st)[k := f (sessions st ! k)]\<rparr>"

text \<open>
  \<open>handleUDPToRemote\<close>. \<open>snd_to\<close> is the write on the packet connection: the count it returns and
  whether it succeeds. \<open>Drop\<close> gives the buffer back.
\<close>

definition handleUDPToRemote :: "('p, 'cm, 'dm, 'dt) tunnel_env \<Rightarrow> int \<Rightarrow> (byte list \<Rightarrow> UDPAddr \<Rightarrow> int64 \<times> bool) \<Rightarrow>
    byte list \<Rightarrow> nat \<Rightarrow> Metadata \<Rightarrow> string \<Rightarrow> ('p, 'cm, 'dm, 'dt) proxy_state \<Rightarrow>
    panic + (udp_error + UDPAddr) \<times> ('p, 'cm, 'dm, 'dt) proxy_state" where
  "handleUDPToRemote env nano snd_to payload k metadata nkey st =
     and_then (if Resolved metadata then Inr (Inr metadata)
               else and_then (ResolveIP (res_env env) (Host metadata)) (\<lambda>r.
                      Inr (case r of Inl err \<Rightarrow> Inl err
                           | Inr ip \<Rightarrow> Inr (if DstIP metadata = [] then metadata\<lparr>DstIP := ip\<rparr> else metadata)))) (\<lambda>r.
     case r of
       Inl err \<Rightarrow> Inr (Inl (UdpResolve err), st)
     | Inr metadata1 \<Rightarrow>
         (case Metadata_UDPAddr metadata1 of
            None \<Rightarrow> Inr (Inl UdpAddrInvalid, st)
          | Some addr \<Rightarrow>
              let timeOut = (if AddrPort addr = 53 then 5 * second else udpTimeout);
                  c = us_tracker (sessions st ! k);
                  (n, ok) = snd_to payload addr;
                  st1 = st\<lparr>mgr := udp_WriteTo c n (mgr st)\<rparr>
              in if \<not> ok then
                   and_then (close_track c (st1\<lparr>natTable := nat_Delete nkey (natTable st1)\<rparr>)) (\<lambda>st2.
                     Inr (Inl UdpWrite, st2))
                 else Inr (Inr addr,
                   if NeedUpdateDeadline nano timeOut (sessions st1 ! k)
                   then upd_session k (\<lambda>s. s\<lparr>readDeadline := Some (nano + timeOut), lastUpdate := nano\<rparr>) st1
                   else st1)))"

text \<open>
  \<open>handleUDPToLocal\<close> is a loop in a goroutine of its own: its start, one round, and its end. A
  packet goes back with the fake address the client knows, when there is one.
\<close>

definition udp_local_end :: "nat \<Rightarrow> string \<Rightarrow> ('p, 'cm, 'dm, 'dt) proxy_state \<Rightarrow> panic + ('p, 'cm, 'dm, 'dt) proxy_state" where
  "udp_local_end k nkey st =
     and_then (close_track (us_tracker (sessions st ! k)) (st\<lparr>currentConns := currentConns st - 1\<rparr>)) (\<lambda>st1.
       Inr (st1\<lparr>natTable := nat_Delete nkey (natTable st1)\<rparr>))"

definition udp_local_start :: "int \<Rightarrow> nat \<Rightarrow> string \<Rightarrow> ('p, 'cm, 'dm, 'dt) proxy_state \<Rightarrow>
    panic + bool \<times> ('p, 'cm, 'dm, 'dt) proxy_state" where
  "udp_local_start nano k nkey st =
     (let st1 = st\<lparr>currentConns := currentConns st + 1\<rparr>
      in if currentConns st1 > maxConns st1
         then and_then (udp_local_end k nkey st1) (\<lambda>st2. Inr (False, st2))
         else Inr (True, upd_session k (\<lambda>s. s\<lparr>readDeadline := Some (nano + udpTimeout), lastUpdate := nano\<rparr>) st1))"

definition udp_local_round :: "int \<Rightarrow> nat \<Rightarrow> string \<Rightarrow> (byte list \<times> UDPAddr) option \<Rightarrow> (byte list \<Rightarrow> UDPAddr \<Rightarrow> bool) \<Rightarrow>
    ('p, 'cm, 'dm, 'dt) proxy_state \<Rightarrow> panic + (byte list \<times> UDPAddr) option \<times> ('p, 'cm, 'dm, 'dt) proxy_state" where
  "udp_local_round nano k nkey received write_back st =
     (let st1 = (if NeedUpdateDeadline nano udpTimeout (sessions st ! k)
                 then upd_session k (\<lambda>s. s\<lparr>readDeadline := Some (nano + udpTimeout), lastUpdate := nano\<rparr>) st
                 else st)
      in case received of
           None \<Rightarrow> and_then (udp_local_end k nkey st1) (\<lambda>st2. Inr (None, st2))
         | Some (buf, from) \<Rightarrow>
             let st2 = st1\<lparr>mgr := udp_ReadFrom (us_tracker (sessions st1 ! k)) (of_nat (length buf)) (mgr st1)\<rparr>;
                 from1 = (case us_fAddr (sessions st2 ! k) of Some f \<Rightarrow> f | None \<Rightarrow> from)
             in if write_back buf from1 then Inr (Some (buf, from1), st2)
                else and_then (udp_local_end k nkey st2) (\<lambda>st3. Inr (None, st3)))"

datatype udp_outcome = UdpNotValid | UdpPreHandle tunnel_error | UdpFailed udp_error | UdpSent nat UDPAddr

definition udp_sent :: "nat \<Rightarrow> udp_error + UDPAddr \<Rightarrow> udp_outcome" where
  "udp_sent k r = (case r of Inl e \<Rightarrow> UdpFailed e | Inr addr \<Rightarrow> UdpSent k addr)"

text \<open>The function under \<open>singleflight\<close> that makes a session.\<close>

definition udp_new_session :: "('p, 'cm, 'dm, 'dt) tunnel_env \<Rightarrow> 'p dial_env \<Rightarrow> int \<Rightarrow> int \<Rightarrow> UDPAddr option \<Rightarrow> Metadata \<Rightarrow> string \<Rightarrow>
    ('p, 'cm, 'dm, 'dt) proxy_state \<Rightarrow> panic + (string + nat) \<times> Metadata \<times> ('p, 'cm, 'dm, 'dt) proxy_state" where
  "udp_new_session env denv now nano fAddr metadata nkey st =
     and_then (resolveMetadata env now metadata (tun st)) (\<lambda>((proxy, rule), metadata1, tun1).
     let st1 = st\<lparr>tun := tun1\<rparr>
     in and_then (NewUDPTracker None metadata1 now rule (map_option (Name denv) proxy) (mgr st1)) (\<lambda>(c, m).
        let st2 = st1\<lparr>mgr := Join_conn c m\<rparr>
        in case proxy of
             None \<Rightarrow> Inl NilDereference
           | Some p \<Rightarrow>
               (case DialUDP denv p metadata1 of
                  Inl err \<Rightarrow>
                    and_then (close_track c (track c (\<lambda>t. t\<lparr>Chain := [err, ''ERROR'', Name denv p]\<rparr>) st2)) (\<lambda>st3.
                      Inr (Inl err, metadata1, st3))
                | Inr chain \<Rightarrow>
                    let st3 = track c (\<lambda>t. t\<lparr>RawConn := Some True, Chain := chain\<rparr>) st2;
                        k = length (sessions st3)
                    in Inr (Inr k, metadata1,
                         st3\<lparr>sessions := sessions st3 @
                               [\<lparr>us_tracker = c, us_fAddr = fAddr, lastUpdate = nano, readDeadline = None\<rparr>],
                             natTable := nat_Set nkey k (natTable st3)\<rparr>))))"

definition handleUDPConn :: "('p, 'cm, 'dm, 'dt) tunnel_env \<Rightarrow> 'p dial_env \<Rightarrow> int \<Rightarrow> int \<Rightarrow>
    (byte list \<Rightarrow> UDPAddr \<Rightarrow> int64 \<times> bool) \<Rightarrow> PacketAdapter \<Rightarrow> ('p, 'cm, 'dm, 'dt) proxy_state \<Rightarrow>
    panic + udp_outcome \<times> ('p, 'cm, 'dm, 'dt) proxy_state" where
  "handleUDPConn env denv now nano snd_to packet st =
     (let metadata = pa_metadata packet
      in if \<not> Valid metadata then Inr (UdpNotValid, st)
         else and_then (mapper_IsExistFakeIP (DstIP metadata) (mapper (tun st))) (\<lambda>fake.
           let fAddr = (if fake then Metadata_UDPAddr metadata else None)
           in and_then (preHandleMetadata env now metadata (tun st)) (\<lambda>(r, tun1).
              let st1 = st\<lparr>tun := tun1\<rparr>
              in case r of
                   Inl err \<Rightarrow> Inr (UdpPreHandle err, st1)
                 | Inr metadata1 \<Rightarrow>
                     let nkey = NetAddr_String (pa_local packet)
                     in and_then (nat_Get nkey (natTable st1)) (\<lambda>pc.
                        case pc of
                          Some k \<Rightarrow>
                            and_then (handleUDPToRemote env nano snd_to (pa_data packet) k metadata1 nkey st1) (\<lambda>(res, st2).
                              Inr (udp_sent k res, st2))
                        | None \<Rightarrow>
                            and_then (udp_new_session env denv now nano fAddr metadata1 nkey st1) (\<lambda>(new, metadata2, st2).
                              case new of
                                Inl err \<Rightarrow> Inr (UdpFailed (UdpDial err), st2)
                              | Inr k \<Rightarrow>
                                  and_then (handleUDPToRemote env nano snd_to (pa_data packet) k metadata2 nkey st2) (\<lambda>(res, st3).
                                    Inr (udp_sent k res, st3)))))))"

section \<open>Closing the connections of a rule\<close>

fun close_matching :: "('p, 'cm, 'dm, 'dt) tunnel_env \<Rightarrow> int \<Rightarrow> Rule \<Rightarrow> nat list \<Rightarrow>
    ('p, 'cm, 'dm, 'dt) proxy_state \<Rightarrow> panic + ('p, 'cm, 'dm, 'dt) proxy_state" where
  "close_matching env now r [] st = Inr st"
| "close_matching env now r (c # cs) st =
     and_then (rule_Match (rules_env env) now r (tr_Metadata (trackers (mgr st) ! c)) (procs (tun st))) (\<lambda>(b, pc).
       let st1 = st\<lparr>tun := (tun st)\<lparr>procs := pc\<rparr>\<rparr>
       in if b then and_then (close_track c st1) (close_matching env now r cs)
          else close_matching env now r cs st1)"

definition CloseRuleMatchCon :: "('p, 'cm, 'dm, 'dt) tunnel_env \<Rightarrow> int \<Rightarrow> Rule \<Rightarrow>
    ('p, 'cm, 'dm, 'dt) proxy_state \<Rightarrow> panic + ('p, 'cm, 'dm, 'dt) proxy_state" where
  "CloseRuleMatchCon env now r st =
     close_matching env now r (snap_Connections (Manager_Snapshot (mgr st))) st"

definition GetnatPC :: "string \<Rightarrow> ('p, 'cm, 'dm, 'dt) proxy_state \<Rightarrow> panic + nat option" where
  "GetnatPC nkey st = nat_Get nkey (natTable st)"

section \<open>The life of a TCP connection\<close>

lemma and_then_Inr: "and_then x f = Inr y \<longleftrightarrow> (\<exists>z. x = Inr z \<and> f z = Inr y)"
  by (cases x) simp_all

lemma set_tracker_nth: "c < length (trackers m) \<Longrightarrow> trackers (set_tracker c f m) ! c = f (trackers m ! c)"
  by (simp add: set_tracker_def)

lemma set_tracker_frame [simp]:
  "length (trackers (set_tracker c f m)) = length (trackers m)" "connections (set_tracker c f m) = connections m"
  by (simp_all add: set_tracker_def)

lemma Leave_frame [simp]: "trackers (Leave c m) = trackers m" "c \<notin> set (connections (Leave c m))"
  by (simp_all add: Leave_def)

lemma Leave_connections: "set (connections (Leave c m)) = set (connections m) - {c}"
  by (auto simp: Leave_def)

lemma track_mgr [simp]: "mgr (track c f st) = set_tracker c f (mgr st)" "tun (track c f st) = tun st"
  by (simp_all add: track_def)

text \<open>Closing: the chains stay, and a connection that is not in error is off the list.\<close>

lemma tcp_Close_chain:
  assumes "tcp_Close c m = Inr (e, m1)" "c < length (trackers m)"
  shows "map Chain (trackers m1) = map Chain (trackers m) \<and> set (connections m1) \<subseteq> set (connections m)"
proof -
  have upd: "map Chain ((trackers m)[c := t]) = map Chain (trackers m)" if "Chain t = Chain (trackers m ! c)" for t
    using that assms(2) by (simp add: map_update list_update_same_conv)
  show ?thesis
    using assms(1)
    by (auto simp: tcp_Close_def Let_def set_tracker_def Leave_def upd split: if_splits option.splits)
qed

lemma close_track_leaves:
  assumes "close_track c st = Inr st1" "c < length (trackers (mgr st))"
    "last (Chain (trackers (mgr st) ! c)) \<noteq> ''ERROR''"
  shows "c \<notin> set (connections (mgr st1)) \<and> map Chain (trackers (mgr st1)) = map Chain (trackers (mgr st)) \<and> tun st1 = tun st"
proof -
  from assms(1) obtain e m where m: "tcp_Close c (mgr st) = Inr (e, m)" "st1 = st\<lparr>mgr := m\<rparr>"
    by (auto simp: close_track_def tracker_Close_eq and_then_Inr)
  have "c \<notin> set (connections m)"
    using m(1) assms(3) by (auto simp: tcp_Close_def Let_def split: if_splits option.splits)
  then show ?thesis using tcp_Close_chain [OF m(1) assms(2)] m(2) by simp
qed

lemma close_track_marks:
  assumes "close_track c st = Inr st1" "c < length (trackers (mgr st))"
    "last (Chain (trackers (mgr st) ! c)) = ''ERROR''" "\<not> MarkGC (trackers (mgr st) ! c)"
  shows "connections (mgr st1) = connections (mgr st) \<and> in_error (trackers (mgr st1) ! c) \<and> MarkGC (trackers (mgr st1) ! c)"
  using assms by (auto simp: close_track_def tracker_Close_eq and_then_Inr tcp_Close_def Let_def in_error_def
      set_tracker_nth split: if_splits)

lemma map_Chain_nth:
  "map Chain ts' = map Chain ts \<Longrightarrow> c < length ts \<Longrightarrow> length ts' = length ts \<and> Chain (ts' ! c) = Chain (ts ! c)"
  by (metis length_map nth_map)

lemma end_errors_chain:
  "end_errors cs m = Inr m1 \<Longrightarrow> \<forall>c \<in> set cs. c < length (trackers m) \<Longrightarrow> map Chain (trackers m1) = map Chain (trackers m)"
proof (induction cs m rule: end_errors.induct)
  case (2 c cs m)
  show ?case
  proof (cases "last (Chain (trackers m ! c)) = ''ERROR''")
    case True
    with "2.prems" obtain e m2 where cl: "tcp_Close c m = Inr (e, m2)" and e: "end_errors cs m2 = Inr m1"
      by (auto simp: tracker_Close_eq Let_def split: if_splits sum.splits)
    have k: "map Chain (trackers m2) = map Chain (trackers m)"
      using tcp_Close_chain [OF cl] "2.prems" by simp
    then have "length (trackers m2) = length (trackers m)" by (metis length_map)
    then show ?thesis
      using "2.IH"(1) [of "trackers m ! c" "(e, m2)" e m2] True cl e k "2.prems"
      by (auto simp: tracker_Close_eq Let_def split: if_splits)
  next
    case False
    then show ?thesis using "2.IH"(2) [of "trackers m ! c"] "2.prems" by (auto simp: Let_def split: if_splits)
  qed
qed simp

lemma end_errors_shrinks:
  "end_errors cs m = Inr m1 \<Longrightarrow> \<forall>c \<in> set cs. c < length (trackers m) \<Longrightarrow> set (connections m1) \<subseteq> set (connections m)"
proof (induction cs m rule: end_errors.induct)
  case (2 c cs m)
  show ?case
  proof (cases "last (Chain (trackers m ! c)) = ''ERROR''")
    case True
    with "2.prems" obtain e m2 where cl: "tcp_Close c m = Inr (e, m2)" and e: "end_errors cs m2 = Inr m1"
      by (auto simp: tracker_Close_eq Let_def split: if_splits sum.splits)
    have k: "map Chain (trackers m2) = map Chain (trackers m)" "set (connections m2) \<subseteq> set (connections m)"
      using tcp_Close_chain [OF cl] "2.prems" by simp_all
    then have "length (trackers m2) = length (trackers m)" by (metis length_map)
    then show ?thesis
      using "2.IH"(1) [of "trackers m ! c" "(e, m2)" e m2] True cl e k "2.prems"
      by (auto simp: tracker_Close_eq Let_def split: if_splits)
  next
    case False
    then show ?thesis using "2.IH"(2) [of "trackers m ! c"] "2.prems" by (auto simp: Let_def split: if_splits)
  qed
qed simp

text \<open>The traffic, the tickers and other handlers leave the chain of a tracker alone.\<close>

definition bounded_conns :: "Manager \<Rightarrow> bool" where
  "bounded_conns m \<longleftrightarrow> (\<forall>c \<in> set (connections m). c < length (trackers m))"

definition keeps_chains :: "Manager \<Rightarrow> Manager \<Rightarrow> bool" where
  "keeps_chains m m' \<longleftrightarrow> length (trackers m) \<le> length (trackers m') \<and>
     (\<forall>c < length (trackers m). Chain (trackers m' ! c) = Chain (trackers m ! c))"

lemma keeps_chains_trans: "keeps_chains m m1 \<Longrightarrow> keeps_chains m1 m2 \<Longrightarrow> keeps_chains m m2"
  by (simp add: keeps_chains_def)

lemma keeps_chains_map: "map Chain (trackers m1) = map Chain (trackers m) \<Longrightarrow> keeps_chains m m1"
  unfolding keeps_chains_def by (metis length_map nth_map order_refl)

lemma map_Chain_set_tracker:
  "(\<And>t. Chain (f t) = Chain t) \<Longrightarrow> map Chain (trackers (set_tracker c f m)) = map Chain (trackers m)"
  by (cases "c < length (trackers m)")
    (simp_all add: set_tracker_def map_update list_update_same_conv list_update_beyond)

lemma fold_handle_visit_chain:
  "fold handle_visit cs (up, down, ts) = (up', down', ts') \<Longrightarrow> map Chain ts' = map Chain ts"
proof (induction cs arbitrary: up down ts)
  case (Cons c cs)
  obtain u d us where v: "handle_visit c (up, down, ts) = (u, d, us)" by (metis prod_cases3)
  have "map Chain us = map Chain ts"
    using v by (cases "c < length ts")
      (auto simp: handle_visit_def Let_def map_update list_update_same_conv list_update_beyond split: if_splits)
  then show ?case using Cons.IH [of u d us] Cons.prems v by simp
qed simp

lemma add_tracker_chains:
  assumes "bounded_conns m"
  shows "keeps_chains m (snd (add_tracker t m))" "bounded_conns (snd (add_tracker t m))"
  using assms less_SucI
  by (fastforce simp: add_tracker_def Join_conn_def keeps_chains_def bounded_conns_def nth_append Let_def split: if_splits)+

lemma stat_step_chains:
  assumes "stat_step op m = Inr m1" "bounded_conns m"
  shows "keeps_chains m m1 \<and> bounded_conns m1"
proof (cases op)
  case (OpNewTCP conn md now r p)
  then show ?thesis using assms
    by (auto simp: NewTCPTracker_def Let_def add_tracker_chains split: sum.splits)
next
  case (OpNewUDP conn md now r p)
  then show ?thesis using assms
    by (auto simp: NewUDPTracker_def Let_def add_tracker_chains split: sum.splits)
next
  case (OpRead c n)
  then have "m1 = m \<or> m1 = set_tracker c (\<lambda>t. t\<lparr>DownloadTotal := DownloadTotal t + n\<rparr>) m"
    using assms by (auto simp: udp_count_eq tcp_Read_def split: if_splits tracker_kind.splits)
  then show ?thesis using assms(2) by (auto simp: keeps_chains_map map_Chain_set_tracker bounded_conns_def)
next
  case (OpWrite c n)
  then have "m1 = m \<or> m1 = set_tracker c (\<lambda>t. t\<lparr>UploadTotal := UploadTotal t + n\<rparr>) m"
    using assms by (auto simp: udp_count_eq tcp_Write_def split: if_splits tracker_kind.splits)
  then show ?thesis using assms(2) by (auto simp: keeps_chains_map map_Chain_set_tracker bounded_conns_def)
next
  case (OpClose c)
  show ?thesis
  proof (cases "c < length (trackers m)")
    case True
    then obtain e where e: "tcp_Close c m = Inr (e, m1)"
      using assms OpClose by (auto simp: tracker_Close_eq map_sum_def split: sum.splits)
    from tcp_Close_chain [OF e True] show ?thesis
      using assms(2) unfolding bounded_conns_def by (metis keeps_chains_map length_map subsetD)
  qed (use assms OpClose in \<open>auto simp: keeps_chains_def\<close>)
next
  case OpTick
  obtain up down ts where f: "fold handle_visit (connections m) (0, 0, trackers m) = (up, down, ts)"
    by (metis prod_cases3)
  have "map Chain ts = map Chain (trackers m)" by (rule fold_handle_visit_chain [OF f])
  then show ?thesis using OpTick assms f
    by (auto simp: handle_tick_def bounded_conns_def intro!: keeps_chains_map dest: map_eq_imp_length_eq)
next
  case OpEndErrors
  then have e: "end_errors (connections m) m = Inr m1" using assms by (simp add: end_errors_conn_def)
  have ch: "map Chain (trackers m1) = map Chain (trackers m)"
    using end_errors_chain [OF e] assms(2) by (simp add: bounded_conns_def)
  moreover have "set (connections m1) \<subseteq> set (connections m)"
    using e assms(2) end_errors_shrinks by (simp add: bounded_conns_def)
  ultimately show ?thesis using assms(2)
    unfolding bounded_conns_def by (metis keeps_chains_map length_map subsetD)
qed

lemma stat_run_chains:
  "stat_run ops m = Inr m1 \<Longrightarrow> bounded_conns m \<Longrightarrow> keeps_chains m m1 \<and> bounded_conns m1"
proof (induction ops arbitrary: m)
  case (Cons op ops)
  then obtain m2 where "stat_step op m = Inr m2" "stat_run ops m2 = Inr m1" by (auto split: sum.splits)
  with Cons stat_step_chains show ?case by (blast intro: keeps_chains_trans)
qed (simp add: keeps_chains_def)

lemma relay_leaves:
  assumes "relay ops c st = Inr st1" "c < length (trackers (mgr st))" "bounded_conns (mgr st)"
    "last (Chain (trackers (mgr st) ! c)) \<noteq> ''ERROR''"
  shows "c \<notin> set (connections (mgr st1)) \<and> c < length (trackers (mgr st1)) \<and>
    last (Chain (trackers (mgr st1) ! c)) \<noteq> ''ERROR'' \<and> tun st1 = tun st"
proof (cases "currentConns st + 1 > maxConns st")
  case True
  then have cl: "close_track c st = Inr st1" using assms(1) by (simp add: relay_def)
  from close_track_leaves [OF cl assms(2,4)] map_Chain_nth [of "trackers (mgr st1)" "trackers (mgr st)" c] assms
  show ?thesis by simp
next
  case False
  then obtain m where m: "stat_run ops (mgr st) = Inr m" and cl: "close_track c (st\<lparr>mgr := m\<rparr>) = Inr st1"
    using assms(1) by (auto simp: relay_def Let_def and_then_Inr)
  from stat_run_chains [OF m assms(3)] assms(2) have c: "c < length (trackers m)" "Chain (trackers m ! c) = Chain (trackers (mgr st) ! c)"
    by (auto simp: keeps_chains_def)
  from close_track_leaves [OF cl] map_Chain_nth [of "trackers (mgr st1)" "trackers m" c] c assms(4)
  show ?thesis by simp
qed

lemma close_track_again:
  assumes "close_track c st = Inr st1" "c < length (trackers (mgr st))"
    "last (Chain (trackers (mgr st) ! c)) \<noteq> ''ERROR''"
  shows "c \<notin> set (connections (mgr st1)) \<and> c < length (trackers (mgr st1)) \<and>
    last (Chain (trackers (mgr st1) ! c)) \<noteq> ''ERROR'' \<and> tun st1 = tun st"
  using close_track_leaves [OF assms] map_Chain_nth [of "trackers (mgr st1)" "trackers (mgr st)" c] assms by simp

lemma Dial_type_not_error: "Dial_type m \<noteq> ''ERROR''"
  by (simp add: Dial_type_def)

definition off_list :: "nat \<Rightarrow> Manager \<Rightarrow> bool" where
  "off_list c m \<longleftrightarrow> c \<notin> set (connections m)"

definition listed_in_error :: "nat \<Rightarrow> Manager \<Rightarrow> bool" where
  "listed_in_error c m \<longleftrightarrow> c \<in> set (connections m) \<and> in_error (trackers m ! c) \<and> MarkGC (trackers m ! c)"

lemma tcp_dial_cases:
  assumes run: "tcp_dial denv ops c proxy rule metadata st = Inr (out, st1)"
    and c: "c < length (trackers (mgr st))" "c \<in> set (connections (mgr st))" "bounded_conns (mgr st)"
    and mark: "\<not> MarkGC (trackers (mgr st) ! c)"
  shows "(\<exists>dialed err. multi_domain rule metadata = Inr dialed \<and> Dial denv proxy dialed = Inl err \<and>
      out = TcpDialError proxy rule err \<and> listed_in_error c (mgr st1)) \<or>
    (\<exists>dialed chain. multi_domain rule metadata = Inr dialed \<and> Dial denv proxy dialed = Inr chain \<and>
      out = TcpRelayed proxy rule dialed \<and> off_list c (mgr st1) \<and> tun st1 = tun st)"
proof -
  from run obtain rs dialed where rs: "rule_strings rule = Inr rs" and d: "multi_domain rule metadata = Inr dialed"
    by (auto simp: tcp_dial_def and_then_Inr Let_def)
  define f where "f = (\<lambda>t :: trackerInfo. case rule of
      Some _ \<Rightarrow> t\<lparr>tr_Rule := fst rs, RulePayload := snd rs, Chain := [fst rs, snd rs, Name denv proxy, ''DAIL'', ''TRACE'']\<rparr>
    | None \<Rightarrow> t\<lparr>Chain := [Name denv proxy, ''DAIL'', ''TRACE'']\<rparr>)"
  define st2 where "st2 = track c f st"
  have st2: "c < length (trackers (mgr st2))" "c \<in> set (connections (mgr st2))" "bounded_conns (mgr st2)"
    "\<not> MarkGC (trackers (mgr st2) ! c)" "tun st2 = tun st"
    using c mark by (simp_all add: st2_def bounded_conns_def set_tracker_nth f_def split: option.split)
  have st2_eq: "(case rule of
      Some _ \<Rightarrow> track c (\<lambda>t. t\<lparr>tr_Rule := fst rs, RulePayload := snd rs,
                            Chain := [fst rs, snd rs, Name denv proxy, ''DAIL'', ''TRACE'']\<rparr>) st
    | None \<Rightarrow> track c (\<lambda>t. t\<lparr>Chain := [Name denv proxy, ''DAIL'', ''TRACE'']\<rparr>) st) = st2"
    by (simp add: st2_def f_def split: option.split)
  show ?thesis
  proof (cases "Dial denv proxy dialed")
    case (Inl err)
    let ?g = "\<lambda>t :: trackerInfo. t\<lparr>Chain := (case rule of
        None \<Rightarrow> [Name denv proxy, err, ''ERROR''] | Some _ \<Rightarrow> [Name denv proxy, fst rs, snd rs, err, ''ERROR''])\<rparr>"
    from run obtain st3 where cl: "close_track c (track c ?g st2) = Inr st3" and out: "out = TcpDialError proxy rule err" "st1 = st3"
      unfolding tcp_dial_def by (auto simp: rs d Inl st2_eq Let_def and_then_Inr)
    have "connections (mgr st3) = connections (mgr (track c ?g st2)) \<and> in_error (trackers (mgr st3) ! c) \<and> MarkGC (trackers (mgr st3) ! c)"
      using st2 by (intro close_track_marks [OF cl]) (simp_all add: set_tracker_nth split: option.split)
    then show ?thesis using d Inl out st2 by (simp add: listed_in_error_def)
  next
    case (Inr chain)
    let ?g = "\<lambda>t :: trackerInfo. t\<lparr>RawConn := Some True, Chain := chain @ [Dial_type dialed]\<rparr>"
    from run obtain st3 st4 st5 where r: "relay ops c (track c ?g st2) = Inr st3" "close_track c st3 = Inr st4"
      "close_track c st4 = Inr st5" and out: "out = TcpRelayed proxy rule dialed" "st1 = st5"
      unfolding tcp_dial_def by (auto simp: rs d Inr st2_eq Let_def and_then_Inr)
    have a: "c \<notin> set (connections (mgr st3)) \<and> c < length (trackers (mgr st3)) \<and>
        last (Chain (trackers (mgr st3) ! c)) \<noteq> ''ERROR'' \<and> tun st3 = tun (track c ?g st2)"
      using st2 by (intro relay_leaves [OF r(1)]) (simp_all add: bounded_conns_def set_tracker_nth Dial_type_not_error)
    have b: "c \<notin> set (connections (mgr st4)) \<and> c < length (trackers (mgr st4)) \<and>
        last (Chain (trackers (mgr st4) ! c)) \<noteq> ''ERROR'' \<and> tun st4 = tun st3"
      using a by (intro close_track_again [OF r(2)]) simp_all
    have "c \<notin> set (connections (mgr st5)) \<and> tun st5 = tun st4"
      using close_track_again [OF r(3)] b by simp
    then show ?thesis using d Inr out a b st2 by (simp add: off_list_def)
  qed
qed

text \<open>How an outcome comes about: what the tunnel decided, what was dialled, what the list shows.\<close>

definition tcp_result :: "('p, 'cm, 'dm, 'dt) tunnel_env \<Rightarrow> 'p dial_env \<Rightarrow> int \<Rightarrow> ConnContext \<Rightarrow> nat \<Rightarrow>
    ('p, 'cm, 'dm, 'dt) proxy_state \<Rightarrow> 'p tcp_outcome \<Rightarrow> ('p, 'cm, 'dm, 'dt) proxy_state \<Rightarrow> bool" where
  "tcp_result env denv now ctx c st out st1 \<longleftrightarrow>
     (case out of
        TcpNotValid \<Rightarrow> \<not> Valid (ctx_metadata ctx) \<and> off_list c (mgr st1)
      | TcpPreHandle err \<Rightarrow>
          (\<exists>t1. preHandleMetadata env now (ctx_metadata ctx) (tun st) = Inr (Inl err, t1)) \<and> off_list c (mgr st1)
      | TcpDialError p r err \<Rightarrow>
          (\<exists>m1 t1 m2 t2 dialed. preHandleMetadata env now (ctx_metadata ctx) (tun st) = Inr (Inr m1, t1) \<and>
             resolveMetadata env now m1 t1 = Inr ((Some p, r), m2, t2) \<and> multi_domain r m2 = Inr dialed \<and>
             Dial denv p dialed = Inl err) \<and> listed_in_error c (mgr st1)
      | TcpRelayed p r dialed \<Rightarrow>
          (\<exists>m1 t1 m2 t2 chain. preHandleMetadata env now (ctx_metadata ctx) (tun st) = Inr (Inr m1, t1) \<and>
             resolveMetadata env now m1 t1 = Inr ((Some p, r), m2, t2) \<and> multi_domain r m2 = Inr dialed \<and>
             Dial denv p dialed = Inr chain \<and> tun st1 = t2) \<and> off_list c (mgr st1))"


definition demo_dial :: "(string \<Rightarrow> string + string list) \<Rightarrow> string dial_env" where
  "demo_dial f = \<lparr>Name = (\<lambda>p. p), Dial = (\<lambda>p _. f p), DialUDP = (\<lambda>p _. f p)\<rparr>"

definition demo_state :: "(string, (string, string cm_value) LruCache, (string, string) LruCache,
    (string, int) LruCache) tunnel \<Rightarrow> Manager \<Rightarrow> (string, (string, string cm_value) LruCache, (string, string) LruCache,
    (string, int) LruCache) proxy_state" where
  "demo_state t m = \<lparr>tun = t, mgr = m, natTable = nat_New, sessions = [], currentConns = 0, maxConns = 5000\<rparr>"

definition demo_manager :: Manager where
  "demo_manager = snd (add_tracker (new_trackerInfo TcpTracker None demo_md 0 [''INIT''] ([], [])) DefaultManager)"

lemmas handler_eval = demo_state_def demo_manager_def demo_dial_def demo_tunnel_def demo_env_def demo_md_def
  stat_eval track_def close_track_def bounded_conns_def in_error_def


text \<open>A context without a tracker is dereferenced before the handler looks whether it is nil.\<close>

lemma tcp_nil_tracker: "ctx_tcp ctx = None \<Longrightarrow> handleTCPConn env denv now ops ctx st = Inl NilDereference"
  by (simp add: handleTCPConn_def)

section \<open>UDP sessions\<close>

lemma close_track_frame:
  assumes "close_track c st = Inr st1" "c < length (trackers (mgr st))"
  shows "length (trackers (mgr st1)) = length (trackers (mgr st)) \<and> sessions st1 = sessions st \<and> natTable st1 = natTable st"
proof -
  from assms(1) obtain e m where m: "tcp_Close c (mgr st) = Inr (e, m)" "st1 = st\<lparr>mgr := m\<rparr>"
    by (auto simp: close_track_def tracker_Close_eq and_then_Inr)
  have "length (trackers m) = length (trackers (mgr st))"
    using tcp_Close_chain [OF m(1) assms(2)] by (metis length_map)
  then show ?thesis using m(2) by simp
qed

lemma tcp_Close_length: "tcp_Close c m = Inr (e, m1) \<Longrightarrow> length (trackers m1) = length (trackers m)"
  by (auto simp: tcp_Close_def Let_def split: if_splits option.splits)

lemma close_track_length:
  "close_track c st = Inr st1 \<Longrightarrow> length (trackers (mgr st1)) = length (trackers (mgr st)) \<and> sessions st1 = sessions st \<and>
     natTable st1 = natTable st"
  by (auto simp: close_track_def tracker_Close_eq and_then_Inr dest: tcp_Close_length)

lemma handleUDPToRemote_frame:
  assumes "handleUDPToRemote env nano snd_to payload k metadata nkey st = Inr (r, st1)"
  shows "length (trackers (mgr st1)) = length (trackers (mgr st)) \<and> length (sessions st1) = length (sessions st) \<and>
    (\<forall>addr. r = Inr addr \<longrightarrow> natTable st1 = natTable st)"
proof -
  from assms obtain x where x: "(if Resolved metadata then Inr (Inr metadata)
      else and_then (ResolveIP (res_env env) (Host metadata)) (\<lambda>r.
        Inr (case r of Inl err \<Rightarrow> Inl err
             | Inr ip \<Rightarrow> Inr (if DstIP metadata = [] then metadata\<lparr>DstIP := ip\<rparr> else metadata)))) = Inr x"
    unfolding handleUDPToRemote_def and_then_Inr by blast
  show ?thesis
  proof (cases x)
    case (Inl err)
    with assms x show ?thesis by (auto simp: handleUDPToRemote_def)
  next
    case (Inr md)
    show ?thesis
    proof (cases "Metadata_UDPAddr md")
      case None
      with assms x Inr show ?thesis by (auto simp: handleUDPToRemote_def)
    next
      case (Some addr)
      obtain n ok where s: "snd_to payload addr = (n, ok)" by fastforce
      show ?thesis
      proof (cases ok)
        case True
        with assms x Inr Some s show ?thesis
          by (auto simp: handleUDPToRemote_def Let_def udp_WriteTo_def upd_session_def)
      next
        case False
        with assms x Inr Some s show ?thesis
          by (auto simp: handleUDPToRemote_def Let_def and_then_Inr udp_WriteTo_def dest!: close_track_length)
      qed
    qed
  qed
qed

lemma udp_new_session_key:
  assumes "udp_new_session env denv now nano fAddr metadata nkey st = Inr (Inr j, md, st1)"
  shows "natTable st1 nkey = Some (NatPC j)"
proof -
  from assms obtain proxy rule md1 tun1 c m where
    r: "resolveMetadata env now metadata (tun st) = Inr ((proxy, rule), md1, tun1)"
    "NewUDPTracker None md1 now rule (map_option (Name denv) proxy) (mgr st) = Inr (c, m)"
    by (auto simp: udp_new_session_def Let_def and_then_Inr)
  with assms obtain p where p: "proxy = Some p" by (cases proxy) (auto simp: udp_new_session_def)
  show ?thesis
    using assms r p by (cases "DialUDP denv p md1") (auto simp: udp_new_session_def Let_def and_then_Inr nat_Set_def)
qed

lemma handleUDPConn_session:
  assumes "handleUDPConn env denv now nano snd_to p st = Inr (UdpSent k a, st1)"
  shows "natTable st1 (NetAddr_String (pa_local p)) = Some (NatPC k)"
proof -
  let ?nkey = "NetAddr_String (pa_local p)"
  have v: "Valid (pa_metadata p)" using assms by (auto simp: handleUDPConn_def Let_def split: if_splits)
  from assms v obtain fake x tun1 where fk: "mapper_IsExistFakeIP (DstIP (pa_metadata p)) (mapper (tun st)) = Inr fake"
    and x: "preHandleMetadata env now (pa_metadata p) (tun st) = Inr (x, tun1)"
    by (auto simp: handleUDPConn_def Let_def and_then_Inr)
  from assms v fk x obtain md where "x = Inr md"
    by (cases x) (auto simp: handleUDPConn_def Let_def and_then_Inr)
  note pre = v fk x this
  from assms pre obtain pc where g: "nat_Get ?nkey (natTable st) = Inr pc"
    by (auto simp: handleUDPConn_def Let_def and_then_Inr)
  show ?thesis
  proof (cases pc)
    case (Some j)
    then have n: "natTable st ?nkey = Some (NatPC j)"
      using g by (auto simp: nat_Get_def split: option.splits nat_item.splits)
    from assms pre g Some obtain r where
      "handleUDPToRemote env nano snd_to (pa_data p) j md ?nkey (st\<lparr>tun := tun1\<rparr>) = Inr (r, st1)" "udp_sent j r = UdpSent k a"
      by (auto simp: handleUDPConn_def Let_def and_then_Inr)
    with handleUDPToRemote_frame n show ?thesis by (fastforce simp: udp_sent_def split: sum.splits)
  next
    case None
    from assms pre g None obtain nw md2 st2 where
      nw: "udp_new_session env denv now nano (if fake then Metadata_UDPAddr (pa_metadata p) else None) md ?nkey (st\<lparr>tun := tun1\<rparr>) = Inr (nw, md2, st2)"
      by (auto simp: handleUDPConn_def Let_def and_then_Inr)
    from assms pre g None nw obtain j r where
      new: "udp_new_session env denv now nano (if fake then Metadata_UDPAddr (pa_metadata p) else None) md ?nkey (st\<lparr>tun := tun1\<rparr>) = Inr (Inr j, md2, st2)"
      and r: "handleUDPToRemote env nano snd_to (pa_data p) j md2 ?nkey st2 = Inr (r, st1)" "udp_sent j r = UdpSent k a"
      by (cases nw) (auto simp: handleUDPConn_def Let_def and_then_Inr)
    have "natTable st2 ?nkey = Some (NatPC j)"
      by (rule udp_new_session_key [OF new])
    with handleUDPToRemote_frame [OF r(1)] r(2) show ?thesis by (auto simp: udp_sent_def split: sum.splits)
  qed
qed


definition demo_packet :: "byte list \<Rightarrow> PacketAdapter" where
  "demo_packet payload = \<lparr>pa_data = payload, pa_local = NetUDPAddr [10, 0, 0, 2] 4000, pa_metadata = demo_md\<lparr>NetWork := UDP\<rparr>\<rparr>"

definition demo_send :: "byte list \<Rightarrow> UDPAddr \<Rightarrow> int64 \<times> bool" where
  "demo_send payload addr = (of_nat (length payload), True)"

abbreviation demo_udp where
  "demo_udp st payload \<equiv> handleUDPConn demo_env (demo_dial (\<lambda>p. Inr [p])) 0 0 demo_send (demo_packet payload) st"

lemma demo_pre: "mapper t = None \<Longrightarrow>
   preHandleMetadata demo_env 0 (demo_md\<lparr>NetWork := UDP\<rparr>) t = Inr (Inr (demo_md\<lparr>NetWork := UDP\<rparr>), t)"
  by (simp add: preHandleMetadata_def ip_host_def ParseIP_def ParseAddr_def demo_md_def needLookupIP_def
      mapper_MappingEnabled_def)

lemma demo_udp_addr: "Metadata_UDPAddr (demo_md\<lparr>NetWork := UDP\<rparr>) = Some \<lparr>AddrIP = [1, 1, 1, 1], AddrPort = 443\<rparr>"
  by (simp add: Metadata_UDPAddr_def demo_md_def Atoi_def is_digit_def digits_val_def digit_val_def)

lemma demo_remote:
  "handleUDPToRemote demo_env 0 demo_send payload k (demo_md\<lparr>NetWork := UDP\<rparr>) nkey st =
   Inr (Inr \<lparr>AddrIP = [1, 1, 1, 1], AddrPort = 443\<rparr>,
     (let st1 = st\<lparr>mgr := udp_WriteTo (us_tracker (sessions st ! k)) (of_nat (length payload)) (mgr st)\<rparr>
      in if NeedUpdateDeadline 0 udpTimeout (sessions st1 ! k)
         then upd_session k (\<lambda>s. s\<lparr>readDeadline := Some udpTimeout, lastUpdate := 0\<rparr>) st1 else st1))"
proof -
  have "Resolved (demo_md\<lparr>NetWork := UDP\<rparr>)" by (simp add: Resolved_def demo_md_def)
  then show ?thesis by (simp add: handleUDPToRemote_def demo_udp_addr demo_send_def Let_def)
qed


end
