(* ===== verification/Go_Stream.thy ===== *)
theory Go_Stream
  imports Go_Conn "HOL-Library.Sublist"
begin

text \<open>
  What the wrappers of a connection promise as an \<open>io.Reader\<close>. A wrapper of type \<open>'s\<close> is read with a
  buffer of some length and returns the bytes it put there or an error. The locale \<open>stream_reader\<close> is
  the contract: a wrapper that still carries the plaintext \<open>ds\<close> hands out a piece of it that fits the
  buffer (of \<open>least\<close> bytes at least), never nothing while there is something, and an error at the end. Whoever reads such a
  stream gets the plaintext, however the buffers are sized.
\<close>

section \<open>Short reads\<close>

text \<open>
  \<open>Conn.Read\<close> into a buffer of \<open>n\<close> bytes when \<open>k\<close> bytes have arrived; it blocks until there is one.
\<close>

definition Read :: "(io_error \<Rightarrow> 'e) \<Rightarrow> nat \<Rightarrow> nat \<Rightarrow> ('e, byte list) io" where
  "Read wrap k n c =
     (if n = 0 then (Inr [], c)
      else if rx c = [] then (Inl (wrap EOF), c)
      else let m = min n (max 1 k) in (Inr (take m (rx c)), c\<lparr>rx := drop m (rx c)\<rparr>))"

lemma Read_result:
  "Read wrap k n c = (Inr bs, c1) \<Longrightarrow> rx c = bs @ rx c1 \<and> length bs \<le> n \<and> tx c1 = tx c \<and> budget c1 = budget c"
  by (auto simp: Read_def Let_def split: if_splits)

text \<open>A schedule of arrivals for a sequence of reads; when it is used up, everything has arrived.\<close>

definition Read_next :: "(io_error \<Rightarrow> 'e) \<Rightarrow> nat \<Rightarrow> nat list \<times> Conn \<Rightarrow> ('e + byte list) \<times> nat list \<times> Conn" where
  "Read_next wrap n = (\<lambda>(ks, c).
     let k = (case ks of [] \<Rightarrow> n | k # _ \<Rightarrow> k); (r, c1) = Read wrap k n c in (r, tl ks, c1))"

lemma Read_next_some:
  assumes "rx c = ds @ rest" "ds \<noteq> []" "0 < n" "n \<le> length ds"
  shows "\<exists>m. 0 < m \<and> m \<le> n \<and> Read_next wrap n (ks, c) = (Inr (take m ds), tl ks, c\<lparr>rx := drop m ds @ rest\<rparr>)"
proof -
  let ?k = "case ks of [] \<Rightarrow> n | k # _ \<Rightarrow> k"
  let ?m = "min n (max 1 ?k)"
  have "Read_next wrap n (ks, c) = (Inr (take ?m ds), tl ks, c\<lparr>rx := drop ?m ds @ rest\<rparr>)"
    using assms by (simp add: Read_next_def Read_def Let_def)
  then show ?thesis using assms(3) by (intro exI [of _ ?m]) auto
qed

section \<open>The contract\<close>

fun drain :: "(nat \<Rightarrow> 's \<Rightarrow> ('e + byte list) \<times> 's) \<Rightarrow> nat list \<Rightarrow> 's \<Rightarrow> byte list \<times> 's" where
  "drain rd [] s = ([], s)"
| "drain rd (n # ns) s =
     (case rd n s of
        (Inl e, s1) \<Rightarrow> ([], s1)
      | (Inr bs, s1) \<Rightarrow> (let (rest, s2) = drain rd ns s1 in (bs @ rest, s2)))"

locale stream_reader =
  fixes rd :: "nat \<Rightarrow> 's \<Rightarrow> ('e + byte list) \<times> 's"
    and carries :: "'s \<Rightarrow> byte list \<Rightarrow> bool"
    and least :: nat
  assumes read_piece: "carries s ds \<Longrightarrow> ds \<noteq> [] \<Longrightarrow> least \<le> n \<Longrightarrow>
      \<exists>bs rest s'. rd n s = (Inr bs, s') \<and> bs \<noteq> [] \<and> length bs \<le> n \<and> ds = bs @ rest \<and> carries s' rest"
    and read_end: "carries s [] \<Longrightarrow> \<exists>e s'. rd n s = (Inl e, s')"
begin

lemma drain_prefix:
  "carries s ds \<Longrightarrow> \<forall>n \<in> set ns. least \<le> n \<Longrightarrow>
     prefix (fst (drain rd ns s)) ds \<and> (length ds \<le> length ns \<longrightarrow> fst (drain rd ns s) = ds)"
proof (induction ns arbitrary: s ds)
  case (Cons n ns)
  show ?case
  proof (cases "ds = []")
    case True
    then obtain e s' where "rd n s = (Inl e, s')" using read_end [of s n] Cons.prems(1) by blast
    with True show ?thesis by simp
  next
    case False
    have "least \<le> n" using Cons.prems(2) by simp
    from read_piece [OF Cons.prems(1) False this] obtain bs rest s' where
      rd: "rd n s = (Inr bs, s')" and bs: "bs \<noteq> []" and ds: "ds = bs @ rest" and s': "carries s' rest" by blast
    have "prefix (fst (drain rd ns s')) rest \<and> (length rest \<le> length ns \<longrightarrow> fst (drain rd ns s') = rest)"
      using Cons.IH [OF s'] Cons.prems(2) by simp
    moreover have "length ds \<le> Suc (length ns) \<longrightarrow> length rest \<le> length ns" using ds bs by (cases bs) auto
    ultimately show ?thesis using rd ds by (auto simp: case_prod_beta)
  qed
qed simp

lemma drain_all:
  assumes "carries s ds" "\<forall>n \<in> set ns. least \<le> n" "length ds \<le> length ns"
  shows "fst (drain rd ns s) = ds"
  using drain_prefix [OF assms(1,2)] assms(3) by blast

end

section \<open>Writers\<close>

text \<open>
  The other side: a writer of state \<open>'w\<close> on its connection takes all of a buffer (the first
  component of its result counts the bytes) or returns an error. The locale \<open>stream_codec\<close> adds to a
  reader the writer it understands (of the buffers that are \<open>writable\<close>): \<open>emits w enc ds w1\<close> says that writing \<open>ds\<close> in state \<open>w\<close> puts \<open>enc\<close>
  on the wire and leaves the state \<open>w1\<close>.
\<close>

fun write_all :: "(byte list \<Rightarrow> 'w \<times> Conn \<Rightarrow> (nat \<times> 'e option) \<times> 'w \<times> Conn) \<Rightarrow> byte list list \<Rightarrow> 'w \<times> Conn \<Rightarrow>
    (nat \<times> 'e option) list \<times> 'w \<times> Conn" where
  "write_all wr [] s = ([], s)"
| "write_all wr (b # bs) s = (let (r, s1) = wr b s; (rs, s2) = write_all wr bs s1 in (r # rs, s2))"

locale stream_codec = stream_reader rd carries least
  for rd :: "nat \<Rightarrow> 's \<Rightarrow> ('e + byte list) \<times> 's" and carries least +
  fixes wr :: "byte list \<Rightarrow> 'w \<times> Conn \<Rightarrow> (nat \<times> 'f option) \<times> 'w \<times> Conn"
    and emits :: "'w \<Rightarrow> byte list \<Rightarrow> byte list \<Rightarrow> 'w \<Rightarrow> bool"
    and writable :: "byte list \<Rightarrow> bool"
    and good :: "'w \<Rightarrow> bool"
    and fresh :: "'w \<Rightarrow> bool"
    and start :: "'w \<Rightarrow> byte list \<Rightarrow> 's"
  assumes write_emits: "good w \<Longrightarrow> writable b \<Longrightarrow> length b \<le> budget c \<Longrightarrow> \<exists>enc w1 c1. wr b (w, c) = ((length b, None), w1, c1) \<and>
      good w1 \<and> emits w enc b w1 \<and> tx c1 = tx c @ enc \<and> budget c \<le> budget c1 + length b"
    and emits_Nil: "emits w [] [] w"
    and emits_append: "emits w e1 d1 w1 \<Longrightarrow> emits w1 e2 d2 w2 \<Longrightarrow> emits w (e1 @ e2) (d1 @ d2) w2"
    and start_carries: "good w \<Longrightarrow> fresh w \<Longrightarrow> emits w enc ds w1 \<Longrightarrow> carries (start w enc) ds"
begin

lemma write_all_emits:
  "good w \<Longrightarrow> \<forall>b \<in> set bs. writable b \<Longrightarrow> length (concat bs) \<le> budget c \<Longrightarrow> \<exists>enc w1 c1. write_all wr bs (w, c) = (map (\<lambda>b. (length b, None)) bs, w1, c1) \<and>
     emits w enc (concat bs) w1 \<and> tx c1 = tx c @ enc"
proof (induction bs arbitrary: w c)
  case Nil
  then show ?case using emits_Nil by auto
next
  case (Cons b bs)
  have "writable b" "length b \<le> budget c" using Cons.prems(2,3) by simp_all
  from write_emits [OF Cons.prems(1) this] obtain e1 w1 c1 where
    1: "wr b (w, c) = ((length b, None), w1, c1)" "good w1" "emits w e1 b w1" "tx c1 = tx c @ e1" "budget c \<le> budget c1 + length b" by blast
  have "\<forall>b \<in> set bs. writable b" "length (concat bs) \<le> budget c1" using Cons.prems(2,3) 1(5) by simp_all
  from Cons.IH [OF 1(2) this] obtain e2 w2 c2 where
    2: "write_all wr bs (w1, c1) = (map (\<lambda>b. (length b, None)) bs, w2, c2)" "emits w1 e2 (concat bs) w2" "tx c2 = tx c1 @ e2" by blast
  show ?case using 1 2 emits_append [OF 1(3) 2(2)] by auto
qed

lemma written_is_read:
  assumes "good w" "fresh w" "\<forall>b \<in> set bs. writable b" "length (concat bs) \<le> budget c" "tx c = []"
    and "write_all wr bs (w, c) = (rs, w1, c1)"
    and "\<forall>n \<in> set ns. least \<le> n" "length (concat bs) \<le> length ns"
  shows "rs = map (\<lambda>b. (length b, None)) bs \<and> fst (drain rd ns (start w (tx c1))) = concat bs"
proof -
  from write_all_emits [OF assms(1,3,4)] assms(5,6) have "rs = map (\<lambda>b. (length b, None)) bs" "emits w (tx c1) (concat bs) w1" by auto
  then show ?thesis using drain_all [OF start_carries [OF assms(1,2)] assms(7,8)] by simp
qed

end

end
