(* ===== verification/Obfs.thy ===== *)
theory Obfs
  imports Go_Stream
begin

text \<open>
  The wrappers that disguise a stream: \<open>transport/simple-obfs\<close> (as TLS records, or behind an HTTP
  upgrade) and the multiplexer of \<open>transport/v2ray-plugin/mux.go\<close>. Reads of the connection
  below may be short, as its schedule of arrivals says.
\<close>

datatype obfs_error = ObfsIO io_error | ErrMetaLen

section \<open>simple-obfs: TLS\<close>

definition obfs_chunkSize :: nat where "obfs_chunkSize = 2 ^ 14"

record TLSObfs =
  server :: string
  to_remain :: nat
  firstRequest :: bool
  firstResponse :: bool

definition NewTLSObfs :: "string \<Rightarrow> TLSObfs" where
  "NewTLSObfs sv = \<lparr>server = sv, to_remain = 0, firstRequest = True, firstResponse = True\<rparr>"

text \<open>An error while the length is read is not returned: the caller sees zero bytes and no error.\<close>

definition tls_read :: "nat \<Rightarrow> nat \<Rightarrow> TLSObfs \<times> nat list \<times> Conn \<Rightarrow> (obfs_error + byte list) \<times> TLSObfs \<times> nat list \<times> Conn" where
  "tls_read n discardN = (\<lambda>(to, ks, c).
     case ReadFull ObfsIO discardN c of
       (Inl e, c1) \<Rightarrow> (Inl e, to, ks, c1)
     | (Inr _, c1) \<Rightarrow>
         (case ReadFull ObfsIO 2 c1 of
            (Inl _, c2) \<Rightarrow> (Inr [], to, ks, c2)
          | (Inr sizeBuf, c2) \<Rightarrow>
              (let len = unat (BE_Uint16 sizeBuf)
               in if len > n then
                    (case Read_next ObfsIO n (ks, c2) of
                       (Inl e, ks1, c3) \<Rightarrow> (Inl e, to, ks1, c3)
                     | (Inr b, ks1, c3) \<Rightarrow> (Inr b, to\<lparr>to_remain := len - length b\<rparr>, ks1, c3))
                  else
                    (case ReadFull ObfsIO len c2 of
                       (Inl e, c3) \<Rightarrow> (Inl e, to, ks, c3)
                     | (Inr b, c3) \<Rightarrow> (Inr b, to, ks, c3)))))"

definition tls_Read :: "nat \<Rightarrow> TLSObfs \<times> nat list \<times> Conn \<Rightarrow> (obfs_error + byte list) \<times> TLSObfs \<times> nat list \<times> Conn" where
  "tls_Read n = (\<lambda>(to, ks, c).
     if to_remain to > 0 then
       (let len = (if to_remain to > n then n else to_remain to)
        in case ReadFull ObfsIO len c of
             (Inl e, c1) \<Rightarrow> (Inl e, to\<lparr>to_remain := to_remain to - length (rx c)\<rparr>, ks, c1)
           | (Inr b, c1) \<Rightarrow> (Inr b, to\<lparr>to_remain := to_remain to - len\<rparr>, ks, c1))
     else if firstResponse to then tls_read n 105 (to\<lparr>firstResponse := False\<rparr>, ks, c)
     else tls_read n 3 (to, ks, c))"

definition be16 :: "nat \<Rightarrow> byte list" where
  "be16 n = PutUint16 (of_nat n)"

definition cipher_suites :: "byte list" where
  "cipher_suites =
     [0xc0, 0x2c, 0xc0, 0x30, 0x00, 0x9f, 0xcc, 0xa9, 0xcc, 0xa8, 0xcc, 0xaa, 0xc0, 0x2b, 0xc0, 0x2f,
      0x00, 0x9e, 0xc0, 0x24, 0xc0, 0x28, 0x00, 0x6b, 0xc0, 0x23, 0xc0, 0x27, 0x00, 0x67, 0xc0, 0x0a,
      0xc0, 0x14, 0x00, 0x39, 0xc0, 0x09, 0xc0, 0x13, 0x00, 0x33, 0x00, 0x9d, 0x00, 0x9c, 0x00, 0x3d,
      0x00, 0x3c, 0x00, 0x35, 0x00, 0x2f, 0x00, 0xff]"

text \<open>
  The client hello with the data in the session ticket; \<open>unix\<close> is the time in four bytes, \<open>random\<close> and
  \<open>sessionID\<close> are 28 and 32 random bytes.
\<close>

definition makeClientHelloMsg :: "byte list \<Rightarrow> byte list \<Rightarrow> byte list \<Rightarrow> byte list \<Rightarrow> string \<Rightarrow> byte list" where
  "makeClientHelloMsg unix random sessionID data sv =
     [22] @ [0x03, 0x01] @ be16 (212 + length data + length sv) @
     [1] @ [0] @ be16 (208 + length data + length sv) @ [0x03, 0x03] @
     unix @ random @ [32] @ sessionID @
     [0x00, 0x38] @ cipher_suites @ [0x01, 0x00] @
     be16 (79 + length data + length sv) @
     [0x00, 0x23] @ be16 (length data) @ data @
     [0x00, 0x00] @ be16 (length sv + 5) @ be16 (length sv + 3) @ [0] @ be16 (length sv) @ string_to_bytes sv @
     [0x00, 0x0b, 0x00, 0x04, 0x03, 0x01, 0x00, 0x02] @
     [0x00, 0x0a, 0x00, 0x0a, 0x00, 0x08, 0x00, 0x1d, 0x00, 0x17, 0x00, 0x19, 0x00, 0x18] @
     [0x00, 0x0d, 0x00, 0x20, 0x00, 0x1e, 0x06, 0x01, 0x06, 0x02, 0x06, 0x03, 0x05,
      0x01, 0x05, 0x02, 0x05, 0x03, 0x04, 0x01, 0x04, 0x02, 0x04, 0x03, 0x03, 0x01,
      0x03, 0x02, 0x03, 0x03, 0x02, 0x01, 0x02, 0x02, 0x02, 0x03] @
     [0x00, 0x16, 0x00, 0x00] @ [0x00, 0x17, 0x00, 0x00]"

definition tls_write1 :: "byte list \<Rightarrow> byte list \<Rightarrow> byte list \<Rightarrow> byte list \<Rightarrow> TLSObfs \<times> Conn \<Rightarrow> (nat \<times> obfs_error option) \<times> TLSObfs \<times> Conn" where
  "tls_write1 unix random sessionID b = (\<lambda>(to, c).
     let (msg, to1) = (if firstRequest to then (makeClientHelloMsg unix random sessionID b (server to), to\<lparr>firstRequest := False\<rparr>)
                       else ([0x17, 0x03, 0x03] @ be16 (length b) @ b, to))
     in case Write ObfsIO msg c of
          (Inl e, c1) \<Rightarrow> ((length b, Some e), to1, c1)
        | (Inr _, c1) \<Rightarrow> ((length b, None), to1, c1))"

text \<open>\<open>Write\<close>, in records of at most \<open>chunkSize\<close> bytes; the count returned with an error is that of the failed record.\<close>

function tls_write_loop :: "byte list \<Rightarrow> byte list \<Rightarrow> byte list \<Rightarrow> byte list \<Rightarrow> TLSObfs \<times> Conn \<Rightarrow> obfs_error option \<times> nat \<times> TLSObfs \<times> Conn" where
  "tls_write_loop unix random sessionID b s =
     (if b = [] then (None, 0, s)
      else case tls_write1 unix random sessionID (take obfs_chunkSize b) s of
             ((n, Some e), s1) \<Rightarrow> (Some e, n, s1)
           | ((n, None), s1) \<Rightarrow> tls_write_loop unix random sessionID (drop obfs_chunkSize b) s1)"
  by pat_completeness auto
termination
  by (relation "measure (\<lambda>(u, r, i, b, s). length b)") (auto simp: obfs_chunkSize_def)

declare tls_write_loop.simps [simp del]

definition tls_Write :: "byte list \<Rightarrow> byte list \<Rightarrow> byte list \<Rightarrow> byte list \<Rightarrow> TLSObfs \<times> Conn \<Rightarrow> (nat \<times> obfs_error option) \<times> TLSObfs \<times> Conn" where
  "tls_Write unix random sessionID b s =
     (case tls_write_loop unix random sessionID b s of
        (Some e, n, s1) \<Rightarrow> ((n, Some e), s1)
      | (None, n, s1) \<Rightarrow> ((length b, None), s1))"

section \<open>simple-obfs: HTTP\<close>

record HTTPObfs =
  ho_buf :: "byte list option"
  ho_offset :: nat
  ho_firstRequest :: bool
  ho_firstResponse :: bool

definition NewHTTPObfs :: HTTPObfs where
  "NewHTTPObfs = \<lparr>ho_buf = None, ho_offset = 0, ho_firstRequest = True, ho_firstResponse = True\<rparr>"

fun find_sub :: "byte list \<Rightarrow> byte list \<Rightarrow> nat option" where
  "find_sub pat [] = (if pat = [] then Some 0 else None)"
| "find_sub pat (x # xs) = (if take (length pat) (x # xs) = pat then Some 0 else map_option Suc (find_sub pat xs))"

definition RelayBufferSize :: nat where "RelayBufferSize = 20 * 1024"

definition http_Read :: "nat \<Rightarrow> HTTPObfs \<times> nat list \<times> Conn \<Rightarrow> (obfs_error + byte list) \<times> HTTPObfs \<times> nat list \<times> Conn" where
  "http_Read n = (\<lambda>(ho, ks, c).
     case ho_buf ho of
       Some buf \<Rightarrow>
         (let b = take n (drop (ho_offset ho) buf); offset = ho_offset ho + length b
          in (Inr b, ho\<lparr>ho_offset := offset, ho_buf := if offset = length buf then None else Some buf\<rparr>, ks, c))
     | None \<Rightarrow>
         if ho_firstResponse ho then
           (case Read_next ObfsIO RelayBufferSize (ks, c) of
              (Inl e, ks1, c1) \<Rightarrow> (Inl e, ho, ks1, c1)
            | (Inr buf, ks1, c1) \<Rightarrow>
                (case find_sub [13, 10, 13, 10] buf of
                   None \<Rightarrow> (Inl (ObfsIO EOF), ho, ks1, c1)
                 | Some idx \<Rightarrow>
                     (let ho1 = ho\<lparr>ho_firstResponse := False\<rparr>; len = length buf - (idx + 4); b = take n (drop (idx + 4) buf)
                      in (Inr b,
                          if len > length b then ho1\<lparr>ho_buf := Some (take (idx + 4 + len) buf), ho_offset := idx + 4 + length b\<rparr> else ho1,
                          ks1, c1))))
         else (case Read_next ObfsIO n (ks, c) of (r, ks1, c1) \<Rightarrow> (r, ho, ks1, c1)))"

text \<open>The request that carries the first bytes is written by \<open>net/http\<close>: \<open>request\<close> gives its bytes.\<close>

definition http_Write :: "(byte list \<Rightarrow> byte list) \<Rightarrow> byte list \<Rightarrow> HTTPObfs \<times> Conn \<Rightarrow> (nat \<times> obfs_error option) \<times> HTTPObfs \<times> Conn" where
  "http_Write request b = (\<lambda>(ho, c).
     if ho_firstRequest ho then
       (case Write ObfsIO (request b) c of
          (Inl e, c1) \<Rightarrow> ((length b, Some e), ho\<lparr>ho_firstRequest := False\<rparr>, c1)
        | (Inr _, c1) \<Rightarrow> ((length b, None), ho\<lparr>ho_firstRequest := False\<rparr>, c1))
     else
       (case Write ObfsIO b c of
          (Inl e, c1) \<Rightarrow> ((0, Some e), ho, c1)
        | (Inr _, c1) \<Rightarrow> ((length b, None), ho, c1)))"

section \<open>v2ray-plugin: mux\<close>

definition SessionStatusNew :: byte where "SessionStatusNew = 1"
definition SessionStatusKeep :: byte where "SessionStatusKeep = 2"
definition SessionStatusEnd :: byte where "SessionStatusEnd = 3"
definition SessionStatusKeepAlive :: byte where "SessionStatusKeepAlive = 4"
definition OptionNone :: byte where "OptionNone = 0"
definition OptionData :: byte where "OptionData = 1"

record MuxOption =
  mo_ID :: "byte list"
  mo_Port :: uint16
  mo_Host :: string
  mo_Type :: string

record Mux =
  m_id :: "byte list"
  m_status :: "byte list"
  otb :: "byte list option"
  m_remain :: nat

definition NewMux :: "MuxOption \<Rightarrow> Mux" where
  "NewMux op =
     (let ip = ParseIP (mo_Host op);
          addr = (if ip = [] then 2 # string_to_bytes (mo_Host op)
                  else if To4 ip \<noteq> [] then 1 # To4 ip
                  else 3 # To16 ip);
          rest = mo_ID op @ [SessionStatusNew, OptionNone] @ [if mo_Type op = ''udp'' then 2 else 1] @ PutUint16 (mo_Port op) @ addr
      in \<lparr>m_id = mo_ID op, m_status = [0, 0], otb = Some (be16 (length rest) @ rest), m_remain = 0\<rparr>)"

lemma Read_next_shrinks: "Read_next wrap n (ks, c) = (r, ks1, c1) \<Longrightarrow> length (rx c1) \<le> length (rx c)"
  by (auto simp: Read_next_def Read_def Let_def split: if_splits prod.splits)

text \<open>\<open>Read\<close> of the status may be short and then leaves the second byte as it was.\<close>

function mux_loop :: "nat \<Rightarrow> Mux \<times> nat list \<times> Conn \<Rightarrow> (obfs_error + byte list) \<times> Mux \<times> nat list \<times> Conn" where
  "mux_loop n (m, ks, c) =
     (case ReadFull ObfsIO 2 c of
        (Inl e, c1) \<Rightarrow> (Inl e, m, ks, c1)
      | (Inr l, c1) \<Rightarrow>
          if unat (BE_Uint16 l) > 512 then (Inl ErrMetaLen, m, ks, c1)
          else
            (case ReadFull ObfsIO 2 c1 of
               (Inl e, c2) \<Rightarrow> (Inl e, m\<lparr>m_id := rx c1 @ drop (length (rx c1)) (m_id m)\<rparr>, ks, c2)
             | (Inr i, c2) \<Rightarrow>
                 (let m1 = m\<lparr>m_id := i\<rparr>
                  in case Read_next ObfsIO 2 (ks, c2) of
                       (Inl e, ks1, c3) \<Rightarrow> (Inl e, m1, ks1, c3)
                     | (Inr st, ks1, c3) \<Rightarrow>
                         (let m2 = m1\<lparr>m_status := st @ drop (length st) (m_status m1)\<rparr>
                          in if m_status m2 ! 0 = SessionStatusKeepAlive then mux_loop n (m2, ks1, c3)
                             else if m_status m2 ! 1 \<noteq> OptionData then mux_loop n (m2, ks1, c3)
                             else
                               (case ReadFull ObfsIO 2 c3 of
                                  (Inl e, c4) \<Rightarrow> (Inl e, m2, ks1, c4)
                                | (Inr d, c4) \<Rightarrow>
                                    (let dataLen = unat (BE_Uint16 d)
                                     in case Read_next ObfsIO (if dataLen > n then n else dataLen) (ks1, c4) of
                                          (Inl e, ks2, c5) \<Rightarrow> (Inl e, m2\<lparr>m_remain := dataLen\<rparr>, ks2, c5)
                                        | (Inr b, ks2, c5) \<Rightarrow> (Inr b, m2\<lparr>m_remain := dataLen - length b\<rparr>, ks2, c5)))))))"
  by pat_completeness auto
termination
  by (relation "measure (\<lambda>(n, m, ks, c). length (rx c))")
    (auto dest!: ReadFull_result [OF sym] Read_next_shrinks [OF sym])

declare mux_loop.simps [simp del]

definition mux_Read :: "nat \<Rightarrow> Mux \<times> nat list \<times> Conn \<Rightarrow> (obfs_error + byte list) \<times> Mux \<times> nat list \<times> Conn" where
  "mux_Read n = (\<lambda>(m, ks, c).
     if m_remain m \<noteq> 0 then
       (case Read_next ObfsIO (if n < m_remain m then n else m_remain m) (ks, c) of
          (Inl e, ks1, c1) \<Rightarrow> (Inl e, m, ks1, c1)
        | (Inr b, ks1, c1) \<Rightarrow> (Inr b, m\<lparr>m_remain := m_remain m - length b\<rparr>, ks1, c1))
     else mux_loop n (m, ks, c))"

text \<open>The count that \<open>Write\<close> returns is that of the frame.\<close>

definition mux_Write :: "byte list \<Rightarrow> Mux \<times> Conn \<Rightarrow> (nat \<times> obfs_error option) \<times> Mux \<times> Conn" where
  "mux_Write b = (\<lambda>(m, c).
     let frame = \<lambda>m. be16 4 @ m_id m @ [SessionStatusKeep, OptionData] @ be16 (length b) @ b;
         send = \<lambda>(m, c). (case Write ObfsIO (frame m) c of
                  (Inl e, c1) \<Rightarrow> ((0, Some e), m, c1)
                | (Inr _, c1) \<Rightarrow> ((length (frame m), None), m, c1))
     in case otb m of
          Some pre \<Rightarrow>
            (case Write ObfsIO pre c of
               (Inl e, c1) \<Rightarrow> ((0, Some e), m, c1)
             | (Inr _, c1) \<Rightarrow> send (m\<lparr>otb := None\<rparr>, c1))
        | None \<Rightarrow> send (m, c))"

definition mux_Close :: "Mux \<times> Conn \<Rightarrow> obfs_error option \<times> Mux \<times> Conn" where
  "mux_Close = (\<lambda>(m, c).
     case Write ObfsIO ([0, 4] @ m_id m @ [SessionStatusEnd, OptionNone]) c of
       (Inl e, c1) \<Rightarrow> (Some e, m, c1)
     | (Inr _, c1) \<Rightarrow> (None, m, c1))"

section \<open>What the peer sends is what is read\<close>

inductive records :: "bool \<Rightarrow> byte list \<Rightarrow> byte list \<Rightarrow> bool" where
  records_Nil: "records f [] []"
| records_Cons: "length h = (if f then 105 else 3) \<Longrightarrow> 0 < length p \<Longrightarrow> length p < 65536 \<Longrightarrow> records False enc ds \<Longrightarrow>
    records f (h @ be16 (length p) @ p @ enc) (p @ ds)"

lemma records_first:
  "records f enc ds \<Longrightarrow> ds \<noteq> [] \<Longrightarrow> \<exists>h p e d. ds = p @ d \<and> length h = (if f then 105 else 3) \<and> 0 < length p \<and> length p < 65536 \<and>
     enc = h @ be16 (length p) @ p @ e \<and> records False e d"
  by (erule records.cases) (simp, blast)

lemma records_empty: "records f enc [] \<Longrightarrow> enc = []"
  by (erule records.cases) simp_all

lemma be16_size [simp]: "n < 65536 \<Longrightarrow> unat (BE_Uint16 (be16 n)) = n" "length (be16 n) = 2"
  by (simp_all add: be16_def unat_of_nat)

definition tls_carries :: "TLSObfs \<times> nat list \<times> Conn \<Rightarrow> byte list \<Rightarrow> bool" where
  "tls_carries = (\<lambda>(to, ks, c) ds. \<exists>pre enc rest. length pre = to_remain to \<and> rx c = pre @ enc \<and> records (firstResponse to) enc rest \<and> ds = pre @ rest)"

lemma tls_carriesI:
  "length pre = to_remain to \<Longrightarrow> rx c = pre @ enc \<Longrightarrow> records (firstResponse to) enc rest \<Longrightarrow> tls_carries (to, ks, c) (pre @ rest)"
  unfolding tls_carries_def by blast

lemma tls_read_record:
  assumes "length h = discardN" "0 < length p" "length p < 65536" "1 \<le> n" "to_remain to = 0"
    and "records (firstResponse to) enc d" "c = \<lparr>rx = h @ be16 (length p) @ p @ enc, tx = t, budget = k\<rparr>"
  shows "\<exists>bs rest s'. tls_read n discardN (to, ks, c) = (Inr bs, s') \<and> bs \<noteq> [] \<and> length bs \<le> n \<and> p @ d = bs @ rest \<and> tls_carries s' rest"
proof (cases "length p > n")
  case True
  have "rx \<lparr>rx = p @ enc, tx = t, budget = k\<rparr> = p @ enc" by simp
  from Read_next_some [OF this, of n ObfsIO ks] assms(2,4) True obtain m where m: "0 < m" "m \<le> n"
    "Read_next ObfsIO n (ks, \<lparr>rx = p @ enc, tx = t, budget = k\<rparr>) = (Inr (take m p), tl ks, \<lparr>rx = drop m p @ enc, tx = t, budget = k\<rparr>)" by auto
  let ?to = "to\<lparr>to_remain := length p - length (take m p)\<rparr>"
  have "tls_read n discardN (to, ks, c) = (Inr (take m p), ?to, tl ks, \<lparr>rx = drop m p @ enc, tx = t, budget = k\<rparr>)"
    using True m(3) assms(1,3) by (simp add: tls_read_def assms(7) ReadFull_def Let_def)
  moreover have "tls_carries (?to, tl ks, \<lparr>rx = drop m p @ enc, tx = t, budget = k\<rparr>) (drop m p @ d)"
    by (rule tls_carriesI) (use assms(6) m True in simp_all)
  ultimately show ?thesis using m assms(2) by (intro exI [of _ "take m p"] exI [of _ "drop m p @ d"]) auto
next
  case False
  have "tls_read n discardN (to, ks, c) = (Inr p, to, ks, \<lparr>rx = enc, tx = t, budget = k\<rparr>)"
    using False assms(1,3) by (simp add: tls_read_def assms(7) ReadFull_def Let_def)
  moreover have "tls_carries (to, ks, \<lparr>rx = enc, tx = t, budget = k\<rparr>) ([] @ d)"
    by (rule tls_carriesI) (use assms(5,6) in simp_all)
  ultimately show ?thesis using False assms(2) by (intro exI [of _ p] exI [of _ d]) auto
qed

interpretation tls_stream: stream_reader tls_Read tls_carries 1
proof
  fix s :: "TLSObfs \<times> nat list \<times> Conn" and ds :: "byte list" and n :: nat
  obtain to ks c where s: "s = (to, ks, c)" using prod_cases3 by blast
  assume "tls_carries s ds" and ds0: "ds \<noteq> []" and n: "1 \<le> n"
  then obtain pre enc rest where pre: "length pre = to_remain to" and rx: "rx c = pre @ enc"
    and re: "records (firstResponse to) enc rest" and ds: "ds = pre @ rest" by (auto simp: tls_carries_def s)
  show "\<exists>bs rest s'. tls_Read n s = (Inr bs, s') \<and> bs \<noteq> [] \<and> length bs \<le> n \<and> ds = bs @ rest \<and> tls_carries s' rest"
  proof (cases "to_remain to = 0")
    case False
    let ?len = "if to_remain to > n then n else to_remain to"
    have "tls_Read n s = (Inr (take ?len pre), to\<lparr>to_remain := to_remain to - ?len\<rparr>, ks, c\<lparr>rx := drop ?len pre @ enc\<rparr>)"
      using False pre rx by (simp add: tls_Read_def s Let_def ReadFull_def)
    moreover have "tls_carries (to\<lparr>to_remain := to_remain to - ?len\<rparr>, ks, c\<lparr>rx := drop ?len pre @ enc\<rparr>) (drop ?len pre @ rest)"
      by (rule tls_carriesI) (use pre re in simp_all)
    ultimately show ?thesis using False pre n ds by (intro exI [of _ "take ?len pre"] exI [of _ "drop ?len pre @ rest"]) auto
  next
    case True
    then have "pre = []" using pre by simp
    with ds ds0 have "rest \<noteq> []" by simp
    from records_first [OF re this] obtain h p e d where rest: "rest = p @ d" and h: "length h = (if firstResponse to then 105 else 3)"
      and p: "0 < length p" "length p < 65536" and enc: "enc = h @ be16 (length p) @ p @ e" and d: "records False e d" by blast
    obtain t k where c: "c = \<lparr>rx = h @ be16 (length p) @ p @ e, tx = t, budget = k\<rparr>" using rx enc \<open>pre = []\<close> by (cases c) auto
    have "tls_Read n s = tls_read n (length h) (to\<lparr>firstResponse := False\<rparr>, ks, c)" using True h by (cases to) (auto simp: tls_Read_def s)
    moreover have "\<exists>bs rest s'. tls_read n (length h) (to\<lparr>firstResponse := False\<rparr>, ks, c) = (Inr bs, s') \<and> bs \<noteq> [] \<and> length bs \<le> n \<and> p @ d = bs @ rest \<and> tls_carries s' rest"
      by (rule tls_read_record [OF refl p n _ _ c]) (use True d in simp_all)
    ultimately show ?thesis using ds rest \<open>pre = []\<close> by simp
  qed
next
  fix s :: "TLSObfs \<times> nat list \<times> Conn" and n :: nat
  assume "tls_carries s []"
  moreover obtain to ks c where s: "s = (to, ks, c)" using prod_cases3 by blast
  ultimately have "to_remain to = 0" "rx c = []" by (auto simp: tls_carries_def dest: records_empty)
  then show "\<exists>e s'. tls_Read n s = (Inl e, s')" by (simp add: s tls_Read_def tls_read_def ReadFull_def)
qed

text \<open>
  Every length field of the TLS hello is right: the record, the handshake message and the extensions
  announce exactly the bytes that follow them, for a chunk of data and any server name that fits the
  sixteen-bit fields, so the disguise parses as TLS and the peer finds the data in the ticket.
\<close>

theorem hello_lengths:
  assumes "length unix = 4" "length random = 28" "length sessionID = 32"
    and "212 + length data + length sv < 65536"
  shows "let m = makeClientHelloMsg unix random sessionID data sv
    in length m = 217 + length data + length sv \<and>
       unat (BE_Uint16 (drop 3 m)) = length (drop 5 m) \<and>
       unat (BE_Uint16 (drop 7 m)) = length (drop 9 m) \<and>
       unat (BE_Uint16 (drop 136 m)) = length (drop 138 m) \<and>
       unat (BE_Uint16 (drop 140 m)) = length data \<and> take (length data) (drop 142 m) = data"
proof -
  have be: "unat (BE_Uint16 (be16 k @ xs)) = k" if "k < 65536" for k xs
    using that be16_size(1) [of k] by (simp add: BE_Uint16_def nth_append be16_def)
  let ?m = "makeClientHelloMsg unix random sessionID data sv"
  have "\<exists>xs. drop 3 ?m = be16 (212 + length data + length sv) @ xs" "\<exists>xs. drop 7 ?m = be16 (208 + length data + length sv) @ xs"
    "\<exists>xs. drop 136 ?m = be16 (79 + length data + length sv) @ xs" "\<exists>xs. drop 140 ?m = be16 (length data) @ data @ xs"
    using assms by (simp_all add: makeClientHelloMsg_def cipher_suites_def be16_def PutUint16_def)
  moreover have "length ?m = 217 + length data + length sv"
    using assms by (simp add: makeClientHelloMsg_def cipher_suites_def)
  ultimately obtain x3 x7 x136 x140 where
    3: "drop 3 ?m = be16 (212 + length data + length sv) @ x3" and 7: "drop 7 ?m = be16 (208 + length data + length sv) @ x7" and
    136: "drop 136 ?m = be16 (79 + length data + length sv) @ x136" and 140: "drop 140 ?m = be16 (length data) @ data @ x140" and
    len: "length ?m = 217 + length data + length sv" by blast
  have "drop 142 ?m = drop 2 (drop 140 ?m)" by simp
  then have "take (length data) (drop 142 ?m) = data" unfolding 140 by simp
  then show ?thesis unfolding Let_def 3 7 136 140 using len assms(4) by (simp add: be)
qed

theorem hello_lengths_witness:
  "unat (BE_Uint16 (drop 140 (makeClientHelloMsg (replicate 4 0) (replicate 28 0) (replicate 32 0) [1, 2, 3] ''a.com''))) = 3"
  using hello_lengths [of "replicate 4 0" "replicate 28 0" "replicate 32 0" "[1, 2, 3]" "''a.com''"] by (simp add: Let_def)

text \<open>The end of the stream inside a record header is not reported.\<close>

lemma tls_length_error_lost:
  "fst (tls_Read 10 (\<lparr>server = [], to_remain = 0, firstRequest = False, firstResponse = False\<rparr>, [], \<lparr>rx = [23, 3, 3, 0], tx = [], budget = 0\<rparr>)) = Inr []"
  by (simp add: tls_Read_def tls_read_def ReadFull_def)

text \<open>A response whose header arrives in two pieces ends the HTTP stream.\<close>

lemma http_header_split:
  "fst (http_Read 10 (NewHTTPObfs, [3], \<lparr>rx = [72, 13, 10, 13, 10, 1], tx = [], budget = 0\<rparr>)) = Inl (ObfsIO EOF)"
  "fst (http_Read 10 (NewHTTPObfs, [], \<lparr>rx = [72, 13, 10, 13, 10, 1], tx = [], budget = 0\<rparr>)) = Inr [1]"
  by (simp_all add: http_Read_def NewHTTPObfs_def Read_next_def Read_def Let_def RelayBufferSize_def)

inductive mux_frames :: "byte list \<Rightarrow> byte list \<Rightarrow> bool" where
  frames_Nil: "mux_frames [] []"
| frames_Skip: "l \<le> 512 \<Longrightarrow> length i = 2 \<Longrightarrow> st = SessionStatusKeepAlive \<or> opts \<noteq> OptionData \<Longrightarrow> mux_frames enc ds \<Longrightarrow>
    mux_frames (be16 l @ i @ st # opts # enc) ds"
| frames_Data: "l \<le> 512 \<Longrightarrow> length i = 2 \<Longrightarrow> st \<noteq> SessionStatusKeepAlive \<Longrightarrow> 0 < length p \<Longrightarrow> length p < 65536 \<Longrightarrow> mux_frames enc ds \<Longrightarrow>
    mux_frames (be16 l @ i @ st # OptionData # be16 (length p) @ p @ enc) (p @ ds)"

definition mux_carries :: "Mux \<times> nat list \<times> Conn \<Rightarrow> byte list \<Rightarrow> bool" where
  "mux_carries = (\<lambda>(m, ks, c) ds. (\<forall>k \<in> set ks. 2 \<le> k) \<and> length (m_status m) = 2 \<and>
     (\<exists>pre enc rest. length pre = m_remain m \<and> rx c = pre @ enc \<and> mux_frames enc rest \<and> ds = pre @ rest))"

lemma mux_carriesI:
  "\<forall>k \<in> set ks. 2 \<le> k \<Longrightarrow> length (m_status m) = 2 \<Longrightarrow> length pre = m_remain m \<Longrightarrow> rx c = pre @ enc \<Longrightarrow> mux_frames enc rest \<Longrightarrow>
     mux_carries (m, ks, c) (pre @ rest)"
  unfolding mux_carries_def by blast

lemma tl_ge2: "\<forall>k \<in> set ks. 2 \<le> k \<Longrightarrow> \<forall>k \<in> set (tl ks). 2 \<le> (k :: nat)"
  by (cases ks) auto

lemma Read_status:
  "\<forall>k \<in> set ks. 2 \<le> k \<Longrightarrow> Read_next ObfsIO 2 (ks, \<lparr>rx = a # b # rest, tx = t, budget = k\<rparr>) = (Inr [a, b], tl ks, \<lparr>rx = rest, tx = t, budget = k\<rparr>)"
  by (cases ks) (simp_all add: Read_next_def Read_def Let_def min_def max_def)

lemma mux_header:
  assumes "\<forall>k \<in> set ks. 2 \<le> k" "length (m_status m) = 2" "l \<le> 512" "length i = 2"
  shows "mux_loop n (m, ks, \<lparr>rx = be16 l @ i @ st # opts # enc, tx = t, budget = b\<rparr>) =
    (let m2 = m\<lparr>m_id := i, m_status := [st, opts]\<rparr>; c3 = \<lparr>rx = enc, tx = t, budget = b\<rparr>
     in if st = SessionStatusKeepAlive \<or> opts \<noteq> OptionData then mux_loop n (m2, tl ks, c3)
        else case ReadFull ObfsIO 2 c3 of
            (Inl e, c4) \<Rightarrow> (Inl e, m2, tl ks, c4)
          | (Inr d, c4) \<Rightarrow>
              (let dataLen = unat (BE_Uint16 d)
               in case Read_next ObfsIO (if dataLen > n then n else dataLen) (tl ks, c4) of
                    (Inl e, ks2, c5) \<Rightarrow> (Inl e, m2\<lparr>m_remain := dataLen\<rparr>, ks2, c5)
                  | (Inr b, ks2, c5) \<Rightarrow> (Inr b, m2\<lparr>m_remain := dataLen - length b\<rparr>, ks2, c5)))"
proof -
  let ?c = "\<lparr>rx = be16 l @ i @ st # opts # enc, tx = t, budget = b\<rparr>"
  have "ReadFull ObfsIO 2 ?c = (Inr (be16 l), \<lparr>rx = i @ st # opts # enc, tx = t, budget = b\<rparr>)" by simp
  moreover have "ReadFull ObfsIO 2 \<lparr>rx = i @ st # opts # enc, tx = t, budget = b\<rparr> = (Inr i, \<lparr>rx = st # opts # enc, tx = t, budget = b\<rparr>)"
    using assms(4) by simp
  ultimately show ?thesis using assms(2,3) Read_status [OF assms(1)]
    by (subst mux_loop.simps) (simp add: Let_def)
qed

lemma mux_loop_piece:
  "mux_frames enc ds \<Longrightarrow> ds \<noteq> [] \<Longrightarrow> 1 \<le> n \<Longrightarrow> \<forall>k \<in> set ks. 2 \<le> k \<Longrightarrow> length (m_status m) = 2 \<Longrightarrow> m_remain m = 0 \<Longrightarrow>
     \<exists>bs rest s'. mux_loop n (m, ks, \<lparr>rx = enc, tx = t, budget = b\<rparr>) = (Inr bs, s') \<and> bs \<noteq> [] \<and> length bs \<le> n \<and> ds = bs @ rest \<and> mux_carries s' rest"
proof (induction arbitrary: m ks rule: mux_frames.induct)
  case (frames_Skip l i st opts enc ds)
  then show ?case using frames_Skip.IH [of "tl ks" "m\<lparr>m_id := i, m_status := [st, opts]\<rparr>"] tl_ge2 [OF frames_Skip.prems(3)]
    by (simp add: mux_header Let_def)
next
  case (frames_Data l i st p enc ds)
  let ?len = "if length p > n then n else length p" and ?c = "\<lparr>rx = p @ enc, tx = t, budget = b\<rparr>"
  let ?m2 = "m\<lparr>m_id := i, m_status := [st, OptionData]\<rparr>"
  have "rx ?c = p @ enc" "p \<noteq> []" "0 < ?len" "?len \<le> length p" using frames_Data.hyps(4) frames_Data.prems(2) by auto
  from Read_next_some [OF this, of ObfsIO "tl ks"] obtain j where j: "0 < j" "j \<le> ?len"
    "Read_next ObfsIO ?len (tl ks, ?c) = (Inr (take j p), tl (tl ks), ?c\<lparr>rx := drop j p @ enc\<rparr>)" by blast
  let ?m3 = "?m2\<lparr>m_remain := length p - length (take j p)\<rparr>"
  have "mux_loop n (m, ks, \<lparr>rx = be16 l @ i @ st # OptionData # be16 (length p) @ p @ enc, tx = t, budget = b\<rparr>) =
      (Inr (take j p), ?m3, tl (tl ks), ?c\<lparr>rx := drop j p @ enc\<rparr>)"
    using frames_Data.hyps frames_Data.prems j(3) by (simp add: mux_header Let_def)
  moreover have "mux_carries (?m3, tl (tl ks), ?c\<lparr>rx := drop j p @ enc\<rparr>) (drop j p @ ds)"
    by (rule mux_carriesI) (use tl_ge2 [OF tl_ge2 [OF frames_Data.prems(3)]] frames_Data.hyps(6) j in simp_all)
  ultimately show ?case using j frames_Data.hyps(4) by (intro exI [of _ "take j p"] exI [of _ "drop j p @ ds"]) (auto split: if_splits)
qed simp

lemma mux_loop_end:
  "mux_frames enc ds \<Longrightarrow> ds = [] \<Longrightarrow> \<forall>k \<in> set ks. 2 \<le> k \<Longrightarrow> length (m_status m) = 2 \<Longrightarrow>
     \<exists>e s'. mux_loop n (m, ks, \<lparr>rx = enc, tx = t, budget = b\<rparr>) = (Inl e, s')"
proof (induction arbitrary: m ks rule: mux_frames.induct)
  case frames_Nil
  then show ?case by (simp add: mux_loop.simps ReadFull_def)
next
  case (frames_Skip l i st opts enc ds)
  then show ?case using frames_Skip.IH [of "tl ks" "m\<lparr>m_id := i, m_status := [st, opts]\<rparr>"] tl_ge2 [OF frames_Skip.prems(2)]
    by (simp add: mux_header Let_def)
qed simp

interpretation mux_stream: stream_reader mux_Read mux_carries 1
proof
  fix s :: "Mux \<times> nat list \<times> Conn" and ds :: "byte list" and n :: nat
  obtain m ks c where s: "s = (m, ks, c)" using prod_cases3 by blast
  assume "mux_carries s ds" and ds0: "ds \<noteq> []" and n: "1 \<le> n"
  then obtain pre enc rest where ks: "\<forall>k \<in> set ks. 2 \<le> k" "length (m_status m) = 2" and pre: "length pre = m_remain m" and rx: "rx c = pre @ enc"
    and fr: "mux_frames enc rest" and ds: "ds = pre @ rest" by (auto simp: mux_carries_def s)
  show "\<exists>bs rest s'. mux_Read n s = (Inr bs, s') \<and> bs \<noteq> [] \<and> length bs \<le> n \<and> ds = bs @ rest \<and> mux_carries s' rest"
  proof (cases "m_remain m = 0")
    case False
    let ?len = "if n < m_remain m then n else m_remain m"
    have "pre \<noteq> []" "0 < ?len" "?len \<le> length pre" using pre False n by auto
    from Read_next_some [OF rx this, of ObfsIO ks] obtain j where j: "0 < j" "j \<le> ?len"
      "Read_next ObfsIO ?len (ks, c) = (Inr (take j pre), tl ks, c\<lparr>rx := drop j pre @ enc\<rparr>)" by blast
    have "mux_Read n s = (Inr (take j pre), m\<lparr>m_remain := m_remain m - length (take j pre)\<rparr>, tl ks, c\<lparr>rx := drop j pre @ enc\<rparr>)"
      using False j(3) by (simp add: mux_Read_def s)
    moreover have "mux_carries (m\<lparr>m_remain := m_remain m - length (take j pre)\<rparr>, tl ks, c\<lparr>rx := drop j pre @ enc\<rparr>) (drop j pre @ rest)"
      by (rule mux_carriesI) (use tl_ge2 [OF ks(1)] ks(2) pre fr j in \<open>auto split: if_splits\<close>)
    ultimately show ?thesis using j pre ds \<open>pre \<noteq> []\<close> by (intro exI [of _ "take j pre"] exI [of _ "drop j pre @ rest"]) (auto split: if_splits)
  next
    case True
    then have pre: "pre = []" using pre by simp
    obtain t b where c: "c = \<lparr>rx = enc, tx = t, budget = b\<rparr>" using rx pre by (cases c) auto
    show ?thesis using mux_loop_piece [OF fr _ n ks True, of t b] True ds ds0 pre by (simp add: mux_Read_def s c)
  qed
next
  fix s :: "Mux \<times> nat list \<times> Conn" and n :: nat
  assume "mux_carries s []"
  moreover obtain m ks c where s: "s = (m, ks, c)" using prod_cases3 by blast
  ultimately have 1: "m_remain m = 0" "mux_frames (rx c) []" "\<forall>k \<in> set ks. 2 \<le> k" "length (m_status m) = 2" by (auto simp: mux_carries_def)
  obtain t b where c: "c = \<lparr>rx = rx c, tx = t, budget = b\<rparr>" by (cases c) auto
  then show "\<exists>e s'. mux_Read n s = (Inl e, s')" using mux_loop_end [OF 1(2) refl 1(3,4), of n t b] 1(1) by (simp add: s mux_Read_def)
qed

lemma mux_Write_frame:
  assumes "otb m = None" "length (m_id m) = 2" "b \<noteq> []" "length b < 65536" "0 < budget c"
  shows "\<exists>enc. mux_Write b (m, c) = ((length b + 8, None), m, c\<lparr>tx := tx c @ enc, budget := budget c - 1\<rparr>) \<and> mux_frames enc b"
proof -
  let ?f = "be16 4 @ m_id m @ SessionStatusKeep # OptionData # be16 (length b) @ b"
  have "mux_frames ?f b" using frames_Data [OF _ assms(2) _ _ assms(4) frames_Nil, of 4 SessionStatusKeep] assms(3)
    by (simp add: SessionStatusKeep_def SessionStatusKeepAlive_def)
  then show ?thesis using assms by (intro exI [of _ ?f]) (simp add: mux_Write_def Write_def Let_def)
qed

text \<open>
  Data frames of the multiplexer, mixed with keep-alive and other frames without data, are read as the
  bytes they carry, in order, whatever the sizes of the read buffers, as long as both bytes of a
  status arrive together.
\<close>

theorem mux_transparent:
  assumes "mux_frames enc ds" "\<forall>k \<in> set ks. 2 \<le> k" "\<forall>n \<in> set ns. 1 \<le> n" "length ds \<le> length ns"
  shows "fst (drain mux_Read ns (NewMux op, ks, \<lparr>rx = enc, tx = [], budget = 0\<rparr>)) = ds"
proof (rule mux_stream.drain_all [OF _ assms(3,4)])
  have "mux_carries (NewMux op, ks, \<lparr>rx = enc, tx = [], budget = 0\<rparr>) ([] @ ds)"
    by (rule mux_carriesI) (use assms(1,2) in \<open>simp_all add: NewMux_def Let_def\<close>)
  then show "mux_carries (NewMux op, ks, \<lparr>rx = enc, tx = [], budget = 0\<rparr>) ds" by simp
qed

theorem mux_transparent_witness:
  "fst (drain mux_Read [1, 1] (NewMux \<lparr>mo_ID = [0, 0], mo_Port = 0, mo_Host = ''127.0.0.1'', mo_Type = []\<rparr>, [],
     \<lparr>rx = be16 4 @ [0, 0] @ [4, 0] @ be16 4 @ [0, 0] @ [2, 1] @ be16 2 @ [7, 8], tx = [], budget = 0\<rparr>)) = [7, 8]"
proof (rule mux_transparent)
  show "mux_frames (be16 4 @ [0, 0] @ [4, 0] @ be16 4 @ [0, 0] @ [2, 1] @ be16 2 @ [7, 8]) [7, 8]"
    using frames_Skip [of 4 "[0, 0]" 4 0 "be16 4 @ [0, 0] @ [2, 1] @ be16 2 @ [7, 8]"] frames_Data [OF _ _ _ _ _ frames_Nil, of 4 "[0, 0]" 2 "[7, 8]"]
    by (simp add: SessionStatusKeepAlive_def OptionData_def numeral_2_eq_2)
qed simp_all

text \<open>When only the first byte of a status has arrived, the rest of the frame is misread.\<close>

lemma mux_short_status:
  "fst (mux_Read 10 (NewMux \<lparr>mo_ID = [0, 0], mo_Port = 0, mo_Host = ''127.0.0.1'', mo_Type = []\<rparr>, [1],
     \<lparr>rx = [0, 4, 0, 0, 2, 1, 0, 1, 9], tx = [], budget = 0\<rparr>)) \<noteq> Inr [9]"
  by (simp add: mux_Read_def NewMux_def mux_loop.simps ReadFull_def Read_next_def Read_def Let_def BE_Uint16_def SessionStatusKeepAlive_def OptionData_def)

end
