(* ===== verification/Breaker.thy ===== *)
theory Breaker
  imports Proxy_Prelude
begin

text \<open>
  The circuit breaker of \<open>tunnel/connection.go\<close>: \<open>relay\<close> and \<open>handleUDPToLocal\<close> count the
  connections in an atomic variable, and turn back when there are too many. Here every goroutine
  runs on its own, one atomic step at a time, in any order: it adds one to the counter and gets the
  new value, compares that value with the limit, relays or returns, and takes one off on every way
  out.
\<close>

datatype goroutine = Arriving | Counted int | Relaying | Rejected | Returned

record breaker =
  counter :: int
  goroutines :: "goroutine list"

definition new_breaker :: "nat \<Rightarrow> breaker" where
  "new_breaker n = \<lparr>counter = 0, goroutines = replicate n Arriving\<rparr>"

inductive breaker_step :: "int \<Rightarrow> breaker \<Rightarrow> breaker \<Rightarrow> bool" for maxConns where
  enter: "breaker_step maxConns b (b\<lparr>counter := counter b + 1, goroutines := (goroutines b)[i := Counted (counter b + 1)]\<rparr>)"
    if "i < length (goroutines b)" "goroutines b ! i = Arriving"
| admit: "breaker_step maxConns b (b\<lparr>goroutines := (goroutines b)[i := Relaying]\<rparr>)"
    if "i < length (goroutines b)" "goroutines b ! i = Counted count" "\<not> count > maxConns"
| reject: "breaker_step maxConns b (b\<lparr>goroutines := (goroutines b)[i := Rejected]\<rparr>)"
    if "i < length (goroutines b)" "goroutines b ! i = Counted count" "count > maxConns"
| leave: "breaker_step maxConns b (b\<lparr>counter := counter b - 1, goroutines := (goroutines b)[i := Returned]\<rparr>)"
    if "i < length (goroutines b)" "goroutines b ! i \<in> {Relaying, Rejected}"

inductive breaker_run :: "int \<Rightarrow> breaker \<Rightarrow> breaker \<Rightarrow> bool" for maxConns where
  start: "breaker_run maxConns b b"
| step: "breaker_run maxConns b b2" if "breaker_run maxConns b b1" "breaker_step maxConns b1 b2"

inductive_cases breaker_stepE: "breaker_step maxConns b b'"

section \<open>The invariant\<close>

definition count_of :: "('a \<Rightarrow> bool) \<Rightarrow> 'a list \<Rightarrow> int" where
  "count_of P xs = int (length (filter P xs))"

lemma count_of_update:
  "i < length xs \<Longrightarrow> count_of P (xs[i := x]) = count_of P xs - of_bool (P (xs ! i)) + of_bool (P x)"
proof (induction xs arbitrary: i)
  case (Cons a xs)
  then show ?case by (cases i) (auto simp: count_of_def)
qed simp

lemma count_of_mono: "(\<And>x. P x \<Longrightarrow> Q x) \<Longrightarrow> count_of P xs \<le> count_of Q xs"
  unfolding count_of_def by (induction xs) auto

fun inside :: "goroutine \<Rightarrow> bool" where
  "inside Arriving = False"
| "inside Returned = False"
| "inside _ = True"

fun passing :: "int \<Rightarrow> goroutine \<Rightarrow> bool" where
  "passing maxConns (Counted count) = (\<not> count > maxConns)"
| "passing maxConns Relaying = True"
| "passing maxConns _ = False"

definition breaker_inv :: "int \<Rightarrow> breaker \<Rightarrow> bool" where
  "breaker_inv maxConns b \<longleftrightarrow> counter b = count_of inside (goroutines b) \<and>
     count_of (passing maxConns) (goroutines b) \<le> maxConns"

lemma passing_inside: "passing maxConns g \<Longrightarrow> inside g"
  by (cases g) auto

lemma breaker_step_inv:
  assumes "breaker_step maxConns b b'" "breaker_inv maxConns b"
  shows "breaker_inv maxConns b'"
  using assms
proof cases
  case (enter i)
  have "count_of (passing maxConns) (goroutines b) \<le> counter b"
    using assms(2) count_of_mono [of "passing maxConns" inside "goroutines b"] passing_inside
    by (simp add: breaker_inv_def)
  then show ?thesis using enter assms(2) by (auto simp: breaker_inv_def count_of_update)
qed (auto simp: breaker_inv_def count_of_update)

lemma breaker_run_inv: "breaker_run maxConns b b' \<Longrightarrow> breaker_inv maxConns b \<Longrightarrow> breaker_inv maxConns b'"
  by (induction rule: breaker_run.induct) (auto dest: breaker_step_inv)

lemma new_breaker_inv: "0 \<le> maxConns \<Longrightarrow> breaker_inv maxConns (new_breaker n)"
  by (simp add: breaker_inv_def new_breaker_def count_of_def)

lemma count_of_none: "\<forall>x \<in> set xs. \<not> P x \<Longrightarrow> count_of P xs = 0"
  by (simp add: count_of_def filter_empty_conv)

text \<open>
  C15: the circuit breaker holds under every interleaving. However many connections arrive and
  however their steps mix, never more than the limit are relayed at the same time; and the counter
  is exact: it is the number of goroutines that have entered and not yet returned, so it is back at
  zero when all have returned.
\<close>

theorem breaker_limits_relays:
  assumes "breaker_run maxConns (new_breaker n) b" "0 \<le> maxConns"
  shows "count_of (\<lambda>g. g = Relaying) (goroutines b) \<le> maxConns \<and> counter b = count_of inside (goroutines b) \<and>
    (list_all (\<lambda>g. g \<in> {Arriving, Returned}) (goroutines b) \<longrightarrow> counter b = 0)"
proof -
  have inv: "breaker_inv maxConns b" by (rule breaker_run_inv [OF assms(1) new_breaker_inv [OF assms(2)]])
  have "count_of (\<lambda>g. g = Relaying) (goroutines b) \<le> count_of (passing maxConns) (goroutines b)"
    by (rule count_of_mono) auto
  moreover have "count_of inside (goroutines b) = 0" if "list_all (\<lambda>g. g \<in> {Arriving, Returned}) (goroutines b)"
    using that by (intro count_of_none) (auto simp: list_all_iff)
  ultimately show ?thesis using inv by (auto simp: breaker_inv_def)
qed

lemma breaker_two_steps:
  "breaker_run 1 (new_breaker 2) \<lparr>counter = 2, goroutines = [Relaying, Counted 2]\<rparr>"
proof -
  have a: "breaker_run 1 (new_breaker 2) \<lparr>counter = 1, goroutines = [Counted 1, Arriving]\<rparr>"
    using breaker_run.step [OF breaker_run.start breaker_step.enter [of 0 "new_breaker 2" 1]]
    by (simp add: new_breaker_def numeral_2_eq_2)
  have b: "breaker_run 1 (new_breaker 2) \<lparr>counter = 2, goroutines = [Counted 1, Counted 2]\<rparr>"
    using breaker_run.step [OF a breaker_step.enter [of 1]] by simp
  show ?thesis using breaker_run.step [OF b breaker_step.admit [of 0 _ 1]] by simp
qed

theorem breaker_limits_relays_witness:
  "count_of (\<lambda>g. g = Relaying) [Relaying, Counted 2] \<le> 1 \<and> 2 = count_of inside [Relaying, Counted 2]"
  using breaker_limits_relays [OF breaker_two_steps] by simp

end
