(* ===== verification/Proxy_Adapter.thy ===== *)
theory Proxy_Adapter
  imports Breaker Metadata
begin

text \<open>
  \<open>adapter/adapter.go\<close>, \<open>common/queue/queue.go\<close> and the types of \<open>constant/adapters.go\<close>: an outbound
  with the history of its delays, whether it is alive, and the limit on dials while it is failing.
  Times are in nanoseconds.
\<close>

section \<open>constant/adapters.go\<close>

datatype AdapterType = AtDirect | AtReject | AtReDirect | AtShadowsocks | AtShadowsocksR | AtSnell | AtSocks5 | AtHttp
  | AtVmess | AtTrojan | AtRelay | AtSelector | AtFallback | AtURLTest | AtLoadBalance
  | AtOther int

fun AdapterType_String :: "AdapterType \<Rightarrow> string" where
  "AdapterType_String AtDirect = ''Direct''"
| "AdapterType_String AtReject = ''Reject''"
| "AdapterType_String AtShadowsocks = ''Shadowsocks''"
| "AdapterType_String AtShadowsocksR = ''ShadowsocksR''"
| "AdapterType_String AtSnell = ''Snell''"
| "AdapterType_String AtSocks5 = ''Socks5''"
| "AdapterType_String AtHttp = ''Http''"
| "AdapterType_String AtVmess = ''Vmess''"
| "AdapterType_String AtTrojan = ''Trojan''"
| "AdapterType_String AtReDirect = ''ReDirect''"
| "AdapterType_String AtRelay = ''Relay''"
| "AdapterType_String AtSelector = ''Selector''"
| "AdapterType_String AtFallback = ''Fallback''"
| "AdapterType_String AtURLTest = ''URLTest''"
| "AdapterType_String AtLoadBalance = ''LoadBalance''"
| "AdapterType_String (AtOther _) = ''Unknown''"

definition Chain_String :: "string list \<Rightarrow> string" where
  "Chain_String c =
     (case c of [] \<Rightarrow> [] | [x] \<Rightarrow> x | _ \<Rightarrow> last c @ ''['' @ hd c @ '']'')"

definition Chain_Last :: "string list \<Rightarrow> string" where
  "Chain_Last c = (case c of [] \<Rightarrow> [] | x # _ \<Rightarrow> x)"

definition DefaultTCPTimeout :: int where
  "DefaultTCPTimeout = 5 * 1000000000"

section \<open>Queue\<close>

record 'a Queue =
  items :: "'a list"

definition queue_New :: "'a Queue" where
  "queue_New = \<lparr>items = []\<rparr>"

definition Put :: "'a list \<Rightarrow> 'a Queue \<Rightarrow> 'a Queue" where
  "Put xs q = (if length xs = 0 then q else q\<lparr>items := items q @ xs\<rparr>)"

definition Pop :: "'a Queue \<Rightarrow> 'a option \<times> 'a Queue" where
  "Pop q = (case items q of [] \<Rightarrow> (None, q) | head # rest \<Rightarrow> (Some head, q\<lparr>items := rest\<rparr>))"

definition queue_Last :: "'a Queue \<Rightarrow> 'a option" where
  "queue_Last q = (if length (items q) = 0 then None else Some (last (items q)))"

definition queue_Copy :: "'a Queue \<Rightarrow> 'a list" where
  "queue_Copy q = items q"

definition Len :: "'a Queue \<Rightarrow> int" where
  "Len q = int (length (items q))"

text \<open>
  \<open>Pop\<close> reads the length before it takes the lock, so two goroutines can mix: the check of one, the
  removal of the other.
\<close>

definition pop_check :: "'a Queue \<Rightarrow> bool" where
  "pop_check q \<longleftrightarrow> length (items q) \<noteq> 0"

definition pop_take :: "'a Queue \<Rightarrow> panic + 'a \<times> 'a Queue" where
  "pop_take q = (case items q of [] \<Rightarrow> Inl IndexOutOfRange | head # rest \<Rightarrow> Inr (head, q\<lparr>items := rest\<rparr>))"

lemma Pop_steps:
  "Pop q = (if pop_check q then (case pop_take q of Inr (x, q') \<Rightarrow> (Some x, q') | Inl _ \<Rightarrow> (None, q)) else (None, q))"
  by (simp add: Pop_def pop_check_def pop_take_def split: list.split)

lemma Pop_race:
  "items q = [x] \<Longrightarrow> pop_check q \<and> pop_take q = Inr (x, q\<lparr>items := []\<rparr>) \<and> pop_take (q\<lparr>items := []\<rparr>) = Inl IndexOutOfRange"
  by (simp add: pop_check_def pop_take_def)

section \<open>Proxy\<close>

record DelayHistory =
  Time :: int
  Delay :: uint16

record Proxy =
  history :: "DelayHistory Queue"
  alive :: bool
  lastSuccessTime :: int
  sem :: nat

definition NewProxy :: "int \<Rightarrow> Proxy" where
  "NewProxy nano = \<lparr>history = queue_New, alive = True, lastSuccessTime = nano, sem = 0\<rparr>"

definition sem_cap :: nat where "sem_cap = 3"

text \<open>
  \<open>DialContext\<close> in two steps, around the dial of the wrapped adapter: \<open>dial_begin\<close> gives no token
  (\<open>Some False\<close>), a token (\<open>Some True\<close>), or the error \<open>ErrRateLimit\<close> (\<open>None\<close>); \<open>dial_end\<close> records
  the result and gives the token back.
\<close>

definition dial_begin :: "int \<Rightarrow> Proxy \<Rightarrow> bool option \<times> Proxy" where
  "dial_begin nano p =
     (let isFailingStrictly = nano - lastSuccessTime p > DefaultTCPTimeout
      in if isFailingStrictly then
           (if sem p < sem_cap then (Some True, p\<lparr>sem := sem p + 1\<rparr>) else (None, p))
         else (Some False, p))"

definition dial_end :: "int \<Rightarrow> bool \<Rightarrow> bool \<Rightarrow> Proxy \<Rightarrow> Proxy" where
  "dial_end nano token ok p =
     (let p1 = (if ok then p\<lparr>alive := True, lastSuccessTime := nano\<rparr> else p\<lparr>alive := False\<rparr>)
      in if token then p1\<lparr>sem := sem p1 - 1\<rparr> else p1)"

datatype 'e dial_error = ErrRateLimit | ErrDial 'e

definition DialContext :: "int \<Rightarrow> int \<Rightarrow> 'e + 'c \<Rightarrow> Proxy \<Rightarrow> ('e dial_error + 'c) \<times> Proxy" where
  "DialContext nano nano' result p =
     (case dial_begin nano p of
        (None, p1) \<Rightarrow> (Inl ErrRateLimit, p1)
      | (Some token, p1) \<Rightarrow>
          (case result of
             Inl e \<Rightarrow> (Inl (ErrDial e), dial_end nano' token False p1)
           | Inr c \<Rightarrow> (Inr c, dial_end nano' token True p1)))"

definition LastDelay :: "Proxy \<Rightarrow> uint16" where
  "LastDelay p =
     (if \<not> alive p then 65535
      else case queue_Last (history p) of
             None \<Rightarrow> 65535
           | Some h \<Rightarrow> if Delay h = 0 then 65535 else Delay h)"

definition Proxy_DelayHistory :: "Proxy \<Rightarrow> DelayHistory list" where
  "Proxy_DelayHistory p = queue_Copy (history p)"

text \<open>The parts of a parsed URL that the test uses.\<close>

record URL =
  Scheme :: string
  Hostname :: string
  URL_Port :: string

datatype url_error = ErrURLParse | ErrScheme | ErrAllProbes | ErrDialFailed | ErrRequest

definition urlToMetadata :: "URL option \<Rightarrow> url_error + Metadata" where
  "urlToMetadata parsed =
     (case parsed of
        None \<Rightarrow> Inl ErrURLParse
      | Some u \<Rightarrow>
          let md = \<lambda>port. \<lparr>NetWork = 0, Type = 0, SrcIP = [], DstIP = [], SrcPort = [], DstPort = port,
                           AddrType = AtypDomainName, Host = Hostname u\<rparr>
          in if URL_Port u \<noteq> [] then Inr (md (URL_Port u))
             else if Scheme u = ''https'' then Inr (md ''443'')
             else if Scheme u = ''http'' then Inr (md ''80'')
             else Inl ErrScheme)"

text \<open>
  \<open>URLTest\<close>: three requests over the proxy. The HTTP client dials through \<open>p.DialContext\<close> as often as
  it needs a connection (\<open>dials\<close>); of the request matters whether it succeeded and the delay in
  milliseconds between writing it and the first byte, when both were seen (\<open>outcome\<close>). The first
  request is left out of the average. \<open>record_test\<close> is the deferred function.
\<close>

datatype outcome = ProbeFailed | ProbeOk "int option"

record 'e probe =
  dials :: "(int \<times> int \<times> ('e + unit)) list"
  probe_outcome :: outcome

definition run_dials :: "(int \<times> int \<times> ('e + unit)) list \<Rightarrow> Proxy \<Rightarrow> Proxy" where
  "run_dials ds p = fold (\<lambda>(nano, nano', result) p. snd (DialContext nano nano' result p)) ds p"

fun probe_loop :: "nat \<Rightarrow> 'e probe list \<Rightarrow> int \<times> int \<times> Proxy \<Rightarrow> int \<times> int \<times> Proxy" where
  "probe_loop i [] acc = acc"
| "probe_loop i (pr # prs) (totalDelay, validCount, p) =
     (let p1 = run_dials (dials pr) p
      in case probe_outcome pr of
           ProbeOk (Some delay) \<Rightarrow>
             if i > 0 \<and> delay > 0 then probe_loop (i + 1) prs (totalDelay + delay, validCount + 1, p1)
             else probe_loop (i + 1) prs (totalDelay, validCount, p1)
         | _ \<Rightarrow> probe_loop (i + 1) prs (totalDelay, validCount, p1))"

definition record_test :: "int \<Rightarrow> url_error + uint16 \<Rightarrow> Proxy \<Rightarrow> Proxy" where
  "record_test nano result p =
     (let p1 = p\<lparr>alive := (case result of Inr _ \<Rightarrow> True | Inl _ \<Rightarrow> False)\<rparr>;
          r = \<lparr>Time = nano, Delay = (case result of Inr t \<Rightarrow> t | Inl _ \<Rightarrow> 0)\<rparr>;
          h = Put [r] (history p1)
      in p1\<lparr>history := (if Len h > 10 then snd (Pop h) else h)\<rparr>)"

definition URLTest :: "int \<Rightarrow> URL option \<Rightarrow> 'e probe \<times> 'e probe \<times> 'e probe \<Rightarrow> Proxy \<Rightarrow> (url_error + uint16) \<times> Proxy" where
  "URLTest nano parsed probes p =
     (case urlToMetadata parsed of
        Inl e \<Rightarrow> (Inl e, record_test nano (Inl e) p)
      | Inr _ \<Rightarrow>
          let (r0, r1, r2) = probes;
              (totalDelay, validCount, p1) = probe_loop 0 [r0, r1, r2] (0, 0, p);
              result = (if validCount = 0 then Inl ErrAllProbes else Inr (word_of_int (totalDelay div validCount)))
          in (result, record_test nano result p1))"

text \<open>
  \<open>URLTestOrg\<close>, the older test: one dial and one request, of which \<open>elapsed\<close> is the whole duration
  in milliseconds.
\<close>

datatype 'e one_request = RequestInvalid | RequestFailed | RequestOk int

definition URLTestOrg :: "int \<Rightarrow> URL option \<Rightarrow> int \<times> int \<times> ('e + unit) \<Rightarrow> 'e one_request \<Rightarrow> Proxy \<Rightarrow> (url_error + uint16) \<times> Proxy" where
  "URLTestOrg nano parsed dial req p =
     (case urlToMetadata parsed of
        Inl e \<Rightarrow> (Inl e, record_test nano (Inl e) p)
      | Inr _ \<Rightarrow>
          let (start, done, conn) = dial; (dialed, p1) = DialContext start done conn p;
              result =
                (case dialed of
                   Inl _ \<Rightarrow> Inl ErrDialFailed
                 | Inr _ \<Rightarrow>
                     (case req of
                        RequestInvalid \<Rightarrow> Inl ErrRequest
                      | RequestFailed \<Rightarrow> Inl ErrRequest
                      | RequestOk elapsed \<Rightarrow> Inr (word_of_int elapsed)))
          in (result, record_test nano result p1))"

section \<open>Facts\<close>

definition run_tests :: "(int \<times> URL option \<times> 'e probe \<times> 'e probe \<times> 'e probe) list \<Rightarrow> Proxy \<Rightarrow> Proxy" where
  "run_tests ts p = fold (\<lambda>(nano, parsed, probes) p. snd (URLTest nano parsed probes p)) ts p"

abbreviation shown :: "int \<Rightarrow> url_error + uint16 \<Rightarrow> DelayHistory" where
  "shown nano result \<equiv> \<lparr>Time = nano, Delay = (case result of Inr t \<Rightarrow> t | Inl _ \<Rightarrow> 0)\<rparr>"

lemma run_dials_history [simp]: "history (run_dials ds p) = history p"
  unfolding run_dials_def
  by (induction ds arbitrary: p)
    (auto simp: DialContext_def dial_begin_def dial_end_def Let_def split: sum.split)

lemma probe_loop_history [simp]: "history (snd (snd (probe_loop i prs (a, b, p)))) = history p"
  by (induction i prs "(a, b, p)" arbitrary: a b p rule: probe_loop.induct)
    (auto simp: Let_def split: outcome.split option.split)

lemma record_test_history:
  "items (history (record_test nano result p)) =
     (let h = items (history p) @ [shown nano result] in if length h > 10 then tl h else h)"
  by (auto simp: record_test_def Put_def Len_def Pop_def Let_def split: list.split)

lemma URLTest_record:
  assumes "URLTest nano parsed probes p = (result, p')"
  obtains p1 where "history p1 = history p" "p' = record_test nano result p1"
proof (cases "urlToMetadata parsed")
  case (Inl e)
  with assms that [of p] show ?thesis by (auto simp: URLTest_def)
next
  case (Inr md)
  obtain r0 r1 r2 where pr: "probes = (r0, r1, r2)" by (cases probes)
  obtain a b p1 where l: "probe_loop 0 [r0, r1, r2] (0, 0, p) = (a, b, p1)" by (cases "probe_loop 0 [r0, r1, r2] (0, 0, p)")
  have "history p1 = history p" using probe_loop_history [of 0 "[r0, r1, r2]" 0 0 p] by (simp only: l snd_conv)
  with assms Inr pr l show ?thesis by (intro that [of p1]) (auto simp add: URLTest_def Let_def simp del: probe_loop.simps)
qed

lemma run_tests_bounded: "length (items (history p)) \<le> 10 \<Longrightarrow> length (items (history (run_tests ts p))) \<le> 10"
  unfolding run_tests_def
proof (induction ts arbitrary: p)
  case (Cons t ts)
  obtain nano parsed probes where t: "t = (nano, parsed, probes)" by (cases t)
  obtain result p' where u: "URLTest nano parsed probes p = (result, p')" by (cases "URLTest nano parsed probes p")
  obtain p1 where "history p1 = history p" "p' = record_test nano result p1" by (rule URLTest_record [OF u])
  then have "length (items (history p')) \<le> 10" using Cons.prems by (simp add: record_test_history Let_def)
  with Cons.IH show ?case by (simp add: t u)
qed simp

text \<open>
  C31: the delay a proxy shows is that of its last test. A successful test with a delay other than
  zero makes \<open>LastDelay\<close> return that delay, a failed one makes it return the largest value and the
  proxy dead; and however many tests were made, ten at most are remembered, the last ones, in order.
\<close>


theorem url_test_delay:
  assumes "URLTest nano parsed probes (run_tests ts (NewProxy nano0)) = (result, p)"
  shows "(case result of
      Inr t \<Rightarrow> alive p \<and> LastDelay p = (if t = 0 then 65535 else t)
    | Inl e \<Rightarrow> \<not> alive p \<and> LastDelay p = 65535) \<and>
    Proxy_DelayHistory p =
      (let h = Proxy_DelayHistory (run_tests ts (NewProxy nano0)) @ [shown nano result] in if length h > 10 then tl h else h) \<and>
    length (Proxy_DelayHistory p) \<le> 10"
proof -
  let ?q = "run_tests ts (NewProxy nano0)"
  obtain p1 where h: "history p1 = history ?q" and p: "p = record_test nano result p1" by (rule URLTest_record [OF assms])
  have len: "length (items (history ?q)) \<le> 10" by (rule run_tests_bounded) (simp add: NewProxy_def queue_New_def)
  have hist: "items (history p) = (let h = items (history ?q) @ [shown nano result] in if length h > 10 then tl h else h)"
    by (simp add: p record_test_history h)
  have al: "alive p = (case result of Inr _ \<Rightarrow> True | Inl _ \<Rightarrow> False)"
    by (simp add: p record_test_def Let_def)
  have "queue_Last (history p) = Some (shown nano result)"
    unfolding queue_Last_def hist by (cases "items (history ?q)") (auto simp: Let_def)
  with al hist len show ?thesis
    by (auto simp: LastDelay_def Proxy_DelayHistory_def queue_Copy_def Let_def split: sum.split)
qed

theorem url_test_delay_witness:
  "let pr = \<lparr>dials = [(0 :: int, 1 :: int, Inr ())], probe_outcome = ProbeOk (Some 40)\<rparr> :: unit probe;
       failed = \<lparr>dials = [], probe_outcome = ProbeFailed\<rparr>;
       u = Some \<lparr>Scheme = ''http'', Hostname = ''a'', URL_Port = []\<rparr>
   in LastDelay (snd (URLTest 9 u (pr, failed, pr) (run_tests [(5, u, failed, failed, failed)] (NewProxy 0)))) = 40"
proof -
  let ?pr = "\<lparr>dials = [(0 :: int, 1 :: int, Inr ())], probe_outcome = ProbeOk (Some 40)\<rparr> :: unit probe"
  let ?f = "\<lparr>dials = [], probe_outcome = ProbeFailed\<rparr> :: unit probe"
  let ?u = "Some \<lparr>Scheme = ''http'', Hostname = ''a'', URL_Port = []\<rparr>"
  let ?q = "run_tests [(5, ?u, ?f, ?f, ?f)] (NewProxy 0)"
  obtain r p where u: "URLTest 9 ?u (?pr, ?f, ?pr) ?q = (r, p)" by (cases "URLTest 9 ?u (?pr, ?f, ?pr) ?q")
  moreover have "fst (URLTest 9 ?u (?pr, ?f, ?pr) ?q) = Inr 40"
    by (simp add: URLTest_def urlToMetadata_def Let_def split: prod.split)
  ultimately have "r = Inr 40" by simp
  with url_test_delay [OF u] show ?thesis by (simp add: Let_def u)
qed

section \<open>The limit on dials under every interleaving\<close>

text \<open>
  Many goroutines dial over one proxy: each begins at its time, and ends with its result at a later
  step. \<open>Failing\<close> dials hold a token.
\<close>

datatype dialer = DialWaiting | DialRunning bool | DialLimited | DialDone

record dialing =
  dproxy :: Proxy
  dialers :: "dialer list"

inductive dial_step :: "dialing \<Rightarrow> dialing \<Rightarrow> bool" where
  begin_ok: "dial_step d (d\<lparr>dproxy := p, dialers := (dialers d)[i := DialRunning token]\<rparr>)"
    if "i < length (dialers d)" "dialers d ! i = DialWaiting" "dial_begin nano (dproxy d) = (Some token, p)"
| begin_limited: "dial_step d (d\<lparr>dproxy := p, dialers := (dialers d)[i := DialLimited]\<rparr>)"
    if "i < length (dialers d)" "dialers d ! i = DialWaiting" "dial_begin nano (dproxy d) = (None, p)"
| finish: "dial_step d (d\<lparr>dproxy := dial_end nano token ok (dproxy d), dialers := (dialers d)[i := DialDone]\<rparr>)"
    if "i < length (dialers d)" "dialers d ! i = DialRunning token"

definition dial_inv :: "dialing \<Rightarrow> bool" where
  "dial_inv d \<longleftrightarrow> int (sem (dproxy d)) = count_of (\<lambda>g. g = DialRunning True) (dialers d) \<and> sem (dproxy d) \<le> sem_cap"

lemma count_of_pos: "i < length xs \<Longrightarrow> P (xs ! i) \<Longrightarrow> 0 < count_of P xs"
proof (induction xs arbitrary: i)
  case (Cons a xs)
  then show ?case by (cases i) (auto simp: count_of_def)
qed simp

lemma dial_step_inv: "dial_step d d' \<Longrightarrow> dial_inv d \<Longrightarrow> dial_inv d'"
proof (induction rule: dial_step.induct)
  case (begin_ok i d nano token p)
  then show ?case
    by (auto simp: dial_inv_def dial_begin_def Let_def count_of_update split: if_splits)
next
  case (begin_limited i d nano p)
  then show ?case
    by (auto simp: dial_inv_def dial_begin_def Let_def count_of_update split: if_splits)
next
  case (finish i d token nano ok)
  then show ?case
    using count_of_pos [of i "dialers d" "\<lambda>g. g = DialRunning True"]
    by (auto simp: dial_inv_def dial_end_def Let_def count_of_update split: if_splits)
qed

lemma dial_steps_inv: "dial_step\<^sup>*\<^sup>* d d' \<Longrightarrow> dial_inv d \<Longrightarrow> dial_inv d'"
  by (induction rule: rtranclp_induct) (auto dest: dial_step_inv)

text \<open>
  C32: the limit on a failing proxy holds under every interleaving. However many connections dial
  over a proxy and in whatever order they begin and end, at most three of those that began while it
  was failing are dialling at the same time, and the semaphore counts exactly these: when none is
  dialling any more it is empty, so no token is lost on any way out.
\<close>

theorem dial_rate_limit:
  assumes "dial_step\<^sup>*\<^sup>* \<lparr>dproxy = NewProxy nano, dialers = replicate n DialWaiting\<rparr> d"
  shows "int (sem (dproxy d)) = count_of (\<lambda>g. g = DialRunning True) (dialers d) \<and>
    count_of (\<lambda>g. g = DialRunning True) (dialers d) \<le> 3 \<and>
    (list_all (\<lambda>g. \<not> (\<exists>token. g = DialRunning token)) (dialers d) \<longrightarrow> sem (dproxy d) = 0)"
proof -
  have "dial_inv d"
    by (rule dial_steps_inv [OF assms]) (simp add: dial_inv_def NewProxy_def count_of_def sem_cap_def)
  moreover have "count_of (\<lambda>g. g = DialRunning True) (dialers d) = 0"
    if "list_all (\<lambda>g. \<not> (\<exists>token. g = DialRunning token)) (dialers d)"
    using that by (intro count_of_none) (auto simp: list_all_iff)
  ultimately show ?thesis by (auto simp: dial_inv_def sem_cap_def)
qed

theorem dial_rate_limit_witness:
  "\<exists>d :: dialing. dialers d = [DialRunning True, DialWaiting] \<and> sem (dproxy d) = 1 \<and>
     count_of (\<lambda>g. g = DialRunning True) (dialers d) \<le> 3"
proof -
  let ?d = "\<lparr>dproxy = NewProxy 0, dialers = [DialWaiting, DialWaiting]\<rparr>"
  have "dial_begin 6000000000 (NewProxy 0) = (Some True, (NewProxy 0)\<lparr>sem := 1\<rparr>)"
    by (simp add: dial_begin_def NewProxy_def DefaultTCPTimeout_def sem_cap_def)
  then have "dial_step ?d (?d\<lparr>dproxy := (NewProxy 0)\<lparr>sem := 1\<rparr>, dialers := (dialers ?d)[0 := DialRunning True]\<rparr>)"
    by (intro dial_step.begin_ok [where nano = 6000000000]) auto
  then have "dial_step\<^sup>*\<^sup>* \<lparr>dproxy = NewProxy 0, dialers = replicate 2 DialWaiting\<rparr>
      \<lparr>dproxy = (NewProxy 0)\<lparr>sem := 1\<rparr>, dialers = [DialRunning True, DialWaiting]\<rparr>"
    by (simp add: numeral_2_eq_2)
  from dial_rate_limit [OF this]
  show ?thesis by (intro exI [of _ "\<lparr>dproxy = (NewProxy 0)\<lparr>sem := 1\<rparr>, dialers = [DialRunning True, DialWaiting]\<rparr>"]) simp
qed

end
