(* ===== verification/Hashing.thy ===== *)
theory Hashing
  imports Proxy_Prelude Complex_Main "HOL-Library.Log_Nat"
begin

text \<open>
  The two hashes of the load balancing group: \<open>common/murmur3\<close> and \<open>jumpHash\<close> of
  \<open>adapter/outboundgroup/loadbalance.go\<close>.
\<close>

section \<open>murmur3\<close>

definition c1_32 :: uint32 where "c1_32 = 0xcc9e2d51"
definition c2_32 :: uint32 where "c2_32 = 0x1b873593"

definition RotateLeft32 :: "uint32 \<Rightarrow> nat \<Rightarrow> uint32" where
  "RotateLeft32 x k = word_rotl k x"

text \<open>The four bytes read as one \<open>uint32\<close>, on a little-endian machine.\<close>

definition load32 :: "byte \<Rightarrow> byte \<Rightarrow> byte \<Rightarrow> byte \<Rightarrow> uint32" where
  "load32 a b c d = ucast a OR push_bit 8 (ucast b) OR push_bit 16 (ucast c) OR push_bit 24 (ucast d)"

definition mix_k1 :: "uint32 \<Rightarrow> uint32" where
  "mix_k1 k1 = RotateLeft32 (k1 * c1_32) 15 * c2_32"

definition mix_h1 :: "uint32 \<Rightarrow> uint32 \<Rightarrow> uint32" where
  "mix_h1 h1 k1 = (let h = RotateLeft32 (h1 XOR mix_k1 k1) 13 in h * 4 + h + 0xe6546b64)"

fun mix_blocks :: "uint32 \<Rightarrow> byte list \<Rightarrow> uint32 \<times> byte list" where
  "mix_blocks h1 (a # b # c # d # p) = mix_blocks (mix_h1 h1 (load32 a b c d)) p"
| "mix_blocks h1 p = (h1, p)"

definition mix_tail :: "uint32 \<Rightarrow> byte list \<Rightarrow> uint32" where
  "mix_tail h1 tail =
     (if length tail mod 4 = 3 then h1 XOR mix_k1 ((push_bit 16 (ucast (tail ! 2)) XOR push_bit 8 (ucast (tail ! 1))) XOR ucast (tail ! 0))
      else if length tail mod 4 = 2 then h1 XOR mix_k1 (push_bit 8 (ucast (tail ! 1)) XOR ucast (tail ! 0))
      else if length tail mod 4 = 1 then h1 XOR mix_k1 (ucast (tail ! 0))
      else h1)"

definition fmix :: "uint32 \<Rightarrow> uint32" where
  "fmix h =
     (let h = h XOR drop_bit 16 h; h = h * 0x85ebca6b; h = h XOR drop_bit 13 h;
          h = h * 0xc2b2ae35
      in h XOR drop_bit 16 h)"

definition Sum32WithSeed :: "byte list \<Rightarrow> uint32 \<Rightarrow> uint32" where
  "Sum32WithSeed data seed =
     (let (h1, tail) = mix_blocks seed data in fmix (mix_tail h1 tail XOR of_nat (length data)))"

definition Sum32 :: "byte list \<Rightarrow> uint32" where
  "Sum32 data = Sum32WithSeed data 0"

record digest32 =
  clen :: nat
  dtail :: "byte list"
  seed :: uint32
  h1 :: uint32

definition digest_Size :: nat where "digest_Size = 4"

definition digest_reset :: "digest32 \<Rightarrow> digest32" where
  "digest_reset d = d\<lparr>h1 := seed d\<rparr>"

definition digest_Reset :: "digest32 \<Rightarrow> digest32" where
  "digest_Reset d = digest_reset (d\<lparr>clen := 0, dtail := []\<rparr>)"

definition New32WithSeed :: "uint32 \<Rightarrow> digest32" where
  "New32WithSeed s = digest_Reset \<lparr>clen = 0, dtail = [], seed = s, h1 = 0\<rparr>"

definition bmix :: "byte list \<Rightarrow> digest32 \<Rightarrow> byte list \<times> digest32" where
  "bmix p d = (let (h, tail) = mix_blocks (h1 d) p in (tail, d\<lparr>h1 := h\<rparr>))"

definition digest_Write :: "byte list \<Rightarrow> digest32 \<Rightarrow> digest32" where
  "digest_Write p d0 =
     (let d = d0\<lparr>clen := clen d0 + length p\<rparr>;
          (p, d) =
            (if length (dtail d) > 0 then
               (let nfree = digest_Size - length (dtail d)
                in if nfree < length p then
                     (let block = dtail d @ take nfree p; (_, d) = bmix block d in (drop nfree p, d))
                   else (dtail d @ p, d))
             else (p, d));
          (tail, d) = bmix p d
      in d\<lparr>dtail := tail\<rparr>)"

definition digest_Sum32 :: "digest32 \<Rightarrow> uint32" where
  "digest_Sum32 d = fmix (mix_tail (h1 d) (dtail d) XOR of_nat (clen d))"

definition digest_Sum :: "byte list \<Rightarrow> digest32 \<Rightarrow> byte list" where
  "digest_Sum b d =
     (let h = digest_Sum32 d
      in b @ [ucast (drop_bit 24 h), ucast (drop_bit 16 h), ucast (drop_bit 8 h), ucast h])"

lemma mix_blocks_append:
  "mix_blocks h (xs @ ys) = (let (h', t) = mix_blocks h xs in mix_blocks h' (t @ ys))"
  by (induction h xs rule: mix_blocks.induct) auto

lemma mix_blocks_tail: "mix_blocks h xs = (h', t) \<Longrightarrow> length t < 4"
  by (induction h xs rule: mix_blocks.induct) auto

lemma mix_blocks_exact: "length xs = 4 \<Longrightarrow> snd (mix_blocks h xs) = []"
  by (cases "(h, xs)" rule: mix_blocks.cases) auto

definition digest_of :: "uint32 \<Rightarrow> byte list \<Rightarrow> digest32 \<Rightarrow> bool" where
  "digest_of s data d \<longleftrightarrow> mix_blocks s data = (h1 d, dtail d) \<and> clen d = length data"

lemma digest_of_New: "digest_of s [] (New32WithSeed s)"
  by (simp add: digest_of_def New32WithSeed_def digest_Reset_def digest_reset_def)

lemma digest_of_Write:
  assumes "digest_of s data d"
  shows "digest_of s (data @ p) (digest_Write p d)"
proof -
  have app: "mix_blocks s (data @ p) = mix_blocks (h1 d) (dtail d @ p)"
    using assms mix_blocks_append [of s data p] by (simp add: digest_of_def)
  have t: "length (dtail d) < 4" using assms mix_blocks_tail [of s data "h1 d" "dtail d"] by (simp add: digest_of_def)
  have clen: "clen d = length data" using assms by (simp add: digest_of_def)
  let ?n = "4 - length (dtail d)"
  consider "dtail d = []" | "dtail d \<noteq> []" "\<not> ?n < length p" | "dtail d \<noteq> []" "?n < length p" by blast
  then show ?thesis
  proof cases
    case 3
    obtain h t where h: "mix_blocks (h1 d) (dtail d @ take ?n p) = (h, t)" by (cases "mix_blocks (h1 d) (dtail d @ take ?n p)")
    have "t = []" using t 3 mix_blocks_exact [of "dtail d @ take ?n p" "h1 d"] h by simp
    then have split: "mix_blocks (h1 d) (dtail d @ p) = mix_blocks h (drop ?n p)"
      using mix_blocks_append [of "h1 d" "dtail d @ take ?n p" "drop ?n p"] h by simp
    obtain h' t' where h': "mix_blocks h (drop ?n p) = (h', t')" by (cases "mix_blocks h (drop ?n p)")
    from 3 show ?thesis
      by (simp add: digest_of_def digest_Write_def bmix_def digest_Size_def Let_def app split h h' clen)
  next
    case 1
    obtain h' t' where h': "mix_blocks (h1 d) p = (h', t')" by (cases "mix_blocks (h1 d) p")
    with 1 show ?thesis by (simp add: digest_of_def digest_Write_def bmix_def Let_def app clen)
  next
    case 2
    obtain h' t' where h': "mix_blocks (h1 d) (dtail d @ p) = (h', t')" by (cases "mix_blocks (h1 d) (dtail d @ p)")
    with 2 show ?thesis by (simp add: digest_of_def digest_Write_def bmix_def digest_Size_def Let_def app clen)
  qed
qed

lemma digest_of_writes: "digest_of s data d \<Longrightarrow> digest_of s (data @ concat ps) (fold digest_Write ps d)"
proof (induction ps arbitrary: data d)
  case (Cons p ps)
  then show ?case using Cons.IH [OF digest_of_Write [OF Cons.prems, of p]] by simp
qed simp

text \<open>
  C33: hashing in pieces gives the hash of the whole. However the input is cut into the slices that
  are written one after the other, the digest is what \<open>Sum32WithSeed\<close> computes of the concatenation.
\<close>

theorem murmur_streaming:
  "digest_Sum32 (fold digest_Write ps (New32WithSeed s)) = Sum32WithSeed (concat ps) s"
  using digest_of_writes [OF digest_of_New, of s ps]
  by (simp add: digest_of_def digest_Sum32_def Sum32WithSeed_def)

section \<open>jumpHash\<close>

text \<open>
  \<open>float64\<close> rounds a rational number of at least one to the nearest number with 53 significant
  bits, ties to the even one, as IEEE 754 arithmetic does.
\<close>

definition round_half_even :: "rat \<Rightarrow> int" where
  "round_half_even x =
     (let f = \<lfloor>x\<rfloor>; d = x - of_int f
      in if d < 1 / 2 then f else if d > 1 / 2 then f + 1 else if even f then f else f + 1)"

definition float_round :: "nat \<Rightarrow> rat \<Rightarrow> rat" where
  "float_round prec r = (let u = 2 ^ prec / 2 ^ floorlog 2 (nat \<lfloor>r\<rfloor>) in of_int (round_half_even (r * u)) / u)"

definition float64 :: "rat \<Rightarrow> rat" where
  "float64 r = float_round 53 r"

definition jump_next :: "uint64 \<Rightarrow> nat \<Rightarrow> nat" where
  "jump_next key b =
     nat \<lfloor>float64 (float64 (of_nat (b + 1)) * float64 (2 ^ 31 / float64 (of_nat (unat (drop_bit 33 key) + 1))))\<rfloor>"

lemma round_half_even_ge:
  assumes "of_int n \<le> x"
  shows "n \<le> round_half_even x"
proof -
  have "n \<le> \<lfloor>x\<rfloor>" using assms by (simp add: le_floor_iff)
  then show ?thesis by (simp add: round_half_even_def Let_def)
qed

lemma round_half_even_int [simp]: "round_half_even (of_int n) = n"
  by (simp add: round_half_even_def)

lemma floorlog_floor:
  assumes "1 \<le> (r :: rat)"
  obtains l where "floorlog 2 (nat \<lfloor>r\<rfloor>) = Suc l" "2 ^ l \<le> r" "r < 2 ^ Suc l"
proof -
  let ?n = "nat \<lfloor>r\<rfloor>"
  have pos: "0 < ?n" using assms by simp
  obtain l where l: "floorlog 2 ?n = Suc l" using pos by (cases "floorlog 2 ?n") (auto simp: floorlog_def)
  from floorlog_bounds [OF pos, of 2] have b: "2 ^ l \<le> ?n" "?n < 2 ^ Suc l" by (simp_all add: l)
  have "(2 :: int) ^ l \<le> \<lfloor>r\<rfloor>" using b(1) assms by (simp add: le_nat_iff)
  then have "2 ^ l \<le> r" by (simp add: le_floor_iff)
  moreover have "\<lfloor>r\<rfloor> < 2 ^ Suc l" using b(2) assms by (simp add: nat_less_iff)
  then have "r < 2 ^ Suc l" by (simp add: floor_less_iff)
  ultimately show ?thesis using that l by blast
qed

text \<open>Rounding does not go below a whole number that has the precision.\<close>

lemma float_round_ge:
  assumes n: "of_nat n \<le> r" "1 \<le> n" "n < 2 ^ prec" and prec: "0 < prec"
  shows "of_nat n \<le> float_round prec r"
proof -
  have "(1 :: rat) \<le> of_nat n" using n(2) by simp
  with n(1) have "1 \<le> r" by linarith
  then obtain l where l: "floorlog 2 (nat \<lfloor>r\<rfloor>) = Suc l" "2 ^ l \<le> r" by (rule floorlog_floor)
  define u :: rat where "u = 2 ^ prec / 2 ^ Suc l"
  have u: "0 < u" by (simp add: u_def)
  have f: "float_round prec r = of_int (round_half_even (r * u)) / u" by (simp add: float_round_def l u_def)
  show ?thesis
  proof (cases "Suc l \<le> prec")
    case True
    have "(2 :: rat) ^ prec = 2 ^ Suc l * 2 ^ (prec - Suc l)"
      by (simp only: power_add [symmetric] le_add_diff_inverse [OF True])
    then have u': "u = of_int (2 ^ (prec - Suc l))" by (simp only: u_def nonzero_mult_div_cancel_left power_not_zero of_int_power of_int_numeral) simp
    then have "of_int (int n * 2 ^ (prec - Suc l)) \<le> r * u" using n(1) by (simp add: mult_right_mono)
    from round_half_even_ge [OF this] have "of_int (int n * 2 ^ (prec - Suc l)) \<le> (of_int (round_half_even (r * u)) :: rat)"
      by (simp only: of_int_le_iff)
    then have "of_nat n * u \<le> of_int (round_half_even (r * u))" by (simp add: u')
    then show ?thesis using u by (simp add: f field_simps)
  next
    case False
    obtain q where q: "prec = Suc q" using prec by (cases prec) auto
    have "of_int (2 ^ q) \<le> r * u" using l(2) by (simp add: u_def q field_simps)
    from round_half_even_ge [OF this] have "(of_int (2 ^ q) :: rat) \<le> of_int (round_half_even (r * u))"
      by (simp only: of_int_le_iff)
    then have "of_int (2 ^ q) / u \<le> float_round prec r" using u by (simp add: f divide_right_mono)
    moreover have "of_int (2 ^ q) / u = 2 ^ l" by (simp add: u_def q)
    moreover have "n \<le> 2 ^ l" 
      using less_imp_le [OF n(3)] by (rule order_trans) (use False in \<open>simp add: power_increasing\<close>)
    then have "(of_nat n :: rat) \<le> of_nat (2 ^ l)" by (simp only: of_nat_le_iff)
    then have "(of_nat n :: rat) \<le> 2 ^ l" by (simp only: of_nat_power of_nat_numeral)
    ultimately show ?thesis by linarith
  qed
qed

lemma round_half_even_le:
  assumes "x \<le> of_int n"
  shows "round_half_even x \<le> n"
proof -
  have f: "\<lfloor>x\<rfloor> \<le> n" using assms by (metis floor_of_int floor_mono)
  show ?thesis
  proof (cases "\<lfloor>x\<rfloor> = n")
    case True
    then have "x = of_int n" using assms of_int_floor_le [of x] by simp
    then show ?thesis by simp
  next
    case False
    with f show ?thesis by (simp add: round_half_even_def Let_def)
  qed
qed

lemma float_round_le:
  assumes r: "1 \<le> r" "r \<le> 2 ^ k" and prec: "0 < prec"
  shows "float_round prec r \<le> 2 ^ k"
proof -
  obtain l where l: "floorlog 2 (nat \<lfloor>r\<rfloor>) = Suc l" "2 ^ l \<le> r" "r < 2 ^ Suc l" by (rule floorlog_floor [OF r(1)])
  obtain q where q: "prec = Suc q" using prec by (cases prec) auto
  define u :: rat where "u = 2 ^ prec / 2 ^ Suc l"
  have u: "0 < u" by (simp add: u_def)
  have f: "float_round prec r = of_int (round_half_even (r * u)) / u" by (simp add: float_round_def l u_def)
  have "(2 :: rat) ^ l \<le> 2 ^ k" using l(2) r(2) by (rule order_trans)
  then have lk: "l \<le> k" by simp
  show ?thesis
  proof (cases "l = k")
    case True
    then have "r = 2 ^ k" using l(2) r(2) by simp
    then have "r * u = of_int (2 ^ q)" by (simp add: u_def q True)
    moreover have "of_int (2 ^ q) / u = 2 ^ k" by (simp add: u_def q True)
    ultimately show ?thesis by (simp only: f round_half_even_int)
  next
    case False
    have "r * u \<le> of_int (2 ^ prec)" using l(3) by (simp add: u_def field_simps)
    from round_half_even_le [OF this] have "(of_int (round_half_even (r * u)) :: rat) \<le> of_int (2 ^ prec)"
      by (simp only: of_int_le_iff)
    then have "float_round prec r \<le> of_int (2 ^ prec) / u" using u by (simp only: f divide_right_mono less_imp_le)
    moreover have "of_int (2 ^ prec) / u = 2 ^ Suc l" by (simp add: u_def)
    moreover have "(2 :: rat) ^ Suc l \<le> 2 ^ k" using lk False by (intro power_increasing) auto
    ultimately show ?thesis by linarith
  qed
qed

text \<open>Every step of the hash goes forward, and stays inside an \<open>int64\<close>.\<close>

lemma key_range: "1 \<le> unat (drop_bit 33 (key :: uint64)) + 1" "unat (drop_bit 33 (key :: uint64)) + 1 \<le> 2 ^ 31"
proof -
  have "unat key div 2 ^ 33 < 2 ^ 31"
    using unsigned_less [of key, where 'a = nat] by (intro less_mult_imp_div_less) simp
  then show "unat (drop_bit 33 key) + 1 \<le> 2 ^ 31" by (simp add: drop_bit_eq_div unat_div)
qed simp

lemma float64_nat: "1 \<le> n \<Longrightarrow> n \<le> 2 ^ k \<Longrightarrow> n < 2 ^ 53 \<Longrightarrow> of_nat n \<le> float64 (of_nat n) \<and> float64 (of_nat n) \<le> 2 ^ k"
  unfolding float64_def
proof
  assume n: "1 \<le> n" "n \<le> 2 ^ k" "n < 2 ^ 53"
  then show "of_nat n \<le> float_round 53 (of_nat n)" by (intro float_round_ge) (rule order_refl | assumption | simp)+
  have "(of_nat 1 :: rat) \<le> of_nat n" "(of_nat n :: rat) \<le> of_nat (2 ^ k)" using n by (simp_all only: of_nat_le_iff)
  then show "float_round 53 (of_nat n) \<le> 2 ^ k" by (intro float_round_le) simp_all
qed

lemma jump_next_bounds:
  assumes "b < 2 ^ 31"
  shows "b < jump_next key b" "jump_next key b \<le> 2 ^ 62"
proof -
  let ?x = "unat (drop_bit 33 key) + 1"
  have e31: "(2 :: nat) ^ 31 < 2 ^ 53" by (rule power_strict_increasing) simp_all
  define x where "x = float64 (of_nat ?x)"
  have "of_nat ?x \<le> x \<and> x \<le> 2 ^ 31" unfolding x_def
    using key_range [of key] e31 by (intro float64_nat) linarith+
  moreover have "(of_nat 1 :: rat) \<le> of_nat ?x" by (simp only: of_nat_le_iff key_range)
  ultimately have x: "1 \<le> x" "x \<le> 2 ^ 31" by simp_all
  define q where "q = float64 (2 ^ 31 / x)"
  have "of_nat 1 \<le> q" unfolding q_def float64_def using x by (intro float_round_ge) simp_all
  moreover have "q \<le> 2 ^ 31" unfolding q_def float64_def using x by (intro float_round_le) (simp_all add: field_simps)
  ultimately have q: "1 \<le> q" "q \<le> 2 ^ 31" by simp_all
  define m where "m = float64 (of_nat (b + 1))"
  have m: "of_nat (b + 1) \<le> m" "m \<le> 2 ^ 31" unfolding m_def
    using assms e31 float64_nat [of "b + 1" 31] by auto
  have mq: "of_nat (b + 1) \<le> m * q" using m q mult_mono [of "of_nat (b + 1)" m 1 q] by simp
  have "of_nat (b + 1) \<le> float64 (m * q)" unfolding float64_def
    using mq assms e31 by (intro float_round_ge) auto
  then have "int (b + 1) \<le> \<lfloor>float64 (m * q)\<rfloor>" by (simp only: le_floor_iff of_int_of_nat_eq)
  then show "b < jump_next key b" by (simp add: jump_next_def m_def q_def x_def)
  have "m * q \<le> 2 ^ 31 * 2 ^ 31" using m q by (intro mult_mono) auto
  then have "m * q \<le> 2 ^ 62" by (simp only: power_add [symmetric]) simp
  moreover have "1 \<le> m * q" using mq by (rule order_trans [rotated]) simp
  ultimately have "float64 (m * q) \<le> 2 ^ 62" unfolding float64_def by (intro float_round_le) simp_all
  then have "\<lfloor>float64 (m * q)\<rfloor> \<le> 2 ^ 62" using floor_mono [of "float64 (m * q)" "of_int (2 ^ 62)"] by simp
  then have "nat \<lfloor>float64 (m * q)\<rfloor> \<le> 2 ^ 62" by (simp only: nat_le_iff of_nat_power of_nat_numeral)
  then show "jump_next key b \<le> 2 ^ 62" by (simp only: jump_next_def m_def q_def x_def)
qed

function jump_loop :: "int \<Rightarrow> uint64 \<Rightarrow> nat \<Rightarrow> nat \<Rightarrow> nat" where
  "jump_loop buckets key b j =
     (if int j < buckets \<and> buckets < 2 ^ 31 then
        (let key' = key * 2862933555777941757 + 1 in jump_loop buckets key' j (jump_next key' j))
      else b)"
  by auto

termination
proof (relation "measure (\<lambda>(buckets, key, b, j). nat (buckets - int j))")
  fix buckets :: int and key key' :: uint64 and b j :: nat
  assume "int j < buckets \<and> buckets < 2 ^ 31"
  then have j: "int j < buckets" "j < 2 ^ 31" by simp_all
  with jump_next_bounds(1) [OF j(2), of key'] show
    "((buckets, key', j, jump_next key' j), (buckets, key, b, j)) \<in> measure (\<lambda>(buckets, key, b, j). nat (buckets - int j))"
    by simp
qed simp

declare jump_loop.simps [simp del]

text \<open>The number of buckets is an \<open>int32\<close>, read as a signed number.\<close>

definition jumpHash :: "uint64 \<Rightarrow> uint32 \<Rightarrow> nat" where
  "jumpHash key buckets = jump_loop (sint buckets) key 0 0"

lemma jump_loop_less: "int b < n \<or> int j < n \<Longrightarrow> n < 2 ^ 31 \<Longrightarrow> int (jump_loop n key b j) < n"
proof (induction n key b j rule: jump_loop.induct)
  case (1 n key b j)
  then show ?case by (subst jump_loop.simps) (auto simp: Let_def)
qed

lemma jump_loop_grow:
  assumes "n + 1 < 2 ^ 31"
  shows "jump_loop (n + 1) key b j = jump_loop n key b j \<or> int (jump_loop (n + 1) key b j) = n"
  using assms
proof (induction n key b j rule: jump_loop.induct)
  case (1 n key b j)
  let ?k = "key * 2862933555777941757 + 1"
  consider "int j < n" | "int j = n" | "n < int j" by linarith
  then show ?case
  proof cases
    case 1
    have "jump_loop (n + 1) key b j = jump_loop (n + 1) ?k j (jump_next ?k j)"
      "jump_loop n key b j = jump_loop n ?k j (jump_next ?k j)"
      using 1 "1.prems" by (subst jump_loop.simps, simp add: Let_def)+
    with 1 "1.IH" [OF _ refl "1.prems"] "1.prems" show ?thesis by simp
  next
    case 2
    then have "j < jump_next ?k j" using "1.prems" jump_next_bounds(1) [of j ?k] by simp
    then have "jump_loop (n + 1) ?k j (jump_next ?k j) = j" using 2 by (subst jump_loop.simps) simp
    then have "jump_loop (n + 1) key b j = j" using 2 "1.prems" by (subst jump_loop.simps) (simp add: Let_def)
    with 2 show ?thesis by simp
  next
    case 3
    then have "jump_loop (n + 1) key b j = b" "jump_loop n key b j = b" by (subst jump_loop.simps, simp)+
    then show ?thesis by simp
  qed
qed

lemma sint_buckets: "n < 2 ^ 31 \<Longrightarrow> sint (of_nat n :: uint32) = int n"
  by (simp add: signed_of_nat signed_take_bit_int_eq_self)

lemma jumpHash_grow:
  assumes "0 < n" "n + 1 < 2 ^ 31"
  shows "jumpHash key (of_nat n) < n"
    "jumpHash key (of_nat (n + 1)) = jumpHash key (of_nat n) \<or> jumpHash key (of_nat (n + 1)) = n"
proof -
  have s: "sint (of_nat n :: uint32) = int n" "sint (of_nat (n + 1) :: uint32) = int n + 1"
    using assms(2) sint_buckets [of n] sint_buckets [of "n + 1"] by simp_all
  have "int (jump_loop (int n) key 0 0) < int n" using assms by (intro jump_loop_less) auto
  moreover have "jump_loop (int n + 1) key 0 0 = jump_loop (int n) key 0 0 \<or> int (jump_loop (int n + 1) key 0 0) = int n"
    using assms(2) by (intro jump_loop_grow) simp
  ultimately show "jumpHash key (of_nat n) < n"
    "jumpHash key (of_nat (n + 1)) = jumpHash key (of_nat n) \<or> jumpHash key (of_nat (n + 1)) = n"
    by (simp_all only: jumpHash_def s of_nat_less_iff of_nat_eq_iff)
qed

text \<open>
  C34: \<open>jumpHash\<close> is a consistent hash. With floating point arithmetic rounded as the machine does,
  its loop ends for every key and number of buckets; the bucket is one of the buckets; and when
  one bucket is added, a key keeps its bucket or moves to the new one, never between old ones.
\<close>

theorem jump_hash_consistent:
  assumes "0 < n" "n + 1 < 2 ^ 31"
  shows "jumpHash key (of_nat n) < n \<and>
    (jumpHash key (of_nat (n + 1)) = jumpHash key (of_nat n) \<or> jumpHash key (of_nat (n + 1)) = n)"
  using jumpHash_grow [OF assms] by blast

theorem jump_hash_consistent_witness:
  "jumpHash 7 (of_nat 2) < 2 \<and> (jumpHash 7 (of_nat 3) = jumpHash 7 (of_nat 2) \<or> jumpHash 7 (of_nat 3) = 2)"
  using jump_hash_consistent [of 2 7] by simp

end
