(* ===== verification/Proxy_Groups.thy ===== *)
theory Proxy_Groups
  imports Proxy_Adapter Hashing "HOL-Library.Multiset"
begin

text \<open>
  The groups of proxies: \<open>adapter/outboundgroup\<close>, with the providers (\<open>adapter/provider\<close>) that hold
  their members and \<open>common/singledo\<close> that remembers them for a while. Proxies and providers are
  shared through pointers; here they are numbered, and a \<open>world\<close> holds the objects. Times are in
  nanoseconds.
\<close>

section \<open>Single\<close>

text \<open>
  One caller at a time: \<open>cached\<close> is the time of the last call with its result, \<open>None\<close> the zero time.
\<close>

record 'a Single =
  cached :: "(int \<times> 'a) option"
  wait :: int

definition NewSingle :: "int \<Rightarrow> 'a Single" where
  "NewSingle w = \<lparr>cached = None, wait = w\<rparr>"

definition Single_Do :: "int \<Rightarrow> ('w \<Rightarrow> 'a \<times> 'w) \<Rightarrow> 'a Single \<Rightarrow> 'w \<Rightarrow> 'a \<times> 'a Single \<times> 'w" where
  "Single_Do now fn s w =
     (let run = (let (v, w') = fn w in (v, s\<lparr>cached := Some (now, v)\<rparr>, w'))
      in case cached s of
           Some (lst, v) \<Rightarrow> if now < lst + wait s then (v, s, w) else run
         | None \<Rightarrow> run)"

definition Single_Reset :: "'a Single \<Rightarrow> 'a Single" where
  "Single_Reset s = s\<lparr>cached := None\<rparr>"

section \<open>Objects\<close>

type_synonym pid = nat
type_synonym vid = nat

datatype VehicleType = File | HTTPVehicle | Compatible

record HealthCheck =
  hc_url :: string
  hc_proxies :: "pid list"
  interval :: nat
  lazy :: bool
  lastTouch :: int

record provider =
  pv_name :: string
  pv_vehicle :: VehicleType
  healthCheck :: HealthCheck
  pv_proxies :: "pid list"

datatype strategyFn = RoundRobin nat | ConsistentHashing

datatype group = Outbound | Selector string pid | Fallback | URLTestGroup uint16 pid | LoadBalance strategyFn | Relay

text \<open>The fields of \<open>outbound.Base\<close>, and those that the groups have in common.\<close>

record adapter =
  name :: string
  addr :: string
  tp :: AdapterType
  udp :: bool
  disableUDP :: bool
  single :: "pid list Single"
  providers :: "vid list"
  grp :: group

record world =
  px :: "pid \<Rightarrow> Proxy"
  ad :: "pid \<Rightarrow> adapter"
  pv :: "vid \<Rightarrow> provider"

definition upd_px :: "pid \<Rightarrow> Proxy \<Rightarrow> world \<Rightarrow> world" where
  "upd_px i p w = w\<lparr>px := (px w)(i := p)\<rparr>"

definition upd_ad :: "pid \<Rightarrow> adapter \<Rightarrow> world \<Rightarrow> world" where
  "upd_ad i a w = w\<lparr>ad := (ad w)(i := a)\<rparr>"

definition upd_pv :: "vid \<Rightarrow> provider \<Rightarrow> world \<Rightarrow> world" where
  "upd_pv v p w = w\<lparr>pv := (pv w)(v := p)\<rparr>"

definition is_alive :: "world \<Rightarrow> pid \<Rightarrow> bool" where
  "is_alive w i = alive (px w i)"

section \<open>Providers\<close>

definition second_ns :: int where "second_ns = 1000000000"

definition NewHealthCheck :: "pid list \<Rightarrow> string \<Rightarrow> nat \<Rightarrow> bool \<Rightarrow> HealthCheck" where
  "NewHealthCheck ps url n lz = \<lparr>hc_url = url, hc_proxies = ps, interval = n, lazy = lz, lastTouch = 0\<rparr>"

definition auto_check :: "HealthCheck \<Rightarrow> bool" where
  "auto_check hc \<longleftrightarrow> interval hc \<noteq> 0"

definition touch_hc :: "int \<Rightarrow> HealthCheck \<Rightarrow> HealthCheck" where
  "touch_hc now hc = hc\<lparr>lastTouch := now div second_ns\<rparr>"

definition setProxy :: "pid list \<Rightarrow> HealthCheck \<Rightarrow> HealthCheck" where
  "setProxy ps hc = hc\<lparr>hc_proxies := ps\<rparr>"

text \<open>Whether a tick of \<open>process\<close> runs the check.\<close>

definition tick_checks :: "int \<Rightarrow> HealthCheck \<Rightarrow> bool" where
  "tick_checks now hc \<longleftrightarrow> \<not> lazy hc \<or> now div second_ns - lastTouch hc < int (interval hc)"

definition setProxies :: "pid list \<Rightarrow> provider \<Rightarrow> provider \<times> bool" where
  "setProxies ps p =
     (let p1 = p\<lparr>pv_proxies := ps, healthCheck := setProxy ps (healthCheck p)\<rparr>
      in (p1, auto_check (healthCheck p1)))"

definition NewCompatibleProvider :: "string \<Rightarrow> pid list \<Rightarrow> HealthCheck \<Rightarrow> provider option" where
  "NewCompatibleProvider nm ps hc =
     (if length ps = 0 then None
      else Some \<lparr>pv_name = nm, pv_vehicle = Compatible, healthCheck = hc, pv_proxies = ps\<rparr>)"

definition Proxies :: "vid \<Rightarrow> world \<Rightarrow> pid list" where
  "Proxies v w = pv_proxies (pv w v)"

definition ProxiesWithTouch :: "int \<Rightarrow> vid \<Rightarrow> world \<Rightarrow> pid list \<times> world" where
  "ProxiesWithTouch now v w =
     (let w1 = upd_pv v ((pv w v)\<lparr>healthCheck := touch_hc now (healthCheck (pv w v))\<rparr>) w in (Proxies v w1, w1))"

fun getProvidersProxies :: "int \<Rightarrow> bool \<Rightarrow> vid list \<Rightarrow> world \<Rightarrow> pid list \<times> world" where
  "getProvidersProxies now touch [] w = ([], w)"
| "getProvidersProxies now touch (v # vs) w =
     (let (ps, w1) = (if touch then ProxiesWithTouch now v w else (Proxies v w, w));
          (qs, w2) = getProvidersProxies now touch vs w1
      in (ps @ qs, w2))"

section \<open>Choosing a member\<close>

definition group_proxies :: "int \<Rightarrow> bool \<Rightarrow> pid \<Rightarrow> world \<Rightarrow> pid list \<times> world" where
  "group_proxies now touch i w =
     (let (ps, s, w1) = Single_Do now (getProvidersProxies now touch (providers (ad w i))) (single (ad w i)) w
      in (ps, upd_ad i ((ad w1 i)\<lparr>single := s\<rparr>) w1))"

definition first_or_panic :: "pid list \<Rightarrow> panic + pid" where
  "first_or_panic ps = (case ps of [] \<Rightarrow> Inl IndexOutOfRange | p # _ \<Rightarrow> Inr p)"

definition alive_or_first :: "world \<Rightarrow> pid list \<Rightarrow> panic + pid" where
  "alive_or_first w ps = (case find (is_alive w) ps of Some p \<Rightarrow> Inr p | None \<Rightarrow> first_or_panic ps)"

definition findAliveProxy :: "int \<Rightarrow> bool \<Rightarrow> pid \<Rightarrow> world \<Rightarrow> panic + pid \<times> world" where
  "findAliveProxy now touch i w =
     (let (ps, w1) = group_proxies now touch i w in map_sum id (\<lambda>p. (p, w1)) (alive_or_first w1 ps))"

fun round_robin_loop :: "nat \<Rightarrow> (pid \<Rightarrow> bool) \<Rightarrow> pid list \<Rightarrow> nat \<Rightarrow> pid option \<times> nat" where
  "round_robin_loop 0 al ps idx = (None, idx)"
| "round_robin_loop (Suc k) al ps idx =
     (let idx' = (idx + 1) mod length ps
      in if al (ps ! idx') then (Some (ps ! idx'), idx') else round_robin_loop k al ps idx')"

definition strategyRoundRobin :: "(pid \<Rightarrow> bool) \<Rightarrow> pid list \<Rightarrow> nat \<Rightarrow> panic + pid \<times> nat" where
  "strategyRoundRobin al ps idx =
     (case round_robin_loop (length ps) al ps idx of
        (Some p, idx') \<Rightarrow> Inr (p, idx')
      | (None, idx') \<Rightarrow> map_sum id (\<lambda>p. (p, idx')) (first_or_panic ps))"

definition getKey :: "(string \<Rightarrow> string option) \<Rightarrow> Metadata \<Rightarrow> string" where
  "getKey etld md =
     (let by_ip = (if DstIP md = [] then [] else IP_String (DstIP md))
      in if Host md \<noteq> [] then
           (if ParseIP (Host md) \<noteq> [] then Host md
            else case etld (Host md) of Some e \<Rightarrow> e | None \<Rightarrow> by_ip)
         else by_ip)"

fun consistent_loop :: "nat \<Rightarrow> (pid \<Rightarrow> bool) \<Rightarrow> pid list \<Rightarrow> uint64 \<Rightarrow> panic + pid option" where
  "consistent_loop 0 al ps key = Inr None"
| "consistent_loop (Suc k) al ps key =
     (let idx = jumpHash key (of_nat (length ps))
      in if \<not> idx < length ps then Inl IndexOutOfRange
         else if al (ps ! idx) then Inr (Some (ps ! idx))
         else consistent_loop k al ps (key + 1))"

definition maxRetry :: nat where "maxRetry = 5"

definition strategyConsistentHashing :: "(string \<Rightarrow> string option) \<Rightarrow> (pid \<Rightarrow> bool) \<Rightarrow> pid list \<Rightarrow> Metadata \<Rightarrow> panic + pid" where
  "strategyConsistentHashing etld al ps md =
     (case consistent_loop maxRetry al ps (ucast (Sum32 (string_to_bytes (getKey etld md)))) of
        Inl e \<Rightarrow> Inl e
      | Inr (Some p) \<Rightarrow> Inr p
      | Inr None \<Rightarrow> first_or_panic ps)"

definition lb_Unwrap :: "(string \<Rightarrow> string option) \<Rightarrow> int \<Rightarrow> Metadata \<Rightarrow> strategyFn \<Rightarrow> pid \<Rightarrow> world \<Rightarrow> panic + pid \<times> world" where
  "lb_Unwrap etld now md strategy i w =
     (let (ps, w1) = group_proxies now True i w
      in case strategy of
           RoundRobin idx \<Rightarrow>
             map_sum id (\<lambda>(p, idx'). (p, upd_ad i ((ad w1 i)\<lparr>grp := LoadBalance (RoundRobin idx')\<rparr>) w1))
               (strategyRoundRobin (is_alive w1) ps idx)
         | ConsistentHashing \<Rightarrow> map_sum id (\<lambda>p. (p, w1)) (strategyConsistentHashing etld (is_alive w1) ps md))"

text \<open>\<open>Unwrap\<close>: the member a group stands for at the moment, or nil for an outbound and a relay.\<close>

definition Unwrap :: "(string \<Rightarrow> string option) \<Rightarrow> int \<Rightarrow> Metadata \<Rightarrow> pid \<Rightarrow> world \<Rightarrow> panic + pid option \<times> world" where
  "Unwrap etld now md i w =
     (case grp (ad w i) of
        Outbound \<Rightarrow> Inr (None, w)
      | Relay \<Rightarrow> Inr (None, w)
      | Selector _ sedProxy \<Rightarrow> Inr (Some sedProxy, w)
      | URLTestGroup _ fastNode \<Rightarrow> Inr (Some fastNode, w)
      | Fallback \<Rightarrow> map_sum id (apfst Some) (findAliveProxy now True i w)
      | LoadBalance strategy \<Rightarrow> map_sum id (apfst Some) (lb_Unwrap etld now md strategy i w))"

section \<open>Selecting and testing\<close>

definition selector_Set :: "string \<Rightarrow> pid \<Rightarrow> world \<Rightarrow> bool \<times> world" where
  "selector_Set nm i w =
     (let (ps, w1) = getProvidersProxies 0 False (providers (ad w i)) w
      in case find (\<lambda>p. name (ad w1 p) = nm) ps of
           Some p \<Rightarrow> (True, upd_ad i ((ad w1 i)\<lparr>grp := Selector nm p, single := Single_Reset (single (ad w1 i))\<rparr>) w1)
         | None \<Rightarrow> (False, w1))"

text \<open>The tick of a url-test group: the member with the least delay.\<close>

fun fastest :: "world \<Rightarrow> pid \<Rightarrow> uint16 \<Rightarrow> pid list \<Rightarrow> pid" where
  "fastest w fast m [] = fast"
| "fastest w fast m (p # ps) =
     (if \<not> is_alive w p then fastest w fast m ps
      else if LastDelay (px w p) < m then fastest w p (LastDelay (px w p)) ps
      else fastest w fast m ps)"

definition url_test_tick :: "int \<Rightarrow> pid \<Rightarrow> world \<Rightarrow> panic + world" where
  "url_test_tick now i w =
     (let (ps, w1) = group_proxies now True i w
      in case (ps, grp (ad w1 i)) of
           (p # rest, URLTestGroup tolerance _) \<Rightarrow>
             Inr (upd_ad i ((ad w1 i)\<lparr>grp := URLTestGroup tolerance (fastest w1 p (LastDelay (px w1 p)) rest)\<rparr>) w1)
         | _ \<Rightarrow> Inl IndexOutOfRange)"

section \<open>Constructors\<close>

definition defaultGetProxiesDuration :: int where
  "defaultGetProxiesDuration = 5 * second_ns"

definition group_adapter :: "string \<Rightarrow> AdapterType \<Rightarrow> bool \<Rightarrow> vid list \<Rightarrow> group \<Rightarrow> adapter" where
  "group_adapter nm t dis vs g =
     \<lparr>name = nm, addr = [], tp = t, udp = False, disableUDP = dis, single = NewSingle defaultGetProxiesDuration, providers = vs, grp = g\<rparr>"

definition first_member :: "vid list \<Rightarrow> world \<Rightarrow> panic + pid" where
  "first_member vs w = (case vs of [] \<Rightarrow> Inl IndexOutOfRange | v # _ \<Rightarrow> first_or_panic (Proxies v w))"

definition NewSelector :: "string \<Rightarrow> bool \<Rightarrow> vid list \<Rightarrow> world \<Rightarrow> panic + adapter" where
  "NewSelector nm dis vs w = map_sum id (\<lambda>p. group_adapter nm AtSelector dis vs (Selector (name (ad w p)) p)) (first_member vs w)"

definition NewURLTest :: "string \<Rightarrow> bool \<Rightarrow> uint16 \<Rightarrow> vid list \<Rightarrow> world \<Rightarrow> panic + adapter" where
  "NewURLTest nm dis tolerance vs w = map_sum id (\<lambda>p. group_adapter nm AtURLTest dis vs (URLTestGroup tolerance p)) (first_member vs w)"

definition NewFallback :: "string \<Rightarrow> bool \<Rightarrow> vid list \<Rightarrow> adapter" where
  "NewFallback nm dis vs = group_adapter nm AtFallback dis vs Fallback"

definition NewRelay :: "string \<Rightarrow> vid list \<Rightarrow> adapter" where
  "NewRelay nm vs = group_adapter nm AtRelay False vs Relay"

definition NewLoadBalance :: "string \<Rightarrow> bool \<Rightarrow> vid list \<Rightarrow> string \<Rightarrow> adapter option" where
  "NewLoadBalance nm dis vs strategy =
     (if strategy = ''consistent-hashing'' then Some (group_adapter nm AtLoadBalance dis vs (LoadBalance ConsistentHashing))
      else if strategy = ''round-robin'' then Some (group_adapter nm AtLoadBalance dis vs (LoadBalance (RoundRobin 0)))
      else None)"

section \<open>util.go\<close>

definition addrToMetadata :: "string \<Rightarrow> Metadata option" where
  "addrToMetadata rawAddress =
     (case SplitHostPort rawAddress of
        None \<Rightarrow> None
      | Some (h, port) \<Rightarrow>
          let ip = ParseIP h;
              md = \<lambda>t hst dst. \<lparr>NetWork = 0, Type = 0, SrcIP = [], DstIP = dst, SrcPort = [], DstPort = port, AddrType = t, Host = hst\<rparr>
          in Some (if ip = [] then md AtypDomainName h []
                   else if To4 ip \<noteq> [] then md AtypIPv4 [] (To4 ip)
                   else md AtypIPv6 [] ip))"

section \<open>Dialling through groups\<close>

text \<open>
  What lies outside: the public suffix list, the dial of an outbound (\<open>None\<close> when it succeeds), a
  direct dial, and the dial of a relay over its hops. The calls before a dial read the clock at
  \<open>now\<close>, those after it at \<open>done\<close>. The fuel bounds the depth of groups inside groups; \<open>None\<close> is that
  it ran out.
\<close>

record 'e dial_net =
  etld1 :: "string \<Rightarrow> string option"
  out_dial :: "pid \<Rightarrow> Metadata \<Rightarrow> 'e option"
  direct_dial :: "Metadata \<Rightarrow> 'e option"
  hops_dial :: "pid list \<Rightarrow> Metadata \<Rightarrow> 'e option"

fun unwrap_all :: "nat \<Rightarrow> 'e dial_net \<Rightarrow> int \<Rightarrow> Metadata \<Rightarrow> pid \<Rightarrow> world \<Rightarrow> (panic + pid \<times> world) option" where
  "unwrap_all 0 net now md p w = None"
| "unwrap_all (Suc n) net now md p w =
     (case Unwrap (etld1 net) now md p w of
        Inl e \<Rightarrow> Some (Inl e)
      | Inr (None, w1) \<Rightarrow> Some (Inr (p, w1))
      | Inr (Some q, w1) \<Rightarrow> unwrap_all n net now md q w1)"

fun unwrap_list :: "nat \<Rightarrow> 'e dial_net \<Rightarrow> int \<Rightarrow> Metadata \<Rightarrow> pid list \<Rightarrow> world \<Rightarrow> (panic + pid list \<times> world) option" where
  "unwrap_list n net now md [] w = Some (Inr ([], w))"
| "unwrap_list n net now md (p # ps) w =
     (case unwrap_all n net now md p w of
        None \<Rightarrow> None
      | Some (Inl e) \<Rightarrow> Some (Inl e)
      | Some (Inr (q, w1)) \<Rightarrow>
          (case unwrap_list n net now md ps w1 of
             None \<Rightarrow> None
           | Some (Inl e) \<Rightarrow> Some (Inl e)
           | Some (Inr (qs, w2)) \<Rightarrow> Some (Inr (q # qs, w2))))"

text \<open>
  \<open>Relay.proxies\<close> writes the unwrapped proxies into the slice that the single call still holds.
\<close>

definition relay_proxies :: "nat \<Rightarrow> 'e dial_net \<Rightarrow> int \<Rightarrow> Metadata \<Rightarrow> pid \<Rightarrow> world \<Rightarrow> (panic + pid list \<times> world) option" where
  "relay_proxies n net now md i w =
     (let (ps, w1) = group_proxies now True i w
      in case unwrap_list n net now md ps w1 of
           None \<Rightarrow> None
         | Some (Inl e) \<Rightarrow> Some (Inl e)
         | Some (Inr (qs, w2)) \<Rightarrow>
             let s = single (ad w2 i); s' = s\<lparr>cached := map_option (apsnd (\<lambda>_. qs)) (cached s)\<rparr>
             in Some (Inr (qs, upd_ad i ((ad w2 i)\<lparr>single := s'\<rparr>) w2)))"

abbreviation finish_dial :: "int \<Rightarrow> bool \<Rightarrow> pid \<Rightarrow> ('e dial_error + string list) \<times> world \<Rightarrow> ('e dial_error + string list) \<times> world" where
  "finish_dial done token i r \<equiv> (fst r, upd_px i (dial_end done token (\<not> isl (fst r)) (px (snd r) i)) (snd r))"

abbreviation append_chain :: "string \<Rightarrow> ('e dial_error + string list) \<times> world \<Rightarrow> ('e dial_error + string list) \<times> world" where
  "append_chain nm r \<equiv> (map_sum id (\<lambda>c. c @ [nm]) (fst r), snd r)"

abbreviation dialled :: "string \<Rightarrow> 'e option \<Rightarrow> 'e dial_error + string list" where
  "dialled nm e \<equiv> (case e of None \<Rightarrow> Inr [nm] | Some e \<Rightarrow> Inl (ErrDial e))"

type_synonym 'e dial_result = "panic + ('e dial_error + string list) \<times> world"

text \<open>
  The \<open>DialContext\<close> of a relay, and of the other groups; \<open>dial_member\<close> is the \<open>DialContext\<close> of the
  proxy they call.
\<close>

definition Relay_DialContext :: "(pid \<Rightarrow> world \<Rightarrow> 'e dial_result option) \<Rightarrow> nat \<Rightarrow> 'e dial_net \<Rightarrow> int \<Rightarrow> Metadata \<Rightarrow> pid \<Rightarrow> world \<Rightarrow>
    'e dial_result option" where
  "Relay_DialContext dial_member n net now md i w =
     (case relay_proxies n net now md i w of
        None \<Rightarrow> None
      | Some (Inl e) \<Rightarrow> Some (Inl e)
      | Some (Inr (ps, w1)) \<Rightarrow>
          (case filter (\<lambda>p. tp (ad w1 p) \<noteq> AtDirect) ps of
             [] \<Rightarrow> Some (Inr (dialled ''DIRECT'' (direct_dial net md), w1))
           | [q] \<Rightarrow> dial_member q w1
           | hops \<Rightarrow> Some (Inr (dialled (name (ad w1 i)) (hops_dial net hops md), w1))))"

definition group_DialContext :: "(pid \<Rightarrow> world \<Rightarrow> 'e dial_result option) \<Rightarrow> 'e dial_net \<Rightarrow> int \<Rightarrow> Metadata \<Rightarrow> pid \<Rightarrow> world \<Rightarrow>
    'e dial_result option" where
  "group_DialContext dial_member net now md i w =
     (case Unwrap (etld1 net) now md i w of
        Inl e \<Rightarrow> Some (Inl e)
      | Inr (None, _) \<Rightarrow> Some (Inl NilDereference)
      | Inr (Some q, w1) \<Rightarrow> map_option (map_sum id (append_chain (name (ad w i)))) (dial_member q w1))"

definition adapter_DialContext :: "(pid \<Rightarrow> world \<Rightarrow> 'e dial_result option) \<Rightarrow> nat \<Rightarrow> 'e dial_net \<Rightarrow> int \<Rightarrow> Metadata \<Rightarrow> pid \<Rightarrow> world \<Rightarrow>
    'e dial_result option" where
  "adapter_DialContext dial_member n net now md i w =
     (case grp (ad w i) of
        Outbound \<Rightarrow> Some (Inr (dialled (name (ad w i)) (out_dial net i md), w))
      | Relay \<Rightarrow> Relay_DialContext dial_member n net now md i w
      | _ \<Rightarrow> group_DialContext dial_member net now md i w)"

text \<open>\<open>Proxy.DialContext\<close> around it.\<close>

fun dial :: "nat \<Rightarrow> 'e dial_net \<Rightarrow> int \<Rightarrow> int \<Rightarrow> Metadata \<Rightarrow> pid \<Rightarrow> world \<Rightarrow> 'e dial_result option" where
  "dial 0 net now done md i w = None"
| "dial (Suc n) net now done md i w =
     (case dial_begin now (px w i) of
        (None, p) \<Rightarrow> Some (Inr (Inl ErrRateLimit, upd_px i p w))
      | (Some token, p) \<Rightarrow>
          map_option (map_sum id (finish_dial done token i))
            (adapter_DialContext (dial n net now done md) n net now md i (upd_px i p w)))"

fun SupportUDP :: "nat \<Rightarrow> int \<Rightarrow> pid \<Rightarrow> world \<Rightarrow> (panic + bool \<times> world) option" where
  "SupportUDP 0 now i w = None"
| "SupportUDP (Suc n) now i w =
     (let a = ad w i
      in case grp a of
           Outbound \<Rightarrow> Some (Inr (udp a, w))
         | Relay \<Rightarrow> Some (Inr (udp a, w))
         | LoadBalance _ \<Rightarrow> Some (Inr (\<not> disableUDP a, w))
         | Selector _ p \<Rightarrow> if disableUDP a then Some (Inr (False, w)) else SupportUDP n now p w
         | URLTestGroup _ p \<Rightarrow> if disableUDP a then Some (Inr (False, w)) else SupportUDP n now p w
         | Fallback \<Rightarrow>
             if disableUDP a then Some (Inr (False, w))
             else (case findAliveProxy now False i w of
                     Inl e \<Rightarrow> Some (Inl e)
                   | Inr (p, w1) \<Rightarrow> SupportUDP n now p w1))"

text \<open>\<open>Now\<close>: the name of the current member, for the groups that have one.\<close>

definition group_Now :: "int \<Rightarrow> pid \<Rightarrow> world \<Rightarrow> panic + string option \<times> world" where
  "group_Now now i w =
     (case grp (ad w i) of
        Selector _ p \<Rightarrow> Inr (Some (name (ad w p)), w)
      | URLTestGroup _ p \<Rightarrow> Inr (Some (name (ad w p)), w)
      | Fallback \<Rightarrow> map_sum id (\<lambda>(p, w1). (Some (name (ad w1 p)), w1)) (findAliveProxy now False i w)
      | _ \<Rightarrow> Inr (None, w))"

section \<open>A small world for the examples\<close>

text \<open>The dead outbound 0 and the living outbound 1, in a fallback group 2 and a url-test group 3.\<close>

definition demo_metadata :: Metadata where
  "demo_metadata = \<lparr>NetWork = TCP, Type = SOCKS5, SrcIP = [], DstIP = [], SrcPort = [], DstPort = ''80'', AddrType = AtypDomainName, Host = ''x''\<rparr>"

definition demo_out :: "string \<Rightarrow> adapter" where
  "demo_out nm = (group_adapter nm AtSocks5 False [] Outbound)\<lparr>udp := True\<rparr>"

definition demo_world :: world where
  "demo_world =
     \<lparr>px = (\<lambda>i. if i = 0 then (NewProxy 0)\<lparr>alive := False\<rparr> else NewProxy 0),
      ad = (\<lambda>i. if i = 2 then NewFallback ''f'' False [0]
                else if i = 3 then group_adapter ''u'' AtURLTest False [0] (URLTestGroup 0 0)
                else demo_out (if i = 0 then ''a'' else ''b'')),
      pv = (\<lambda>_. \<lparr>pv_name = ''p'', pv_vehicle = Compatible, healthCheck = NewHealthCheck [0, 1] [] 0 True, pv_proxies = [0, 1]\<rparr>)\<rparr>"

lemmas demo_eval = demo_world_def demo_out_def NewFallback_def group_adapter_def NewSingle_def group_proxies_def Single_Do_def
  ProxiesWithTouch_def Proxies_def upd_pv_def upd_ad_def is_alive_def NewProxy_def

section \<open>Fallback and url-test\<close>

lemma find_split:
  "find P xs = Some x \<Longrightarrow> \<exists>pre post. xs = pre @ x # post \<and> P x \<and> (\<forall>y \<in> set pre. \<not> P y)"
proof (induction xs)
  case (Cons a xs)
  show ?case
  proof (cases "P a")
    case True
    then show ?thesis using Cons.prems by force
  next
    case False
    with Cons obtain pre post where "xs = pre @ x # post" "P x" "\<forall>y \<in> set pre. \<not> P y" by auto
    with False show ?thesis by (intro exI [of _ "a # pre"] exI [of _ post]) simp
  qed
qed simp

lemma alive_or_first_split:
  assumes "ps \<noteq> []"
  obtains p pre post where "alive_or_first w ps = Inr p" "ps = pre @ p # post"
    "\<forall>q \<in> set pre. \<not> is_alive w q" "is_alive w p \<or> (pre = [] \<and> (\<forall>q \<in> set ps. \<not> is_alive w q))"
proof (cases "find (is_alive w) ps")
  case None
  obtain p post where ps: "ps = p # post" using assms by (cases ps) auto
  have "\<forall>q \<in> set ps. \<not> is_alive w q" using None by (auto simp: find_None_iff)
  moreover have "alive_or_first w ps = Inr p" using None by (simp add: alive_or_first_def first_or_panic_def ps)
  ultimately show ?thesis using ps that [of p "[]" post] by simp
next
  case (Some p)
  then have "alive_or_first w ps = Inr p" by (simp add: alive_or_first_def)
  moreover obtain pre post where "ps = pre @ p # post" "is_alive w p" "\<forall>y \<in> set pre. \<not> is_alive w y"
    using find_split [OF Some] by auto
  ultimately show ?thesis using that [of p pre post] by simp
qed

text \<open>
  a fallback group uses its first living member. Whatever the members are, the one chosen is
  alive and all before it are dead; only when all are dead it is the first one; and the call
  panics only when the group has no member at all.
\<close>

theorem fallback_first_alive:
  assumes "group_proxies now touch i w = (ps, w1)" "ps \<noteq> []"
  shows "\<exists>p pre post. findAliveProxy now touch i w = Inr (p, w1) \<and> ps = pre @ p # post \<and>
    (\<forall>q \<in> set pre. \<not> is_alive w1 q) \<and> (is_alive w1 p \<or> pre = [] \<and> (\<forall>q \<in> set ps. \<not> is_alive w1 q))"
proof -
  obtain p pre post where "alive_or_first w1 ps = Inr p" "ps = pre @ p # post"
    "\<forall>q \<in> set pre. \<not> is_alive w1 q" "is_alive w1 p \<or> (pre = [] \<and> (\<forall>q \<in> set ps. \<not> is_alive w1 q))"
    by (rule alive_or_first_split [OF assms(2)])
  then show ?thesis using assms(1) by (auto simp: findAliveProxy_def)
qed

theorem fallback_first_alive_witness:
  "\<exists>w1 pre post. findAliveProxy 7 True 2 demo_world = Inr (1, w1) \<and> [0, 1] = pre @ 1 # post \<and> (\<forall>q \<in> set pre. \<not> is_alive w1 q)"
proof -
  let ?w = "snd (group_proxies 7 True 2 demo_world)"
  have g: "group_proxies 7 True 2 demo_world = ([0, 1], ?w)" by (simp add: demo_eval)
  have a: "\<not> is_alive ?w 0" "is_alive ?w 1" by (simp_all add: demo_eval)
  obtain p pre post where p: "findAliveProxy 7 True 2 demo_world = Inr (p, ?w)" "[0, 1] = pre @ p # post"
    "\<forall>q \<in> set pre. \<not> is_alive ?w q" "is_alive ?w p \<or> pre = [] \<and> (\<forall>q \<in> set [0, 1]. \<not> is_alive ?w q)"
    using fallback_first_alive [OF g] by auto
  then have "p = 1" using a by (auto simp: Cons_eq_append_conv)
  with p show ?thesis by blast
qed

lemma dead_delay: "\<not> is_alive w p \<Longrightarrow> LastDelay (px w p) = 65535"
  by (simp add: is_alive_def LastDelay_def)

lemma delay_max: "LastDelay p \<le> 65535"
proof -
  have "x \<le> 65535" for x :: uint16
    using unsigned_less [of x, where 'a = nat] by (simp add: word_le_nat_alt)
  then show ?thesis by blast
qed

lemma fastest_least:
  "m = LastDelay (px w fast) \<Longrightarrow> r = fastest w fast m ps \<Longrightarrow>
   r \<in> set (fast # ps) \<and> (\<forall>q \<in> set (fast # ps). LastDelay (px w r) \<le> LastDelay (px w q))"
proof (induction ps arbitrary: fast m)
  case (Cons p ps)
  consider "\<not> is_alive w p" | "is_alive w p" "LastDelay (px w p) < m" | "is_alive w p" "\<not> LastDelay (px w p) < m"
    by blast
  then show ?case
  proof cases
    case 1
    then show ?thesis using Cons.IH [OF Cons.prems(1)] Cons.prems(2) by (auto simp: dead_delay delay_max)
  next
    case 2
    then have r: "r = fastest w p (LastDelay (px w p)) ps" using Cons.prems(2) by simp
    note ih = Cons.IH [OF refl r]
    then have "LastDelay (px w r) \<le> LastDelay (px w fast)"
      using 2 Cons.prems(1) by (auto intro: order_trans [OF _ less_imp_le])
    with ih show ?thesis by auto
  next
    case 3
    then have r: "r = fastest w fast m ps" using Cons.prems(2) by simp
    note ih = Cons.IH [OF Cons.prems(1) r]
    then have "LastDelay (px w r) \<le> LastDelay (px w p)"
      using 3 Cons.prems(1) by (auto intro: order_trans simp: not_less)
    with ih show ?thesis by auto
  qed
qed simp

text \<open>
  C35: a url-test group uses its fastest member. After a tick, the node that the group dials is one
  of its members and none of them shows a smaller delay, where a dead member counts as the largest
  delay there is.
\<close>

theorem url_test_fastest:
  assumes "group_proxies now True i w = (ps, w1)" "grp (ad w1 i) = URLTestGroup tolerance old" "ps \<noteq> []"
  shows "\<exists>w' fast. url_test_tick now i w = Inr w' \<and> Unwrap etld later md i w' = Inr (Some fast, w') \<and>
    fast \<in> set ps \<and> (\<forall>q \<in> set ps. LastDelay (px w' fast) \<le> LastDelay (px w' q))"
proof -
  obtain p rest where ps: "ps = p # rest" using assms(3) by (cases ps) auto
  let ?f = "fastest w1 p (LastDelay (px w1 p)) rest"
  have "?f \<in> set ps \<and> (\<forall>q \<in> set ps. LastDelay (px w1 ?f) \<le> LastDelay (px w1 q))"
    unfolding ps by (rule fastest_least [OF refl refl])
  then show ?thesis using assms by (simp add: url_test_tick_def ps upd_ad_def Unwrap_def)
qed

theorem url_test_fastest_witness:
  "\<exists>w' fast. url_test_tick 7 3 demo_world = Inr w' \<and> fast \<in> {0, 1} \<and> LastDelay (px w' fast) \<le> LastDelay (px w' 1)"
proof -
  let ?w = "snd (group_proxies 7 True 3 demo_world)"
  have g: "group_proxies 7 True 3 demo_world = ([0, 1], ?w)" by (simp add: demo_eval)
  have t: "grp (ad ?w 3) = URLTestGroup 0 0" by (simp add: demo_eval)
  show ?thesis using url_test_fastest [OF g t, of "\<lambda>_. None" 0 demo_metadata] by fastforce
qed

section \<open>Load balancing\<close>

text \<open>\<open>k\<close> calls of the round-robin strategy one after the other.\<close>

fun round_robin_picks :: "nat \<Rightarrow> (pid \<Rightarrow> bool) \<Rightarrow> pid list \<Rightarrow> nat \<Rightarrow> panic + pid list \<times> nat" where
  "round_robin_picks 0 al ps idx = Inr ([], idx)"
| "round_robin_picks (Suc k) al ps idx =
     (case strategyRoundRobin al ps idx of
        Inl e \<Rightarrow> Inl e
      | Inr (p, idx') \<Rightarrow> map_sum id (apfst ((#) p)) (round_robin_picks k al ps idx'))"

lemma rotate_mod: "rotate (n mod length xs + 1) xs = rotate1 (rotate n xs)"
  using rotate_conv_mod [of n xs] by simp

lemma mset_rotate: "mset (rotate n xs) = mset xs"
proof (induction n)
  case (Suc n)
  then show ?case by (cases "rotate n xs") auto
qed simp

lemma round_robin_loop_skip:
  assumes "rotate (idx + 1) ps = pre @ p # post" "al p" "\<forall>q \<in> set pre. \<not> al q" "length pre < k"
  shows "\<exists>idx'. round_robin_loop k al ps idx = (Some p, idx') \<and> rotate (idx' + 1) ps = post @ pre @ [p]"
  using assms
proof (induction pre arbitrary: k idx post)
  case Nil
  then obtain k' where k: "k = Suc k'" by (cases k) auto
  have ne: "ps \<noteq> []" using Nil(1) by auto
  have p: "ps ! ((idx + 1) mod length ps) = p" using hd_rotate_conv_nth [OF ne, of "idx + 1"] Nil(1) by simp
  have "rotate ((idx + 1) mod length ps + 1) ps = rotate1 (rotate (idx + 1) ps)"
    by (rule rotate_mod)
  then show ?case using Nil p by (simp add: k Let_def)
next
  case (Cons a pre)
  then obtain k' where k: "k = Suc k'" "length pre < k'" by (cases k) auto
  have ne: "ps \<noteq> []" using Cons.prems(1) by auto
  let ?idx = "(idx + 1) mod length ps"
  have a: "ps ! ?idx = a" using hd_rotate_conv_nth [OF ne, of "idx + 1"] Cons.prems(1) by simp
  have "rotate (?idx + 1) ps = rotate1 (rotate (idx + 1) ps)"
    by (rule rotate_mod)
  then have r: "rotate (?idx + 1) ps = pre @ p # (post @ [a])" using Cons.prems(1) by simp
  from Cons.IH [OF r Cons.prems(2) _ k(2)] Cons.prems(3)
  show ?case using Cons.prems(3) a by (simp add: k Let_def)
qed

lemma strategyRoundRobin_next:
  assumes "filter al (rotate (idx + 1) ps) = p # alives"
  shows "\<exists>idx'. strategyRoundRobin al ps idx = Inr (p, idx') \<and> filter al (rotate (idx' + 1) ps) = alives @ [p]"
proof -
  obtain pre post where r: "rotate (idx + 1) ps = pre @ p # post" "\<forall>q \<in> set pre. \<not> al q" "al p" "alives = filter al post"
    using assms by (auto simp: filter_eq_Cons_iff)
  have "length pre < length (rotate (idx + 1) ps)" by (simp only: r(1)) simp
  then have "length pre < length ps" by simp
  from round_robin_loop_skip [OF r(1,3,2) this] obtain idx' where
    "round_robin_loop (length ps) al ps idx = (Some p, idx')" "rotate (idx' + 1) ps = post @ pre @ [p]" by blast
  with r show ?thesis by (auto simp: strategyRoundRobin_def filter_empty_conv)
qed

lemma round_robin_picks_take:
  "k \<le> length (filter al ps) \<Longrightarrow>
   \<exists>idx'. round_robin_picks k al ps idx = Inr (take k (filter al (rotate (idx + 1) ps)), idx')"
proof (induction k arbitrary: idx)
  case (Suc k)
  have "length (filter al (rotate (idx + 1) ps)) = length (filter al ps)"
    by (metis mset_filter mset_rotate size_mset)
  then obtain p alives where f: "filter al (rotate (idx + 1) ps) = p # alives" and len: "k \<le> length alives"
    using Suc.prems by (cases "filter al (rotate (idx + 1) ps)") auto
  obtain idx1 where s: "strategyRoundRobin al ps idx = Inr (p, idx1)" "filter al (rotate (idx1 + 1) ps) = alives @ [p]"
    using strategyRoundRobin_next [OF f] by blast
  from Suc.IH [of idx1] Suc.prems obtain idx' where
    "round_robin_picks k al ps idx1 = Inr (take k (alives @ [p]), idx')" unfolding s(2) by auto
  with s(1) f len show ?case by auto
qed simp

text \<open>
  C36: round robin is fair. From whatever index it stands at, as many calls as there are living
  members use each of them exactly once, in the order of the list from that index on; so it
  never uses a dead member while one is alive.
\<close>

theorem round_robin_fair:
  "\<exists>idx'. round_robin_picks (length (filter al ps)) al ps idx = Inr (filter al (rotate (idx + 1) ps), idx') \<and>
     mset (filter al (rotate (idx + 1) ps)) = mset (filter al ps)"
proof -
  have "mset (filter al (rotate (idx + 1) ps)) = mset (filter al ps)" by (metis mset_filter mset_rotate)
  moreover from this have "length (filter al (rotate (idx + 1) ps)) = length (filter al ps)" by (metis size_mset)
  ultimately show ?thesis using round_robin_picks_take [OF order_refl, of al ps idx] by simp
qed

lemma lb_keeps_member:
  assumes "\<forall>q \<in> set (ps @ [p]). al q" "ps \<noteq> []" "length ps + 1 < 2 ^ 31"
  shows "\<exists>q \<in> set ps. strategyConsistentHashing etld al ps md = Inr q \<and>
    strategyConsistentHashing etld al (ps @ [p]) md \<in> {Inr q, Inr p}"
proof -
  define key where "key = (ucast (Sum32 (string_to_bytes (getKey etld md))) :: uint64)"
  let ?i = "jumpHash key (of_nat (length ps))" and ?j = "jumpHash key (of_nat (length ps + 1))"
  have i: "?i < length ps" "?j = ?i \<or> ?j = length ps" using assms jumpHash_grow [of "length ps" key] by blast+
  have "strategyConsistentHashing etld al ps md = Inr (ps ! ?i)"
    using i assms(1) by (simp add: strategyConsistentHashing_def maxRetry_def key_def numeral_eq_Suc Let_def)
  moreover have "strategyConsistentHashing etld al (ps @ [p]) md = Inr ((ps @ [p]) ! ?j)"
  proof -
    have "?j < length (ps @ [p])" using i by auto
    moreover from this have "al ((ps @ [p]) ! ?j)" using assms(1) nth_mem by blast
    ultimately show ?thesis
      by (simp add: strategyConsistentHashing_def maxRetry_def key_def numeral_eq_Suc Let_def)
  qed
  ultimately show ?thesis using i by (intro bexI [of _ "ps ! ?i"]) (auto simp: nth_append)
qed

section \<open>Dialling ends\<close>

text \<open>Every proxy that a group could dial: its current node, the remembered members, those of its providers.\<close>

definition members :: "world \<Rightarrow> pid \<Rightarrow> pid set" where
  "members w i =
     (case grp (ad w i) of Selector _ p \<Rightarrow> {p} | URLTestGroup _ p \<Rightarrow> {p} | _ \<Rightarrow> {}) \<union>
     (case cached (single (ad w i)) of Some (_, ps) \<Rightarrow> set ps | None \<Rightarrow> {}) \<union>
     (\<Union>v \<in> set (providers (ad w i)). set (Proxies v w))"

definition ranked :: "(pid \<Rightarrow> nat) \<Rightarrow> world \<Rightarrow> bool" where
  "ranked rank w \<longleftrightarrow> (\<forall>i. \<forall>c \<in> members w i. rank c < rank i)"

text \<open>What never changes: names, and which proxies are relays.\<close>

definition same_names :: "world \<Rightarrow> world \<Rightarrow> bool" where
  "same_names w w' \<longleftrightarrow> (\<forall>i. name (ad w' i) = name (ad w i) \<and> (grp (ad w' i) = Relay \<longleftrightarrow> grp (ad w i) = Relay))"

lemma same_names_refl [simp]: "same_names w w"
  by (simp add: same_names_def)

lemma same_names_trans: "same_names w1 w2 \<Longrightarrow> same_names w2 w3 \<Longrightarrow> same_names w1 w3"
  by (simp add: same_names_def)

lemma upd_px_simps [simp]:
  "ad (upd_px i p w) = ad w" "pv (upd_px i p w) = pv w" "Proxies v (upd_px i p w) = Proxies v w"
  "members (upd_px i p w) = members w" "ranked rank (upd_px i p w) = ranked rank w"
  "same_names w' (upd_px i p w) = same_names w' w" "same_names (upd_px i p w) w' = same_names w w'"
  by (auto simp: upd_px_def Proxies_def members_def ranked_def same_names_def fun_eq_iff)

lemma getProvidersProxies_frame:
  "getProvidersProxies now touch vs w = (ps, w1) \<Longrightarrow>
   ad w1 = ad w \<and> px w1 = px w \<and> (\<forall>v. Proxies v w1 = Proxies v w) \<and> ps = concat (map (\<lambda>v. Proxies v w) vs)"
proof (induction vs arbitrary: w ps w1)
  case (Cons v vs)
  obtain qs w2 where q: "(if touch then ProxiesWithTouch now v w else (Proxies v w, w)) = (qs, w2)"
    by (cases "if touch then ProxiesWithTouch now v w else (Proxies v w, w)")
  then have f: "ad w2 = ad w" "px w2 = px w" "\<And>u. Proxies u w2 = Proxies u w" "qs = Proxies v w"
    by (auto simp: ProxiesWithTouch_def Proxies_def upd_pv_def Let_def split: if_splits)
  obtain rs w3 where r: "getProvidersProxies now touch vs w2 = (rs, w3)" by (cases "getProvidersProxies now touch vs w2")
  from Cons.prems q r have "ps = qs @ rs" "w1 = w3" by simp_all
  with Cons.IH [OF r] f show ?case by simp
qed simp

lemma group_proxies_frame:
  assumes "group_proxies now touch i w = (ps, w1)"
  shows "ranked rank w \<Longrightarrow> ranked rank w1 \<and> set ps \<subseteq> members w i" "same_names w w1" "grp (ad w1 i) = grp (ad w i)"
proof -
  obtain qs s w2 where d: "Single_Do now (getProvidersProxies now touch (providers (ad w i))) (single (ad w i)) w = (qs, s, w2)"
    by (cases "Single_Do now (getProvidersProxies now touch (providers (ad w i))) (single (ad w i)) w") auto
  obtain rs w3 where g: "getProvidersProxies now touch (providers (ad w i)) w = (rs, w3)"
    by (cases "getProvidersProxies now touch (providers (ad w i)) w")
  note fr = getProvidersProxies_frame [OF g]
  have e: "ps = qs" "w1 = upd_ad i ((ad w2 i)\<lparr>single := s\<rparr>) w2" using assms d by (simp_all add: group_proxies_def)
  have ad: "ad w2 = ad w" "\<And>v. Proxies v w2 = Proxies v w" and s: "s = single (ad w i) \<or> cached s = Some (now, concat (map (\<lambda>v. Proxies v w) (providers (ad w i))))"
    and qs: "set qs \<subseteq> members w i"
    using d fr by (auto simp: Single_Do_def g members_def Let_def split: option.splits if_splits)
  have pr: "Proxies v w1 = Proxies v w" for v using ad(2) [of v] by (simp add: e Proxies_def upd_ad_def)
  have m: "members w1 j \<subseteq> members w j" for j
  proof (cases "j = i")
    case True
    have a: "ad w1 i = (ad w i)\<lparr>single := s\<rparr>" by (simp add: e upd_ad_def ad)
    show ?thesis using s by (auto simp: True members_def a pr)
  next
    case False
    then have "ad w1 j = ad w j" by (simp add: e upd_ad_def ad)
    then show ?thesis by (simp add: members_def pr)
  qed
  show "ranked rank w \<Longrightarrow> ranked rank w1 \<and> set ps \<subseteq> members w i" using m qs by (auto simp: ranked_def e(1))
  show "same_names w w1" "grp (ad w1 i) = grp (ad w i)" by (auto simp: same_names_def e upd_ad_def ad)
qed

lemma first_or_panic_in: "first_or_panic ps = Inr p \<Longrightarrow> p \<in> set ps"
  by (cases ps) (auto simp: first_or_panic_def)

lemma alive_or_first_in: "alive_or_first w ps = Inr p \<Longrightarrow> p \<in> set ps"
  by (auto simp: alive_or_first_def first_or_panic_in find_Some_iff split: option.splits)

lemma round_robin_loop_in: "ps \<noteq> [] \<Longrightarrow> round_robin_loop k al ps idx = (Some p, j) \<Longrightarrow> p \<in> set ps"
  by (induction k arbitrary: idx) (auto simp: Let_def split: if_splits)

lemma strategyRoundRobin_in: "strategyRoundRobin al ps idx = Inr (p, j) \<Longrightarrow> p \<in> set ps"
proof (cases "ps = []")
  case False
  assume "strategyRoundRobin al ps idx = Inr (p, j)"
  with False round_robin_loop_in [OF False] first_or_panic_in show ?thesis
    by (cases "first_or_panic ps") (auto simp: strategyRoundRobin_def split: prod.splits option.splits)
qed (simp add: strategyRoundRobin_def first_or_panic_def)

lemma consistent_loop_in: "consistent_loop k al ps key = Inr (Some p) \<Longrightarrow> p \<in> set ps"
  by (induction k arbitrary: key) (auto simp: Let_def split: if_splits)

lemma strategyConsistentHashing_in: "strategyConsistentHashing etld al ps md = Inr p \<Longrightarrow> p \<in> set ps"
  by (auto simp: strategyConsistentHashing_def split: sum.splits option.splits dest: consistent_loop_in first_or_panic_in)

lemma findAliveProxy_frame:
  assumes "findAliveProxy now touch i w = Inr (p, w1)" "ranked rank w"
  shows "ranked rank w1" "same_names w w1" "rank p < rank i"
proof -
  obtain ps w2 where g: "group_proxies now touch i w = (ps, w2)" by (cases "group_proxies now touch i w")
  note fr = group_proxies_frame [OF g]
  have p: "w1 = w2" "p \<in> set ps"
    using assms(1) g by (cases "alive_or_first w2 ps"; auto simp: findAliveProxy_def intro: alive_or_first_in)+
  have r2: "ranked rank w2" "set ps \<subseteq> members w i" using fr(1) assms(2) by auto
  show "ranked rank w1" "same_names w w1" using r2(1) fr(2) by (simp_all add: p)
  show "rank p < rank i" using r2(2) p(2) assms(2) by (auto simp: ranked_def)
qed

lemma ranked_lb:
  assumes "ranked rank w" "grp (ad w i) = LoadBalance s"
  shows "ranked rank (upd_ad i ((ad w i)\<lparr>grp := LoadBalance s'\<rparr>) w)"
    "same_names w (upd_ad i ((ad w i)\<lparr>grp := LoadBalance s'\<rparr>) w)"
proof -
  have "members (upd_ad i ((ad w i)\<lparr>grp := LoadBalance s'\<rparr>) w) j = members w j" for j
    using assms(2) by (auto simp: members_def upd_ad_def Proxies_def)
  then show "ranked rank (upd_ad i ((ad w i)\<lparr>grp := LoadBalance s'\<rparr>) w)"
    using assms(1) by (simp add: ranked_def)
  show "same_names w (upd_ad i ((ad w i)\<lparr>grp := LoadBalance s'\<rparr>) w)"
    using assms(2) by (simp add: same_names_def upd_ad_def)
qed

lemma lb_Unwrap_frame:
  assumes u: "lb_Unwrap etld now md strategy i w = Inr (p, w1)" and r: "ranked rank w" and g: "grp (ad w i) = LoadBalance strategy"
  shows "ranked rank w1" "same_names w w1" "rank p < rank i"
proof -
  obtain ps w2 where gp: "group_proxies now True i w = (ps, w2)" by (cases "group_proxies now True i w")
  note fr = group_proxies_frame [OF gp]
  have g2: "grp (ad w2 i) = LoadBalance strategy" using fr(3) g by simp
  have *: "p \<in> set ps \<and> (w1 = w2 \<or> (\<exists>s'. w1 = upd_ad i ((ad w2 i)\<lparr>grp := LoadBalance s'\<rparr>) w2))"
  proof (cases strategy)
    case (RoundRobin idx)
    with u gp strategyRoundRobin_in show ?thesis
      by (cases "strategyRoundRobin (is_alive w2) ps idx") (auto simp: lb_Unwrap_def)
  next
    case ConsistentHashing
    with u gp strategyConsistentHashing_in show ?thesis
      by (cases "strategyConsistentHashing etld (is_alive w2) ps md") (auto simp: lb_Unwrap_def)
  qed
  have r2: "ranked rank w2" "set ps \<subseteq> members w i" using fr(1) r by auto
  show "ranked rank w1" using * r2(1) ranked_lb(1) [OF r2(1) g2] by auto
  show "same_names w w1" using * fr(2) same_names_trans [OF fr(2) ranked_lb(2) [OF r2(1) g2]] by auto
  show "rank p < rank i" using * r2(2) r by (auto simp: ranked_def)
qed

lemma Unwrap_frame:
  assumes "Unwrap etld now md i w = Inr (q, w1)" "ranked rank w"
  shows "ranked rank w1" "same_names w w1" "case q of Some c \<Rightarrow> rank c < rank i | None \<Rightarrow> grp (ad w i) \<in> {Outbound, Relay}"
proof -
  have "ranked rank w1 \<and> same_names w w1 \<and> (case q of Some c \<Rightarrow> rank c < rank i | None \<Rightarrow> grp (ad w i) \<in> {Outbound, Relay})"
  proof (cases "grp (ad w i)")
    case Fallback
    then obtain p where "findAliveProxy now True i w = Inr (p, w1)" "q = Some p"
      using assms(1) by (cases "findAliveProxy now True i w") (auto simp: Unwrap_def)
    with findAliveProxy_frame assms(2) show ?thesis by simp
  next
    case (LoadBalance strategy)
    then obtain p where "lb_Unwrap etld now md strategy i w = Inr (p, w1)" "q = Some p"
      using assms(1) by (cases "lb_Unwrap etld now md strategy i w") (auto simp: Unwrap_def)
    with lb_Unwrap_frame LoadBalance assms(2) show ?thesis by simp
  qed (use assms in \<open>auto simp: Unwrap_def ranked_def members_def\<close>)
  then show "ranked rank w1" "same_names w w1" "case q of Some c \<Rightarrow> rank c < rank i | None \<Rightarrow> grp (ad w i) \<in> {Outbound, Relay}"
    by blast+
qed

lemma unwrap_all_ends:
  assumes "ranked rank w" "rank p < n"
  shows "\<exists>r. unwrap_all n net now md p w = Some r \<and>
    (\<forall>q w1. r = Inr (q, w1) \<longrightarrow> ranked rank w1 \<and> same_names w w1 \<and> rank q \<le> rank p)"
  using assms
proof (induction n arbitrary: p w)
  case (Suc n)
  show ?case
  proof (cases "Unwrap (etld1 net) now md p w")
    case (Inr r)
    obtain q w1 where r: "r = (q, w1)" by (cases r)
    note fr = Unwrap_frame [OF Inr [unfolded r] Suc.prems(1)]
    show ?thesis
    proof (cases q)
      case None
      with Inr r fr show ?thesis by simp
    next
      case (Some c)
      with fr(3) Suc.prems(2) have c: "rank c < rank p" "rank c < n" by simp_all
      from Suc.IH [OF fr(1) c(2)] obtain r' where r': "unwrap_all n net now md c w1 = Some r'"
        "\<forall>q w2. r' = Inr (q, w2) \<longrightarrow> ranked rank w2 \<and> same_names w1 w2 \<and> rank q \<le> rank c" by blast
      have "rank q' \<le> rank p" if "rank q' \<le> rank c" for q' using that c(1) by linarith
      then show ?thesis using Inr r Some r' same_names_trans [OF fr(2)] by simp
    qed
  qed simp
qed simp

lemma unwrap_list_ends:
  assumes "ranked rank w" "\<forall>p \<in> set ps. rank p < b" "b \<le> n"
  shows "\<exists>r. unwrap_list n net now md ps w = Some r \<and>
    (\<forall>qs w1. r = Inr (qs, w1) \<longrightarrow> ranked rank w1 \<and> same_names w w1 \<and> (\<forall>q \<in> set qs. rank q < b))"
  using assms(1,2)
proof (induction ps arbitrary: w)
  case (Cons p ps)
  have "rank p < n" using Cons.prems(2) assms(3) by simp
  from unwrap_all_ends [where rank = rank, OF Cons.prems(1) this] obtain r where r: "unwrap_all n net now md p w = Some r"
    "\<forall>q w1. r = Inr (q, w1) \<longrightarrow> ranked rank w1 \<and> same_names w w1 \<and> rank q \<le> rank p" by blast
  show ?case
  proof (cases r)
    case (Inr x)
    obtain q w1 where x: "x = (q, w1)" by (cases x)
    with r Inr have f: "ranked rank w1" "same_names w w1" "rank q < b" using Cons.prems(2) by (auto intro: le_less_trans)
    from Cons.IH [OF f(1)] Cons.prems(2) obtain s where s: "unwrap_list n net now md ps w1 = Some s"
      "\<forall>qs w2. s = Inr (qs, w2) \<longrightarrow> ranked rank w2 \<and> same_names w1 w2 \<and> (\<forall>q \<in> set qs. rank q < b)" by auto
    then show ?thesis
      using r(1) Inr x f by (cases s) (auto intro: same_names_trans)
  qed (use r in simp)
qed simp

lemma relay_proxies_ends:
  assumes "ranked rank w" "rank i \<le> n"
  shows "\<exists>r. relay_proxies n net now md i w = Some r \<and>
    (\<forall>qs w1. r = Inr (qs, w1) \<longrightarrow> ranked rank w1 \<and> same_names w w1 \<and> (\<forall>q \<in> set qs. rank q < rank i))"
proof -
  obtain ps w1 where g: "group_proxies now True i w = (ps, w1)" by (cases "group_proxies now True i w")
  note fr = group_proxies_frame [OF g]
  have "ranked rank w1" "\<forall>p \<in> set ps. rank p < rank i" using fr(1) [OF assms(1)] assms(1) by (auto simp: ranked_def)
  from unwrap_list_ends [OF this assms(2)] obtain s where s: "unwrap_list n net now md ps w1 = Some s"
    "\<forall>qs w2. s = Inr (qs, w2) \<longrightarrow> ranked rank w2 \<and> same_names w1 w2 \<and> (\<forall>q \<in> set qs. rank q < rank i)" by blast
  show ?thesis
  proof (cases s)
    case (Inr x)
    obtain qs w2 where x: "x = (qs, w2)" by (cases x)
    let ?s = "(single (ad w2 i))\<lparr>cached := map_option (apsnd (\<lambda>_. qs)) (cached (single (ad w2 i)))\<rparr>"
    let ?w = "upd_ad i ((ad w2 i)\<lparr>single := ?s\<rparr>) w2"
    have f: "ranked rank w2" "same_names w1 w2" "\<forall>q \<in> set qs. rank q < rank i" using s(2) Inr x by auto
    have "rank c < rank j" if "c \<in> members ?w j" for c j
    proof (cases "j = i")
      case True
      have "c \<in> members w2 i \<or> c \<in> set qs"
        using that by (cases "cached (single (ad w2 i))") (auto simp: True members_def upd_ad_def Proxies_def)
      with f True show ?thesis by (auto simp: ranked_def)
    next
      case False
      then have "members ?w j = members w2 j" by (simp add: members_def upd_ad_def Proxies_def)
      with that f(1) show ?thesis by (auto simp: ranked_def)
    qed
    then have "ranked rank ?w" by (simp add: ranked_def)
    moreover have "same_names w2 ?w" by (simp add: same_names_def upd_ad_def)
    then have "same_names w ?w" using fr(2) f(2) same_names_trans by blast
    ultimately show ?thesis using f(3) by (simp add: relay_proxies_def g s(1) Inr x Let_def)
  qed (simp add: relay_proxies_def g s(1))
qed

abbreviation good_result :: "(pid \<Rightarrow> nat) \<Rightarrow> world \<Rightarrow> pid \<Rightarrow> 'e dial_result \<Rightarrow> bool" where
  "good_result rank w i r \<equiv>
     (\<forall>res w1. r = Inr (res, w1) \<longrightarrow> ranked rank w1 \<and> same_names w w1 \<and>
        (\<forall>c. res = Inr c \<longrightarrow> c \<noteq> [] \<and> (grp (ad w i) \<noteq> Relay \<longrightarrow> last c = name (ad w i))))"

abbreviation good_dial :: "(pid \<Rightarrow> nat) \<Rightarrow> nat \<Rightarrow> (pid \<Rightarrow> world \<Rightarrow> 'e dial_result option) \<Rightarrow> bool" where
  "good_dial rank n d \<equiv> \<forall>i w. ranked rank w \<longrightarrow> rank i < n \<longrightarrow> (\<exists>r. d i w = Some r \<and> good_result rank w i r)"

lemma Relay_DialContext_ends:
  assumes d: "good_dial rank n d" and w: "ranked rank w" "rank i \<le> n" and g: "grp (ad w i) = Relay"
  shows "\<exists>r. Relay_DialContext d n net now md i w = Some r \<and> good_result rank w i r"
proof -
  from relay_proxies_ends [OF w] obtain r where r: "relay_proxies n net now md i w = Some r"
    "\<forall>qs w1. r = Inr (qs, w1) \<longrightarrow> ranked rank w1 \<and> same_names w w1 \<and> (\<forall>q \<in> set qs. rank q < rank i)" by blast
  show ?thesis
  proof (cases r)
    case (Inr x)
    obtain ps w1 where x: "x = (ps, w1)" by (cases x)
    with r Inr have f: "ranked rank w1" "same_names w w1" "\<forall>q \<in> set ps. rank q < rank i" by auto
    let ?hops = "filter (\<lambda>p. tp (ad w1 p) \<noteq> AtDirect) ps"
    show ?thesis
    proof (cases "\<exists>q. ?hops = [q]")
      case True
      then obtain q where q: "?hops = [q]" by blast
      then have "q \<in> set ps" by (metis filter_is_subset list.set_intros(1) subsetD)
      then have "rank q < n" using f(3) w(2) by auto
      then obtain s where s: "d q w1 = Some s" "good_result rank w1 q s" using d f(1) by blast
      then have "good_result rank w i s" using f(2) g same_names_trans by simp
      with s(1) show ?thesis by (simp add: Relay_DialContext_def r(1) Inr x q)
    next
      case False
      then show ?thesis using f(1,2) g
        by (auto simp: Relay_DialContext_def r(1) Inr x split: list.splits option.splits)
    qed
  qed (use r in \<open>simp add: Relay_DialContext_def\<close>)
qed

lemma group_DialContext_ends:
  assumes d: "good_dial rank n d" and w: "ranked rank w" "rank i \<le> n" and g: "grp (ad w i) \<notin> {Outbound, Relay}"
  shows "\<exists>r. group_DialContext d net now md i w = Some r \<and> good_result rank w i r"
proof (cases "Unwrap (etld1 net) now md i w")
  case (Inr x)
  obtain q w1 where x: "x = (q, w1)" by (cases x)
  note fr = Unwrap_frame [OF Inr [unfolded x] w(1)]
  from fr(3) g obtain c where c: "q = Some c" "rank c < rank i" by (cases q) auto
  then have "rank c < n" using w(2) by simp
  then obtain s where s: "d c w1 = Some s" "good_result rank w1 c s" using d fr(1) by blast
  have "good_result rank w i (map_sum id (append_chain (name (ad w i))) s)"
    using s(2) fr(2) same_names_trans by (cases s) (auto simp: map_sum_def split: sum.splits)
  with Inr x c(1) s(1) show ?thesis by (simp add: group_DialContext_def)
qed (simp add: group_DialContext_def)

lemma adapter_DialContext_ends:
  assumes d: "good_dial rank n d" and w: "ranked rank w" "rank i \<le> n"
  shows "\<exists>r. adapter_DialContext d n net now md i w = Some r \<and> good_result rank w i r"
proof (cases "grp (ad w i)")
  case Outbound
  then show ?thesis using w(1) by (simp add: adapter_DialContext_def split: option.split)
next
  case Relay
  then show ?thesis using Relay_DialContext_ends [OF d w Relay] by (simp add: adapter_DialContext_def)
qed (use group_DialContext_ends [OF d w] in \<open>simp_all add: adapter_DialContext_def\<close>)

lemma good_result_finish:
  assumes "good_result rank w i r"
  shows "good_result rank w i (map_sum id (finish_dial done token i) r)"
  using assms by (cases r) (auto simp: map_sum_def split: sum.splits)

lemma dial_ends: "good_dial rank n (dial n net now done md)"
proof (induction n)
  case (Suc n)
  have "\<exists>r. dial (Suc n) net now done md i w = Some r \<and> good_result rank w i r"
    if w: "ranked rank w" "rank i < Suc n" for i w
  proof (cases "dial_begin now (px w i)")
    case (Pair t p)
    show ?thesis
    proof (cases t)
      case None
      then show ?thesis using Pair w(1) by simp
    next
      case (Some token)
      let ?w = "upd_px i p w"
      from adapter_DialContext_ends [OF Suc.IH, of ?w i net now md] w obtain r where
        r: "adapter_DialContext (dial n net now done md) n net now md i ?w = Some r" "good_result rank ?w i r" by auto
      then have "good_result rank w i r" by simp
      from good_result_finish [OF this] show ?thesis using Pair Some r(1) by auto
    qed
  qed
  then show ?case by blast
qed simp

text \<open>
  dialling through nested groups ends, and records the way. When groups are nested without
  a cycle, which a rank of the proxies expresses, a dial through any group returns: it needs no
  more levels than its rank. The chain of a connection it makes is not empty, and its last
  element is the name of the proxy that was dialled, unless that is a relay.
\<close>

theorem group_dial_ends:
  assumes "ranked rank w" "rank i < n"
  shows "\<exists>r. dial n net now done md i w = Some r \<and>
    (\<forall>c w1. r = Inr (Inr c, w1) \<longrightarrow> c \<noteq> [] \<and> (grp (ad w i) \<noteq> Relay \<longrightarrow> last c = name (ad w i)) \<and> ranked rank w1)"
  using dial_ends [of rank n net now "done" md] assms by blast

theorem group_dial_ends_witness:
  "\<exists>r. dial 2 \<lparr>etld1 = (\<lambda>_. None), out_dial = (\<lambda>_ _. None :: unit option), direct_dial = (\<lambda>_. None), hops_dial = (\<lambda>_ _. None)\<rparr>
     7 8 demo_metadata 2 demo_world = Some r"
proof -
  have "ranked (\<lambda>i. if i < 2 then 0 else 1) demo_world"
    by (auto simp: ranked_def members_def demo_eval split: if_splits)
  from group_dial_ends [OF this, of 2 2] show ?thesis by (simp add: numeral_2_eq_2) blast
qed

section \<open>A relay keeps what it unwrapped\<close>

text \<open>
  Because \<open>Relay.proxies\<close> overwrites the remembered slice, the members chosen for one connection
  are used for every other one until the slice is fetched anew, whatever its destination.
\<close>

lemma unwrap_list_outbounds:
  "\<forall>q \<in> set qs. grp (ad w q) = Outbound \<Longrightarrow> unwrap_list (Suc n) net now md qs w = Some (Inr (qs, w))"
  by (induction qs) (auto simp: Unwrap_def)

lemma relay_pinned:
  assumes "relay_proxies n net now md i w = Some (Inr (qs, w1))"
    "cached (single (ad w1 i)) = Some (t, ps)" "later < t + wait (single (ad w1 i))"
    "\<forall>q \<in> set qs. grp (ad w1 q) = Outbound" "grp (ad w1 i) = Relay"
  shows "\<exists>w2. relay_proxies (Suc n) net later other_md i w1 = Some (Inr (qs, w2))"
proof -
  have ps: "ps = qs"
    using assms(1,2) by (auto simp: relay_proxies_def upd_ad_def Let_def split: prod.splits option.splits sum.splits)
  have "w1\<lparr>ad := (ad w1)(i := (ad w1 i)\<lparr>single := single (ad w1 i)\<rparr>)\<rparr> = w1" by simp
  then have "group_proxies later True i w1 = (qs, w1)"
    using assms(2,3) ps by (simp add: group_proxies_def Single_Do_def upd_ad_def)
  moreover have "unwrap_list (Suc n) net later other_md qs w1 = Some (Inr (qs, w1))"
    using assms(4) by (rule unwrap_list_outbounds)
  ultimately show ?thesis by (simp add: relay_proxies_def Let_def)
qed

end
