(* ===== verification/Structure.thy ===== *)
theory Structure
  imports Go_Strings "HOL-Library.AList"
begin

text \<open>
  \<open>common/structure/structure.go\<close>: the decoder that fills a struct of options from the untyped maps
  of a configuration file, by reflection. \<open>gtype\<close> is the type a reflected value has, \<open>gval\<close> such a
  value, \<open>gdata\<close> what the YAML decoder produces. Where Go ranges over a map in an order of its own
  choice, the model follows the order of the list of entries.
\<close>

section \<open>strconv.ParseInt with base 0\<close>

definition digit_value :: "char \<Rightarrow> nat option" where
  "digit_value c =
     (let n = (of_char c :: nat); l = (of_char (lower_char c) :: nat)
      in if 48 \<le> n \<and> n \<le> 57 then Some (n - 48)
         else if 97 \<le> l \<and> l \<le> 122 then Some (l - 97 + 10)
         else None)"

fun parse_digits :: "nat \<Rightarrow> nat \<Rightarrow> string \<Rightarrow> nat option" where
  "parse_digits base n [] = Some n"
| "parse_digits base n (c # s) =
     (if c = CHR ''_'' then parse_digits base n s
      else case digit_value c of
             Some d \<Rightarrow> if d \<ge> base then None else parse_digits base (n * base + d) s
           | None \<Rightarrow> None)"

text \<open>The state of \<open>underscoreOK\<close> after a character: a digit, an underscore, or something else.\<close>

datatype uscore = UDigit | UUnder | UOther

fun underscore_scan :: "bool \<Rightarrow> uscore \<Rightarrow> string \<Rightarrow> bool" where
  "underscore_scan hx i [] = (i \<noteq> UUnder)"
| "underscore_scan hx i (c # s) =
     (let n = (of_char c :: nat); l = (of_char (lower_char c) :: nat)
      in if 48 \<le> n \<and> n \<le> 57 \<or> hx \<and> 97 \<le> l \<and> l \<le> 102 then underscore_scan hx UDigit s
         else if c = CHR ''_'' then (if i \<noteq> UDigit then False else underscore_scan hx UUnder s)
         else if i = UUnder then False
         else underscore_scan hx UOther s)"

definition base_prefix :: "string \<Rightarrow> nat \<times> string" where
  "base_prefix s =
     (case s of
        CHR ''0'' # rest \<Rightarrow>
          (case rest of
             c # digits \<Rightarrow>
               if digits \<noteq> [] \<and> lower_char c = CHR ''b'' then (2, digits)
               else if digits \<noteq> [] \<and> lower_char c = CHR ''o'' then (8, digits)
               else if digits \<noteq> [] \<and> lower_char c = CHR ''x'' then (16, digits)
               else (8, rest)
           | [] \<Rightarrow> (8, rest))
      | _ \<Rightarrow> (10, s))"

definition underscoreOK :: "string \<Rightarrow> bool" where
  "underscoreOK s =
     (case s of
        CHR ''0'' # c # rest \<Rightarrow>
          if lower_char c \<in> {CHR ''b'', CHR ''o'', CHR ''x''} then underscore_scan (lower_char c = CHR ''x'') UDigit rest
          else underscore_scan False UOther s
      | _ \<Rightarrow> underscore_scan False UOther s)"

definition ParseUint0 :: "string \<Rightarrow> nat option" where
  "ParseUint0 s =
     (if s = [] then None
      else let (base, digits) = base_prefix s
           in case parse_digits base 0 digits of
                None \<Rightarrow> None
              | Some n \<Rightarrow> if CHR ''_'' \<in> set digits \<and> \<not> underscoreOK s then None else Some n)"

definition ParseInt0 :: "string \<Rightarrow> int option" where
  "ParseInt0 s =
     (let (neg, digits) = (case s of CHR ''+'' # r \<Rightarrow> (False, r) | CHR ''-'' # r \<Rightarrow> (True, r) | _ \<Rightarrow> (False, s))
      in case ParseUint0 digits of
           None \<Rightarrow> None
         | Some n \<Rightarrow>
             if \<not> neg \<and> n \<ge> 2 ^ 63 then None
             else if neg \<and> n > 2 ^ 63 then None
             else Some (if neg then - int n else int n))"

section \<open>Types, values and data\<close>

datatype gtype = TInt | TString | TBool | TSlice gtype | TMap gtype gtype | TIface
  | TStruct "(string \<times> string \<times> gtype) list" | TOther

datatype key_kind = KString | KInterface | KOther

datatype gdata = DNil | DInt int | DString string | DBool bool | DFloat | DSlice "gdata list" | DMap key_kind "(gdata \<times> gdata) list"

datatype gval = VInt int | VString string | VBool bool | VSlice "gval list" | VMap "(gval \<times> gval) list option" | VIface "gdata option"
  | VStruct "gval list" | VOther

fun has_type :: "gtype \<Rightarrow> gval \<Rightarrow> bool" where
  "has_type TInt (VInt _) = True"
| "has_type TString (VString _) = True"
| "has_type TBool (VBool _) = True"
| "has_type (TSlice t) (VSlice vs) = (\<forall>v \<in> set vs. has_type t v)"
| "has_type (TMap k t) (VMap None) = True"
| "has_type (TMap k t) (VMap (Some es)) = (\<forall>(a, b) \<in> set es. has_type k a \<and> has_type t b)"
| "has_type TIface (VIface _) = True"
| "has_type (TStruct fs) (VStruct vs) = list_all2 (\<lambda>(_, _, t) v. has_type t v) fs vs"
| "has_type TOther VOther = True"
| "has_type _ _ = False"

fun zero_value :: "gtype \<Rightarrow> gval" where
  "zero_value TInt = VInt 0"
| "zero_value TString = VString []"
| "zero_value TBool = VBool False"
| "zero_value (TSlice t) = VSlice []"
| "zero_value (TMap k t) = VMap None"
| "zero_value TIface = VIface None"
| "zero_value (TStruct fs) = VStruct (map (\<lambda>(_, _, t). zero_value t) fs)"
| "zero_value TOther = VOther"

lemma zero_value_type [simp]: "has_type t (zero_value t)"
  by (induction t) (auto simp: list_all2_map2 list_all2_same)

section \<open>Decoding\<close>

text \<open>The name of a place in an error message: the key, and the indices, keys and fields on the way down.\<close>

datatype place = PKey string | PIndex place nat | PEntry place gdata | PField place string

datatype decode_error = MissingKey string | Unsupported | CannotParse place | Unconvertible place | NotSlice place | NotMap place
  | NeedStringKeys place | NilEntry place | BadSquash string | Joined "decode_error list"

text \<open>
  The fields to fill, with the way to each of them: a field with the option \<open>squash\<close> stands for the
  fields of its own struct, which are added at the end.
\<close>

definition is_squash :: "string \<Rightarrow> bool" where
  "is_squash tag \<longleftrightarrow> ''squash'' \<in> set (tl (Split (CHR '','') tag))"

fun scan_fields :: "nat list \<Rightarrow> nat \<Rightarrow> (string \<times> string \<times> gtype) list \<Rightarrow>
    (nat list \<times> string \<times> string \<times> gtype) list \<times> (nat list \<times> (string \<times> string \<times> gtype) list) list \<times> decode_error list" where
  "scan_fields path i [] = ([], [], [])"
| "scan_fields path i ((nm, tag, t) # fs) =
     (let (fields, structs, errs) = scan_fields path (i + 1) fs
      in if is_squash tag then
           (case t of
              TStruct gs \<Rightarrow> (fields, (path @ [i], gs) # structs, errs)
            | _ \<Rightarrow> (fields, structs, BadSquash nm # errs))
         else ((path @ [i], nm, tag, t) # fields, structs, errs))"

abbreviation fields_size :: "(string \<times> string \<times> gtype) list \<Rightarrow> nat" where
  "fields_size fs \<equiv> sum_list (map (\<lambda>(_, _, t). Suc (size t)) fs)"

lemma scan_fields_size:
  "scan_fields path i fs = (fields, structs, errs) \<Longrightarrow> sum_list (map (\<lambda>(_, gs). Suc (fields_size gs)) structs) \<le> fields_size fs"
proof (induction path i fs arbitrary: fields structs errs rule: scan_fields.induct)
  case (2 path i nm tag t fs)
  obtain f' s' e' where r: "scan_fields path (i + 1) fs = (f', s', e')" by (cases "scan_fields path (i + 1) fs") auto
  from "2.IH" [OF r] have ih: "sum_list (map (\<lambda>(_, gs). Suc (fields_size gs)) s') \<le> fields_size fs" .
  have "fields_size gs \<le> size (TStruct gs)" for gs
    by (induction gs) (auto simp: size_list_conv_sum_list)
  then have "Suc (fields_size gs) \<le> Suc (size t)" if "t = TStruct gs" for gs using that by simp
  with "2.prems" r ih show ?case by (cases t) (force split: if_splits)+
qed simp

function flat_fields :: "(nat list \<times> (string \<times> string \<times> gtype) list) list \<Rightarrow> (nat list \<times> string \<times> string \<times> gtype) list \<times> decode_error list" where
  "flat_fields [] = ([], [])"
| "flat_fields ((path, fs) # structs) =
     (let (fields, more, errs) = scan_fields path 0 fs; (fields', errs') = flat_fields (structs @ more)
      in (fields @ fields', errs @ errs'))"
  by pat_completeness auto

termination
proof (relation "measure (\<lambda>structs. sum_list (map (\<lambda>(_, gs). Suc (fields_size gs)) structs))", simp)
  fix path fs structs x fields y more errs
  assume "x = scan_fields path 0 fs" "(fields, y) = x" "(more, errs) = y"
  then have "sum_list (map (\<lambda>(_, gs). Suc (fields_size gs)) more) \<le> fields_size fs" by (intro scan_fields_size [of path 0 fs fields more errs]) auto
  then show "(structs @ more, (path, fs) # structs) \<in> measure (\<lambda>structs. sum_list (map (\<lambda>(_, gs). Suc (fields_size gs)) structs))"
    by simp
qed

fun get_at :: "nat list \<Rightarrow> gval \<Rightarrow> gval" where
  "get_at [] v = v"
| "get_at (i # is) v = (case v of VStruct vs \<Rightarrow> if i < length vs then get_at is (vs ! i) else VOther | _ \<Rightarrow> VOther)"

fun set_at :: "nat list \<Rightarrow> gval \<Rightarrow> gval \<Rightarrow> gval" where
  "set_at [] x v = x"
| "set_at (i # is) x v = (case v of VStruct vs \<Rightarrow> if i < length vs then VStruct (vs[i := set_at is x (vs ! i)]) else v | _ \<Rightarrow> v)"

text \<open>The value of a field: the entry under its name, or the first one whose key is equal up to case.\<close>

definition find_entry :: "string \<Rightarrow> (gdata \<times> gdata) list \<Rightarrow> gdata option" where
  "find_entry nm es =
     (case map_of es (DString nm) of
        Some d \<Rightarrow> Some d
      | None \<Rightarrow> map_option snd (find (\<lambda>(k, _). case k of DString s \<Rightarrow> EqualFold s nm | _ \<Rightarrow> False) es))"

definition field_key :: "string \<Rightarrow> string \<Rightarrow> string" where
  "field_key nm tag = (let t = hd (SplitN2 (CHR '','') tag) in if t \<noteq> [] then t else nm)"

abbreviation entries_size :: "(gdata \<times> gdata) list \<Rightarrow> nat" where
  "entries_size es \<equiv> size_list (size_prod size size) es"

lemma entry_size: "(k, v) \<in> set es \<Longrightarrow> size k < entries_size es \<and> size v < entries_size es"
  by (auto intro!: size_list_estimation)

lemma find_entry_in: "find_entry nm es = Some d \<Longrightarrow> \<exists>k. (k, d) \<in> set es"
  by (auto simp: find_entry_def find_Some_iff split: option.splits dest!: map_of_SomeD) (metis nth_mem)

lemma find_entry_size: "find_entry nm es = Some d \<Longrightarrow> size d < entries_size es"
  using find_entry_in entry_size by blast

text \<open>
  \<open>decode\<close> and its helpers. The option \<open>WeaklyTypedInput\<close> is \<open>weak\<close>; \<open>old\<close> is the value that is
  overwritten. A nil among the data is the zero \<open>reflect.Value\<close>, on which \<open>Type\<close> and \<open>Set\<close> panic.
\<close>

function (sequential)
  decode :: "bool \<Rightarrow> place \<Rightarrow> gdata \<Rightarrow> gtype \<Rightarrow> gval \<Rightarrow> panic + decode_error + gval"
and decode_slice :: "bool \<Rightarrow> place \<Rightarrow> nat \<Rightarrow> gdata list \<Rightarrow> gtype \<Rightarrow> gval list \<Rightarrow> panic + decode_error + gval list"
and decode_entries :: "bool \<Rightarrow> place \<Rightarrow> (gdata \<times> gdata) list \<Rightarrow> gtype \<Rightarrow> gtype \<Rightarrow> (gval \<times> gval) list \<Rightarrow> decode_error list \<Rightarrow>
    panic + (gval \<times> gval) list \<times> decode_error list"
and decode_fields :: "bool \<Rightarrow> place \<Rightarrow> (gdata \<times> gdata) list \<Rightarrow> (nat list \<times> string \<times> string \<times> gtype) list \<Rightarrow> gval \<Rightarrow> decode_error list \<Rightarrow>
    panic + gval \<times> decode_error list" where
  "decode weak nm data TInt old =
     (case data of
        DNil \<Rightarrow> Inl ReflectValueError
      | DInt i \<Rightarrow> Inr (Inr (VInt i))
      | DString s \<Rightarrow>
          if weak then (case ParseInt0 s of Some i \<Rightarrow> Inr (Inr (VInt i)) | None \<Rightarrow> Inr (Inl (CannotParse nm)))
          else Inr (Inl (Unconvertible nm))
      | _ \<Rightarrow> Inr (Inl (Unconvertible nm)))"
| "decode weak nm data TString old =
     (case data of
        DNil \<Rightarrow> Inl ReflectValueError
      | DString s \<Rightarrow> Inr (Inr (VString s))
      | DInt i \<Rightarrow> if weak then Inr (Inr (VString (Itoa i))) else Inr (Inl (Unconvertible nm))
      | _ \<Rightarrow> Inr (Inl (Unconvertible nm)))"
| "decode weak nm data TBool old =
     (case data of
        DNil \<Rightarrow> Inl ReflectValueError
      | DBool b \<Rightarrow> Inr (Inr (VBool b))
      | DInt i \<Rightarrow> if weak then Inr (Inr (VBool (i \<noteq> 0))) else Inr (Inl (Unconvertible nm))
      | _ \<Rightarrow> Inr (Inl (Unconvertible nm)))"
| "decode weak nm data (TSlice t) old =
     (case data of
        DSlice ds \<Rightarrow>
          (case decode_slice weak nm 0 ds t (case old of VSlice vs \<Rightarrow> vs | _ \<Rightarrow> []) of
             Inl p \<Rightarrow> Inl p
           | Inr (Inl e) \<Rightarrow> Inr (Inl e)
           | Inr (Inr vs) \<Rightarrow> Inr (Inr (VSlice vs)))
      | _ \<Rightarrow> Inr (Inl (NotSlice nm)))"
| "decode weak nm data (TMap k t) old =
     (case data of
        DMap kk es \<Rightarrow>
          (case decode_entries weak nm es k t (case old of VMap (Some old) \<Rightarrow> old | _ \<Rightarrow> []) [] of
             Inl p \<Rightarrow> Inl p
           | Inr (vs, errs) \<Rightarrow> if errs \<noteq> [] then Inr (Inl (Joined errs)) else Inr (Inr (VMap (Some vs))))
      | _ \<Rightarrow> Inr (Inl (NotMap nm)))"
| "decode weak nm data TIface old = (case data of DNil \<Rightarrow> Inl ReflectValueError | _ \<Rightarrow> Inr (Inr (VIface (Some data))))"
| "decode weak nm data (TStruct fs) old =
     (case data of
        DNil \<Rightarrow> Inl ReflectValueError
      | DMap kk es \<Rightarrow>
          if kk = KOther then Inr (Inl (NeedStringKeys nm))
          else (let (fields, errs) = flat_fields [([], fs)]
                in case decode_fields weak nm es fields old errs of
                     Inl p \<Rightarrow> Inl p
                   | Inr (v, errs') \<Rightarrow> if errs' \<noteq> [] then Inr (Inl (Joined errs')) else Inr (Inr v))
      | _ \<Rightarrow> Inr (Inl (NotMap nm)))"
| "decode weak nm data TOther old = Inr (Inl Unsupported)"
| "decode_slice weak nm i [] t vs = Inr (Inr vs)"
| "decode_slice weak nm i (d # ds) t vs =
     (case decode weak (PIndex nm i) d t (case vs of v # _ \<Rightarrow> v | [] \<Rightarrow> zero_value t) of
        Inl p \<Rightarrow> Inl p
      | Inr (Inl e) \<Rightarrow> Inr (Inl e)
      | Inr (Inr v) \<Rightarrow>
          (case decode_slice weak nm (i + 1) ds t (tl vs) of
             Inl p \<Rightarrow> Inl p
           | Inr (Inl e) \<Rightarrow> Inr (Inl e)
           | Inr (Inr rest) \<Rightarrow> Inr (Inr (v # rest))))"
| "decode_entries weak nm [] k t vs errs = Inr (vs, errs)"
| "decode_entries weak nm ((kd, vd) # es) k t vs errs =
     (case decode weak (PEntry nm kd) kd k (zero_value k) of
        Inl p \<Rightarrow> Inl p
      | Inr (Inl e) \<Rightarrow> decode_entries weak nm es k t vs (errs @ [e])
      | Inr (Inr key) \<Rightarrow>
          if vd = DNil then decode_entries weak nm es k t vs (errs @ [NilEntry (PEntry nm kd)])
          else (case decode weak (PEntry nm kd) vd t (zero_value t) of
                  Inl p \<Rightarrow> Inl p
                | Inr (Inl e) \<Rightarrow> decode_entries weak nm es k t vs (errs @ [e])
                | Inr (Inr v) \<Rightarrow> decode_entries weak nm es k t (AList.update key v vs) errs))"
| "decode_fields weak nm es [] v errs = Inr (v, errs)"
| "decode_fields weak nm es ((path, fname, tag, t) # fields) v errs =
     (case find_entry (field_key fname tag) es of
        None \<Rightarrow> decode_fields weak nm es fields v errs
      | Some d \<Rightarrow>
          (case decode weak (PField nm (field_key fname tag)) d t (get_at path v) of
             Inl p \<Rightarrow> Inl p
           | Inr (Inl e) \<Rightarrow> decode_fields weak nm es fields v (errs @ [e])
           | Inr (Inr x) \<Rightarrow> decode_fields weak nm es fields (set_at path x v) errs))"
  by pat_completeness auto

termination
  by (relation "measures [\<lambda>x. case x of Inl (Inl (_, _, d, _)) \<Rightarrow> size d | Inl (Inr (_, _, _, ds, _)) \<Rightarrow> size_list size ds
        | Inr (Inl (_, _, es, _)) \<Rightarrow> entries_size es | Inr (Inr (_, _, es, _)) \<Rightarrow> entries_size es,
      \<lambda>x. case x of Inr (Inr (_, _, _, fields, _)) \<Rightarrow> length fields | _ \<Rightarrow> 0]")
    (auto simp: find_entry_size)

text \<open>The entry point: every field of the struct has a key, and only those with \<open>omitempty\<close> may be missing.\<close>

fun Decode_fields :: "bool \<Rightarrow> (string \<rightharpoonup> gdata) \<Rightarrow> (string \<times> string \<times> gtype) list \<Rightarrow> gval list \<Rightarrow> panic + decode_error + gval list" where
  "Decode_fields weak src ((nm, tag, t) # fs) (v # vs) =
     (let str = SplitN2 (CHR '','') tag; key = hd str; omitempty = (length str > 1 \<and> str ! 1 = ''omitempty'');
          decoded =
            (case src key of
               Some d \<Rightarrow> if d = DNil then (if omitempty then Inr (Inr v) else Inr (Inl (MissingKey key))) else decode weak (PKey key) d t v
             | None \<Rightarrow> if omitempty then Inr (Inr v) else Inr (Inl (MissingKey key)))
      in case decoded of
           Inl p \<Rightarrow> Inl p
         | Inr (Inl e) \<Rightarrow> Inr (Inl e)
         | Inr (Inr x) \<Rightarrow>
             (case Decode_fields weak src fs vs of
                Inl p \<Rightarrow> Inl p
              | Inr (Inl e) \<Rightarrow> Inr (Inl e)
              | Inr (Inr xs) \<Rightarrow> Inr (Inr (x # xs))))"
| "Decode_fields weak src _ _ = Inr (Inr [])"

definition Decode :: "bool \<Rightarrow> (string \<rightharpoonup> gdata) \<Rightarrow> (string \<times> string \<times> gtype) list \<Rightarrow> gval \<Rightarrow> panic + decode_error + gval" where
  "Decode weak src fs dst =
     (case dst of
        VStruct vs \<Rightarrow>
          (case Decode_fields weak src fs vs of
             Inl p \<Rightarrow> Inl p
           | Inr (Inl e) \<Rightarrow> Inr (Inl e)
           | Inr (Inr xs) \<Rightarrow> Inr (Inr (VStruct xs)))
      | _ \<Rightarrow> Inl ReflectValueError)"

section \<open>Decoded values have the type of their target\<close>

fun type_at :: "gtype \<Rightarrow> nat list \<Rightarrow> gtype option" where
  "type_at t [] = Some t"
| "type_at (TStruct fs) (i # is) = (if i < length fs then type_at (snd (snd (fs ! i))) is else None)"
| "type_at _ (i # is) = None"

lemma has_type_struct:
  "has_type (TStruct fs) v \<longleftrightarrow> (\<exists>vs. v = VStruct vs \<and> length vs = length fs \<and> (\<forall>i < length fs. has_type (snd (snd (fs ! i))) (vs ! i)))"
  by (cases v) (auto simp: list_all2_conv_all_nth split_beta)

lemma get_at_type: "type_at T path = Some t \<Longrightarrow> has_type T v \<Longrightarrow> has_type t (get_at path v)"
  by (induction T path arbitrary: v rule: type_at.induct) (auto simp: has_type_struct simp del: has_type.simps split: if_splits)

lemma set_at_type: "type_at T path = Some t \<Longrightarrow> has_type T v \<Longrightarrow> has_type t x \<Longrightarrow> has_type T (set_at path x v)"
proof (induction T path arbitrary: v rule: type_at.induct)
  case (2 fs i "is")
  then obtain vs where v: "v = VStruct vs" "length vs = length fs" "\<forall>i < length fs. has_type (snd (snd (fs ! i))) (vs ! i)"
    by (auto simp: has_type_struct simp del: has_type.simps)
  have i: "i < length fs" "type_at (snd (snd (fs ! i))) is = Some t" using "2.prems"(1) by (auto split: if_splits)
  from "2.IH" [OF i(1) i(2) _ "2.prems"(3)] v(3) i(1) have "has_type (snd (snd (fs ! i))) (set_at is x (vs ! i))" by blast
  with v i(1) show ?case by (auto simp: has_type_struct nth_list_update simp del: has_type.simps)
qed auto

lemma type_at_append: "type_at T path = Some (TStruct fs) \<Longrightarrow> i < length fs \<Longrightarrow> type_at T (path @ [i]) = Some (snd (snd (fs ! i)))"
  by (induction T path rule: type_at.induct) (auto split: if_splits)

lemma scan_fields_at:
  "type_at T path = Some (TStruct (pre @ fs)) \<Longrightarrow> scan_fields path (length pre) fs = (fields, structs, errs) \<Longrightarrow>
   (\<forall>(p, _, _, t) \<in> set fields. type_at T p = Some t) \<and> (\<forall>(p, gs) \<in> set structs. type_at T p = Some (TStruct gs))"
proof (induction fs arbitrary: pre fields structs errs)
  case (Cons f fs)
  obtain nm tag t where f: "f = (nm, tag, t)" by (cases f)
  obtain f' s' e' where r: "scan_fields path (length (pre @ [f])) fs = (f', s', e')"
    by (cases "scan_fields path (length (pre @ [f])) fs") auto
  from Cons.IH [OF _ r] Cons.prems(1) have ih: "(\<forall>(p, _, _, t) \<in> set f'. type_at T p = Some t) \<and> (\<forall>(p, gs) \<in> set s'. type_at T p = Some (TStruct gs))"
    by simp
  have at: "type_at T (path @ [length pre]) = Some t"
    using type_at_append [OF Cons.prems(1), of "length pre"] by (simp add: f)
  show ?case using Cons.prems(2) r ih at by (cases t) (auto simp: f split: if_splits)
qed simp

lemma flat_fields_at:
  "(\<forall>(p, gs) \<in> set structs. type_at T p = Some (TStruct gs)) \<Longrightarrow> flat_fields structs = (fields, errs) \<Longrightarrow>
   \<forall>(p, _, _, t) \<in> set fields. type_at T p = Some t"
proof (induction structs arbitrary: fields errs rule: flat_fields.induct)
  case (2 path fs structs)
  obtain f1 more e1 where s: "scan_fields path 0 fs = (f1, more, e1)" by (cases "scan_fields path 0 fs") auto
  obtain f2 e2 where r: "flat_fields (structs @ more) = (f2, e2)" by (cases "flat_fields (structs @ more)")
  have at: "(\<forall>(p, _, _, t) \<in> set f1. type_at T p = Some t) \<and> (\<forall>(p, gs) \<in> set more. type_at T p = Some (TStruct gs))"
    using scan_fields_at [of T path "[]" fs f1 more e1] "2.prems"(1) s by simp
  then have "\<forall>(p, gs) \<in> set (structs @ more). type_at T p = Some (TStruct gs)" using "2.prems"(1) by auto
  from "2.IH" [OF s [symmetric] refl refl this r] at "2.prems"(2) s r show ?case by auto
qed simp

lemma update_entries_type:
  "\<forall>(a, b) \<in> set vs. has_type k a \<and> has_type t b \<Longrightarrow> has_type k key \<Longrightarrow> has_type t v \<Longrightarrow>
   \<forall>(a, b) \<in> set (AList.update key v vs). has_type k a \<and> has_type t b"
  by (induction vs) auto

lemma decode_types:
  "has_type t old \<Longrightarrow> decode weak nm d t old = Inr (Inr v) \<Longrightarrow> has_type t v"
  "\<forall>v \<in> set vs. has_type t v \<Longrightarrow> decode_slice weak nm i ds t vs = Inr (Inr ws) \<Longrightarrow> \<forall>v \<in> set ws. has_type t v"
  "\<forall>(a, b) \<in> set es. has_type k a \<and> has_type t b \<Longrightarrow> decode_entries weak nm eds k t es errs = Inr (es', errs') \<Longrightarrow>
     \<forall>(a, b) \<in> set es'. has_type k a \<and> has_type t b"
  "\<forall>(p, _, _, t) \<in> set fields. type_at T p = Some t \<Longrightarrow> has_type T sv \<Longrightarrow> decode_fields weak nm eds fields sv errs = Inr (sv', errs') \<Longrightarrow>
     has_type T sv'"
proof (induction weak nm d t old and weak nm i ds t vs and weak nm eds k t es errs and weak nm eds fields sv errs
    arbitrary: v and ws and es' errs' and sv' errs' T
    rule: decode_decode_slice_decode_entries_decode_fields.induct)
  case (4 weak nm data t old)
  obtain ds where data: "data = DSlice ds" using "4.prems"(2) by (cases data) simp_all
  obtain vs where old: "old = VSlice vs" using "4.prems"(1) by (cases old) simp_all
  obtain ws where ws: "decode_slice weak nm 0 ds t vs = Inr (Inr ws)" "v = VSlice ws"
    using "4.prems"(2) by (simp add: data old split: sum.splits)
  from "4.IH" [OF data, of ws] ws "4.prems"(1) show ?case by (simp add: old)
next
  case (5 weak nm data k t old)
  obtain kk es where data: "data = DMap kk es" using "5.prems"(2) by (cases data) simp_all
  obtain m where old: "old = VMap m" using "5.prems"(1) by (cases old) simp_all
  let ?old = "case old of VMap (Some old) \<Rightarrow> old | _ \<Rightarrow> []"
  have t: "\<forall>(a, b) \<in> set ?old. has_type k a \<and> has_type t b" using "5.prems"(1) by (cases m) (simp_all add: old)
  obtain ws where ws: "decode_entries weak nm es k t ?old [] = Inr (ws, [])" "v = VMap (Some ws)"
    using "5.prems"(2) by (auto simp add: data split: sum.splits if_splits)
  from "5.IH" [OF data t ws(1)] show ?case by (simp add: ws(2))
next
  case (7 weak nm data fs old)
  then obtain kk es where data: "data = DMap kk es" by (cases data) auto
  obtain fields errs where f: "flat_fields [([], fs)] = (fields, errs)" by (cases "flat_fields [([], fs)]")
  have at: "\<forall>(p, _, _, t) \<in> set fields. type_at (TStruct fs) p = Some t" by (rule flat_fields_at [OF _ f]) simp
  have kk: "kk \<noteq> KOther" using "7.prems"(2) data by auto
  then obtain errs' where "decode_fields weak nm es fields old errs = Inr (v, errs')"
    using "7.prems"(2) data f by (auto split: sum.splits if_splits)
  with "7.IH" [OF data kk f [symmetric] refl at "7.prems"(1)] show ?case by simp
next
  case (10 weak nm i d ds t vs)
  let ?v = "case vs of v # _ \<Rightarrow> v | [] \<Rightarrow> zero_value t"
  have v: "has_type t ?v" "\<forall>v \<in> set (tl vs). has_type t v" using "10.prems"(1) by (cases vs; simp)+
  obtain x where x: "decode weak (PIndex nm i) d t ?v = Inr (Inr x)"
    using "10.prems"(2) by (cases "decode weak (PIndex nm i) d t ?v") (auto split: sum.splits)
  obtain rest where rest: "decode_slice weak nm (i + 1) ds t (tl vs) = Inr (Inr rest)" "ws = x # rest"
    using "10.prems"(2) x by (auto split: sum.splits)
  from "10.IH"(1) [OF v(1) x] "10.IH"(2) [OF x refl v(2) rest(1)] show ?case by (simp add: rest(2))
next
  case (12 weak nm kd vd es k t vs errs)
  let ?key = "decode weak (PEntry nm kd) kd k (zero_value k)" and ?val = "decode weak (PEntry nm kd) vd t (zero_value t)"
  show ?case
  proof (cases ?key)
    case (Inr r)
    show ?thesis
    proof (cases r)
      case (Inl e)
      then show ?thesis using "12.IH"(2) [OF Inr Inl "12.prems"(1)] "12.prems"(2) Inr by simp
    next
      case r: (Inr key)
      have kt: "has_type k key" using "12.IH"(1) [of key] Inr r by simp
      show ?thesis
      proof (cases "vd = DNil")
        case True
        then show ?thesis using "12.IH"(3) [OF Inr r True "12.prems"(1)] "12.prems"(2) Inr r by simp
      next
        case False
        show ?thesis
        proof (cases ?val)
          case val: (Inr q)
          show ?thesis
          proof (cases q)
            case q: (Inl e)
            then show ?thesis using "12.IH"(5) [OF Inr r False val q "12.prems"(1)] "12.prems"(2) Inr r False val by simp
          next
            case q: (Inr x)
            have "has_type t x" using "12.IH"(4) [OF Inr r False, of x] val q by simp
            then have "\<forall>(a, b) \<in> set (AList.update key x vs). has_type k a \<and> has_type t b"
              by (rule update_entries_type [OF "12.prems"(1) kt])
            then show ?thesis using "12.IH"(6) [OF Inr r False val q] "12.prems"(2) Inr r False val q by simp
          qed
        qed (use "12.prems"(2) Inr r False in simp)
      qed
    qed
  qed (use "12.prems"(2) in simp)
next
  case (14 weak nm es path fname tag t fields v errs)
  show ?case
  proof (cases "find_entry (field_key fname tag) es")
    case None
    then show ?thesis using "14.IH"(1) "14.prems" by auto
  next
    case (Some d)
    let ?x = "decode weak (PField nm (field_key fname tag)) d t (get_at path v)"
    have at: "type_at T path = Some t" using "14.prems"(1) by simp
    have rest: "\<forall>(p, _, _, t) \<in> set fields. type_at T p = Some t" using "14.prems"(1) by simp
    show ?thesis
    proof (cases ?x)
      case x: (Inr q)
      show ?thesis
      proof (cases q)
        case q: (Inl e)
        then show ?thesis using "14.IH"(3) [OF Some x q rest "14.prems"(2)] "14.prems"(3) Some x by simp
      next
        case q: (Inr y)
        have "has_type t y" using "14.IH"(2) [OF Some get_at_type [OF at "14.prems"(2)], of y] x q by simp
        then have "has_type T (set_at path y v)" by (rule set_at_type [OF at "14.prems"(2)])
        then show ?thesis using "14.IH"(4) [OF Some x q rest] "14.prems"(3) Some x q by simp
      qed
    qed (use "14.prems"(3) Some in simp)
  qed
qed (auto split: gdata.splits if_splits option.splits)

section \<open>Decoding panics only on a nil\<close>

fun nil_free :: "gdata \<Rightarrow> bool" where
  "nil_free DNil = False"
| "nil_free (DSlice ds) = list_all nil_free ds"
| "nil_free (DMap kk es) = list_all (\<lambda>(k, v). nil_free k \<and> nil_free v) es"
| "nil_free _ = True"

abbreviation nil_free_entries :: "(gdata \<times> gdata) list \<Rightarrow> bool" where
  "nil_free_entries es \<equiv> list_all (\<lambda>(k, v). nil_free k \<and> nil_free v) es"

lemma decode_no_panic:
  "nil_free d \<Longrightarrow> \<not> isl (decode weak nm d t old)"
  "list_all nil_free ds \<Longrightarrow> \<not> isl (decode_slice weak nm i ds t vs)"
  "nil_free_entries eds \<Longrightarrow> \<not> isl (decode_entries weak nm eds k t es errs)"
  "nil_free_entries eds \<Longrightarrow> \<not> isl (decode_fields weak nm eds fields sv errs)"
proof (induction weak nm d t old and weak nm i ds t vs and weak nm eds k t es errs and weak nm eds fields sv errs
    rule: decode_decode_slice_decode_entries_decode_fields.induct)
  case (7 weak nm data fs old)
  then show ?case by (cases data) (auto simp: Let_def isl_def split: prod.splits sum.splits, blast)
next
  case (10 weak nm i d ds t vs)
  then show ?case by (auto simp: isl_def split: sum.split)
next
  case (12 weak nm kd vd es k t vs errs)
  then show ?case by (simp add: isl_def split: sum.split) metis
next
  case (14 weak nm es path fname tag t fields v errs)
  show ?case
  proof (cases "find_entry (field_key fname tag) es")
    case (Some d)
    then have "nil_free d" using find_entry_in [OF Some] "14.prems" by (auto simp: list_all_iff)
    with Some "14.IH"(2-4) "14.prems" show ?thesis by (simp add: isl_def split: sum.split)
  qed (use "14.IH"(1) "14.prems" in simp)
qed (auto simp: isl_def split: gdata.splits option.splits sum.splits)

lemma Decode_fields_spec:
  "list_all2 (\<lambda>(_, _, t) v. has_type t v) fs vs \<Longrightarrow> Decode_fields weak src fs vs = Inr (Inr xs) \<Longrightarrow>
     list_all2 (\<lambda>(_, _, t) v. has_type t v) fs xs \<and>
     (\<forall>i < length fs. let str = SplitN2 (CHR '','') (fst (snd (fs ! i)))
        in src (hd str) \<in> {None, Some DNil} \<longrightarrow> tl str = [''omitempty''] \<and> xs ! i = vs ! i)"
proof (induction fs arbitrary: vs xs)
  case (Cons f fs)
  obtain nm tag t where f: "f = (nm, tag, t)" using prod_cases3 by blast
  obtain v ws where vs: "vs = v # ws" and v: "has_type t v" and ws: "list_all2 (\<lambda>(_, _, t) v. has_type t v) fs ws"
    using Cons.prems(1) f by (auto simp: list_all2_Cons1)
  let ?str = "SplitN2 (CHR '','') tag"
  let ?dec = "case src (hd ?str) of
       Some d \<Rightarrow> if d = DNil then (if length ?str > 1 \<and> ?str ! 1 = ''omitempty'' then Inr (Inr v) else Inr (Inl (MissingKey (hd ?str))))
         else decode weak (PKey (hd ?str)) d t v
     | None \<Rightarrow> if length ?str > 1 \<and> ?str ! 1 = ''omitempty'' then Inr (Inr v) else Inr (Inl (MissingKey (hd ?str)))"
  obtain x ys where dec: "?dec = Inr (Inr x)" and rest: "Decode_fields weak src fs ws = Inr (Inr ys)" and xs: "xs = x # ys"
    using Cons.prems(2) unfolding f vs Decode_fields.simps Let_def by (auto split: sum.splits)
  have x: "has_type t x" using dec v decode_types(1) by (auto split: option.splits if_splits)
  have "src (hd ?str) \<in> {None, Some DNil} \<longrightarrow> tl ?str = [''omitempty''] \<and> x = v"
    using dec SplitN2_two [of "CHR '',''" tag] by (auto split: if_splits)
  then show ?case using Cons.IH [OF ws rest] x unfolding f vs xs by (auto simp: Let_def nth_Cons split: nat.split)
qed simp

lemma Decode_fields_no_panic:
  "(\<forall>k d. src k = Some d \<longrightarrow> d = DNil \<or> nil_free d) \<Longrightarrow> \<not> isl (Decode_fields weak src fs vs)"
proof (induction fs arbitrary: vs)
  case (Cons f fs ws)
  obtain nm tag t where f: "f = (nm, tag, t)" using prod_cases3 by blast
  show ?case
  proof (cases ws)
    case ws: (Cons v vs)
    let ?str = "SplitN2 (CHR '','') tag"
    have dec: "\<not> isl (case src (hd ?str) of
         Some d \<Rightarrow> if d = DNil then (if length ?str > 1 \<and> ?str ! 1 = ''omitempty'' then Inr (Inr v) else Inr (Inl (MissingKey (hd ?str))))
           else decode weak (PKey (hd ?str)) d t v
       | None \<Rightarrow> if length ?str > 1 \<and> ?str ! 1 = ''omitempty'' then Inr (Inr v) else Inr (Inl (MissingKey (hd ?str))))"
      (is "\<not> isl ?dec")
      using Cons.prems decode_no_panic(1) by (simp split: option.split) blast
    show ?thesis
    proof (cases ?dec)
      case (Inr r)
      then show ?thesis using Cons.IH [OF Cons.prems, of vs] unfolding f ws Decode_fields.simps Let_def
        by (cases r; cases "Decode_fields weak src fs vs") (auto split: sum.split)
    qed (use dec in simp)
  qed (simp add: f)
qed simp


definition demo_option :: "(string \<times> string \<times> gtype) list" where
  "demo_option =
     [(''Name'', ''name'', TString), (''Proxies'', ''proxies,omitempty'', TSlice TString), (''Interval'', ''interval,omitempty'', TInt)]"

lemma demo_decode:
  "Decode True [''name'' \<mapsto> DInt 7, ''proxies'' \<mapsto> DSlice [DString ''a'', DInt 8]] demo_option (VStruct [VString [], VSlice [], VInt 3]) =
     Inr (Inr (VStruct [VString ''7'', VSlice [VString ''a'', VString ''8''], VInt 3]))"
  by (simp add: Decode_def demo_option_def Itoa_def) code_simp


text \<open>
  A nil inside a list is not reported as an error: the message of the error asks the reflected nil for
  its type, which panics. An entry of a map with a nil value is tested for and reported.
\<close>

lemma nil_element_panics:
  "Decode True [''name'' \<mapsto> DString ''g'', ''proxies'' \<mapsto> DSlice [DNil]] demo_option (VStruct [VString [], VSlice [], VInt 0]) =
     Inl ReflectValueError"
  by (simp add: Decode_def demo_option_def)

end
