(* ===== verification/Group_Sort.thy ===== *)
theory Group_Sort
  imports Proxy_Prelude "HOL-Library.AList" "HOL-Library.Multiset"
begin

text \<open>
  \<open>proxyGroupsDagSort\<close> of \<open>config/utils.go\<close>: the proxy groups of the configuration are put in an order
  in which every group comes after the groups it contains, or the groups of a loop are reported.
  A configuration entry has any type \<open>'m\<close>, and \<open>decode\<close> reads its options. The order in which Go
  ranges over a map is an argument: \<open>perm\<close> reorders the keys.
\<close>

section \<open>The graph\<close>

record GroupCommonOption =
  Name :: string
  GroupType :: string
  GroupProxies :: "string list"
  Use :: "string list"
  GroupURL :: string
  Interval :: int
  Lazy :: bool
  DisableUDP :: bool

record 'm graphNode =
  indegree :: int
  data :: "'m option"
  outdegree :: int
  opt :: "GroupCommonOption option"
  from_nodes :: "string list"

type_synonym 'm graph = "(string \<times> 'm graphNode) list"

datatype sort_error = DecodeFailed string | DuplicateGroup string | LoopDetected "string list"

fun add_edges :: "string list \<Rightarrow> 'm graph \<Rightarrow> 'm graph" where
  "add_edges [] g = g"
| "add_edges (proxy # ps) g =
     (case map_of g proxy of
        Some node \<Rightarrow> add_edges ps (AList.update proxy (node\<lparr>indegree := indegree node + 1\<rparr>) g)
      | None \<Rightarrow> add_edges ps (AList.update proxy \<lparr>indegree = 1, data = None, outdegree = 0, opt = None, from_nodes = []\<rparr> g))"

fun build_graph :: "('m \<Rightarrow> string + GroupCommonOption) \<Rightarrow> 'm list \<Rightarrow> 'm graph \<Rightarrow> sort_error + 'm graph" where
  "build_graph decode [] g = Inr g"
| "build_graph decode (mapping # ms) g =
     (case decode mapping of
        Inl e \<Rightarrow> Inl (DecodeFailed e)
      | Inr option \<Rightarrow>
          (case map_of g (Name option) of
             Some node \<Rightarrow>
               if data node \<noteq> None then Inl (DuplicateGroup (Name option))
               else build_graph decode ms
                 (add_edges (GroupProxies option) (AList.update (Name option) (node\<lparr>data := Some mapping, opt := Some option\<rparr>) g))
           | None \<Rightarrow>
               build_graph decode ms
                 (add_edges (GroupProxies option)
                   (AList.update (Name option) \<lparr>indegree = 0, data = Some mapping, outdegree = 0, opt = Some option, from_nodes = []\<rparr> g))))"

section \<open>Topological sort\<close>

fun dec_indegree :: "string list \<Rightarrow> string list \<Rightarrow> 'm graph \<Rightarrow> panic + string list \<times> 'm graph" where
  "dec_indegree [] queue g = Inr (queue, g)"
| "dec_indegree (proxy # ps) queue g =
     (case map_of g proxy of
        None \<Rightarrow> Inl NilDereference
      | Some child \<Rightarrow>
          let child' = child\<lparr>indegree := indegree child - 1\<rparr>
          in dec_indegree ps (if indegree child' = 0 then queue @ [proxy] else queue) (AList.update proxy child' g))"

lemma length_update_present: "map_of g k = Some v \<Longrightarrow> length (AList.update k v' g) = length g"
  by (induction g) (auto split: if_splits)

lemma length_delete_present: "map_of g k = Some v \<Longrightarrow> length (AList.delete k g) < length g"
  by (induction g) (auto simp: AList.delete_eq less_Suc_eq_le split: if_splits)

lemma dec_indegree_length: "dec_indegree ps q g = Inr (q', g') \<Longrightarrow> length g' = length g"
  by (induction ps arbitrary: q g) (auto simp: Let_def length_update_present split: option.splits if_splits)

lemma dec_indegree_keys: "dec_indegree ps q g = Inr (q', g') \<Longrightarrow> dom (map_of g') = dom (map_of g)"
  by (induction ps arbitrary: q g) (auto simp: Let_def update_conv' split: option.splits if_splits)

lemma dec_indegree_delete:
  assumes "map_of g k = Some v" "Inr (q', g') = dec_indegree ps q g"
  shows "length (AList.delete k g') < length g"
proof -
  have "length g' = length g" "dom (map_of g') = dom (map_of g)"
    using dec_indegree_length [OF assms(2) [symmetric]] dec_indegree_keys [OF assms(2) [symmetric]] by simp_all
  moreover from this(2) assms(1) obtain v' where "map_of g' k = Some v'" by (metis domD domI)
  ultimately show ?thesis using length_delete_present [of g' k v'] by simp
qed

lemmas dec_indegree_delete' = dec_indegree_delete [OF _ sym]

text \<open>\<open>index\<close> groups are already in place at the end of the list; the next one goes before them.\<close>

function topo_loop :: "nat \<Rightarrow> string list \<Rightarrow> 'm graph \<Rightarrow> 'm list \<Rightarrow> panic + 'm graph \<times> 'm list" where
  "topo_loop index [] g cfg = Inr (g, cfg)"
| "topo_loop index (name # queue) g cfg =
     (case map_of g name of
        None \<Rightarrow> Inl NilDereference
      | Some node \<Rightarrow>
          (case (opt node, data node) of
             (Some option, Some mapping) \<Rightarrow>
               if length cfg < index + 1 then Inl IndexOutOfRange
               else let cfg' = cfg[length cfg - (index + 1) := mapping]
                    in if GroupProxies option = [] then topo_loop (index + 1) queue (AList.delete name g) cfg'
                       else (case dec_indegree (GroupProxies option) queue g of
                               Inl e \<Rightarrow> Inl e
                             | Inr (queue', g') \<Rightarrow> topo_loop (index + 1) queue' (AList.delete name g') cfg')
           | _ \<Rightarrow> topo_loop index queue (AList.delete name g) cfg))"
  by pat_completeness auto

termination
  by (relation "measure (\<lambda>(index, queue, g, cfg). length g)")
    (auto simp: length_delete_present dec_indegree_delete dec_indegree_delete')

section \<open>Locating a loop\<close>

fun fill_edges :: "string \<Rightarrow> string list \<Rightarrow> 'm graph \<Rightarrow> panic + 'm graph" where
  "fill_edges name [] g = Inr g"
| "fill_edges name (proxy # ps) g =
     (case map_of g name of
        None \<Rightarrow> Inl NilDereference
      | Some node \<Rightarrow>
          let g1 = AList.update name (node\<lparr>outdegree := outdegree node + 1\<rparr>) g
          in case map_of g1 proxy of
               None \<Rightarrow> Inl NilDereference
             | Some child \<Rightarrow> fill_edges name ps (AList.update proxy (child\<lparr>from_nodes := from_nodes child @ [name]\<rparr>) g1))"

fun fill_from :: "string list \<Rightarrow> 'm graph \<Rightarrow> panic + 'm graph" where
  "fill_from [] g = Inr g"
| "fill_from (name # names) g =
     (case map_of g name of
        None \<Rightarrow> Inl NilDereference
      | Some node \<Rightarrow>
          (case opt node of
             None \<Rightarrow> fill_from names g
           | Some option \<Rightarrow>
               (case fill_edges name (GroupProxies option) g of
                  Inl e \<Rightarrow> Inl e
                | Inr g' \<Rightarrow> fill_from names g')))"

fun dec_outdegree :: "string list \<Rightarrow> string list \<Rightarrow> 'm graph \<Rightarrow> panic + string list \<times> 'm graph" where
  "dec_outdegree [] queue g = Inr (queue, g)"
| "dec_outdegree (f # fs) queue g =
     (case map_of g f of
        None \<Rightarrow> Inl NilDereference
      | Some node \<Rightarrow>
          let node' = node\<lparr>outdegree := outdegree node - 1\<rparr>
          in dec_outdegree fs (if outdegree node' = 0 then queue @ [f] else queue) (AList.update f node' g))"

lemma dec_outdegree_length: "dec_outdegree ps q g = Inr (q', g') \<Longrightarrow> length g' = length g"
  by (induction ps arbitrary: q g) (auto simp: Let_def length_update_present split: option.splits if_splits)

lemma dec_outdegree_keys: "dec_outdegree ps q g = Inr (q', g') \<Longrightarrow> dom (map_of g') = dom (map_of g)"
  by (induction ps arbitrary: q g) (auto simp: Let_def update_conv' split: option.splits if_splits)

lemma dec_outdegree_delete:
  assumes "map_of g k = Some v" "Inr (q', g') = dec_outdegree ps q g"
  shows "length (AList.delete k g') < length g"
proof -
  have "length g' = length g" "dom (map_of g') = dom (map_of g)"
    using dec_outdegree_length [OF assms(2) [symmetric]] dec_outdegree_keys [OF assms(2) [symmetric]] by simp_all
  moreover from this(2) assms(1) obtain v' where "map_of g' k = Some v'" by (metis domD domI)
  ultimately show ?thesis using length_delete_present [of g' k v'] by simp
qed

lemmas dec_outdegree_delete' = dec_outdegree_delete [OF _ sym]

function prune_loop :: "string list \<Rightarrow> 'm graph \<Rightarrow> panic + 'm graph" where
  "prune_loop [] g = Inr g"
| "prune_loop (name # queue) g =
     (case map_of g name of
        None \<Rightarrow> Inl NilDereference
      | Some node \<Rightarrow>
          (case dec_outdegree (from_nodes node) queue g of
             Inl e \<Rightarrow> Inl e
           | Inr (queue', g') \<Rightarrow> prune_loop queue' (AList.delete name g')))"
  by pat_completeness auto

termination
  by (relation "measure (\<lambda>(queue, g). length g)")
    (auto simp: dec_outdegree_delete dec_outdegree_delete')

section \<open>proxyGroupsDagSort\<close>

definition nodes_with :: "(string list \<Rightarrow> string list) \<Rightarrow> ('m graphNode \<Rightarrow> bool) \<Rightarrow> 'm graph \<Rightarrow> string list" where
  "nodes_with perm P g = filter (\<lambda>n. case map_of g n of Some node \<Rightarrow> P node | None \<Rightarrow> False) (perm (map fst g))"

definition locate_loop :: "(string list \<Rightarrow> string list) \<Rightarrow> 'm graph \<Rightarrow> panic + string list" where
  "locate_loop perm g =
     (case fill_from (perm (map fst g)) g of
        Inl e \<Rightarrow> Inl e
      | Inr g1 \<Rightarrow>
          (case prune_loop (nodes_with perm (\<lambda>node. outdegree node = 0) g1) g1 of
             Inl e \<Rightarrow> Inl e
           | Inr g2 \<Rightarrow> Inr (perm (map fst g2))))"

definition proxyGroupsDagSort ::
  "(string list \<Rightarrow> string list) \<Rightarrow> ('m \<Rightarrow> string + GroupCommonOption) \<Rightarrow> 'm list \<Rightarrow> panic + sort_error + 'm list" where
  "proxyGroupsDagSort perm decode cfg =
     (case build_graph decode cfg [] of
        Inl e \<Rightarrow> Inr (Inl e)
      | Inr g \<Rightarrow>
          (case topo_loop 0 (nodes_with perm (\<lambda>node. indegree node = 0) g) g cfg of
             Inl e \<Rightarrow> Inl e
           | Inr (g1, cfg1) \<Rightarrow>
               if g1 = [] then Inr (Inr cfg1)
               else map_sum id (\<lambda>names. Inl (LoopDetected names)) (locate_loop perm g1)))"

section \<open>Peeling a graph\<close>

text \<open>
  Both loops peel a graph: they take a node of degree zero from the queue, lower the degree of its
  neighbours, and queue those that come to zero. The shared argument is about degrees alone.
\<close>

fun dec_all :: "'n list \<Rightarrow> ('n \<Rightarrow> int) \<Rightarrow> 'n list \<Rightarrow> ('n \<Rightarrow> int) \<times> 'n list" where
  "dec_all [] deg q = (deg, q)"
| "dec_all (p # ps) deg q = dec_all ps (deg(p := deg p - 1)) (if deg p - 1 = 0 then q @ [p] else q)"

definition peel_inv :: "('n \<Rightarrow> 'n list) \<Rightarrow> 'n set \<Rightarrow> ('n \<Rightarrow> int) \<Rightarrow> 'n list \<Rightarrow> bool" where
  "peel_inv nxt R deg q \<longleftrightarrow> finite R \<and> (\<forall>m \<in> R. set (nxt m) \<subseteq> R) \<and>
     (\<forall>n \<in> R. deg n = (\<Sum>m \<in> R. int (count_list (nxt m) n))) \<and> distinct q \<and> set q = {n \<in> R. deg n = 0}"

lemma dec_all_deg: "fst (dec_all ps deg q) n = deg n - int (count_list ps n)"
  by (induction ps arbitrary: deg q) auto

lemma dec_all_queue:
  "(\<And>n. n \<in> set ps \<Longrightarrow> int (count_list ps n) \<le> deg n) \<Longrightarrow>
   \<exists>new. snd (dec_all ps deg q) = q @ new \<and> distinct new \<and> set new = {n \<in> set ps. deg n = int (count_list ps n)}"
proof (induction ps arbitrary: deg q)
  case (Cons p ps)
  let ?deg = "deg(p := deg p - 1)"
  have pd: "int (count_list ps p) + 1 \<le> deg p" using Cons.prems [of p] by simp
  have "int (count_list ps n) \<le> ?deg n" if "n \<in> set ps" for n
    using Cons.prems [of n] that pd by (cases "n = p") simp_all
  from Cons.IH [OF this] obtain new where
    new: "snd (dec_all ps ?deg (if deg p - 1 = 0 then q @ [p] else q)) = (if deg p - 1 = 0 then q @ [p] else q) @ new"
      "distinct new" "set new = {n \<in> set ps. ?deg n = int (count_list ps n)}" by blast
  show ?case
  proof (cases "deg p = 1")
    case True
    then have np: "p \<notin> set ps" using pd count_list_0_iff [of ps p] by simp
    have "set (p # new) = {n \<in> set (p # ps). deg n = int (count_list (p # ps) n)}"
      using np True by (auto simp: new(3) count_list_0_iff)
    moreover have "p \<notin> set new" using np by (simp add: new(3))
    ultimately show ?thesis using True new(1,2) by (intro exI [of _ "p # new"]) simp
  next
    case False
    have "p \<in> set ps" if "deg p = int (count_list ps p) + 1"
      using that False count_list_0_iff [of ps p] by auto
    then have "set new = {n \<in> set (p # ps). deg n = int (count_list (p # ps) n)}"
      by (auto simp: new(3) split: if_splits)
    with False new(1,2) show ?thesis by (intro exI [of _ new]) simp
  qed
qed simp

lemma peel_zero:
  assumes "peel_inv nxt R deg q" "n \<in> R"
  shows "deg n = 0 \<longleftrightarrow> (\<forall>m \<in> R. n \<notin> set (nxt m))"
proof -
  have "finite R" "deg n = (\<Sum>m \<in> R. int (count_list (nxt m) n))" using assms by (auto simp: peel_inv_def)
  then have "deg n = 0 \<longleftrightarrow> (\<forall>m \<in> R. count_list (nxt m) n = 0)" by (simp add: sum_nonneg_eq_0_iff)
  then show ?thesis by (simp add: count_list_0_iff)
qed

lemma peel_step:
  assumes inv: "peel_inv nxt R deg (n # q)" and d: "dec_all (nxt n) deg q = (deg', q')"
  shows "peel_inv nxt (R - {n}) deg' q'"
proof -
  have R: "finite R" "\<forall>m \<in> R. set (nxt m) \<subseteq> R" "distinct (n # q)" "set (n # q) = {k \<in> R. deg k = 0}"
    and deg: "\<And>k. k \<in> R \<Longrightarrow> deg k = (\<Sum>m \<in> R. int (count_list (nxt m) k))"
    using inv by (auto simp: peel_inv_def)
  have n: "n \<in> R" "deg n = 0" using R(4) by auto
  then have no_pred: "\<forall>m \<in> R. n \<notin> set (nxt m)" using peel_zero [OF inv] by blast
  have deg': "deg' k = deg k - int (count_list (nxt n) k)" for k using dec_all_deg [of "nxt n" deg q k] by (simp add: d)
  have sum: "deg k = int (count_list (nxt n) k) + (\<Sum>m \<in> R - {n}. int (count_list (nxt m) k))" if "k \<in> R" for k
    using deg [OF that] R(1) n(1) by (simp add: sum.remove)
  have le: "int (count_list (nxt n) k) \<le> deg k" if "k \<in> R" for k
    using sum [OF that] by (simp add: sum_nonneg)
  have "\<And>k. k \<in> set (nxt n) \<Longrightarrow> int (count_list (nxt n) k) \<le> deg k" using le R(2) n(1) by blast
  from dec_all_queue [of "nxt n" deg q, OF this] obtain new where
    new: "q' = q @ new" "distinct new" "set new = {k \<in> set (nxt n). deg k = int (count_list (nxt n) k)}" by (auto simp: d)
  have zero: "count_list (nxt n) k = 0" if "k \<in> set q" for k
  proof -
    have "k \<in> R" "deg k = 0" using that R(4) by auto
    then show ?thesis using peel_zero [OF inv] n(1) by (simp add: count_list_0_iff)
  qed
  have setq: "set q' = {k \<in> R - {n}. deg' k = 0}"
  proof (intro set_eqI iffI)
    fix k assume "k \<in> set q'"
    then consider "k \<in> set q" | "k \<in> set (nxt n)" "deg k = int (count_list (nxt n) k)" using new by auto
    then show "k \<in> {k \<in> R - {n}. deg' k = 0}"
    proof cases
      case 1
      then show ?thesis using R(3,4) zero by (auto simp: deg')
    next
      case 2
      then show ?thesis using R(2) n(1) no_pred by (auto simp: deg')
    qed
  next
    fix k assume k: "k \<in> {k \<in> R - {n}. deg' k = 0}"
    show "k \<in> set q'"
    proof (cases "k \<in> set (nxt n)")
      case True
      then show ?thesis using k new by (simp add: deg')
    next
      case False
      then have "deg k = 0" using k by (simp add: deg' count_list_0_iff)
      then have "k \<in> set (n # q)" using k by (simp only: R(4)) simp
      then show ?thesis using k new by simp
    qed
  qed
  have "distinct q'" using R(3) new zero by (auto simp: count_list_0_iff)
  moreover have "\<forall>m \<in> R - {n}. set (nxt m) \<subseteq> R - {n}" using R(2) no_pred by blast
  moreover have "\<forall>k \<in> R - {n}. deg' k = (\<Sum>m \<in> R - {n}. int (count_list (nxt m) k))" using sum by (simp add: deg')
  ultimately show ?thesis using R(1) setq by (simp add: peel_inv_def)
qed

lemma peel_end:
  assumes "peel_inv nxt R deg []" "n \<in> R"
  shows "\<exists>m \<in> R. n \<in> set (nxt m)"
proof -
  have "deg n \<noteq> 0" using assms by (auto simp: peel_inv_def)
  then show ?thesis using peel_zero [OF assms] by blast
qed

text \<open>A finite set in which every node has a predecessor contains nodes on a cycle.\<close>

lemma pred_closed_cycle:
  assumes "finite R" "R \<noteq> {}" "\<And>n. n \<in> R \<Longrightarrow> \<exists>m \<in> R. (m, n) \<in> E"
  obtains C where "C \<subseteq> R" "C \<noteq> {}" "\<forall>n \<in> C. \<exists>m \<in> C. (n, m) \<in> E"
proof -
  let ?E = "E \<inter> R \<times> R"
  have "\<not> wf ?E"
  proof
    assume "wf ?E"
    from wfE_min' [OF this assms(2)] obtain z where "z \<in> R" "\<And>y. (y, z) \<in> ?E \<Longrightarrow> y \<notin> R" by blast
    with assms(3) show False by blast
  qed
  moreover have "finite ?E" using assms(1) by simp
  ultimately have "\<not> acyclic ?E" using finite_acyclic_wf by blast
  then obtain x where x: "(x, x) \<in> ?E\<^sup>+" by (auto simp: acyclic_def)
  let ?C = "{y. (x, y) \<in> ?E\<^sup>* \<and> (y, x) \<in> ?E\<^sup>*} \<inter> R"
  obtain y where "(x, y) \<in> ?E" using tranclD [OF x] by blast
  then have xR: "x \<in> R" by blast
  show ?thesis
  proof (rule that [of ?C])
    show "?C \<noteq> {}" using xR by blast
    show "\<forall>n \<in> ?C. \<exists>m \<in> ?C. (n, m) \<in> E"
    proof
    fix n assume n: "n \<in> ?C"
    have "(n, n) \<in> ?E\<^sup>+" 
      using trancl_rtrancl_trancl [OF rtrancl_trancl_trancl [OF _ x]] n by blast
    then obtain m where m: "(n, m) \<in> ?E" "(m, n) \<in> ?E\<^sup>*" using tranclD by fast
    have "(x, n) \<in> ?E\<^sup>*" using n by blast
    from rtrancl_into_rtrancl [OF this m(1)] have "(x, m) \<in> ?E\<^sup>*" .
    moreover have "(m, x) \<in> ?E\<^sup>*" using n rtrancl_trans [OF m(2)] by blast
    ultimately have "m \<in> ?C" using m(1) by blast
    with m(1) show "\<exists>m \<in> ?C. (n, m) \<in> E" by blast
    qed
  qed blast
qed

section \<open>The topological sort is a peeling\<close>

abbreviation keys :: "'m graph \<Rightarrow> string set" where
  "keys g \<equiv> dom (map_of g)"

lemma keys_cong: "map fst g' = map fst g \<Longrightarrow> keys g' = keys g"
  by (metis dom_map_of_conv_image_fst list.set_map)

lemma keys_delete [simp]: "keys (AList.delete n g) = keys g - {n}"
  by (auto simp: delete_conv' split: if_splits)

definition indeg :: "'m graph \<Rightarrow> string \<Rightarrow> int" where
  "indeg g n = indegree (the (map_of g n))"

definition outdeg :: "'m graph \<Rightarrow> string \<Rightarrow> int" where
  "outdeg g n = outdegree (the (map_of g n))"

lemma update_present_keys: "n \<in> keys g \<Longrightarrow> map fst (AList.update n v g) = map fst g"
  by (auto simp: update_keys dom_map_of_conv_image_fst)

definition in_rest :: "'m graphNode \<Rightarrow> 'm option \<times> int \<times> GroupCommonOption option \<times> string list" where
  "in_rest nd = (data nd, outdegree nd, opt nd, from_nodes nd)"

lemma dec_indegree_sim:
  "set ps \<subseteq> keys g \<Longrightarrow>
   \<exists>g'. dec_indegree ps q g = Inr (snd (dec_all ps (indeg g) q), g') \<and> indeg g' = fst (dec_all ps (indeg g) q) \<and>
     map fst g' = map fst g \<and> (\<forall>n. map_option (in_rest) (map_of g' n) = map_option (in_rest) (map_of g n))"
proof (induction ps arbitrary: q g)
  case (Cons p ps)
  then obtain child where c: "map_of g p = Some child" by auto
  let ?child = "child\<lparr>indegree := indegree child - 1\<rparr>"
  let ?g = "AList.update p ?child g"
  have keys: "map fst ?g = map fst g" using Cons.prems by (simp add: update_present_keys)
  have deg: "indeg ?g = (indeg g)(p := indeg g p - 1)" by (auto simp: indeg_def update_conv' c)
  from Cons.prems have "set ps \<subseteq> keys ?g" by (simp add: keys_cong [OF keys])
  let ?q = "if indeg g p - 1 = 0 then q @ [p] else q"
  from Cons.IH [OF \<open>set ps \<subseteq> keys ?g\<close>, of ?q] obtain g' where
    g': "dec_indegree ps ?q ?g = Inr (snd (dec_all ps (indeg ?g) ?q), g')" "indeg g' = fst (dec_all ps (indeg ?g) ?q)"
      "map fst g' = map fst ?g" "\<forall>n. map_option (in_rest) (map_of g' n) = map_option (in_rest) (map_of ?g n)"
    by blast
  have "dec_indegree (p # ps) q g = dec_indegree ps ?q ?g" by (simp add: c indeg_def)
  moreover have "dec_all (p # ps) (indeg g) q = dec_all ps (indeg ?g) ?q" by (simp only: dec_all.simps deg)
  moreover have "map_option (in_rest) (map_of ?g n) = map_option (in_rest) (map_of g n)" for n
    by (simp add: update_conv' c in_rest_def)
  ultimately show ?case using g' keys by (intro exI [of _ g']) simp
qed simp

definition kids :: "(string \<Rightarrow> GroupCommonOption option) \<Rightarrow> string \<Rightarrow> string list" where
  "kids opt_of n = (case opt_of n of Some option \<Rightarrow> GroupProxies option | None \<Rightarrow> [])"

definition labelled :: "(string \<Rightarrow> GroupCommonOption option) \<Rightarrow> (string \<Rightarrow> 'm option) \<Rightarrow> 'm graph \<Rightarrow> bool" where
  "labelled opt_of data_of g \<longleftrightarrow> distinct (map fst g) \<and>
     (\<forall>n node. map_of g n = Some node \<longrightarrow> in_rest node = (data_of n, 0, opt_of n, []))"

definition topo_inv :: "(string \<Rightarrow> GroupCommonOption option) \<Rightarrow> (string \<Rightarrow> 'm option) \<Rightarrow> 'm graph \<Rightarrow> string list \<Rightarrow> bool" where
  "topo_inv opt_of data_of g q \<longleftrightarrow> labelled opt_of data_of g \<and> peel_inv (kids opt_of) (keys g) (indeg g) q"

lemma labelled_delete: "labelled opt_of data_of g \<Longrightarrow> labelled opt_of data_of (AList.delete n g)"
  by (auto simp: labelled_def distinct_delete delete_conv' split: if_splits)

lemma peel_inv_cong: "(\<And>n. n \<in> R \<Longrightarrow> deg n = deg' n) \<Longrightarrow> peel_inv nxt R deg q = peel_inv nxt R deg' q"
  by (simp add: peel_inv_def cong: conj_cong)

lemma topo_step:
  assumes "topo_inv opt_of data_of g (n # q)"
  obtains node q' g' where "map_of g n = Some node" "opt node = opt_of n" "data node = data_of n"
    "dec_indegree (kids opt_of n) q g = Inr (q', g')" "topo_inv opt_of data_of (AList.delete n g') q'"
    "keys (AList.delete n g') = keys g - {n}"
proof -
  have l: "labelled opt_of data_of g" and inv: "peel_inv (kids opt_of) (keys g) (indeg g) (n # q)"
    using assms by (simp_all add: topo_inv_def)
  have "set (n # q) \<subseteq> keys g" using inv unfolding peel_inv_def by blast
  then have "n \<in> keys g" by simp
  then have "set (kids opt_of n) \<subseteq> keys g" using inv unfolding peel_inv_def by blast
  from \<open>n \<in> keys g\<close> obtain node where node: "map_of g n = Some node" by auto
  from dec_indegree_sim [OF \<open>set (kids opt_of n) \<subseteq> keys g\<close>] obtain g' where
    g': "dec_indegree (kids opt_of n) q g = Inr (snd (dec_all (kids opt_of n) (indeg g) q), g')"
      "indeg g' = fst (dec_all (kids opt_of n) (indeg g) q)" "map fst g' = map fst g"
      "\<forall>k. map_option (in_rest) (map_of g' k) = map_option (in_rest) (map_of g k)" by blast
  have lg': "labelled opt_of data_of g'"
    unfolding labelled_def
  proof (intro conjI allI impI)
    show "distinct (map fst g')" using l by (simp add: labelled_def g'(3))
    fix k nd assume "map_of g' k = Some nd"
    then obtain nd0 where "map_of g k = Some nd0" "in_rest nd = in_rest nd0"
      using g'(4) [rule_format, of k] by (cases "map_of g k") auto
    with l show "in_rest nd = (data_of k, 0, opt_of k, [])" by (simp add: labelled_def)
  qed
  have k: "keys (AList.delete n g') = keys g - {n}" using keys_cong [OF g'(3)] by simp
  have "peel_inv (kids opt_of) (keys g - {n}) (indeg g') (snd (dec_all (kids opt_of n) (indeg g) q))"
    by (rule peel_step [OF inv]) (simp add: g'(2))
  then have "peel_inv (kids opt_of) (keys g - {n}) (indeg (AList.delete n g')) (snd (dec_all (kids opt_of n) (indeg g) q))"
    by (rule peel_inv_cong [THEN iffD1, rotated]) (simp add: indeg_def delete_conv')
  then have "topo_inv opt_of data_of (AList.delete n g') (snd (dec_all (kids opt_of n) (indeg g) q))"
    unfolding topo_inv_def k using labelled_delete [OF lg'] by blast
  with that [OF node _ _ g'(1) _ k] l node show ?thesis by (simp add: labelled_def in_rest_def)
qed

definition group_names :: "(string \<Rightarrow> GroupCommonOption option) \<Rightarrow> 'm graph \<Rightarrow> string set" where
  "group_names opt_of g = {n \<in> keys g. opt_of n \<noteq> None}"

text \<open>One turn of the loop, for a group and for a plain proxy.\<close>

lemma topo_loop_turn:
  assumes inv: "topo_inv opt_of data_of g (n # q)" and lab: "\<forall>k. opt_of k = None \<longleftrightarrow> data_of k = None"
  obtains g' q' where "topo_inv opt_of data_of g' q'" "keys g' = keys g - {n}" "set (kids opt_of n) \<subseteq> keys g'"
    "length g' < length g"
    "\<forall>index cfg. topo_loop index (n # q) g cfg =
       (if opt_of n = None then topo_loop index q' g' cfg
        else if length cfg < index + 1 then Inl IndexOutOfRange
        else topo_loop (index + 1) q' g' (cfg[length cfg - (index + 1) := the (data_of n)]))"
proof -
  obtain node q' g1 where s: "map_of g n = Some node" "opt node = opt_of n" "data node = data_of n"
    "dec_indegree (kids opt_of n) q g = Inr (q', g1)" "topo_inv opt_of data_of (AList.delete n g1) q'"
    "keys (AList.delete n g1) = keys g - {n}" by (rule topo_step [OF inv])
  have p: "peel_inv (kids opt_of) (keys g) (indeg g) (n # q)" using inv by (simp add: topo_inv_def)
  have z: "set (n # q) = {k \<in> keys g. indeg g k = 0}" using p unfolding peel_inv_def by blast
  then have n: "n \<in> keys g" "indeg g n = 0" by auto
  have "set (kids opt_of n) \<subseteq> keys g" using p n(1) unfolding peel_inv_def by blast
  moreover have "n \<notin> set (kids opt_of n)" using peel_zero [OF p n(1)] n by blast
  ultimately have sub: "set (kids opt_of n) \<subseteq> keys (AList.delete n g1)" unfolding s(6) by blast
  have len: "length (AList.delete n g1) < length g" by (rule dec_indegree_delete [OF s(1) s(4) [symmetric]])
  have eq: "topo_loop index (n # q) g cfg =
       (if opt_of n = None then topo_loop index q' (AList.delete n g1) cfg
        else if length cfg < index + 1 then Inl IndexOutOfRange
        else topo_loop (index + 1) q' (AList.delete n g1) (cfg[length cfg - (index + 1) := the (data_of n)]))" for index cfg
  proof (cases "opt_of n")
    case None
    then have "q' = q" "g1 = g" using s(4) by (simp_all add: kids_def)
    with None s show ?thesis by simp
  next
    case (Some option)
    then obtain mapping where m: "data_of n = Some mapping" using lab by (metis not_None_eq)
    have kids: "kids opt_of n = GroupProxies option" using Some by (simp add: kids_def)
    show ?thesis
    proof (cases "GroupProxies option = []")
      case True
      then have "q' = q" "g1 = g" using s(4) by (simp_all add: kids)
      with True Some m s show ?thesis by (simp add: Let_def)
    next
      case False
      with Some m s kids show ?thesis by (simp add: Let_def)
    qed
  qed
  show ?thesis by (rule that [OF s(5,6) sub len]) (intro allI eq)
qed

lemma place_last:
  assumes "i + 1 \<le> length cfg" "k \<le> length cfg - (i + 1)"
  shows "take k (cfg[length cfg - (i + 1) := x]) = take k cfg"
    "drop (length cfg - (i + 1)) (cfg[length cfg - (i + 1) := x]) = x # drop (length cfg - i) cfg"
proof -
  show "take k (cfg[length cfg - (i + 1) := x]) = take k cfg" using assms by simp
  have "length cfg - i = Suc (length cfg - (i + 1))" using assms(1) by simp
  then show "drop (length cfg - (i + 1)) (cfg[length cfg - (i + 1) := x]) = x # drop (length cfg - i) cfg"
    using assms(1) by (simp add: drop_update_swap Cons_nth_drop_Suc [symmetric])
qed

fun ordered :: "(string \<Rightarrow> GroupCommonOption option) \<Rightarrow> string list \<Rightarrow> string set \<Rightarrow> bool" where
  "ordered opt_of [] rest = True"
| "ordered opt_of (d # ds) rest =
     ({p \<in> set (kids opt_of d). opt_of p \<noteq> None} \<subseteq> set ds \<union> rest \<and> ordered opt_of ds rest)"

lemma topo_loop_result:
  assumes "topo_inv opt_of data_of g q" "\<forall>k. opt_of k = None \<longleftrightarrow> data_of k = None"
    "index + card (group_names opt_of g) \<le> length cfg"
  shows "\<exists>g' ds. topo_loop index q g cfg =
      Inr (g', take (length cfg - index - length ds) cfg @ map (the \<circ> data_of) (rev ds) @ drop (length cfg - index) cfg) \<and>
    topo_inv opt_of data_of g' [] \<and> keys g' \<subseteq> keys g \<and> distinct ds \<and>
    set ds = group_names opt_of g - keys g' \<and> ordered opt_of ds (keys g')"
  using assms
proof (induction "length g" arbitrary: g q index cfg rule: less_induct)
  case less
  show ?case
  proof (cases q)
    case Nil
    then show ?thesis using less.prems(1) by (intro exI [of _ g] exI [of _ "[]"]) (auto simp: group_names_def)
  next
    case (Cons n q0)
    obtain g1 q' where t: "topo_inv opt_of data_of g1 q'" "keys g1 = keys g - {n}" "set (kids opt_of n) \<subseteq> keys g1"
      "length g1 < length g"
      "\<forall>index cfg. topo_loop index (n # q0) g cfg =
         (if opt_of n = None then topo_loop index q' g1 cfg
          else if length cfg < index + 1 then Inl IndexOutOfRange
          else topo_loop (index + 1) q' g1 (cfg[length cfg - (index + 1) := the (data_of n)]))"
      by (rule topo_loop_turn [OF less.prems(1) [unfolded Cons] less.prems(2)])
    have n: "n \<in> keys g" using less.prems(1) Cons by (auto simp: topo_inv_def peel_inv_def)
    have fin: "finite (group_names opt_of g)"
      by (rule finite_subset [OF _ finite_dom_map_of [of g]]) (auto simp: group_names_def)
    show ?thesis
    proof (cases "opt_of n")
      case None
      then have gn: "group_names opt_of g1 = group_names opt_of g" by (auto simp: group_names_def t(2))
      with less.hyps [OF t(4) t(1) less.prems(2), of index cfg] less.prems(3) obtain g' ds where
        ds: "topo_loop index q' g1 cfg =
          Inr (g', take (length cfg - index - length ds) cfg @ map (the \<circ> data_of) (rev ds) @ drop (length cfg - index) cfg)"
        "topo_inv opt_of data_of g' []" "keys g' \<subseteq> keys g1" "distinct ds" "set ds = group_names opt_of g - keys g'"
        "ordered opt_of ds (keys g')" by auto
      have "topo_loop index q g cfg = topo_loop index q' g1 cfg" using None t(5) by (simp add: Cons)
      moreover have "keys g' \<subseteq> keys g" using ds(3) t(2) by blast
      ultimately show ?thesis using ds by (intro exI [of _ g'] exI [of _ ds]) simp
    next
      case (Some option)
      have gn: "group_names opt_of g1 = group_names opt_of g - {n}" "n \<in> group_names opt_of g"
        using Some n by (auto simp: group_names_def t(2))
      then have "card (group_names opt_of g) = Suc (card (group_names opt_of g1))"
        using card_Suc_Diff1 [OF fin gn(2)] gn(1) by simp
      then have lim: "index + 1 \<le> length cfg" "index + 1 + card (group_names opt_of g1) \<le> length cfg" using less.prems(3) by simp_all
      let ?cfg = "cfg[length cfg - (index + 1) := the (data_of n)]"
      from less.hyps [OF t(4) t(1) less.prems(2), of "index + 1" ?cfg] lim(2) obtain g' ds where
        ds: "topo_loop (index + 1) q' g1 ?cfg =
          Inr (g', take (length ?cfg - (index + 1) - length ds) ?cfg @ map (the \<circ> data_of) (rev ds) @ drop (length ?cfg - (index + 1)) ?cfg)"
        "topo_inv opt_of data_of g' []" "keys g' \<subseteq> keys g1" "distinct ds" "set ds = group_names opt_of g1 - keys g'"
        "ordered opt_of ds (keys g')" by auto
      have "topo_loop index q g cfg = Inr (g', take (length cfg - index - length (n # ds)) cfg @ map (the \<circ> data_of) (rev (n # ds)) @ drop (length cfg - index) cfg)"
        using lim(1) place_last [OF lim(1), of "length cfg - (index + 1) - length ds" "the (data_of n)"] ds(1) t(5)
        by (simp add: Cons Some)
      moreover have "distinct (n # ds)" "set (n # ds) = group_names opt_of g - keys g'"
        using ds(3,4,5) gn t(2) by auto
      moreover have "ordered opt_of (n # ds) (keys g')"
        using ds(5,6) t(3) by (auto simp: group_names_def)
      moreover have "keys g' \<subseteq> keys g" using ds(3) t(2) by blast
      ultimately show ?thesis using ds(2) by blast
    qed
  qed
qed

section \<open>The graph that is built\<close>

definition in_view :: "'m graph \<Rightarrow> string \<Rightarrow> int \<times> 'm option \<times> int \<times> GroupCommonOption option \<times> string list" where
  "in_view g n = (case map_of g n of Some nd \<Rightarrow> (indegree nd, in_rest nd) | None \<Rightarrow> (0, None, 0, None, []))"

lemma in_view_update: "in_view (AList.update k nd g) = (in_view g)(k := (indegree nd, in_rest nd))"
  by (auto simp: in_view_def update_conv')

lemma add_edges_view:
  "in_view (add_edges ps g) n = (fst (in_view g n) + int (count_list ps n), snd (in_view g n)) \<and>
   keys (add_edges ps g) = keys g \<union> set ps \<and> (distinct (map fst g) \<longrightarrow> distinct (map fst (add_edges ps g)))"
proof (induction ps arbitrary: g)
  case (Cons p ps)
  show ?case
  proof (cases "map_of g p")
    case None
    then have v: "in_view g p = (0, None, 0, None, [])" by (simp add: in_view_def)
    show ?thesis
      using None Cons.IH [of "AList.update p \<lparr>indegree = 1, data = None, outdegree = 0, opt = None, from_nodes = []\<rparr> g"] v
      by (auto simp: in_view_update in_rest_def update_conv' distinct_update)
  next
    case (Some nd)
    then have v: "in_view g p = (indegree nd, in_rest nd)" by (simp add: in_view_def)
    show ?thesis
      using Some Cons.IH [of "AList.update p (nd\<lparr>indegree := indegree nd + 1\<rparr>) g"] v
      by (auto simp: in_view_update in_rest_def update_conv' distinct_update)
  qed
qed simp

definition option_of :: "('m \<Rightarrow> string + GroupCommonOption) \<Rightarrow> 'm \<Rightarrow> GroupCommonOption" where
  "option_of decode m = projr (decode m)"

definition name_of :: "('m \<Rightarrow> string + GroupCommonOption) \<Rightarrow> 'm \<Rightarrow> string" where
  "name_of decode m = Name (option_of decode m)"

definition proxies_of :: "('m \<Rightarrow> string + GroupCommonOption) \<Rightarrow> 'm \<Rightarrow> string list" where
  "proxies_of decode m = GroupProxies (option_of decode m)"

definition data_in :: "('m \<Rightarrow> string + GroupCommonOption) \<Rightarrow> 'm list \<Rightarrow> string \<Rightarrow> 'm option" where
  "data_in decode ms n = find (\<lambda>m. name_of decode m = n) ms"

definition opt_in :: "('m \<Rightarrow> string + GroupCommonOption) \<Rightarrow> 'm list \<Rightarrow> string \<Rightarrow> GroupCommonOption option" where
  "opt_in decode ms n = map_option (option_of decode) (data_in decode ms n)"

definition edges_in :: "('m \<Rightarrow> string + GroupCommonOption) \<Rightarrow> 'm list \<Rightarrow> string \<Rightarrow> int" where
  "edges_in decode ms n = (\<Sum>m\<leftarrow>ms. int (count_list (proxies_of decode m) n))"

definition built :: "('m \<Rightarrow> string + GroupCommonOption) \<Rightarrow> 'm list \<Rightarrow> 'm graph \<Rightarrow> bool" where
  "built decode ms g \<longleftrightarrow> distinct (map fst g) \<and> keys g = name_of decode ` set ms \<union> (\<Union>m \<in> set ms. set (proxies_of decode m)) \<and>
     (\<forall>n. in_view g n = (edges_in decode ms n, data_in decode ms n, 0, opt_in decode ms n, []))"

lemma data_in_snoc:
  "data_in decode (ms @ [m]) n = (case data_in decode ms n of Some x \<Rightarrow> Some x | None \<Rightarrow> if name_of decode m = n then Some m else None)"
  unfolding data_in_def by (induction ms) auto

lemma data_in_None: "data_in decode ms n = None \<longleftrightarrow> n \<notin> name_of decode ` set ms"
  by (auto simp: data_in_def find_None_iff)

lemma data_in_Some:
  assumes "distinct (map (name_of decode) ms)"
  shows "data_in decode ms n = Some m \<longleftrightarrow> m \<in> set ms \<and> name_of decode m = n"
proof
  assume "data_in decode ms n = Some m"
  then show "m \<in> set ms \<and> name_of decode m = n" by (auto simp: data_in_def find_Some_iff)
next
  assume m: "m \<in> set ms \<and> name_of decode m = n"
  then obtain x where x: "data_in decode ms n = Some x" using data_in_None [of decode ms n] by (cases "data_in decode ms n") auto
  then have "x \<in> set ms" "name_of decode x = n" by (auto simp: data_in_def find_Some_iff)
  with m assms have "x = m" by (metis distinct_map inj_onD)
  with x show "data_in decode ms n = Some m" by simp
qed

lemma built_step:
  assumes b: "built decode ms g" and d: "decode m = Inr (option_of decode m)" and nm: "name_of decode m \<notin> name_of decode ` set ms"
  obtains g' where "built decode (ms @ [m]) g'" "\<And>rest. build_graph decode (m # rest) g = build_graph decode rest g'"
proof -
  let ?o = "option_of decode m"
  have dn: "data_in decode ms (Name ?o) = None" using nm by (simp add: data_in_None name_of_def [symmetric])
  have view: "in_view g n = (edges_in decode ms n, data_in decode ms n, 0, opt_in decode ms n, [])" for n
    using b by (simp add: built_def)
  let ?nd = "case map_of g (Name ?o) of Some node \<Rightarrow> node\<lparr>data := Some m, opt := Some ?o\<rparr>
    | None \<Rightarrow> \<lparr>indegree = 0, data = Some m, outdegree = 0, opt = Some ?o, from_nodes = []\<rparr>"
  let ?g = "AList.update (Name ?o) ?nd g"
  have nd: "(indegree ?nd, in_rest ?nd) = (edges_in decode ms (Name ?o), Some m, 0, Some ?o, [])"
    using view [of "Name ?o"] by (auto simp: in_view_def in_rest_def split: option.splits)
  have "data node = None" if "map_of g (Name ?o) = Some node" for node
    using view [of "Name ?o"] that dn by (simp add: in_view_def in_rest_def)
  then have "build_graph decode (m # rest) g = build_graph decode rest (add_edges (GroupProxies ?o) ?g)" for rest
    using d by (simp split: option.split)
  moreover have "built decode (ms @ [m]) (add_edges (GroupProxies ?o) ?g)"
    unfolding built_def
  proof (intro conjI allI)
    show "distinct (map fst (add_edges (GroupProxies ?o) ?g))"
      using b add_edges_view [of "GroupProxies ?o" ?g] by (simp add: built_def distinct_update)
    show "keys (add_edges (GroupProxies ?o) ?g) = name_of decode ` set (ms @ [m]) \<union> (\<Union>m \<in> set (ms @ [m]). set (proxies_of decode m))"
      using b add_edges_view [of "GroupProxies ?o" ?g] by (auto simp: built_def update_conv' name_of_def proxies_of_def)
    fix n
    have "in_view ?g n = (edges_in decode ms n, data_in decode (ms @ [m]) n, 0, opt_in decode (ms @ [m]) n, [])"
      using view [of n] nd dn by (auto simp: in_view_update data_in_snoc opt_in_def name_of_def split: option.split)
    then show "in_view (add_edges (GroupProxies ?o) ?g) n =
        (edges_in decode (ms @ [m]) n, data_in decode (ms @ [m]) n, 0, opt_in decode (ms @ [m]) n, [])"
      using add_edges_view [of "GroupProxies ?o" ?g n] by (simp add: edges_in_def proxies_of_def)
  qed
  ultimately show ?thesis using that by blast
qed

lemma build_graph_built:
  assumes "built decode done g" "\<forall>m \<in> set ms. decode m = Inr (option_of decode m)" "distinct (map (name_of decode) (done @ ms))"
  shows "\<exists>g'. build_graph decode ms g = Inr g' \<and> built decode (done @ ms) g'"
  using assms
proof (induction ms arbitrary: "done" g)
  case (Cons m ms)
  have d: "decode m = Inr (option_of decode m)" "name_of decode m \<notin> name_of decode ` set done" using Cons.prems(2,3) by auto
  obtain g' where g': "built decode (done @ [m]) g'" "\<And>rest. build_graph decode (m # rest) g = build_graph decode rest g'"
    by (rule built_step [OF Cons.prems(1) d]) blast
  from Cons.IH [OF g'(1)] Cons.prems(2,3) g'(2) show ?case by simp
qed simp

lemma kids_in:
  assumes "distinct (map (name_of decode) ms)" "m \<in> set ms"
  shows "kids (opt_in decode ms) (name_of decode m) = proxies_of decode m"
proof -
  have "data_in decode ms (name_of decode m) = Some m" using assms by (simp add: data_in_Some)
  then show ?thesis by (simp add: kids_def opt_in_def proxies_of_def)
qed

lemma kids_none: "n \<notin> name_of decode ` set ms \<Longrightarrow> kids (opt_in decode ms) n = []"
  using data_in_None [of decode ms n] by (simp add: kids_def opt_in_def)

lemma edges_sum:
  assumes "distinct (map (name_of decode) ms)" "finite R" "name_of decode ` set ms \<subseteq> R"
  shows "edges_in decode ms n = (\<Sum>k \<in> R. int (count_list (kids (opt_in decode ms) k) n))"
proof -
  let ?f = "\<lambda>k. int (count_list (kids (opt_in decode ms) k) n)"
  have "edges_in decode ms n = (\<Sum>m\<leftarrow>ms. ?f (name_of decode m))"
    unfolding edges_in_def by (rule arg_cong [where f = sum_list]) (simp add: kids_in [OF assms(1)])
  also have "\<dots> = (\<Sum>k\<leftarrow>map (name_of decode) ms. ?f k)" by (simp add: comp_def)
  also have "\<dots> = sum ?f (set (map (name_of decode) ms))" using assms(1) by (rule sum_list_distinct_conv_sum_set)
  also have "\<dots> = sum ?f R" using assms(2,3) by (intro sum.mono_neutral_left) (auto simp: kids_none)
  finally show ?thesis .
qed

lemma nodes_with_perm:
  assumes "\<forall>xs. mset (perm xs) = mset xs" "distinct (map fst g)"
  shows "distinct (nodes_with perm P g)" "set (nodes_with perm P g) = {n. \<exists>node. map_of g n = Some node \<and> P node}"
proof -
  have "mset (perm (map fst g)) = mset (map fst g)" using assms(1) by blast
  then have p: "distinct (perm (map fst g))" "set (perm (map fst g)) = keys g"
    using assms(2) by (metis mset_eq_imp_distinct_iff) (metis \<open>mset _ = _\<close> dom_map_of_conv_image_fst list.set_map mset_eq_setD)
  show "distinct (nodes_with perm P g)" using p(1) by (simp add: nodes_with_def)
  show "set (nodes_with perm P g) = {n. \<exists>node. map_of g n = Some node \<and> P node}"
    by (auto simp: nodes_with_def p(2) split: option.splits)
qed

lemma built_topo_inv:
  assumes b: "built decode ms g" and dist: "distinct (map (name_of decode) ms)" and perm: "\<forall>xs. mset (perm xs) = mset xs"
  shows "topo_inv (opt_in decode ms) (data_in decode ms) g (nodes_with perm (\<lambda>node. indegree node = 0) g)"
proof -
  have k: "keys g = name_of decode ` set ms \<union> (\<Union>m \<in> set ms. set (proxies_of decode m))" and dg: "distinct (map fst g)"
    and v: "\<And>n. in_view g n = (edges_in decode ms n, data_in decode ms n, 0, opt_in decode ms n, [])"
    using b by (auto simp: built_def)
  have node: "indegree nd = edges_in decode ms n \<and> in_rest nd = (data_in decode ms n, 0, opt_in decode ms n, [])"
    if "map_of g n = Some nd" for n nd
    using v [of n] that by (simp add: in_view_def)
  have "set (kids (opt_in decode ms) n) \<subseteq> keys g" for n
    by (cases "n \<in> name_of decode ` set ms") (auto simp: kids_in [OF dist] kids_none k)
  moreover have "indeg g n = (\<Sum>m \<in> keys g. int (count_list (kids (opt_in decode ms) m) n))" if "n \<in> keys g" for n
  proof -
    have "indeg g n = edges_in decode ms n" using that node by (auto simp: indeg_def)
    also have "\<dots> = (\<Sum>m \<in> keys g. int (count_list (kids (opt_in decode ms) m) n))"
      by (rule edges_sum [OF dist]) (auto simp: k finite_dom_map_of)
    finally show ?thesis .
  qed
  moreover have "set (nodes_with perm (\<lambda>node. indegree node = 0) g) = {n \<in> keys g. indeg g n = 0}"
    by (auto simp: nodes_with_perm [OF perm dg] indeg_def)
  ultimately show ?thesis
    using nodes_with_perm(1) [OF perm dg] node dg
    by (simp add: topo_inv_def labelled_def peel_inv_def finite_dom_map_of)
qed

section \<open>The located loop\<close>

definition froms :: "'m graph \<Rightarrow> string \<Rightarrow> string list" where
  "froms g n = from_nodes (the (map_of g n))"

lemma fill_edges_sim:
  "name \<in> keys g \<Longrightarrow> set ps \<subseteq> keys g \<Longrightarrow>
   \<exists>g'. fill_edges name ps g = Inr g' \<and> map fst g' = map fst g \<and> (\<forall>n. map_option opt (map_of g' n) = map_option opt (map_of g n)) \<and>
     (\<forall>n. outdeg g' n = outdeg g n + (if n = name then int (length ps) else 0)) \<and>
     (\<forall>n m. count_list (froms g' n) m = count_list (froms g n) m + (if m = name then count_list ps n else 0))"
proof (induction ps arbitrary: g)
  case (Cons p ps)
  obtain node where node: "map_of g name = Some node" using Cons.prems(1) by blast
  let ?g1 = "AList.update name (node\<lparr>outdegree := outdegree node + 1\<rparr>) g"
  have k1: "map fst ?g1 = map fst g" using Cons.prems(1) by (rule update_present_keys)
  have "p \<in> keys ?g1" using Cons.prems(2) by (simp add: keys_cong [OF k1])
  then obtain child where child: "map_of ?g1 p = Some child" by blast
  let ?g2 = "AList.update p (child\<lparr>from_nodes := from_nodes child @ [name]\<rparr>) ?g1"
  have k2: "map fst ?g2 = map fst g" using update_present_keys [OF \<open>p \<in> keys ?g1\<close>] k1 by simp
  have o: "map_option opt (map_of ?g2 n) = map_option opt (map_of g n)" for n
    using child node by (auto simp: update_conv' split: if_splits)
  have d: "outdeg ?g2 n = outdeg g n + (if n = name then 1 else 0)" for n
    using child node by (auto simp: outdeg_def update_conv' split: if_splits)
  have f: "froms ?g2 n = froms g n @ (if n = p then [name] else [])" for n
    using child node by (auto simp: froms_def update_conv' split: if_splits)
  have "name \<in> keys ?g2" "set ps \<subseteq> keys ?g2" using Cons.prems by (simp_all only: keys_cong [OF k2] list.set insert_subset)
  from Cons.IH [OF this] obtain g' where g': "fill_edges name ps ?g2 = Inr g'" "map fst g' = map fst ?g2"
    "\<forall>n. map_option opt (map_of g' n) = map_option opt (map_of ?g2 n)"
    "\<forall>n. outdeg g' n = outdeg ?g2 n + (if n = name then int (length ps) else 0)"
    "\<forall>n m. count_list (froms g' n) m = count_list (froms ?g2 n) m + (if m = name then count_list ps n else 0)" by blast
  have "fill_edges name (p # ps) g = Inr g'" using node child g'(1) by (simp add: Let_def)
  moreover have "\<forall>n m. count_list (froms g' n) m = count_list (froms g n) m + (if m = name then count_list (p # ps) n else 0)"
    using g'(5) f by simp
  ultimately show ?case using g'(2,3,4) k2 o d by (intro exI [of _ g']) simp
qed simp

lemma fill_from_sim:
  assumes "distinct names" "set names \<subseteq> keys g" "\<forall>n node. map_of g n = Some node \<longrightarrow> opt node = opt_of n"
    "\<forall>m \<in> keys g. set (kids opt_of m) \<subseteq> keys g"
  shows "\<exists>g'. fill_from names g = Inr g' \<and> map fst g' = map fst g \<and>
     (\<forall>n. outdeg g' n = outdeg g n + (if n \<in> set names then int (length (kids opt_of n)) else 0)) \<and>
     (\<forall>n m. count_list (froms g' n) m = count_list (froms g n) m + (if m \<in> set names then count_list (kids opt_of m) n else 0))"
  using assms
proof (induction names arbitrary: g)
  case (Cons name names)
  then obtain node where node: "map_of g name = Some node" by auto
  have "name \<in> keys g" "set (kids opt_of name) \<subseteq> keys g" using Cons.prems(2,4) by auto
  from fill_edges_sim [OF this] obtain g1 where g1: "fill_edges name (kids opt_of name) g = Inr g1" "map fst g1 = map fst g"
    "\<forall>n. map_option opt (map_of g1 n) = map_option opt (map_of g n)"
    "\<forall>n. outdeg g1 n = outdeg g n + (if n = name then int (length (kids opt_of name)) else 0)"
    "\<forall>n m. count_list (froms g1 n) m = count_list (froms g n) m + (if m = name then count_list (kids opt_of name) n else 0)" by blast
  have k: "keys g1 = keys g" by (rule keys_cong [OF g1(2)])
  have "\<forall>n node. map_of g1 n = Some node \<longrightarrow> opt node = opt_of n"
  proof (intro allI impI)
    fix n nd assume "map_of g1 n = Some nd"
    then obtain nd0 where "map_of g n = Some nd0" "opt nd = opt nd0" using g1(3) [rule_format, of n] by (cases "map_of g n") auto
    with Cons.prems(3) show "opt nd = opt_of n" by simp
  qed
  from Cons.IH [OF _ _ this] Cons.prems obtain g' where g': "fill_from names g1 = Inr g'" "map fst g' = map fst g1"
    "\<forall>n. outdeg g' n = outdeg g1 n + (if n \<in> set names then int (length (kids opt_of n)) else 0)"
    "\<forall>n m. count_list (froms g' n) m = count_list (froms g1 n) m + (if m \<in> set names then count_list (kids opt_of m) n else 0)"
    unfolding k by auto
  have "opt node = opt_of name" using Cons.prems(3) node by blast
  then have "fill_from (name # names) g = Inr g'"
    using node g1(1) g'(1) by (cases "opt_of name") (simp_all add: kids_def)
  with g1 g' Cons.prems(1) show ?case by (intro exI [of _ g']) auto
qed simp

lemma dec_outdegree_sim:
  "set ps \<subseteq> keys g \<Longrightarrow>
   \<exists>g'. dec_outdegree ps q g = Inr (snd (dec_all ps (outdeg g) q), g') \<and> outdeg g' = fst (dec_all ps (outdeg g) q) \<and>
     map fst g' = map fst g \<and> froms g' = froms g"
proof (induction ps arbitrary: q g)
  case (Cons p ps)
  then obtain node where c: "map_of g p = Some node" by auto
  let ?node = "node\<lparr>outdegree := outdegree node - 1\<rparr>"
  let ?g = "AList.update p ?node g"
  have keys: "map fst ?g = map fst g" using Cons.prems by (simp add: update_present_keys)
  have deg: "outdeg ?g = (outdeg g)(p := outdeg g p - 1)" by (auto simp: outdeg_def update_conv' c)
  have fr: "froms ?g = froms g" by (auto simp: froms_def update_conv' c)
  from Cons.prems have "set ps \<subseteq> keys ?g" by (simp add: keys_cong [OF keys])
  let ?q = "if outdeg g p - 1 = 0 then q @ [p] else q"
  from Cons.IH [OF \<open>set ps \<subseteq> keys ?g\<close>, of ?q] obtain g' where
    g': "dec_outdegree ps ?q ?g = Inr (snd (dec_all ps (outdeg ?g) ?q), g')" "outdeg g' = fst (dec_all ps (outdeg ?g) ?q)"
      "map fst g' = map fst ?g" "froms g' = froms ?g" by blast
  have "dec_outdegree (p # ps) q g = dec_outdegree ps ?q ?g" by (simp add: c outdeg_def)
  moreover have "dec_all (p # ps) (outdeg g) q = dec_all ps (outdeg ?g) ?q" by (simp only: dec_all.simps deg)
  ultimately show ?case using g' keys fr by (intro exI [of _ g']) simp
qed simp

lemma prune_loop_result:
  assumes "peel_inv (froms g) (keys g) (outdeg g) q" "distinct (map fst g)"
    "C \<subseteq> keys g" "\<And>n. n \<in> C \<Longrightarrow> \<exists>m \<in> C. n \<in> set (froms g m)"
  shows "\<exists>g'. prune_loop q g = Inr g' \<and> distinct (map fst g') \<and> C \<subseteq> keys g' \<and> keys g' \<subseteq> keys g \<and>
    (\<forall>n \<in> keys g'. \<exists>m \<in> keys g'. n \<in> set (froms g m))"
  using assms
proof (induction "length g" arbitrary: g q rule: less_induct)
  case less
  show ?case
  proof (cases q)
    case Nil
    then show ?thesis using less.prems peel_end [of "froms g" "keys g" "outdeg g"] by auto
  next
    case (Cons n q0)
    note inv = less.prems(1) [unfolded Cons]
    have "set (n # q0) = {k \<in> keys g. outdeg g k = 0}" using inv unfolding peel_inv_def by blast
    then have n: "n \<in> keys g" "outdeg g n = 0" by auto
    have sub: "set (froms g n) \<subseteq> keys g" using inv n(1) unfolding peel_inv_def by blast
    obtain node where node: "map_of g n = Some node" using n(1) by blast
    from dec_outdegree_sim [OF sub] obtain g1 where
      g1: "dec_outdegree (froms g n) q0 g = Inr (snd (dec_all (froms g n) (outdeg g) q0), g1)"
        "outdeg g1 = fst (dec_all (froms g n) (outdeg g) q0)" "map fst g1 = map fst g" "froms g1 = froms g" by blast
    let ?g = "AList.delete n g1" and ?q = "snd (dec_all (froms g n) (outdeg g) q0)"
    have k: "keys ?g = keys g - {n}" using keys_cong [OF g1(3)] by simp
    have fr: "froms ?g m = froms g m" if "m \<in> keys ?g" for m
      using that g1(4) k by (auto simp: froms_def delete_conv' fun_eq_iff)
    have nC: "n \<notin> C" using less.prems(3,4) peel_zero [OF inv n(1)] n(2) by blast
    have "peel_inv (froms g) (keys g - {n}) (outdeg g1) ?q" by (rule peel_step [OF inv]) (simp add: g1(2))
    then have "peel_inv (froms g) (keys ?g) (outdeg ?g) ?q" unfolding k
      by (rule peel_inv_cong [THEN iffD1, rotated]) (simp add: outdeg_def delete_conv')
    then have inv': "peel_inv (froms ?g) (keys ?g) (outdeg ?g) ?q" using fr by (simp add: peel_inv_def cong: conj_cong)
    have len: "length ?g < length g" by (rule dec_outdegree_delete [OF node g1(1) [symmetric]])
    have d: "distinct (map fst ?g)" using less.prems(2) g1(3) by (simp add: distinct_delete)
    have C: "C \<subseteq> keys ?g" using less.prems(3) nC k by blast
    have "\<exists>m \<in> C. j \<in> set (froms ?g m)" if "j \<in> C" for j
    proof -
      obtain m where "m \<in> C" "j \<in> set (froms g m)" using less.prems(4) [of j] \<open>j \<in> C\<close> by blast
      then have "froms ?g m = froms g m" using C by (intro fr) blast
      with \<open>m \<in> C\<close> \<open>j \<in> set (froms g m)\<close> show ?thesis by (intro bexI [of _ m]) simp_all
    qed
    from less.hyps [OF len inv' d C this] obtain g' where g': "prune_loop ?q ?g = Inr g'" "distinct (map fst g')" "C \<subseteq> keys g'"
      "keys g' \<subseteq> keys ?g" "\<forall>n \<in> keys g'. \<exists>m \<in> keys g'. n \<in> set (froms ?g m)" by blast
    have "prune_loop q g = Inr g'" using Cons node g1(1) g'(1) by (simp add: froms_def)
    moreover have "\<exists>m \<in> keys g'. j \<in> set (froms g m)" if "j \<in> keys g'" for j
    proof -
      obtain m where "m \<in> keys g'" "j \<in> set (froms ?g m)" using g'(5) \<open>j \<in> keys g'\<close> by blast
      then have "froms ?g m = froms g m" using g'(4) by (intro fr) blast
      with \<open>m \<in> keys g'\<close> \<open>j \<in> set (froms ?g m)\<close> show ?thesis by (intro bexI [of _ m]) simp_all
    qed
    moreover have "keys g' \<subseteq> keys g" using g'(4) k by blast
    ultimately show ?thesis using g'(2,3) by (intro exI [of _ g']) simp
  qed
qed

lemma set_perm: "\<forall>xs. mset (perm xs) = mset xs \<Longrightarrow> set (perm xs) = set xs"
  by (metis mset_eq_setD)

lemma set_map_fst: "set (map fst g) = keys g"
  by (simp add: dom_map_of_conv_image_fst)

lemma fill_from_peel:
  assumes l: "labelled opt_of data_of g" and sub: "\<forall>m \<in> keys g. set (kids opt_of m) \<subseteq> keys g" and perm: "\<forall>xs. mset (perm xs) = mset xs"
  obtains g1 where "fill_from (perm (map fst g)) g = Inr g1" "keys g1 = keys g" "distinct (map fst g1)"
    "\<And>n m. n \<in> keys g \<Longrightarrow> m \<in> set (froms g1 n) \<longleftrightarrow> m \<in> keys g \<and> n \<in> set (kids opt_of m)"
    "peel_inv (froms g1) (keys g1) (outdeg g1) (nodes_with perm (\<lambda>node. outdegree node = 0) g1)"
proof -
  have node: "opt nd = opt_of n \<and> outdegree nd = 0 \<and> from_nodes nd = []" if "map_of g n = Some nd" for n nd
    using l that by (simp add: labelled_def in_rest_def)
  have d: "distinct (map fst g)" using l by (simp add: labelled_def)
  have pk: "distinct (perm (map fst g))" "set (perm (map fst g)) = keys g"
    using perm d by (metis mset_eq_imp_distinct_iff) (simp only: set_perm [OF perm] set_map_fst)
  have "\<forall>n node. map_of g n = Some node \<longrightarrow> opt node = opt_of n" using node by blast
  from fill_from_sim [OF pk(1) _ this sub] obtain g1 where g1: "fill_from (perm (map fst g)) g = Inr g1" "map fst g1 = map fst g"
    "\<forall>n. outdeg g1 n = outdeg g n + (if n \<in> keys g then int (length (kids opt_of n)) else 0)"
    "\<forall>n m. count_list (froms g1 n) m = count_list (froms g n) m + (if m \<in> keys g then count_list (kids opt_of m) n else 0)"
    by (simp only: pk(2)) auto
  have k1: "keys g1 = keys g" by (rule keys_cong [OF g1(2)])
  have d1: "distinct (map fst g1)" using d by (simp add: g1(2))
  have cnt: "count_list (froms g1 n) m = (if m \<in> keys g then count_list (kids opt_of m) n else 0)" if "n \<in> keys g" for n m
    using that g1(4) node by (auto simp: froms_def)
  have fr: "m \<in> set (froms g1 n) \<longleftrightarrow> m \<in> keys g \<and> n \<in> set (kids opt_of m)" if "n \<in> keys g" for n m
    using cnt [OF that, of m] count_list_0_iff [of "froms g1 n" m] count_list_0_iff [of "kids opt_of m" n] by (auto split: if_splits)
  have "outdeg g1 n = (\<Sum>m \<in> keys g. int (count_list (froms g1 m) n))" if "n \<in> keys g" for n
  proof -
    have "(\<Sum>m \<in> keys g. count_list (froms g1 m) n) = (\<Sum>m \<in> keys g. count_list (kids opt_of n) m)"
      using that by (intro sum.cong refl) (simp add: cnt)
    also have "\<dots> = length (kids opt_of n)" using sub that by (intro sum_count_set) (auto simp: finite_dom_map_of)
    finally have "int (length (kids opt_of n)) = (\<Sum>m \<in> keys g. int (count_list (froms g1 m) n))" by (metis of_nat_sum)
    moreover have "outdeg g1 n = int (length (kids opt_of n))" using that g1(3) node by (auto simp: outdeg_def)
    ultimately show ?thesis by simp
  qed
  moreover have "set (nodes_with perm (\<lambda>node. outdegree node = 0) g1) = {n \<in> keys g1. outdeg g1 n = 0}"
    by (auto simp: nodes_with_perm [OF perm d1] outdeg_def)
  ultimately have "peel_inv (froms g1) (keys g1) (outdeg g1) (nodes_with perm (\<lambda>node. outdegree node = 0) g1)"
    unfolding peel_inv_def k1 using nodes_with_perm(1) [OF perm d1] fr finite_dom_map_of by blast
  with that [OF g1(1) k1 d1 fr] show ?thesis by blast
qed

lemma locate_loop_result:
  assumes inv: "topo_inv opt_of data_of g []" and ne: "keys g \<noteq> {}" and perm: "\<forall>xs. mset (perm xs) = mset xs"
  shows "\<exists>names. locate_loop perm g = Inr names \<and> names \<noteq> [] \<and> (\<forall>n \<in> set names. \<exists>m \<in> set names. m \<in> set (kids opt_of n))"
proof -
  have l: "labelled opt_of data_of g" and p: "peel_inv (kids opt_of) (keys g) (indeg g) []"
    using inv by (simp_all add: topo_inv_def)
  have sub: "\<forall>m \<in> keys g. set (kids opt_of m) \<subseteq> keys g" using p by (simp add: peel_inv_def)
  obtain g1 where g1: "fill_from (perm (map fst g)) g = Inr g1" "keys g1 = keys g" "distinct (map fst g1)"
    and fr: "\<And>n m. n \<in> keys g \<Longrightarrow> m \<in> set (froms g1 n) \<longleftrightarrow> m \<in> keys g \<and> n \<in> set (kids opt_of m)"
    and pinv: "peel_inv (froms g1) (keys g1) (outdeg g1) (nodes_with perm (\<lambda>node. outdegree node = 0) g1)"
    by (rule fill_from_peel [OF l sub perm]) blast
  let ?E = "{(a, b). b \<in> set (kids opt_of a)}"
  have pc: "\<exists>m \<in> keys g. (m, n) \<in> ?E" if "n \<in> keys g" for n
    using peel_end [OF p that] by blast
  obtain C where C: "C \<subseteq> keys g" "C \<noteq> {}" "\<forall>n \<in> C. \<exists>m \<in> C. (n, m) \<in> ?E"
    by (rule pred_closed_cycle [OF finite_dom_map_of ne pc])
  have "\<exists>m \<in> C. n \<in> set (froms g1 m)" if "n \<in> C" for n
  proof -
    obtain m where m: "m \<in> C" "m \<in> set (kids opt_of n)" using C(3) \<open>n \<in> C\<close> by blast
    then have "n \<in> set (froms g1 m)" using fr [of m n] C(1) \<open>n \<in> C\<close> by blast
    with m(1) show ?thesis by blast
  qed
  from prune_loop_result [OF pinv g1(3) C(1) [folded g1(2)] this] obtain g2 where
    g2: "prune_loop (nodes_with perm (\<lambda>node. outdegree node = 0) g1) g1 = Inr g2" "C \<subseteq> keys g2" "keys g2 \<subseteq> keys g1"
      "\<forall>n \<in> keys g2. \<exists>m \<in> keys g2. n \<in> set (froms g1 m)" by blast
  have names: "set (perm (map fst g2)) = keys g2" by (simp only: set_perm [OF perm] set_map_fst)
  have "perm (map fst g2) \<noteq> []" using names g2(2) C(2) by (metis empty_set subset_empty)
  moreover have "\<exists>m \<in> keys g2. m \<in> set (kids opt_of n)" if "n \<in> keys g2" for n
  proof -
    obtain m where m: "m \<in> keys g2" "n \<in> set (froms g1 m)" using g2(4) \<open>n \<in> keys g2\<close> by blast
    then show ?thesis using fr [of m n] g2(3) g1(2) by blast
  qed
  ultimately show ?thesis by (simp add: locate_loop_def g1(1) g2(1) names)
qed

text \<open>What the order of processing means for the list that is filled from its end.\<close>

lemma ordered_nth:
  "ordered opt_of ds {} \<Longrightarrow> i < length ds \<Longrightarrow> p \<in> set (kids opt_of (rev ds ! i)) \<Longrightarrow> opt_of p \<noteq> None \<Longrightarrow>
   \<exists>j < i. rev ds ! j = p"
proof (induction ds arbitrary: i)
  case (Cons d ds)
  show ?case
  proof (cases "i < length ds")
    case True
    then obtain j where "j < i" "rev ds ! j = p" using Cons by (auto simp: nth_append)
    then show ?thesis using True by (intro exI [of _ j]) (simp add: nth_append)
  next
    case False
    then have i: "i = length ds" using Cons.prems(2) by simp
    then have "p \<in> set ds" using Cons.prems by (auto simp: nth_append)
    then obtain j where "j < length ds" "rev ds ! j = p" using in_set_conv_nth [of p "rev ds"] by auto
    then show ?thesis by (intro exI [of _ j]) (simp add: i nth_append)
  qed
qed simp

lemma topo_complete:
  assumes b: "built decode cfg g" and dist: "distinct (map (name_of decode) cfg)" and perm: "\<forall>xs. mset (perm xs) = mset xs"
    and t: "topo_loop 0 (nodes_with perm (\<lambda>node. indegree node = 0) g) g cfg = Inr ([], cfg')"
  shows "mset cfg' = mset cfg \<and>
    (\<forall>i < length cfg'. \<forall>p \<in> set (proxies_of decode (cfg' ! i)). p \<in> name_of decode ` set cfg \<longrightarrow> (\<exists>j < i. name_of decode (cfg' ! j) = p))"
proof -
  let ?o = "opt_in decode cfg" and ?d = "data_in decode cfg"
  have lab: "\<forall>k. ?o k = None \<longleftrightarrow> ?d k = None" by (simp add: opt_in_def)
  have gn: "group_names ?o g = set (map (name_of decode) cfg)"
    using b data_in_None [of decode cfg] by (auto simp: group_names_def built_def opt_in_def)
  then have "card (group_names ?o g) = length cfg" using distinct_card [OF dist] by simp
  then obtain g' ds where r: "topo_loop 0 (nodes_with perm (\<lambda>node. indegree node = 0) g) g cfg =
      Inr (g', take (length cfg - 0 - length ds) cfg @ map (the \<circ> ?d) (rev ds) @ drop (length cfg - 0) cfg)"
    "distinct ds" "set ds = group_names ?o g - keys g'" "ordered ?o ds (keys g')"
    using topo_loop_result [OF built_topo_inv [OF b dist perm] lab, of 0 cfg] by auto
  with t have g': "g' = []" by simp
  with r(3) gn have sd: "set ds = set (map (name_of decode) cfg)" by simp
  then have len: "length ds = length cfg" using distinct_card [OF dist] distinct_card [OF r(2)] by simp
  have cfg': "cfg' = map (the \<circ> ?d) (rev ds)" using t r(1) len by simp
  have nm: "name_of decode (the (?d n)) = n \<and> the (?d n) \<in> set cfg" if "n \<in> set ds" for n
  proof -
    from that sd have "?d n \<noteq> None" using data_in_None [of decode cfg n] by simp
    then obtain m where m: "?d n = Some m" by blast
    then show ?thesis using data_in_Some [OF dist, of n m] by simp
  qed
  have "mset ds = mset (map (name_of decode) cfg)" using set_eq_iff_mset_eq_distinct [OF r(2) dist] sd by blast
  then have "mset (map (the \<circ> ?d) ds) = mset (map (the \<circ> ?d) (map (name_of decode) cfg))" by (simp only: mset_map)
  also have "map (the \<circ> ?d) (map (name_of decode) cfg) = cfg"
  proof -
    have "the (?d (name_of decode m)) = m" if "m \<in> set cfg" for m
      using data_in_Some [OF dist, of "name_of decode m" m] that by simp
    then show ?thesis by (simp add: map_idI)
  qed
  finally have ms: "mset cfg' = mset cfg" by (simp add: cfg' comp_def)
  have "\<exists>j < i. name_of decode (cfg' ! j) = p"
    if i: "i < length cfg'" and p: "p \<in> set (proxies_of decode (cfg' ! i))" "p \<in> name_of decode ` set cfg" for i p
  proof -
    have il: "i < length ds" using i by (simp add: cfg')
    then have mem: "rev ds ! i \<in> set ds" using nth_mem [of i "rev ds"] by simp
    have "kids ?o (rev ds ! i) = proxies_of decode (cfg' ! i)"
      using kids_in [OF dist, of "the (?d (rev ds ! i))"] nm [OF mem] il by (simp add: cfg')
    moreover have "?o p \<noteq> None" using p(2) data_in_None [of decode cfg p] by (auto simp: opt_in_def)
    ultimately obtain j where j: "j < i" "rev ds ! j = p" using ordered_nth [of ?o ds i p] r(4) g' il p(1) by auto
    moreover have "rev ds ! j \<in> set ds" using j(1) il nth_mem [of j "rev ds"] by simp
    ultimately show ?thesis using nm il by (intro exI [of _ j]) (simp add: cfg')
  qed
  with ms show ?thesis by blast
qed

text \<open>
  C11: the sort of the proxy groups is right and complete. For every configuration whose groups can
  be decoded and have different names, and whatever order Go chooses when it ranges over the
  graph, the function does not panic and does one of two things: it rearranges the groups so that
  each one stands after all groups that it contains, or it reports names of groups each of which
  contains another of the reported ones, so that there really is a loop.
\<close>

theorem group_sort_correct:
  assumes perm: "\<forall>xs. mset (perm xs) = mset xs" and dec: "\<forall>m \<in> set cfg. decode m = Inr (option_of decode m)"
    and dist: "distinct (map (name_of decode) cfg)"
  shows "(\<exists>cfg'. proxyGroupsDagSort perm decode cfg = Inr (Inr cfg') \<and> mset cfg' = mset cfg \<and>
      (\<forall>i < length cfg'. \<forall>p \<in> set (proxies_of decode (cfg' ! i)). p \<in> name_of decode ` set cfg \<longrightarrow>
         (\<exists>j < i. name_of decode (cfg' ! j) = p))) \<or>
    (\<exists>names. proxyGroupsDagSort perm decode cfg = Inr (Inl (LoopDetected names)) \<and> names \<noteq> [] \<and>
      (\<forall>n \<in> set names. \<exists>m \<in> set cfg. name_of decode m = n \<and> (\<exists>p \<in> set names. p \<in> set (proxies_of decode m))))"
proof -
  let ?o = "opt_in decode cfg" and ?d = "data_in decode cfg"
  have "built decode [] []" by (simp add: built_def in_view_def edges_in_def data_in_def opt_in_def)
  from build_graph_built [OF this dec] dist obtain g where g: "build_graph decode cfg [] = Inr g" "built decode cfg g" by auto
  have lab: "\<forall>k. ?o k = None \<longleftrightarrow> ?d k = None" by (simp add: opt_in_def)
  have "group_names ?o g = set (map (name_of decode) cfg)"
    using g(2) data_in_None [of decode cfg] by (auto simp: group_names_def built_def opt_in_def)
  then have "card (group_names ?o g) = length cfg" using distinct_card [OF dist] by simp
  then obtain g1 cfg1 where t: "topo_loop 0 (nodes_with perm (\<lambda>node. indegree node = 0) g) g cfg = Inr (g1, cfg1)" "topo_inv ?o ?d g1 []"
    using topo_loop_result [OF built_topo_inv [OF g(2) dist perm] lab, of 0 cfg] by auto
  show ?thesis
  proof (cases "g1 = []")
    case True
    with topo_complete [OF g(2) dist perm] t(1) g(1) show ?thesis by (simp add: proxyGroupsDagSort_def)
  next
    case False
    then have "keys g1 \<noteq> {}" by (cases g1) auto
    from locate_loop_result [OF t(2) this perm] obtain names where names: "locate_loop perm g1 = Inr names" "names \<noteq> []"
      "\<forall>n \<in> set names. \<exists>m \<in> set names. m \<in> set (kids ?o n)" by blast
    have "\<exists>m \<in> set cfg. name_of decode m = n \<and> (\<exists>p \<in> set names. p \<in> set (proxies_of decode m))" if "n \<in> set names" for n
    proof -
      obtain p where p: "p \<in> set names" "p \<in> set (kids ?o n)" using names(3) \<open>n \<in> set names\<close> by blast
      then have "n \<in> name_of decode ` set cfg" using kids_none by fastforce
      then obtain m where "m \<in> set cfg" "name_of decode m = n" by blast
      then show ?thesis using p kids_in [OF dist, of m] by auto
    qed
    then show ?thesis using names(1,2) False t(1) g(1) by (simp add: proxyGroupsDagSort_def)
  qed
qed

definition demo_group :: "string \<times> string list \<Rightarrow> string + GroupCommonOption" where
  "demo_group c = Inr \<lparr>Name = fst c, GroupType = ''select'', GroupProxies = snd c, Use = [], GroupURL = [], Interval = 0, Lazy = True, DisableUDP = False\<rparr>"

lemma demo_sort: "proxyGroupsDagSort id demo_group [(''a'', [''b'']), (''b'', [''DIRECT''])] = Inr (Inr [(''b'', [''DIRECT'']), (''a'', [''b''])])"
  by code_simp

theorem group_sort_correct_witness:
  "\<exists>cfg'. proxyGroupsDagSort id demo_group [(''a'', [''b'']), (''b'', [''DIRECT''])] = Inr (Inr cfg') \<and>
     (\<forall>i < length cfg'. \<forall>p \<in> set (proxies_of demo_group (cfg' ! i)). p \<in> {''a'', ''b''} \<longrightarrow>
        (\<exists>j < i. name_of demo_group (cfg' ! j) = p))"
proof -
  have "name_of demo_group ` set [(''a'', [''b'']), (''b'', [''DIRECT''])] = {''a'', ''b''}"
    by (simp add: name_of_def option_of_def demo_group_def)
  moreover have "\<forall>m \<in> set [(''a'', [''b'']), (''b'', [''DIRECT''])]. demo_group m = Inr (option_of demo_group m)"
    "distinct (map (name_of demo_group) [(''a'', [''b'']), (''b'', [''DIRECT''])])"
    by (simp_all add: name_of_def option_of_def demo_group_def)
  ultimately show ?thesis
    using group_sort_correct [of id "[(''a'', [''b'']), (''b'', [''DIRECT''])]" demo_group] by (simp add: demo_sort)
qed

end
