(* ===== verification/Proxy_Options.thy ===== *)
theory Proxy_Options
  imports Structure Group_Sort
begin

text \<open>
  The option structs that the decoder of \<open>common/structure\<close> fills: the options of the outbound proxies
  (\<open>adapter/outbound\<close>), of a proxy group (\<open>adapter/outboundgroup/parser.go\<close>) and of a provider
  (\<open>adapter/provider/parser.go\<close>). Each is a record, the list of its fields as reflection sees it, and
  the way from one to the other. The locale \<open>option_struct\<close> says that this is the same struct.
\<close>

section \<open>Reading a reflected struct\<close>

fun vstr :: "gval \<Rightarrow> string" where
  "vstr (VString s) = s"
| "vstr _ = []"

fun vint :: "gval \<Rightarrow> int" where
  "vint (VInt i) = i"
| "vint _ = 0"

fun vbool :: "gval \<Rightarrow> bool" where
  "vbool (VBool b) = b"
| "vbool _ = False"

fun vlist :: "gval \<Rightarrow> gval list" where
  "vlist (VSlice vs) = vs"
| "vlist _ = []"

fun ventries :: "gval \<Rightarrow> (gval \<times> gval) list option" where
  "ventries (VMap m) = m"
| "ventries _ = None"

fun vfield :: "gval \<Rightarrow> nat \<Rightarrow> gval" where
  "vfield (VStruct vs) i = vs ! i"
| "vfield _ i = VOther"

abbreviation vstrs :: "gval \<Rightarrow> string list" where
  "vstrs v \<equiv> map vstr (vlist v)"

abbreviation of_strs :: "string list \<Rightarrow> gval" where
  "of_strs ss \<equiv> VSlice (map VString ss)"

definition vstr_map :: "gval \<Rightarrow> (string \<times> string) list option" where
  "vstr_map v = map_option (map (map_prod vstr vstr)) (ventries v)"

definition of_str_map :: "(string \<times> string) list option \<Rightarrow> gval" where
  "of_str_map m = VMap (map_option (map (map_prod VString VString)) m)"

definition vstrs_map :: "gval \<Rightarrow> (string \<times> string list) list option" where
  "vstrs_map v = map_option (map (map_prod vstr vstrs)) (ventries v)"

definition of_strs_map :: "(string \<times> string list) list option \<Rightarrow> gval" where
  "of_strs_map m = VMap (map_option (map (map_prod VString of_strs)) m)"

lemma has_type_basic:
  "has_type TString v \<longleftrightarrow> v = VString (vstr v)"
  "has_type TInt v \<longleftrightarrow> v = VInt (vint v)"
  "has_type TBool v \<longleftrightarrow> v = VBool (vbool v)"
  by (cases v; simp)+

lemma vstr_comp [simp]: "vstr \<circ> VString = id" "(\<lambda>v. vstr (VString v)) = id"
  by (simp_all add: fun_eq_iff)

lemma map_fixed_iff: "xs = map f xs \<longleftrightarrow> (\<forall>x \<in> set xs. x = f x)"
  by (induction xs) auto

lemma has_type_strs: "has_type (TSlice TString) v \<longleftrightarrow> v = of_strs (vstrs v)"
  by (cases v) (simp_all add: map_fixed_iff has_type_basic(1) [symmetric] comp_def)

lemma has_type_str_map: "has_type (TMap TString TString) v \<longleftrightarrow> v = of_str_map (vstr_map v)"
proof (cases v)
  case (VMap m)
  then show ?thesis
    by (cases m) (simp_all add: of_str_map_def vstr_map_def map_fixed_iff has_type_basic(1) [symmetric] comp_def split_beta prod_eq_iff)
qed (simp_all add: of_str_map_def)

lemma has_type_strs_map: "has_type (TMap TString (TSlice TString)) v \<longleftrightarrow> v = of_strs_map (vstrs_map v)"
proof (cases v)
  case (VMap m)
  then show ?thesis
    by (cases m) (simp_all add: of_strs_map_def vstrs_map_def map_fixed_iff has_type_basic(1) [symmetric] has_type_strs [symmetric] comp_def split_beta prod_eq_iff
        del: has_type.simps(4), simp add: has_type_strs comp_def)
qed (simp_all add: of_strs_map_def)

lemma str_map_inverse [simp]: "vstr_map (of_str_map m) = m" "vstrs_map (of_strs_map n) = n"
  by (cases m; cases n; simp add: vstr_map_def of_str_map_def vstrs_map_def of_strs_map_def comp_def prod.map_comp split_beta)+

section \<open>Decoding into options\<close>

type_synonym gfields = "(string \<times> string \<times> gtype) list"

definition decode_option :: "gfields \<Rightarrow> ('o \<Rightarrow> gval) \<Rightarrow> (gval \<Rightarrow> 'o) \<Rightarrow> (string \<rightharpoonup> gdata) \<Rightarrow> 'o \<Rightarrow> panic + decode_error + 'o" where
  "decode_option fs to_val of_val src dflt = map_sum id (map_sum id of_val) (Decode True src fs (to_val dflt))"

definition nil_free_map :: "(string \<rightharpoonup> gdata) \<Rightarrow> bool" where
  "nil_free_map src \<longleftrightarrow> (\<forall>k d. src k = Some d \<longrightarrow> d = DNil \<or> nil_free d)"

lemma Decode_struct:
  assumes "has_type (TStruct fs) v" "Decode weak src fs v = Inr (Inr w)"
  shows "has_type (TStruct fs) w \<and> (\<forall>i < length fs. let str = SplitN2 (CHR '','') (fst (snd (fs ! i)))
     in src (hd str) \<in> {None, Some DNil} \<longrightarrow> tl str = [''omitempty''] \<and> vfield w i = vfield v i)"
proof -
  obtain vs where v: "v = VStruct vs" using assms(1) by (cases v) simp_all
  have vs: "list_all2 (\<lambda>(_, _, t) v. has_type t v) fs vs" using assms(1) v by simp
  obtain xs where xs: "Decode_fields weak src fs vs = Inr (Inr xs)" "w = VStruct xs" using assms(2) v by (auto simp: Decode_def split: sum.splits)
  show ?thesis using Decode_fields_spec [OF vs xs(1)] unfolding v xs(2) by simp
qed

locale option_struct =
  fixes fs :: gfields
    and to_val :: "'o \<Rightarrow> gval"
    and of_val :: "gval \<Rightarrow> 'o"
  assumes to_val_type: "has_type (TStruct fs) (to_val op)"
    and of_to: "of_val (to_val op) = op"
    and to_of: "has_type (TStruct fs) v \<Longrightarrow> to_val (of_val v) = v"
begin

lemma option_no_panic: "nil_free_map src \<Longrightarrow> \<exists>r. decode_option fs to_val of_val src dflt = Inr r"
proof -
  assume "nil_free_map src"
  moreover obtain vs where "to_val dflt = VStruct vs" using to_val_type [of dflt] by (cases "to_val dflt") simp_all
  ultimately show ?thesis using Decode_fields_no_panic [of src True fs vs]
    by (auto simp: decode_option_def Decode_def nil_free_map_def split: sum.splits)
qed

lemma decode_keeps_default:
  assumes "decode_option fs to_val of_val src dflt = Inr (Inr r)" "i < length fs" "SplitN2 (CHR '','') (fst (snd (fs ! i))) = k # opts"
    and "src k \<in> {None, Some DNil}"
  shows "opts = [''omitempty''] \<and> vfield (to_val r) i = vfield (to_val dflt) i"
proof -
  obtain w where w: "Decode True src fs (to_val dflt) = Inr (Inr w)" "r = of_val w"
    using assms(1) by (auto simp: decode_option_def map_sum_def split: sum.splits)
  from Decode_struct [OF to_val_type w(1)] have "has_type (TStruct fs) w" "tl (k # opts) = [''omitempty''] \<and> vfield w i = vfield (to_val dflt) i"
    using assms(2-4) by (auto simp: Let_def)
  then show ?thesis using to_of w(2) by simp
qed

end

section \<open>The structs\<close>

lemma struct_fields:
  "has_type (TStruct fs) v \<Longrightarrow> \<exists>vs. v = VStruct vs \<and> list_all2 (\<lambda>(_, _, t) v. has_type t v) fs vs"
  by (cases v) simp_all

record Socks5Option =
  s5_Name :: string
  s5_Server :: string
  s5_Port :: int
  s5_UserName :: string
  s5_Password :: string
  s5_TLS :: bool
  s5_UDP :: bool
  s5_SkipCertVerify :: bool

definition Socks5Option_fields :: gfields where
  "Socks5Option_fields =
     [(''Name'', ''name'', TString), (''Server'', ''server'', TString), (''Port'', ''port'', TInt),
      (''UserName'', ''username,omitempty'', TString), (''Password'', ''password,omitempty'', TString),
      (''TLS'', ''tls,omitempty'', TBool), (''UDP'', ''udp,omitempty'', TBool),
      (''SkipCertVerify'', ''skip-cert-verify,omitempty'', TBool)]"

definition of_Socks5Option :: "Socks5Option \<Rightarrow> gval" where
  "of_Socks5Option p =
     VStruct [VString (s5_Name p), VString (s5_Server p), VInt (s5_Port p), VString (s5_UserName p), VString (s5_Password p),
       VBool (s5_TLS p), VBool (s5_UDP p), VBool (s5_SkipCertVerify p)]"

definition to_Socks5Option :: "gval \<Rightarrow> Socks5Option" where
  "to_Socks5Option v =
     \<lparr>s5_Name = vstr (vfield v 0), s5_Server = vstr (vfield v 1), s5_Port = vint (vfield v 2),
      s5_UserName = vstr (vfield v 3), s5_Password = vstr (vfield v 4), s5_TLS = vbool (vfield v 5),
      s5_UDP = vbool (vfield v 6), s5_SkipCertVerify = vbool (vfield v 7)\<rparr>"

interpretation socks5Option_struct: option_struct Socks5Option_fields of_Socks5Option to_Socks5Option
proof
  fix v
  assume "has_type (TStruct Socks5Option_fields) v"
  from struct_fields [OF this] show "of_Socks5Option (to_Socks5Option v) = v"
    unfolding Socks5Option_fields_def list_all2_Cons1 prod.case has_type_basic of_Socks5Option_def to_Socks5Option_def by (elim exE conjE) simp
qed (simp_all add: Socks5Option_fields_def of_Socks5Option_def to_Socks5Option_def)

record HttpOption =
  ht_Name :: string
  ht_Server :: string
  ht_Port :: int
  ht_UserName :: string
  ht_Password :: string
  ht_TLS :: bool
  ht_SNI :: string
  ht_SkipCertVerify :: bool

definition HttpOption_fields :: gfields where
  "HttpOption_fields =
     [(''Name'', ''name'', TString), (''Server'', ''server'', TString), (''Port'', ''port'', TInt),
      (''UserName'', ''username,omitempty'', TString), (''Password'', ''password,omitempty'', TString),
      (''TLS'', ''tls,omitempty'', TBool), (''SNI'', ''sni,omitempty'', TString),
      (''SkipCertVerify'', ''skip-cert-verify,omitempty'', TBool)]"

definition of_HttpOption :: "HttpOption \<Rightarrow> gval" where
  "of_HttpOption p =
     VStruct [VString (ht_Name p), VString (ht_Server p), VInt (ht_Port p), VString (ht_UserName p), VString (ht_Password p),
       VBool (ht_TLS p), VString (ht_SNI p), VBool (ht_SkipCertVerify p)]"

definition to_HttpOption :: "gval \<Rightarrow> HttpOption" where
  "to_HttpOption v =
     \<lparr>ht_Name = vstr (vfield v 0), ht_Server = vstr (vfield v 1), ht_Port = vint (vfield v 2),
      ht_UserName = vstr (vfield v 3), ht_Password = vstr (vfield v 4), ht_TLS = vbool (vfield v 5),
      ht_SNI = vstr (vfield v 6), ht_SkipCertVerify = vbool (vfield v 7)\<rparr>"

interpretation httpOption_struct: option_struct HttpOption_fields of_HttpOption to_HttpOption
proof
  fix v
  assume "has_type (TStruct HttpOption_fields) v"
  from struct_fields [OF this] show "of_HttpOption (to_HttpOption v) = v"
    unfolding HttpOption_fields_def list_all2_Cons1 prod.case has_type_basic of_HttpOption_def to_HttpOption_def by (elim exE conjE) simp
qed (simp_all add: HttpOption_fields_def of_HttpOption_def to_HttpOption_def)

record ReDirectOption =
  rd_Name :: string
  rd_Server :: string
  rd_Port :: int

definition ReDirectOption_fields :: gfields where
  "ReDirectOption_fields =
     [(''Name'', ''name'', TString), (''Server'', ''server'', TString), (''Port'', ''port'', TInt)]"

definition of_ReDirectOption :: "ReDirectOption \<Rightarrow> gval" where
  "of_ReDirectOption p =
     VStruct [VString (rd_Name p), VString (rd_Server p), VInt (rd_Port p)]"

definition to_ReDirectOption :: "gval \<Rightarrow> ReDirectOption" where
  "to_ReDirectOption v =
     \<lparr>rd_Name = vstr (vfield v 0), rd_Server = vstr (vfield v 1), rd_Port = vint (vfield v 2)\<rparr>"

interpretation reDirectOption_struct: option_struct ReDirectOption_fields of_ReDirectOption to_ReDirectOption
proof
  fix v
  assume "has_type (TStruct ReDirectOption_fields) v"
  from struct_fields [OF this] show "of_ReDirectOption (to_ReDirectOption v) = v"
    unfolding ReDirectOption_fields_def list_all2_Cons1 prod.case has_type_basic of_ReDirectOption_def to_ReDirectOption_def by (elim exE conjE) simp
qed (simp_all add: ReDirectOption_fields_def of_ReDirectOption_def to_ReDirectOption_def)

record GrpcOptions =
  grpc_GrpcServiceName :: string

definition GrpcOptions_fields :: gfields where
  "GrpcOptions_fields =
     [(''GrpcServiceName'', ''grpc-service-name,omitempty'', TString)]"

definition of_GrpcOptions :: "GrpcOptions \<Rightarrow> gval" where
  "of_GrpcOptions p =
     VStruct [VString (grpc_GrpcServiceName p)]"

definition to_GrpcOptions :: "gval \<Rightarrow> GrpcOptions" where
  "to_GrpcOptions v =
     \<lparr>grpc_GrpcServiceName = vstr (vfield v 0)\<rparr>"

interpretation grpcOptions_struct: option_struct GrpcOptions_fields of_GrpcOptions to_GrpcOptions
proof
  fix v
  assume "has_type (TStruct GrpcOptions_fields) v"
  from struct_fields [OF this] show "of_GrpcOptions (to_GrpcOptions v) = v"
    unfolding GrpcOptions_fields_def list_all2_Cons1 prod.case has_type_basic of_GrpcOptions_def to_GrpcOptions_def by (elim exE conjE) simp
qed (simp_all add: GrpcOptions_fields_def of_GrpcOptions_def to_GrpcOptions_def)

record TrojanOption =
  tr_Name :: string
  tr_Server :: string
  tr_Port :: int
  tr_Password :: string
  tr_ALPN :: "string list"
  tr_SNI :: string
  tr_SkipCertVerify :: bool
  tr_UDP :: bool
  tr_Network :: string
  tr_GrpcOpts :: GrpcOptions

definition TrojanOption_fields :: gfields where
  "TrojanOption_fields =
     [(''Name'', ''name'', TString), (''Server'', ''server'', TString), (''Port'', ''port'', TInt),
      (''Password'', ''password'', TString), (''ALPN'', ''alpn,omitempty'', TSlice TString),
      (''SNI'', ''sni,omitempty'', TString), (''SkipCertVerify'', ''skip-cert-verify,omitempty'', TBool),
      (''UDP'', ''udp,omitempty'', TBool), (''Network'', ''network,omitempty'', TString),
      (''GrpcOpts'', ''grpc-opts,omitempty'', TStruct GrpcOptions_fields)]"

definition of_TrojanOption :: "TrojanOption \<Rightarrow> gval" where
  "of_TrojanOption p =
     VStruct [VString (tr_Name p), VString (tr_Server p), VInt (tr_Port p), VString (tr_Password p), of_strs (tr_ALPN p),
       VString (tr_SNI p), VBool (tr_SkipCertVerify p), VBool (tr_UDP p), VString (tr_Network p),
       of_GrpcOptions (tr_GrpcOpts p)]"

definition to_TrojanOption :: "gval \<Rightarrow> TrojanOption" where
  "to_TrojanOption v =
     \<lparr>tr_Name = vstr (vfield v 0), tr_Server = vstr (vfield v 1), tr_Port = vint (vfield v 2),
      tr_Password = vstr (vfield v 3), tr_ALPN = vstrs (vfield v 4), tr_SNI = vstr (vfield v 5),
      tr_SkipCertVerify = vbool (vfield v 6), tr_UDP = vbool (vfield v 7), tr_Network = vstr (vfield v 8),
      tr_GrpcOpts = to_GrpcOptions (vfield v 9)\<rparr>"

interpretation trojanOption_struct: option_struct TrojanOption_fields of_TrojanOption to_TrojanOption
proof
  fix v
  assume "has_type (TStruct TrojanOption_fields) v"
  from struct_fields [OF this] show "of_TrojanOption (to_TrojanOption v) = v"
    unfolding TrojanOption_fields_def list_all2_Cons1 prod.case has_type_basic has_type_strs of_TrojanOption_def to_TrojanOption_def by (elim exE conjE) (simp add: grpcOptions_struct.to_of)
qed (simp_all add: TrojanOption_fields_def of_TrojanOption_def to_TrojanOption_def grpcOptions_struct.to_val_type grpcOptions_struct.of_to has_type_strs comp_def)

record HTTPOptions =
  ho_Method :: string
  ho_Path :: "string list"
  ho_Headers :: "(string \<times> string list) list option"

definition HTTPOptions_fields :: gfields where
  "HTTPOptions_fields =
     [(''Method'', ''method,omitempty'', TString), (''Path'', ''path,omitempty'', TSlice TString),
      (''Headers'', ''headers,omitempty'', TMap TString (TSlice TString))]"

definition of_HTTPOptions :: "HTTPOptions \<Rightarrow> gval" where
  "of_HTTPOptions p =
     VStruct [VString (ho_Method p), of_strs (ho_Path p), of_strs_map (ho_Headers p)]"

definition to_HTTPOptions :: "gval \<Rightarrow> HTTPOptions" where
  "to_HTTPOptions v =
     \<lparr>ho_Method = vstr (vfield v 0), ho_Path = vstrs (vfield v 1), ho_Headers = vstrs_map (vfield v 2)\<rparr>"

interpretation hTTPOptions_struct: option_struct HTTPOptions_fields of_HTTPOptions to_HTTPOptions
proof
  fix v
  assume "has_type (TStruct HTTPOptions_fields) v"
  from struct_fields [OF this] show "of_HTTPOptions (to_HTTPOptions v) = v"
    unfolding HTTPOptions_fields_def list_all2_Cons1 prod.case has_type_basic has_type_strs has_type_strs_map of_HTTPOptions_def to_HTTPOptions_def by (elim exE conjE) simp
qed (simp_all add: HTTPOptions_fields_def of_HTTPOptions_def to_HTTPOptions_def has_type_strs has_type_strs_map comp_def)

record HTTP2Options =
  h2_Host :: "string list"
  h2_Path :: string

definition HTTP2Options_fields :: gfields where
  "HTTP2Options_fields =
     [(''Host'', ''host,omitempty'', TSlice TString), (''Path'', ''path,omitempty'', TString)]"

definition of_HTTP2Options :: "HTTP2Options \<Rightarrow> gval" where
  "of_HTTP2Options p =
     VStruct [of_strs (h2_Host p), VString (h2_Path p)]"

definition to_HTTP2Options :: "gval \<Rightarrow> HTTP2Options" where
  "to_HTTP2Options v =
     \<lparr>h2_Host = vstrs (vfield v 0), h2_Path = vstr (vfield v 1)\<rparr>"

interpretation hTTP2Options_struct: option_struct HTTP2Options_fields of_HTTP2Options to_HTTP2Options
proof
  fix v
  assume "has_type (TStruct HTTP2Options_fields) v"
  from struct_fields [OF this] show "of_HTTP2Options (to_HTTP2Options v) = v"
    unfolding HTTP2Options_fields_def list_all2_Cons1 prod.case has_type_basic has_type_strs of_HTTP2Options_def to_HTTP2Options_def by (elim exE conjE) simp
qed (simp_all add: HTTP2Options_fields_def of_HTTP2Options_def to_HTTP2Options_def has_type_strs comp_def)

record WSOptions =
  ws_Path :: string
  ws_Headers :: "(string \<times> string) list option"
  ws_MaxEarlyData :: int
  ws_EarlyDataHeaderName :: string

definition WSOptions_fields :: gfields where
  "WSOptions_fields =
     [(''Path'', ''path,omitempty'', TString), (''Headers'', ''headers,omitempty'', TMap TString TString),
      (''MaxEarlyData'', ''max-early-data,omitempty'', TInt),
      (''EarlyDataHeaderName'', ''early-data-header-name,omitempty'', TString)]"

definition of_WSOptions :: "WSOptions \<Rightarrow> gval" where
  "of_WSOptions p =
     VStruct [VString (ws_Path p), of_str_map (ws_Headers p), VInt (ws_MaxEarlyData p), VString (ws_EarlyDataHeaderName p)]"

definition to_WSOptions :: "gval \<Rightarrow> WSOptions" where
  "to_WSOptions v =
     \<lparr>ws_Path = vstr (vfield v 0), ws_Headers = vstr_map (vfield v 1), ws_MaxEarlyData = vint (vfield v 2),
      ws_EarlyDataHeaderName = vstr (vfield v 3)\<rparr>"

interpretation wSOptions_struct: option_struct WSOptions_fields of_WSOptions to_WSOptions
proof
  fix v
  assume "has_type (TStruct WSOptions_fields) v"
  from struct_fields [OF this] show "of_WSOptions (to_WSOptions v) = v"
    unfolding WSOptions_fields_def list_all2_Cons1 prod.case has_type_basic has_type_str_map of_WSOptions_def to_WSOptions_def by (elim exE conjE) simp
qed (simp_all add: WSOptions_fields_def of_WSOptions_def to_WSOptions_def has_type_str_map comp_def)

record VmessOption =
  vm_Name :: string
  vm_Server :: string
  vm_Port :: int
  vm_UUID :: string
  vm_AlterID :: int
  vm_Cipher :: string
  vm_TLS :: bool
  vm_UDP :: bool
  vm_Network :: string
  vm_HTTPOpts :: HTTPOptions
  vm_HTTP2Opts :: HTTP2Options
  vm_GrpcOpts :: GrpcOptions
  vm_WSOpts :: WSOptions
  vm_WSPath :: string
  vm_WSHeaders :: "(string \<times> string) list option"
  vm_SkipCertVerify :: bool
  vm_ServerName :: string

definition VmessOption_fields :: gfields where
  "VmessOption_fields =
     [(''Name'', ''name'', TString), (''Server'', ''server'', TString), (''Port'', ''port'', TInt),
      (''UUID'', ''uuid'', TString), (''AlterID'', ''alterId'', TInt), (''Cipher'', ''cipher'', TString),
      (''TLS'', ''tls,omitempty'', TBool), (''UDP'', ''udp,omitempty'', TBool),
      (''Network'', ''network,omitempty'', TString), (''HTTPOpts'', ''http-opts,omitempty'', TStruct HTTPOptions_fields),
      (''HTTP2Opts'', ''h2-opts,omitempty'', TStruct HTTP2Options_fields),
      (''GrpcOpts'', ''grpc-opts,omitempty'', TStruct GrpcOptions_fields),
      (''WSOpts'', ''ws-opts,omitempty'', TStruct WSOptions_fields), (''WSPath'', ''ws-path,omitempty'', TString),
      (''WSHeaders'', ''ws-headers,omitempty'', TMap TString TString),
      (''SkipCertVerify'', ''skip-cert-verify,omitempty'', TBool), (''ServerName'', ''servername,omitempty'', TString)]"

definition of_VmessOption :: "VmessOption \<Rightarrow> gval" where
  "of_VmessOption p =
     VStruct [VString (vm_Name p), VString (vm_Server p), VInt (vm_Port p), VString (vm_UUID p), VInt (vm_AlterID p),
       VString (vm_Cipher p), VBool (vm_TLS p), VBool (vm_UDP p), VString (vm_Network p), of_HTTPOptions (vm_HTTPOpts p),
       of_HTTP2Options (vm_HTTP2Opts p), of_GrpcOptions (vm_GrpcOpts p), of_WSOptions (vm_WSOpts p), VString (vm_WSPath p),
       of_str_map (vm_WSHeaders p), VBool (vm_SkipCertVerify p), VString (vm_ServerName p)]"

definition to_VmessOption :: "gval \<Rightarrow> VmessOption" where
  "to_VmessOption v =
     \<lparr>vm_Name = vstr (vfield v 0), vm_Server = vstr (vfield v 1), vm_Port = vint (vfield v 2), vm_UUID = vstr (vfield v 3),
      vm_AlterID = vint (vfield v 4), vm_Cipher = vstr (vfield v 5), vm_TLS = vbool (vfield v 6),
      vm_UDP = vbool (vfield v 7), vm_Network = vstr (vfield v 8), vm_HTTPOpts = to_HTTPOptions (vfield v 9),
      vm_HTTP2Opts = to_HTTP2Options (vfield v 10), vm_GrpcOpts = to_GrpcOptions (vfield v 11),
      vm_WSOpts = to_WSOptions (vfield v 12), vm_WSPath = vstr (vfield v 13), vm_WSHeaders = vstr_map (vfield v 14),
      vm_SkipCertVerify = vbool (vfield v 15), vm_ServerName = vstr (vfield v 16)\<rparr>"

interpretation vmessOption_struct: option_struct VmessOption_fields of_VmessOption to_VmessOption
proof
  fix v
  assume "has_type (TStruct VmessOption_fields) v"
  from struct_fields [OF this] show "of_VmessOption (to_VmessOption v) = v"
    unfolding VmessOption_fields_def list_all2_Cons1 prod.case has_type_basic has_type_str_map of_VmessOption_def to_VmessOption_def by (elim exE conjE) (simp add: grpcOptions_struct.to_of wSOptions_struct.to_of hTTPOptions_struct.to_of hTTP2Options_struct.to_of)
qed (simp_all add: VmessOption_fields_def of_VmessOption_def to_VmessOption_def grpcOptions_struct.to_val_type grpcOptions_struct.of_to wSOptions_struct.to_val_type wSOptions_struct.of_to hTTPOptions_struct.to_val_type hTTPOptions_struct.of_to hTTP2Options_struct.to_val_type hTTP2Options_struct.of_to has_type_str_map comp_def)

record HealthCheckSchema =
  hcs_Enable :: bool
  hcs_URL :: string
  hcs_Interval :: int
  hcs_Lazy :: bool

definition HealthCheckSchema_fields :: gfields where
  "HealthCheckSchema_fields =
     [(''Enable'', ''enable'', TBool), (''URL'', ''url'', TString), (''Interval'', ''interval'', TInt),
      (''Lazy'', ''lazy,omitempty'', TBool)]"

definition of_HealthCheckSchema :: "HealthCheckSchema \<Rightarrow> gval" where
  "of_HealthCheckSchema p =
     VStruct [VBool (hcs_Enable p), VString (hcs_URL p), VInt (hcs_Interval p), VBool (hcs_Lazy p)]"

definition to_HealthCheckSchema :: "gval \<Rightarrow> HealthCheckSchema" where
  "to_HealthCheckSchema v =
     \<lparr>hcs_Enable = vbool (vfield v 0), hcs_URL = vstr (vfield v 1), hcs_Interval = vint (vfield v 2),
      hcs_Lazy = vbool (vfield v 3)\<rparr>"

interpretation healthCheckSchema_struct: option_struct HealthCheckSchema_fields of_HealthCheckSchema to_HealthCheckSchema
proof
  fix v
  assume "has_type (TStruct HealthCheckSchema_fields) v"
  from struct_fields [OF this] show "of_HealthCheckSchema (to_HealthCheckSchema v) = v"
    unfolding HealthCheckSchema_fields_def list_all2_Cons1 prod.case has_type_basic of_HealthCheckSchema_def to_HealthCheckSchema_def by (elim exE conjE) simp
qed (simp_all add: HealthCheckSchema_fields_def of_HealthCheckSchema_def to_HealthCheckSchema_def)

record ProxyProviderSchema =
  pps_Type :: string
  pps_Path :: string
  pps_URL :: string
  pps_Interval :: int
  pps_HealthCheck :: HealthCheckSchema

definition ProxyProviderSchema_fields :: gfields where
  "ProxyProviderSchema_fields =
     [(''Type'', ''type'', TString), (''Path'', ''path'', TString), (''URL'', ''url,omitempty'', TString),
      (''Interval'', ''interval,omitempty'', TInt),
      (''HealthCheck'', ''health-check,omitempty'', TStruct HealthCheckSchema_fields)]"

definition of_ProxyProviderSchema :: "ProxyProviderSchema \<Rightarrow> gval" where
  "of_ProxyProviderSchema p =
     VStruct [VString (pps_Type p), VString (pps_Path p), VString (pps_URL p), VInt (pps_Interval p),
       of_HealthCheckSchema (pps_HealthCheck p)]"

definition to_ProxyProviderSchema :: "gval \<Rightarrow> ProxyProviderSchema" where
  "to_ProxyProviderSchema v =
     \<lparr>pps_Type = vstr (vfield v 0), pps_Path = vstr (vfield v 1), pps_URL = vstr (vfield v 2),
      pps_Interval = vint (vfield v 3), pps_HealthCheck = to_HealthCheckSchema (vfield v 4)\<rparr>"

interpretation proxyProviderSchema_struct: option_struct ProxyProviderSchema_fields of_ProxyProviderSchema to_ProxyProviderSchema
proof
  fix v
  assume "has_type (TStruct ProxyProviderSchema_fields) v"
  from struct_fields [OF this] show "of_ProxyProviderSchema (to_ProxyProviderSchema v) = v"
    unfolding ProxyProviderSchema_fields_def list_all2_Cons1 prod.case has_type_basic of_ProxyProviderSchema_def to_ProxyProviderSchema_def by (elim exE conjE) (simp add: healthCheckSchema_struct.to_of)
qed (simp_all add: ProxyProviderSchema_fields_def of_ProxyProviderSchema_def to_ProxyProviderSchema_def healthCheckSchema_struct.to_val_type healthCheckSchema_struct.of_to)

definition GroupCommonOption_fields :: gfields where
  "GroupCommonOption_fields =
     [(''Name'', ''name'', TString), (''Type'', ''type'', TString), (''Proxies'', ''proxies,omitempty'', TSlice TString),
      (''Use'', ''use,omitempty'', TSlice TString), (''URL'', ''url,omitempty'', TString), (''Interval'', ''interval,omitempty'', TInt),
      (''Lazy'', ''lazy,omitempty'', TBool), (''DisableUDP'', ''disable-udp,omitempty'', TBool)]"

definition of_GroupCommonOption :: "GroupCommonOption \<Rightarrow> gval" where
  "of_GroupCommonOption p =
     VStruct [VString (Name p), VString (GroupType p), of_strs (GroupProxies p), of_strs (Use p), VString (GroupURL p), VInt (Interval p),
       VBool (Lazy p), VBool (DisableUDP p)]"

definition to_GroupCommonOption :: "gval \<Rightarrow> GroupCommonOption" where
  "to_GroupCommonOption v =
     \<lparr>Name = vstr (vfield v 0), GroupType = vstr (vfield v 1), GroupProxies = vstrs (vfield v 2), Use = vstrs (vfield v 3),
      GroupURL = vstr (vfield v 4), Interval = vint (vfield v 5), Lazy = vbool (vfield v 6), DisableUDP = vbool (vfield v 7)\<rparr>"

interpretation groupCommonOption_struct: option_struct GroupCommonOption_fields of_GroupCommonOption to_GroupCommonOption
proof
  fix v
  assume "has_type (TStruct GroupCommonOption_fields) v"
  from struct_fields [OF this] show "of_GroupCommonOption (to_GroupCommonOption v) = v"
    unfolding GroupCommonOption_fields_def list_all2_Cons1 prod.case has_type_basic has_type_strs of_GroupCommonOption_def to_GroupCommonOption_def by (elim exE conjE) simp
qed (simp_all add: GroupCommonOption_fields_def of_GroupCommonOption_def to_GroupCommonOption_def has_type_strs comp_def)

end
