(* ===== verification/Trojan.thy ===== *)
theory Trojan
  imports Socks5 Go_Stream
begin

text \<open>
  \<open>transport/trojan/trojan.go\<close>: the header of a Trojan request and the framing of UDP packets in its
  stream. The hash of the password is an argument; buffers of the pool do not appear.
\<close>

definition maxLength :: nat where "maxLength = 8192"
definition crlf :: "byte list" where "crlf = [13, 10]"
definition defaultALPN :: "string list" where "defaultALPN = [''h2'', ''http/1.1'']"
definition CommandTCP :: byte where "CommandTCP = 1"
definition CommandUDP :: byte where "CommandUDP = 3"

datatype trojan_error = TrojanIO io_error | ErrReadAddr | ErrReadLength | ErrPacketInvalid | ErrReadCrlf | ErrReadPacket

record tls_Config =
  NextProtos :: "string list"
  MinVersion :: nat
  InsecureSkipVerify :: bool
  ServerName :: string

record trojan_Option =
  t_Password :: string
  t_ALPN :: "string list"
  t_ServerName :: string
  t_SkipCertVerify :: bool

record Trojan =
  t_option :: trojan_Option
  hexPassword :: "byte list"

section \<open>The request\<close>

definition hex_digit :: "nat \<Rightarrow> byte" where
  "hex_digit d = of_nat (if d < 10 then 48 + d else 87 + d)"

definition hex_Encode :: "byte list \<Rightarrow> byte list" where
  "hex_Encode bs = concat (map (\<lambda>b. [hex_digit (unat b div 16), hex_digit (unat b mod 16)]) bs)"

text \<open>The buffer has 56 bytes, two for each byte of the hash.\<close>

definition hexSha224 :: "(byte list \<Rightarrow> byte list) \<Rightarrow> byte list \<Rightarrow> byte list" where
  "hexSha224 sha224 data = hex_Encode (sha224 data)"

definition trojan_New :: "(byte list \<Rightarrow> byte list) \<Rightarrow> trojan_Option \<Rightarrow> Trojan" where
  "trojan_New sha224 op = \<lparr>t_option = op, hexPassword = hexSha224 sha224 (string_to_bytes (t_Password op))\<rparr>"

definition VersionTLS12 :: nat where "VersionTLS12 = 771"

text \<open>The configuration with which \<open>StreamConn\<close> starts TLS.\<close>

definition trojan_tlsConfig :: "Trojan \<Rightarrow> tls_Config" where
  "trojan_tlsConfig t =
     \<lparr>NextProtos = (if t_ALPN (t_option t) \<noteq> [] then t_ALPN (t_option t) else defaultALPN), MinVersion = VersionTLS12,
      InsecureSkipVerify = t_SkipCertVerify (t_option t), ServerName = t_ServerName (t_option t)\<rparr>"

definition WriteHeader :: "Trojan \<Rightarrow> byte \<Rightarrow> byte list \<Rightarrow> (trojan_error, unit) io" where
  "WriteHeader t command socks5Addr = Write TrojanIO (hexPassword t @ crlf @ [command] @ socks5Addr @ crlf)"

section \<open>UDP packets\<close>

text \<open>The count that a write returns is that of the whole frame.\<close>

definition writePacket :: "Addr \<Rightarrow> byte list \<Rightarrow> Conn \<Rightarrow> (nat \<times> trojan_error option) \<times> Conn" where
  "writePacket socks5Addr payload c =
     (let buf = socks5Addr @ PutUint16 (of_nat (length payload)) @ crlf @ payload
      in case Write TrojanIO buf c of
           (Inl e, c1) \<Rightarrow> ((0, Some e), c1)
         | (Inr _, c1) \<Rightarrow> ((length buf, None), c1))"

function packet_loop :: "Addr \<Rightarrow> byte list \<Rightarrow> nat \<Rightarrow> Conn \<Rightarrow> (nat \<times> trojan_error option) \<times> Conn" where
  "packet_loop a payload offset c =
     (let total = length payload; cursor = (if offset + maxLength > total then total else offset + maxLength)
      in case writePacket a (take (cursor - offset) (drop offset payload)) c of
           ((n, Some e), c1) \<Rightarrow> ((offset + n, Some e), c1)
         | ((n, None), c1) \<Rightarrow> if cursor = total then ((total, None), c1) else packet_loop a payload cursor c1)"
  by pat_completeness auto
termination
  by (relation "measure (\<lambda>(a, payload, offset, c). length payload - offset)") (auto simp: maxLength_def)

declare packet_loop.simps [simp del]

definition WritePacket :: "Addr \<Rightarrow> byte list \<Rightarrow> Conn \<Rightarrow> (nat \<times> trojan_error option) \<times> Conn" where
  "WritePacket a payload c =
     (if length payload \<le> maxLength then writePacket a payload c else packet_loop a payload 0 c)"

text \<open>
  \<open>ReadPacket\<close> into a buffer of \<open>blen\<close> bytes: the address (a nil pointer for a name), the bytes and how
  many are left on the stream. The buffer also takes the header, two bytes at a time.
\<close>

definition ReadPacket :: "nat \<Rightarrow> Conn \<Rightarrow> panic + (trojan_error + (IP \<times> uint16) option \<times> byte list \<times> nat) \<times> Conn" where
  "ReadPacket blen c =
     (case ReadAddr blen c of
        (Inl _, c1) \<Rightarrow> Inr (Inl ErrReadAddr, c1)
      | (Inr addr, c1) \<Rightarrow>
          and_then (Addr_UDPAddr addr) (\<lambda>uAddr.
          if blen < 2 then Inl IndexOutOfRange
          else case ReadFull TrojanIO 2 c1 of
            (Inl _, c2) \<Rightarrow> Inr (Inl ErrReadLength, c2)
          | (Inr l, c2) \<Rightarrow>
              (let total = unat (BE_Uint16 l)
               in if total > maxLength then Inr (Inl ErrPacketInvalid, c2)
                  else case ReadFull TrojanIO 2 c2 of
                    (Inl _, c3) \<Rightarrow> Inr (Inl ErrReadCrlf, c3)
                  | (Inr _, c3) \<Rightarrow>
                      (let len = (if total < blen then total else blen)
                       in case ReadFull TrojanIO len c3 of
                            (Inl _, c4) \<Rightarrow> Inr (Inl ErrReadPacket, c4)
                          | (Inr b, c4) \<Rightarrow> Inr (Inr (uAddr, b, total - len), c4)))))"

record PacketConn =
  remain :: nat
  rAddr :: "(IP \<times> uint16) option option"

definition trojan_PacketConn :: PacketConn where
  "trojan_PacketConn = \<lparr>remain = 0, rAddr = None\<rparr>"

definition trojan_WriteTo :: "byte list \<Rightarrow> NetAddr \<Rightarrow> Conn \<Rightarrow> (nat \<times> trojan_error option) \<times> Conn" where
  "trojan_WriteTo b addr c = WritePacket (socks_ParseAddr (NetAddr_String addr)) b c"

definition trojan_ReadFrom :: "nat \<Rightarrow> PacketConn \<times> nat list \<times> Conn \<Rightarrow>
    panic + (trojan_error + byte list \<times> (IP \<times> uint16) option option) \<times> PacketConn \<times> nat list \<times> Conn" where
  "trojan_ReadFrom blen = (\<lambda>(pc, ks, c).
     if remain pc \<noteq> 0 then
       (let len = (if remain pc < blen then remain pc else blen)
        in case Read_next TrojanIO len (ks, c) of
             (Inl e, ks1, c1) \<Rightarrow> Inr (Inl e, pc, ks1, c1)
           | (Inr b, ks1, c1) \<Rightarrow>
               (let left = remain pc - length b
                in Inr (Inr (b, rAddr pc), pc\<lparr>remain := left, rAddr := if left = 0 then None else rAddr pc\<rparr>, ks1, c1)))
     else
       and_then (ReadPacket blen c) (\<lambda>(r, c1).
         case r of
           Inl e \<Rightarrow> Inr (Inl e, pc, ks, c1)
         | Inr (addr, b, left) \<Rightarrow>
             Inr (Inr (b, Some addr), if left \<noteq> 0 then pc\<lparr>remain := left, rAddr := Some addr\<rparr> else pc, ks, c1)))"

section \<open>A packet arrives as it was sent\<close>

text \<open>The frames of one payload, sent to the address \<open>a\<close>.\<close>

inductive frames :: "Addr \<Rightarrow> byte list \<Rightarrow> byte list \<Rightarrow> bool" for a where
  frames_Nil: "frames a [] []"
| frames_Cons: "0 < length p \<Longrightarrow> length p \<le> maxLength \<Longrightarrow> frames a enc ds \<Longrightarrow>
    frames a (a @ PutUint16 (of_nat (length p)) @ crlf @ p @ enc) (p @ ds)"

lemma frames_first:
  "frames a enc ds \<Longrightarrow> ds \<noteq> [] \<Longrightarrow>
     \<exists>p e d. ds = p @ d \<and> 0 < length p \<and> length p \<le> maxLength \<and> enc = a @ PutUint16 (of_nat (length p)) @ crlf @ p @ e \<and> frames a e d"
  by (erule frames.cases) (simp, blast)

lemma frames_empty: "frames a enc [] \<Longrightarrow> enc = []"
  by (erule frames.cases) simp_all

lemma frames_one: "p \<noteq> [] \<Longrightarrow> length p \<le> maxLength \<Longrightarrow> frames a (a @ PutUint16 (of_nat (length p)) @ crlf @ p) p"
  using frames_Cons [OF _ _ frames_Nil, of p a] by simp

lemma packet_loop_frames:
  "offset < length payload \<Longrightarrow> length payload - offset \<le> budget c \<Longrightarrow>
     \<exists>enc c1. packet_loop a payload offset c = ((length payload, None), c1) \<and> tx c1 = tx c @ enc \<and> frames a enc (drop offset payload)"
proof (induction a payload offset c rule: packet_loop.induct)
  case (1 a payload offset c)
  define cursor where "cursor = (if offset + maxLength > length payload then length payload else offset + maxLength)"
  define p where "p = take (cursor - offset) (drop offset payload)"
  have cur: "offset < cursor" "cursor \<le> length payload" "cursor - offset \<le> maxLength" using "1.prems" by (auto simp: cursor_def maxLength_def)
  then have p: "p \<noteq> []" "length p \<le> maxLength" and split: "drop offset payload = p @ drop cursor payload"
    by (auto simp: p_def simp flip: drop_drop)
      (metis append_take_drop_id drop_drop le_add_diff_inverse2 less_imp_le_nat)
  let ?out = "a @ PutUint16 (of_nat (length p)) @ crlf @ p" and ?c1 = "c\<lparr>tx := tx c @ a @ PutUint16 (of_nat (length p)) @ crlf @ p, budget := budget c - 1\<rparr>"
  have w: "writePacket a p c = ((length ?out, None), ?c1)" using "1.prems" by (cases "budget c") (auto simp: writePacket_def Write_def Let_def)
  have step: "packet_loop a payload offset c = (if cursor = length payload then ((length payload, None), ?c1) else packet_loop a payload cursor ?c1)"
    using w by (simp add: packet_loop.simps [of a payload offset c] cursor_def [symmetric] p_def [symmetric] Let_def)
  show ?case
  proof (cases "cursor = length payload")
    case True
    then show ?thesis using step frames_one [OF p, of a] split by auto
  next
    case False
    have "\<exists>enc c1. packet_loop a payload cursor ?c1 = ((length payload, None), c1) \<and> tx c1 = tx ?c1 @ enc \<and> frames a enc (drop cursor payload)"
      by (rule "1.IH" [OF refl cursor_def]) (use False cur "1.prems" w in \<open>auto simp: p_def\<close>)
    then obtain enc c1 where "packet_loop a payload cursor ?c1 = ((length payload, None), c1)" "tx c1 = tx ?c1 @ enc" "frames a enc (drop cursor payload)" by blast
    with False step frames_Cons [of p a enc "drop cursor payload"] p split show ?thesis by auto
  qed
qed

lemma WritePacket_frames:
  assumes "payload \<noteq> []" "length payload \<le> budget c"
  shows "\<exists>n enc c1. WritePacket a payload c = ((n, None), c1) \<and> tx c1 = tx c @ enc \<and> frames a enc payload"
proof (cases "length payload \<le> maxLength")
  case True
  have "0 < budget c" using assms by (cases "budget c") auto
  with True show ?thesis using frames_one [OF assms(1) True, of a] by (simp add: WritePacket_def writePacket_def Write_def Let_def)
next
  case False
  with packet_loop_frames [of 0 payload c a] assms show ?thesis by (simp add: WritePacket_def) blast
qed

text \<open>Reading, and a look at the address that comes with the bytes.\<close>

definition read_from :: "(IP \<times> uint16) option \<Rightarrow> nat \<Rightarrow> PacketConn \<times> nat list \<times> Conn \<Rightarrow>
    (trojan_error option + byte list) \<times> PacketConn \<times> nat list \<times> Conn" where
  "read_from u n s =
     (case trojan_ReadFrom n s of
        Inr (Inr (b, addr), s1) \<Rightarrow> if addr = Some u then (Inr b, s1) else (Inl None, s1)
      | Inr (Inl e, s1) \<Rightarrow> (Inl (Some e), s1)
      | Inl p \<Rightarrow> (Inl None, s))"

definition packet_carries :: "Addr \<Rightarrow> (IP \<times> uint16) option \<Rightarrow> PacketConn \<times> nat list \<times> Conn \<Rightarrow> byte list \<Rightarrow> bool" where
  "packet_carries a u = (\<lambda>(pc, ks, c) ds. valid_addr a \<and> Addr_UDPAddr a = Inr u \<and>
     (\<exists>pre enc rest. length pre = remain pc \<and> (pre \<noteq> [] \<longrightarrow> rAddr pc = Some u) \<and> rx c = pre @ enc \<and> frames a enc rest \<and> ds = pre @ rest))"

lemma packet_carriesI:
  "valid_addr a \<Longrightarrow> Addr_UDPAddr a = Inr u \<Longrightarrow> length pre = remain pc \<Longrightarrow> (pre \<noteq> [] \<Longrightarrow> rAddr pc = Some u) \<Longrightarrow> rx c = pre @ enc \<Longrightarrow>
     frames a enc rest \<Longrightarrow> packet_carries a u (pc, ks, c) (pre @ rest)"
  unfolding packet_carries_def by blast

lemma ReadPacket_frame:
  assumes "valid_addr a" "Addr_UDPAddr a = Inr u" "MaxAddrLen \<le> n" "length p \<le> maxLength"
    and "c = \<lparr>rx = a @ PutUint16 (of_nat (length p)) @ crlf @ p @ enc, tx = t, budget = k\<rparr>"
  shows "ReadPacket n c = Inr (Inr (u, take n p, length p - n), \<lparr>rx = drop n p @ enc, tx = t, budget = k\<rparr>)"
proof -
  have "ReadAddr n = ReadAddr MaxAddrLen" using assms(3) by (simp add: ReadAddr_def fun_eq_iff)
  moreover have "unat (of_nat (length p) :: uint16) = length p" using assms(4) by (simp add: unat_of_nat maxLength_def)
  moreover have "\<not> n < 2" using assms(3) by (simp add: MaxAddrLen_def)
  ultimately show ?thesis using assms(1,2,4)
    by (simp add: ReadPacket_def assms(5) ReadAddr_valid Let_def crlf_def ReadFull_def min_def)
qed

interpretation packet_stream: stream_reader "read_from u" "packet_carries a u" MaxAddrLen for a u
proof
  fix s :: "PacketConn \<times> nat list \<times> Conn" and ds :: "byte list" and n :: nat
  obtain pc ks c where s: "s = (pc, ks, c)" using prod_cases3 by blast
  assume "packet_carries a u s ds" and ds0: "ds \<noteq> []" and n: "MaxAddrLen \<le> n"
  then obtain pre enc rest where a: "valid_addr a" "Addr_UDPAddr a = Inr u" and pre: "length pre = remain pc" "pre \<noteq> [] \<longrightarrow> rAddr pc = Some u"
    and rx: "rx c = pre @ enc" and fr: "frames a enc rest" and ds: "ds = pre @ rest" by (auto simp: packet_carries_def s)
  have n0: "0 < n" using n by (simp add: MaxAddrLen_def)
  show "\<exists>bs rest s'. read_from u n s = (Inr bs, s') \<and> bs \<noteq> [] \<and> length bs \<le> n \<and> ds = bs @ rest \<and> packet_carries a u s' rest"
  proof (cases "remain pc = 0")
    case False
    let ?len = "if remain pc < n then remain pc else n"
    have "pre \<noteq> []" using pre(1) False by auto
    have "0 < ?len" "?len \<le> length pre" using n0 False pre(1) by auto
    from Read_next_some [OF rx \<open>pre \<noteq> []\<close> this, of TrojanIO ks] obtain m where m: "0 < m" "m \<le> ?len"
      "Read_next TrojanIO ?len (ks, c) = (Inr (take m pre), tl ks, c\<lparr>rx := drop m pre @ enc\<rparr>)" by blast
    let ?pc = "pc\<lparr>remain := remain pc - length (take m pre), rAddr := if remain pc - length (take m pre) = 0 then None else rAddr pc\<rparr>"
    have "read_from u n s = (Inr (take m pre), ?pc, tl ks, c\<lparr>rx := drop m pre @ enc\<rparr>)"
      using False m(3) pre(2) \<open>pre \<noteq> []\<close> by (simp add: read_from_def trojan_ReadFrom_def s Let_def)
    moreover have "packet_carries a u (?pc, tl ks, c\<lparr>rx := drop m pre @ enc\<rparr>) (drop m pre @ rest)"
      by (rule packet_carriesI) (use a pre fr m in \<open>auto simp: min_def split: if_splits\<close>)
    ultimately show ?thesis using m pre(1) ds \<open>pre \<noteq> []\<close> by (intro exI [of _ "take m pre"] exI [of _ "drop m pre @ rest"]) (auto split: if_splits)
  next
    case True
    then have "pre = []" using pre(1) by simp
    with ds ds0 have "rest \<noteq> []" by simp
    from frames_first [OF fr this] obtain p e d where rest: "rest = p @ d" and p: "0 < length p" "length p \<le> maxLength" and
      enc: "enc = a @ PutUint16 (of_nat (length p)) @ crlf @ p @ e" and d: "frames a e d" by blast
    obtain t k where c: "c = \<lparr>rx = a @ PutUint16 (of_nat (length p)) @ crlf @ p @ e, tx = t, budget = k\<rparr>"
      using rx enc \<open>pre = []\<close> by (cases c) auto
    let ?pc = "if length p - n \<noteq> 0 then pc\<lparr>remain := length p - n, rAddr := Some u\<rparr> else pc"
    have "read_from u n s = (Inr (take n p), ?pc, ks, \<lparr>rx = drop n p @ e, tx = t, budget = k\<rparr>)"
      using True ReadPacket_frame [OF a n p(2) c] by (simp add: read_from_def trojan_ReadFrom_def s)
    moreover have "packet_carries a u (?pc, ks, \<lparr>rx = drop n p @ e, tx = t, budget = k\<rparr>) (drop n p @ d)"
      by (rule packet_carriesI) (use a d True in \<open>auto split: if_splits\<close>)
    ultimately show ?thesis using p n0 ds rest \<open>pre = []\<close> by (intro exI [of _ "take n p"] exI [of _ "drop n p @ d"]) auto
  qed
next
  fix s :: "PacketConn \<times> nat list \<times> Conn" and n :: nat
  assume "packet_carries a u s []"
  moreover obtain pc ks c where s: "s = (pc, ks, c)" using prod_cases3 by blast
  ultimately have "remain pc = 0" "rx c = []" by (auto simp: packet_carries_def dest: frames_empty)
  then show "\<exists>e s'. read_from u n s = (Inl e, s')"
    by (auto simp: s read_from_def trojan_ReadFrom_def ReadPacket_def ReadAddr_def io_fail_def io_bind_def ReadFull_def)
qed

text \<open>
  C38: A UDP packet sent through Trojan arrives. A payload of any positive length written for a valid
  address is written without error, in frames of at most \<open>maxLength\<close> bytes, and the packet connection
  at the other end returns its bytes in order, each read with the address it was sent to, whatever
  the sizes of the read buffers (as long as an address fits) and however the bytes arrive.
\<close>

theorem trojan_packet_arrives:
  assumes "valid_addr a" "Addr_UDPAddr a = Inr u" "payload \<noteq> []" "length payload \<le> budget c" "tx c = []"
    and "\<forall>n \<in> set ns. MaxAddrLen \<le> n" "length payload \<le> length ns"
  shows "\<exists>n c1. WritePacket a payload c = ((n, None), c1) \<and>
    fst (drain (read_from u) ns (trojan_PacketConn, ks, \<lparr>rx = tx c1, tx = [], budget = 0\<rparr>)) = payload"
proof -
  from WritePacket_frames [OF assms(3,4)] assms(5) obtain n c1 where w: "WritePacket a payload c = ((n, None), c1)" "frames a (tx c1) payload" by force
  have "packet_carries a u (trojan_PacketConn, ks, \<lparr>rx = tx c1, tx = [], budget = 0\<rparr>) ([] @ payload)"
    by (rule packet_carriesI) (use assms(1,2) w(2) in \<open>simp_all add: trojan_PacketConn_def\<close>)
  with packet_stream.drain_all [OF _ assms(6,7)] w(1) show ?thesis by simp
qed

theorem trojan_packet_arrives_witness:
  "\<exists>n c1. WritePacket [1, 10, 0, 0, 1, 0, 53] [7, 8] \<lparr>rx = [], tx = [], budget = 9\<rparr> = ((n, None), c1) \<and>
    fst (drain (read_from (Some ([10, 0, 0, 1], 53))) [300, 300] (trojan_PacketConn, [1], \<lparr>rx = tx c1, tx = [], budget = 0\<rparr>)) = [7, 8]"
proof (rule trojan_packet_arrives)
  show "valid_addr [1, 10, 0, 0, 1, 0, 53]" by (simp add: valid_addr_def SplitAddr_def socks_consts)
  show "Addr_UDPAddr [1, 10, 0, 0, 1, 0, 53] = Inr (Some ([10, 0, 0, 1], 53))"
    by (simp add: Addr_UDPAddr_def socks_consts slice_def BE_Uint16_def)
qed (simp_all add: MaxAddrLen_def)

end
