(* ===== verification/Vmess_Stream.thy ===== *)
theory Vmess_Stream
  imports Go_Stream
begin

text \<open>
  The body of a VMess connection: \<open>transport/vmess/chunk.go\<close> cuts the stream in chunks with a length
  in front, \<open>transport/vmess/aead.go\<close> seals each chunk with a counted nonce. The buffers that both
  take from the pool are not shared while in use and do not appear.
\<close>

definition lenSize :: nat where "lenSize = 2"
definition chunkSize :: nat where "chunkSize = 2 ^ 14"
definition maxSize :: nat where "maxSize = 17 * 1024"

datatype vmess_error = VmessIO io_error | ErrTooLarge | ErrOpen | ErrResponseHeader | ErrDynamicPort | ErrBufferLength

section \<open>Chunks\<close>

record chunkReader =
  cr_buf :: "byte list option"
  cr_offset :: nat

definition newChunkReader :: chunkReader where
  "newChunkReader = \<lparr>cr_buf = None, cr_offset = 0\<rparr>"

definition chunk_Read :: "nat \<Rightarrow> chunkReader \<times> Conn \<Rightarrow> (vmess_error + byte list) \<times> chunkReader \<times> Conn" where
  "chunk_Read n = (\<lambda>(cr, c).
     case cr_buf cr of
       Some buf \<Rightarrow>
         (let b = take n (drop (cr_offset cr) buf); offset = cr_offset cr + length b
          in (Inr b, cr\<lparr>cr_offset := offset, cr_buf := if offset = length buf then None else Some buf\<rparr>, c))
     | None \<Rightarrow>
         (case ReadFull VmessIO lenSize c of
            (Inl e, c1) \<Rightarrow> (Inl e, cr, c1)
          | (Inr sizeBuf, c1) \<Rightarrow>
              (let sz = unat (BE_Uint16 sizeBuf)
               in if sz > maxSize then (Inl ErrTooLarge, cr, c1)
                  else if n \<ge> sz then
                    (case ReadFull VmessIO sz c1 of
                       (Inl e, c2) \<Rightarrow> (Inl e, cr, c2)
                     | (Inr b, c2) \<Rightarrow> (Inr b, cr, c2))
                  else
                    (case ReadFull VmessIO sz c1 of
                       (Inl e, c2) \<Rightarrow> (Inl e, cr, c2)
                     | (Inr buf, c2) \<Rightarrow> (Inr (take n buf), cr\<lparr>cr_offset := n, cr_buf := Some buf\<rparr>, c2)))))"

text \<open>The result of a write is the number of bytes taken and the error, if any.\<close>

function chunk_Write :: "byte list \<Rightarrow> Conn \<Rightarrow> (nat \<times> vmess_error option) \<times> Conn" where
  "chunk_Write b c =
     (if length b = 0 then ((0, None), c)
      else let readLen = (if length b < chunkSize then length b else chunkSize)
           in case Write VmessIO (PutUint16 (of_nat readLen) @ take readLen b) c of
                (Inl e, c1) \<Rightarrow> ((0, Some e), c1)
              | (Inr _, c1) \<Rightarrow> (let ((n, err), c2) = chunk_Write (drop readLen b) c1 in ((readLen + n, err), c2)))"
  by pat_completeness auto
termination
  by (relation "measure (\<lambda>(b, c). length b)") (auto simp: chunkSize_def)

declare chunk_Write.simps [simp del]

section \<open>Sealed chunks\<close>

text \<open>\<open>cipher.AEAD\<close>, without the additional data, which is nil here.\<close>

record AEAD =
  Seal :: "byte list \<Rightarrow> byte list \<Rightarrow> byte list"
  Open :: "byte list \<Rightarrow> byte list \<Rightarrow> byte list option"
  Overhead :: nat
  NonceSize :: nat

text \<open>What \<open>cipher.AEAD\<close> documents: opening gives back what was sealed, and sealing adds \<open>Overhead\<close> bytes.\<close>

definition aead_ok :: "AEAD \<Rightarrow> bool" where
  "aead_ok A \<longleftrightarrow> (\<forall>nonce p. Open A nonce (Seal A nonce p) = Some p \<and> length (Seal A nonce p) = length p + Overhead A)"

record aeadWriter =
  w_aead :: AEAD
  w_count :: uint16
  w_iv :: "byte list"

record aeadReader =
  r_aead :: AEAD
  r_buf :: "byte list option"
  r_offset :: nat
  r_iv :: "byte list"
  r_count :: uint16

definition newAEADWriter :: "AEAD \<Rightarrow> byte list \<Rightarrow> aeadWriter" where
  "newAEADWriter A iv = \<lparr>w_aead = A, w_count = 0, w_iv = iv\<rparr>"

definition newAEADReader :: "AEAD \<Rightarrow> byte list \<Rightarrow> aeadReader" where
  "newAEADReader A iv = \<lparr>r_aead = A, r_buf = None, r_offset = 0, r_iv = iv, r_count = 0\<rparr>"

text \<open>
  The overhead of the ciphers in use is 16; one of a whole chunk would leave no room for data.
\<close>

text \<open>The nonce: a field of 32 bytes with the counter in front and bytes 2 to 11 of the vector behind it.\<close>

definition nonce :: "nat \<Rightarrow> uint16 \<Rightarrow> byte list \<Rightarrow> byte list" where
  "nonce sz count iv = take sz (PutUint16 count @ take 10 (drop 2 iv) @ replicate 20 0)"

function aead_Write :: "byte list \<Rightarrow> aeadWriter \<times> Conn \<Rightarrow> (nat \<times> vmess_error option) \<times> aeadWriter \<times> Conn" where
  "aead_Write b (w, c) =
     (if length b = 0 \<or> Overhead (w_aead w) \<ge> chunkSize then ((0, None), w, c)
      else let A = w_aead w;
               readLen = (if length b < chunkSize - Overhead A then length b else chunkSize - Overhead A);
               sealed = Seal A (nonce (NonceSize A) (w_count w) (w_iv w)) (take readLen b);
               w1 = w\<lparr>w_count := w_count w + 1\<rparr>
           in case Write VmessIO (PutUint16 (of_nat (readLen + Overhead A)) @ take (readLen + Overhead A) sealed) c of
                (Inl e, c1) \<Rightarrow> ((0, Some e), w1, c1)
              | (Inr _, c1) \<Rightarrow> (let ((n, err), w2, c2) = aead_Write (drop readLen b) (w1, c1) in ((readLen + n, err), w2, c2)))"
  by pat_completeness auto
termination
  by (relation "measure (\<lambda>(b, w, c). length b)") auto

declare aead_Write.simps [simp del]

definition aead_Read :: "nat \<Rightarrow> aeadReader \<times> Conn \<Rightarrow> (vmess_error + byte list) \<times> aeadReader \<times> Conn" where
  "aead_Read n = (\<lambda>(r, c).
     case r_buf r of
       Some buf \<Rightarrow>
         (let b = take n (drop (r_offset r) buf); offset = r_offset r + length b
          in (Inr b, r\<lparr>r_offset := offset, r_buf := if offset = length buf then None else Some buf\<rparr>, c))
     | None \<Rightarrow>
         (case ReadFull VmessIO lenSize c of
            (Inl e, c1) \<Rightarrow> (Inl e, r, c1)
          | (Inr sizeBuf, c1) \<Rightarrow>
              (let sz = unat (BE_Uint16 sizeBuf)
               in if sz > maxSize then (Inl ErrTooLarge, r, c1)
                  else
                    (case ReadFull VmessIO sz c1 of
                       (Inl e, c2) \<Rightarrow> (Inl e, r, c2)
                     | (Inr buf, c2) \<Rightarrow>
                         (let A = r_aead r; r1 = r\<lparr>r_count := r_count r + 1\<rparr>
                          in case Open A (nonce (NonceSize A) (r_count r) (r_iv r)) buf of
                               None \<Rightarrow> (Inl ErrOpen, r1, c2)
                             | Some p \<Rightarrow>
                                 (let plain = take (sz - Overhead A) p
                                  in if n \<ge> sz - Overhead A then (Inr plain, r1, c2)
                                     else (Inr (take n plain), r1\<lparr>r_offset := n, r_buf := Some plain\<rparr>, c2)))))))"

section \<open>Reading gives what was written\<close>

inductive chunks :: "byte list \<Rightarrow> byte list \<Rightarrow> bool" where
  chunks_Nil: "chunks [] []"
| chunks_Cons: "0 < length p \<Longrightarrow> length p \<le> maxSize \<Longrightarrow> chunks enc ds \<Longrightarrow> chunks (PutUint16 (of_nat (length p)) @ p @ enc) (p @ ds)"

lemma chunks_append: "chunks e1 d1 \<Longrightarrow> chunks e2 d2 \<Longrightarrow> chunks (e1 @ e2) (d1 @ d2)"
  by (induction rule: chunks.induct) (auto intro: chunks.intros)

lemma chunks_first:
  "chunks enc ds \<Longrightarrow> ds \<noteq> [] \<Longrightarrow>
     \<exists>p e d. ds = p @ d \<and> 0 < length p \<and> length p \<le> maxSize \<and> enc = PutUint16 (of_nat (length p)) @ p @ e \<and> chunks e d"
  by (erule chunks.cases) (simp, blast)

lemma chunks_empty: "chunks enc [] \<Longrightarrow> enc = []"
  by (erule chunks.cases) simp_all

definition pending :: "byte list option \<Rightarrow> nat \<Rightarrow> byte list \<Rightarrow> bool" where
  "pending buf offset pre \<longleftrightarrow> (case buf of None \<Rightarrow> pre = [] | Some b \<Rightarrow> offset < length b \<and> pre = drop offset b)"

lemma pending_Nil: "pending buf offset [] \<Longrightarrow> buf = None"
  by (auto simp: pending_def split: option.splits)

lemma pending_read:
  assumes "pending (Some b) offset pre" "1 \<le> n"
  shows "\<exists>out rest. take n (drop offset b) = out \<and> out \<noteq> [] \<and> length out \<le> n \<and> pre = out @ rest \<and>
     pending (if offset + length out = length b then None else Some b) (offset + length out) rest"
proof -
  let ?out = "take n (drop offset b)" and ?rest = "drop n (drop offset b)"
  have "?out \<noteq> []" "pre = ?out @ ?rest" using assms by (auto simp: pending_def simp del: drop_drop)
  moreover have "pending (if offset + length ?out = length b then None else Some b) (offset + length ?out) ?rest"
    using assms by (auto simp: pending_def min_def add.commute)
  ultimately show ?thesis by auto
qed

definition chunk_carries :: "chunkReader \<times> Conn \<Rightarrow> byte list \<Rightarrow> bool" where
  "chunk_carries = (\<lambda>(cr, c) ds. \<exists>pre rest. pending (cr_buf cr) (cr_offset cr) pre \<and> chunks (rx c) rest \<and> ds = pre @ rest)"

lemma size_of_chunk: "n \<le> maxSize \<Longrightarrow> unat (of_nat n :: uint16) = n"
  by (simp add: maxSize_def unat_of_nat)

interpretation chunk_stream: stream_reader chunk_Read chunk_carries 1
proof
  fix s :: "chunkReader \<times> Conn" and ds :: "byte list" and n :: nat
  obtain cr c where s: "s = (cr, c)" by (cases s)
  assume "chunk_carries s ds" "ds \<noteq> []" "1 \<le> n"
  then obtain pre rest where pre: "pending (cr_buf cr) (cr_offset cr) pre" and ch: "chunks (rx c) rest" and ds: "ds = pre @ rest"
    by (auto simp: chunk_carries_def s)
  show "\<exists>bs rest s'. chunk_Read n s = (Inr bs, s') \<and> bs \<noteq> [] \<and> length bs \<le> n \<and> ds = bs @ rest \<and> chunk_carries s' rest"
  proof (cases "cr_buf cr")
    case (Some b)
    from pending_read [OF pre [unfolded Some] \<open>1 \<le> n\<close>] obtain out r where out: "take n (drop (cr_offset cr) b) = out" "out \<noteq> []" "length out \<le> n"
      "pre = out @ r" "pending (if cr_offset cr + length out = length b then None else Some b) (cr_offset cr + length out) r" by blast
    with Some ch ds show ?thesis by (auto simp: chunk_Read_def s Let_def chunk_carries_def)
  next
    case None
    with pre ds \<open>ds \<noteq> []\<close> have pre: "pre = []" and "rest \<noteq> []" by (simp_all add: pending_def)
    from chunks_first [OF ch \<open>rest \<noteq> []\<close>] obtain p enc d where rest: "rest = p @ d" and p: "0 < length p" "length p \<le> maxSize" and
      rx: "rx c = PutUint16 (of_nat (length p)) @ p @ enc" and d: "chunks enc d" by blast
    obtain t k where c: "c = \<lparr>rx = PutUint16 (of_nat (length p)) @ p @ enc, tx = t, budget = k\<rparr>" using rx by (cases c) auto
    show ?thesis
    proof (cases "n \<ge> length p")
      case True
      then show ?thesis using None pre p d ds rest
        by (auto simp: chunk_Read_def s c lenSize_def Let_def size_of_chunk chunk_carries_def pending_def)
    next
      case False
      then have "pending (Some p) n (drop n p)" by (simp add: pending_def)
      then have "chunk_carries (cr\<lparr>cr_offset := n, cr_buf := Some p\<rparr>, \<lparr>rx = enc, tx = t, budget = k\<rparr>) (drop n p @ d)"
        using d by (auto simp: chunk_carries_def)
      moreover have "chunk_Read n s = (Inr (take n p), cr\<lparr>cr_offset := n, cr_buf := Some p\<rparr>, \<lparr>rx = enc, tx = t, budget = k\<rparr>)"
        using False None p by (simp add: chunk_Read_def s c lenSize_def Let_def size_of_chunk)
      ultimately show ?thesis using pre p ds rest \<open>1 \<le> n\<close> by (intro exI [of _ "take n p"] exI [of _ "drop n p @ d"]) auto
    qed
  qed
next
  fix s :: "chunkReader \<times> Conn" and n :: nat
  assume "chunk_carries s []"
  moreover obtain cr c where s: "s = (cr, c)" by (cases s)
  ultimately have "pending (cr_buf cr) (cr_offset cr) []" "chunks (rx c) []" by (auto simp: chunk_carries_def)
  then have "cr_buf cr = None" "rx c = []" using pending_Nil chunks_empty by blast+
  then show "\<exists>e s'. chunk_Read n s = (Inl e, s')" by (simp add: s chunk_Read_def ReadFull_def lenSize_def)
qed

lemma chunk_Write_spec:
  "length b \<le> budget c \<Longrightarrow> \<exists>enc c1. chunk_Write b c = ((length b, None), c1) \<and> tx c1 = tx c @ enc \<and> chunks enc b \<and>
     budget c \<le> budget c1 + length b \<and> rx c1 = rx c"
proof (induction b c rule: chunk_Write.induct)
  case (1 b c)
  show ?case
  proof (cases "b = []")
    case True
    then show ?thesis using chunks_Nil by (intro exI [of _ "[]"] exI [of _ c]) (simp add: chunk_Write.simps)
  next
    case False
    define n where "n = (if length b < chunkSize then length b else chunkSize)"
    let ?out = "PutUint16 (of_nat n) @ take n b" and ?c1 = "c\<lparr>tx := tx c @ PutUint16 (of_nat n) @ take n b, budget := budget c - 1\<rparr>"
    have n: "0 < n" "n \<le> length b" "n \<le> maxSize" using False by (auto simp: n_def chunkSize_def maxSize_def)
    have w: "Write VmessIO ?out c = (Inr (), ?c1)" using "1.prems" False by (cases "budget c") (auto simp: Write_def)
    have "length (drop n b) \<le> budget ?c1" using "1.prems" n by simp
    from "1.IH" [OF _ n_def w [symmetric] _ _] this False obtain enc c2 where
      ih: "chunk_Write (drop n b) ?c1 = ((length (drop n b), None), c2)" "tx c2 = tx ?c1 @ enc" "chunks enc (drop n b)"
        "budget ?c1 \<le> budget c2 + length (drop n b)" "rx c2 = rx ?c1" by blast
    have "chunk_Write b c = ((length b, None), c2)"
      using False w ih(1) n by (simp add: chunk_Write.simps [of b] n_def [symmetric] Let_def)
    moreover have "chunks (?out @ enc) b" using chunks_Cons [of "take n b" enc "drop n b"] ih(3) n by simp
    ultimately show ?thesis using ih "1.prems" n by auto
  qed
qed

section \<open>Sealed chunks\<close>

inductive sealed :: "AEAD \<Rightarrow> byte list \<Rightarrow> uint16 \<Rightarrow> byte list \<Rightarrow> byte list \<Rightarrow> uint16 \<Rightarrow> bool" for A iv where
  sealed_Nil: "sealed A iv k [] [] k"
| sealed_Cons: "0 < length p \<Longrightarrow> length p + Overhead A \<le> maxSize \<Longrightarrow> sealed A iv (k + 1) enc ds k' \<Longrightarrow>
    sealed A iv k (PutUint16 (of_nat (length p + Overhead A)) @ Seal A (nonce (NonceSize A) k iv) p @ enc) (p @ ds) k'"

lemma sealed_append: "sealed A iv k e1 d1 k1 \<Longrightarrow> sealed A iv k1 e2 d2 k2 \<Longrightarrow> sealed A iv k (e1 @ e2) (d1 @ d2) k2"
proof (induction rule: sealed.induct)
  case (sealed_Cons p k enc ds k')
  from sealed.sealed_Cons [OF sealed_Cons.hyps(1,2) sealed_Cons.IH [OF sealed_Cons.prems]] show ?case by (simp only: append_assoc)
qed simp

lemma sealed_first:
  "sealed A iv k enc ds k' \<Longrightarrow> ds \<noteq> [] \<Longrightarrow> \<exists>p e d. ds = p @ d \<and> 0 < length p \<and> length p + Overhead A \<le> maxSize \<and>
     enc = PutUint16 (of_nat (length p + Overhead A)) @ Seal A (nonce (NonceSize A) k iv) p @ e \<and> sealed A iv (k + 1) e d k'"
  by (erule sealed.cases) (simp, blast)

lemma sealed_empty: "sealed A iv k enc [] k' \<Longrightarrow> enc = []"
  by (erule sealed.cases) simp_all

definition aead_carries :: "aeadReader \<times> Conn \<Rightarrow> byte list \<Rightarrow> bool" where
  "aead_carries = (\<lambda>(r, c) ds. aead_ok (r_aead r) \<and>
     (\<exists>pre rest k. pending (r_buf r) (r_offset r) pre \<and> sealed (r_aead r) (r_iv r) (r_count r) (rx c) rest k \<and> ds = pre @ rest))"

lemma aead_carriesI:
  "aead_ok (r_aead r) \<Longrightarrow> pending (r_buf r) (r_offset r) pre \<Longrightarrow> sealed (r_aead r) (r_iv r) (r_count r) (rx c) rest k \<Longrightarrow>
     aead_carries (r, c) (pre @ rest)"
  unfolding aead_carries_def by blast

lemma aead_Read_chunk:
  assumes "aead_ok (r_aead r)" "r_buf r = None" "0 < length p" "length p + Overhead (r_aead r) \<le> maxSize"
    and "c = \<lparr>rx = PutUint16 (of_nat (length p + Overhead (r_aead r))) @ Seal (r_aead r) (nonce (NonceSize (r_aead r)) (r_count r) (r_iv r)) p @ enc, tx = t, budget = k\<rparr>"
  shows "aead_Read n (r, c) =
    (if n \<ge> length p then (Inr p, r\<lparr>r_count := r_count r + 1\<rparr>, \<lparr>rx = enc, tx = t, budget = k\<rparr>)
     else (Inr (take n p), r\<lparr>r_count := r_count r + 1, r_offset := n, r_buf := Some p\<rparr>, \<lparr>rx = enc, tx = t, budget = k\<rparr>))"
  using assms(1-4) by (simp add: aead_Read_def assms(5) lenSize_def Let_def size_of_chunk [simplified] aead_ok_def del: of_nat_add)

interpretation aead_stream: stream_reader aead_Read aead_carries 1
proof
  fix s :: "aeadReader \<times> Conn" and ds :: "byte list" and n :: nat
  obtain r c where s: "s = (r, c)" by (cases s)
  assume "aead_carries s ds" "ds \<noteq> []" "1 \<le> n"
  then obtain pre rest k' where ok: "aead_ok (r_aead r)" and pre: "pending (r_buf r) (r_offset r) pre" and
    se: "sealed (r_aead r) (r_iv r) (r_count r) (rx c) rest k'" and ds: "ds = pre @ rest"
    by (auto simp: aead_carries_def s)
  show "\<exists>bs rest s'. aead_Read n s = (Inr bs, s') \<and> bs \<noteq> [] \<and> length bs \<le> n \<and> ds = bs @ rest \<and> aead_carries s' rest"
  proof (cases "r_buf r")
    case (Some b)
    from pending_read [OF pre [unfolded Some] \<open>1 \<le> n\<close>] obtain out q where out: "take n (drop (r_offset r) b) = out" "out \<noteq> []" "length out \<le> n"
      "pre = out @ q" "pending (if r_offset r + length out = length b then None else Some b) (r_offset r + length out) q" by blast
    let ?r = "r\<lparr>r_offset := r_offset r + length out, r_buf := if r_offset r + length out = length b then None else Some b\<rparr>"
    have "aead_carries (?r, c) (q @ rest)" by (rule aead_carriesI) (use out(5) se ok in simp_all)
    then show ?thesis using Some out(1-4) ds by (auto simp: aead_Read_def s Let_def)
  next
    case None
    with pre ds \<open>ds \<noteq> []\<close> have pre: "pre = []" and "rest \<noteq> []" by (simp_all add: pending_def)
    from sealed_first [OF se \<open>rest \<noteq> []\<close>] obtain p enc d where rest: "rest = p @ d" and
      p: "0 < length p" "length p + Overhead (r_aead r) \<le> maxSize" and
      rx: "rx c = PutUint16 (of_nat (length p + Overhead (r_aead r))) @ Seal (r_aead r) (nonce (NonceSize (r_aead r)) (r_count r) (r_iv r)) p @ enc" and
      d: "sealed (r_aead r) (r_iv r) (r_count r + 1) enc d k'" by blast
    obtain t k where c: "c = \<lparr>rx = PutUint16 (of_nat (length p + Overhead (r_aead r))) @
        Seal (r_aead r) (nonce (NonceSize (r_aead r)) (r_count r) (r_iv r)) p @ enc, tx = t, budget = k\<rparr>" using rx by (cases c) auto
    note rd = aead_Read_chunk [OF ok None p c, of n]
    show ?thesis
    proof (cases "n \<ge> length p")
      case True
      have "aead_carries (r\<lparr>r_count := r_count r + 1\<rparr>, \<lparr>rx = enc, tx = t, budget = k\<rparr>) ([] @ d)"
        by (rule aead_carriesI) (use d ok None in \<open>simp_all add: pending_def\<close>)
      then show ?thesis using True pre p ds rest rd by (auto simp: s)
    next
      case False
      then have "pending (Some p) n (drop n p)" by (simp add: pending_def)
      then have "aead_carries (r\<lparr>r_count := r_count r + 1, r_offset := n, r_buf := Some p\<rparr>, \<lparr>rx = enc, tx = t, budget = k\<rparr>) (drop n p @ d)"
        by - (rule aead_carriesI, use d ok in simp_all)
      then show ?thesis using False rd s pre p ds rest \<open>1 \<le> n\<close> by (intro exI [of _ "take n p"] exI [of _ "drop n p @ d"]) auto
    qed
  qed
next
  fix s :: "aeadReader \<times> Conn" and n :: nat
  assume "aead_carries s []"
  moreover obtain r c where s: "s = (r, c)" by (cases s)
  ultimately obtain k where "pending (r_buf r) (r_offset r) []" "sealed (r_aead r) (r_iv r) (r_count r) (rx c) [] k" by (auto simp: aead_carries_def)
  then have "r_buf r = None" "rx c = []" using pending_Nil sealed_empty by blast+
  then show "\<exists>e s'. aead_Read n s = (Inl e, s')" by (simp add: s aead_Read_def ReadFull_def lenSize_def)
qed

lemma aead_Write_spec:
  assumes "aead_ok (w_aead w)" "Overhead (w_aead w) < chunkSize" "length b \<le> budget c"
  shows "\<exists>enc k c1. aead_Write b (w, c) = ((length b, None), w\<lparr>w_count := k\<rparr>, c1) \<and> tx c1 = tx c @ enc \<and>
     sealed (w_aead w) (w_iv w) (w_count w) enc b k \<and> budget c \<le> budget c1 + length b"
  using assms
proof (induction b "(w, c)" arbitrary: w c rule: aead_Write.induct)
  case (1 b w c)
  let ?A = "w_aead w"
  show ?case
  proof (cases "b = []")
    case True
    then show ?thesis using sealed_Nil by (intro exI [of _ "[]"] exI [of _ "w_count w"] exI [of _ c]) (simp add: aead_Write.simps)
  next
    case False
    define n where "n = (if length b < chunkSize - Overhead ?A then length b else chunkSize - Overhead ?A)"
    define box where "box = Seal ?A (nonce (NonceSize ?A) (w_count w) (w_iv w)) (take n b)"
    let ?out = "PutUint16 (of_nat (n + Overhead ?A)) @ take (n + Overhead ?A) box"
    let ?w1 = "w\<lparr>w_count := w_count w + 1\<rparr>" and ?c1 = "c\<lparr>tx := tx c @ ?out, budget := budget c - 1\<rparr>"
    have n: "0 < n" "n \<le> length b" "n + Overhead ?A \<le> maxSize"
      using False "1.prems"(2) by (auto simp: n_def chunkSize_def maxSize_def)
    have box: "take (n + Overhead ?A) box = box" using "1.prems"(1) n(2) by (simp add: box_def aead_ok_def)
    have w: "Write VmessIO ?out c = (Inr (), ?c1)" using "1.prems"(3) False by (cases "budget c") (auto simp: Write_def)
    have "length (drop n b) \<le> budget ?c1" using "1.prems"(3) n by simp
    from "1.hyps" [OF _ refl n_def box_def refl w [symmetric] _ _ _ this] "1.prems" False obtain enc k c2 where
      ih: "aead_Write (drop n b) (?w1, ?c1) = ((length (drop n b), None), w\<lparr>w_count := k\<rparr>, c2)" "tx c2 = tx ?c1 @ enc"
        "sealed ?A (w_iv w) (w_count w + 1) enc (drop n b) k" "budget ?c1 \<le> budget c2 + length (drop n b)" by auto
    have "aead_Write b (w, c) = ((length b, None), w\<lparr>w_count := k\<rparr>, c2)"
      using False w ih(1) n "1.prems"(2) by (simp add: aead_Write.simps [of b] n_def [symmetric] box_def [symmetric] Let_def del: of_nat_add)
    moreover have "sealed ?A (w_iv w) (w_count w) (?out @ enc) b k"
      using sealed_Cons [of "take n b" ?A "w_iv w" "w_count w" enc "drop n b" k] ih(3) n box by (simp add: box_def del: of_nat_add)
    ultimately show ?thesis using ih "1.prems" n by auto
  qed
qed

interpretation chunk_codec: stream_codec chunk_Read chunk_carries 1
  "\<lambda>b (w, c). let (r, c1) = chunk_Write b c in (r, w, c1)" "\<lambda>w enc ds w1. chunks enc ds \<and> w1 = (w :: unit)"
  "\<lambda>_. True" "\<lambda>_. True" "\<lambda>_. True" "\<lambda>_ enc. (newChunkReader, \<lparr>rx = enc, tx = [], budget = 0\<rparr>)"
proof
  fix w :: unit and b :: "byte list" and c :: Conn
  assume "length b \<le> budget c"
  from chunk_Write_spec [OF this] show "\<exists>enc w1 c1. (case (w, c) of (w, c) \<Rightarrow> let (r, c1) = chunk_Write b c in (r, w, c1)) = ((length b, None), w1, c1) \<and>
      True \<and> (chunks enc b \<and> w1 = w) \<and> tx c1 = tx c @ enc \<and> budget c \<le> budget c1 + length b" by auto
qed (auto intro: chunks_Nil chunks_append simp: chunk_carries_def newChunkReader_def pending_def)

interpretation aead_codec: stream_codec aead_Read aead_carries 1 aead_Write
  "\<lambda>w enc ds w1. w_aead w1 = w_aead w \<and> w_iv w1 = w_iv w \<and> sealed (w_aead w) (w_iv w) (w_count w) enc ds (w_count w1)"
  "\<lambda>_. True" "\<lambda>w. aead_ok (w_aead w) \<and> Overhead (w_aead w) < chunkSize" "\<lambda>w. w_count w = 0"
  "\<lambda>w enc. (newAEADReader (w_aead w) (w_iv w), \<lparr>rx = enc, tx = [], budget = 0\<rparr>)"
proof
  fix w :: aeadWriter and b :: "byte list" and c :: Conn
  assume "aead_ok (w_aead w) \<and> Overhead (w_aead w) < chunkSize" "length b \<le> budget c"
  then obtain enc k c1 where "aead_Write b (w, c) = ((length b, None), w\<lparr>w_count := k\<rparr>, c1)" "tx c1 = tx c @ enc"
    "sealed (w_aead w) (w_iv w) (w_count w) enc b k" "budget c \<le> budget c1 + length b" using aead_Write_spec [of w b c] by blast
  then show "\<exists>enc w1 c1. aead_Write b (w, c) = ((length b, None), w1, c1) \<and> (aead_ok (w_aead w1) \<and> Overhead (w_aead w1) < chunkSize) \<and>
      (w_aead w1 = w_aead w \<and> w_iv w1 = w_iv w \<and> sealed (w_aead w) (w_iv w) (w_count w) enc b (w_count w1)) \<and>
      tx c1 = tx c @ enc \<and> budget c \<le> budget c1 + length b"
    using \<open>aead_ok (w_aead w) \<and> Overhead (w_aead w) < chunkSize\<close> by (intro exI [of _ enc] exI [of _ "w\<lparr>w_count := k\<rparr>"] exI [of _ c1]) simp
next
  fix w w1 :: aeadWriter and enc ds :: "byte list"
  assume "aead_ok (w_aead w) \<and> Overhead (w_aead w) < chunkSize" "w_count w = 0"
    "w_aead w1 = w_aead w \<and> w_iv w1 = w_iv w \<and> sealed (w_aead w) (w_iv w) (w_count w) enc ds (w_count w1)"
  then show "aead_carries (newAEADReader (w_aead w) (w_iv w), \<lparr>rx = enc, tx = [], budget = 0\<rparr>) ds"
    using aead_carriesI [of "newAEADReader (w_aead w) (w_iv w)" "[]" "\<lparr>rx = enc, tx = [], budget = 0\<rparr>" ds "w_count w1"]
    by (simp add: newAEADReader_def pending_def)
qed (auto intro: sealed_Nil sealed_append)

text \<open>
  C9: A VMess body is transparent. Whatever is written through the sealing writer, in writes of any
  length (longer than a chunk, or longer than the counter of the nonce can count), is taken in full,
  and the reader at the other end, with the same cipher and the same initialisation vector, returns
  exactly these bytes in order, whatever the lengths of the buffers it is read with.
\<close>

theorem vmess_body_transparent:
  assumes "aead_ok A" "Overhead A < chunkSize"
    and "length (concat bs) \<le> budget c" "tx c = []"
    and "write_all aead_Write bs (newAEADWriter A iv, c) = (rs, w1, c1)"
    and "\<forall>n \<in> set ns. 1 \<le> n" "length (concat bs) \<le> length ns"
  shows "rs = map (\<lambda>b. (length b, None)) bs \<and>
    fst (drain aead_Read ns (newAEADReader A iv, \<lparr>rx = tx c1, tx = [], budget = 0\<rparr>)) = concat bs"
  using aead_codec.written_is_read [of "newAEADWriter A iv" bs c rs w1 c1 ns] assms by (simp add: newAEADWriter_def)

definition demo_aead :: AEAD where
  "demo_aead = \<lparr>Seal = (\<lambda>nonce p. map (\<lambda>b. b XOR 1) p @ replicate 16 0), Open = (\<lambda>nonce c. Some (map (\<lambda>b. b XOR 1) (take (length c - 16) c))),
     Overhead = 16, NonceSize = 12\<rparr>"

lemma demo_aead_ok: "aead_ok demo_aead"
  by (simp add: aead_ok_def demo_aead_def comp_def xor.assoc map_idI)

theorem vmess_body_transparent_witness:
  "fst (drain aead_Read [1, 1, 5] (newAEADReader demo_aead (replicate 16 7),
     \<lparr>rx = tx (snd (snd (write_all aead_Write [[1, 2], [3]] (newAEADWriter demo_aead (replicate 16 7), \<lparr>rx = [], tx = [], budget = 9\<rparr>)))), tx = [], budget = 0\<rparr>)) = [1, 2, 3]"
proof -
  obtain rs w1 c1 where w: "write_all aead_Write [[1, 2], [3]] (newAEADWriter demo_aead (replicate 16 7), \<lparr>rx = [], tx = [], budget = 9\<rparr>) = (rs, w1, c1)"
    using prod_cases3 by blast
  have "Overhead demo_aead < chunkSize" by (simp add: demo_aead_def chunkSize_def)
  from vmess_body_transparent [OF demo_aead_ok this _ _ w, of "[1, 1, 5]"] show ?thesis by (simp add: w del: write_all.simps drain.simps)
qed

end
