(* ===== verification/Vmess_Conn.thy ===== *)
theory Vmess_Conn
  imports Vmess_Stream Metadata
begin

text \<open>
  The request and the response of a VMess connection: \<open>transport/vmess/vmess.go\<close>, \<open>user.go\<close>,
  \<open>header.go\<close> and \<open>conn.go\<close>. The block ciphers and hash functions of the Go library are arguments
  (\<open>crypto\<close>), as are random bytes and the time; HMAC, the key derivation, FNV and the layout of the
  messages are written out.
\<close>

record crypto =
  md5 :: "byte list \<Rightarrow> byte list"
  sha256 :: "byte list \<Rightarrow> byte list"
  crc32 :: "byte list \<Rightarrow> uint32"
  aes :: "byte list \<Rightarrow> byte list \<Rightarrow> byte list"
  cfb_encrypt :: "byte list \<Rightarrow> byte list \<Rightarrow> byte list \<Rightarrow> byte list"
  cfb_decrypt :: "byte list \<Rightarrow> byte list \<Rightarrow> byte list \<Rightarrow> byte list"
  gcm_seal :: "byte list \<Rightarrow> byte list \<Rightarrow> byte list \<Rightarrow> byte list \<Rightarrow> byte list"
  gcm_open :: "byte list \<Rightarrow> byte list \<Rightarrow> byte list \<Rightarrow> byte list \<Rightarrow> byte list option"
  chacha20poly1305 :: "byte list \<Rightarrow> AEAD"

section \<open>Users\<close>

record vmess_ID =
  UUID :: "byte list"
  CmdKey :: "byte list"

definition newID :: "crypto \<Rightarrow> byte list \<Rightarrow> vmess_ID" where
  "newID C u = \<lparr>UUID = u, CmdKey = md5 C (u @ string_to_bytes ''c48619fe-8f02-49e0-b9e9-edf763e17e21'')\<rparr>"

text \<open>The loop of \<open>nextID\<close> adds to the hashed bytes until the hash differs from the identifier; it may never.\<close>

partial_function (option) nextID_loop :: "crypto \<Rightarrow> byte list \<Rightarrow> byte list \<Rightarrow> byte list option" where
  "nextID_loop C u hashed =
     (if md5 C hashed \<noteq> u then Some (md5 C hashed)
      else nextID_loop C u (hashed @ string_to_bytes ''533eff8a-4113-4b10-b5ce-0f5d76b98cd2''))"

definition nextID :: "crypto \<Rightarrow> byte list \<Rightarrow> byte list option" where
  "nextID C u = nextID_loop C u (u @ string_to_bytes ''16167dc8-16b6-4e6d-b8bb-65dd68113a81'')"

fun alter_ids :: "crypto \<Rightarrow> byte list \<Rightarrow> nat \<Rightarrow> byte list \<Rightarrow> vmess_ID list option" where
  "alter_ids C cmdKey 0 prev = Some []"
| "alter_ids C cmdKey (Suc n) prev =
     (case nextID C prev of
        None \<Rightarrow> None
      | Some u \<Rightarrow> map_option ((#) \<lparr>UUID = u, CmdKey = cmdKey\<rparr>) (alter_ids C cmdKey n u))"

definition newAlterIDs :: "crypto \<Rightarrow> vmess_ID \<Rightarrow> uint16 \<Rightarrow> vmess_ID list option" where
  "newAlterIDs C primary count = map_option (\<lambda>ids. ids @ [primary]) (alter_ids C (CmdKey primary) (unat count) (UUID primary))"

section \<open>The client\<close>

definition vmess_Version :: byte where "vmess_Version = 1"
definition OptionChunkStream :: byte where "OptionChunkStream = 1"
definition SecurityAES128GCM :: byte where "SecurityAES128GCM = 3"
definition SecurityCHACHA20POLY1305 :: byte where "SecurityCHACHA20POLY1305 = 4"
definition SecurityNone :: byte where "SecurityNone = 5"
definition vmess_CommandTCP :: byte where "vmess_CommandTCP = 1"
definition vmess_CommandUDP :: byte where "vmess_CommandUDP = 2"
definition vmess_AtypIPv4 :: byte where "vmess_AtypIPv4 = 1"
definition vmess_AtypDomainName :: byte where "vmess_AtypDomainName = 2"
definition vmess_AtypIPv6 :: byte where "vmess_AtypIPv6 = 3"

record vmess_DstAddr =
  dst_UDP :: bool
  dst_AddrType :: byte
  dst_Addr :: "byte list"
  dst_Port :: uint64

record vmess_Client =
  user :: "vmess_ID list"
  client_uuid :: "byte list"
  security :: byte
  isAead :: bool

record vmess_Config =
  cfg_UUID :: string
  cfg_AlterID :: uint16
  cfg_Security :: string
  cfg_Port :: string
  cfg_HostName :: string
  cfg_IsAead :: bool

datatype client_error = ErrUUID | ErrUnknownSecurity string

text \<open>
  \<open>FromString\<close> of the \<open>uuid\<close> package and \<open>runtime.GOARCH\<close> are arguments. \<open>None\<close> is the case that no
  next identifier is ever found.
\<close>

definition NewClient :: "crypto \<Rightarrow> (string \<Rightarrow> byte list option) \<Rightarrow> string \<Rightarrow> vmess_Config \<Rightarrow> (client_error + vmess_Client) option" where
  "NewClient C uuid_FromString goarch config =
     (case uuid_FromString (cfg_UUID config) of
        None \<Rightarrow> Some (Inl ErrUUID)
      | Some uid \<Rightarrow>
          (let sec = (if cfg_Security config = ''aes-128-gcm'' then Some SecurityAES128GCM
                      else if cfg_Security config = ''chacha20-poly1305'' then Some SecurityCHACHA20POLY1305
                      else if cfg_Security config = ''none'' then Some SecurityNone
                      else if cfg_Security config = ''auto'' then
                        Some (if goarch \<in> {''amd64'', ''s390x'', ''arm64''} then SecurityAES128GCM else SecurityCHACHA20POLY1305)
                      else None)
           in case sec of
                None \<Rightarrow> Some (Inl (ErrUnknownSecurity (cfg_Security config)))
              | Some s \<Rightarrow>
                  map_option (\<lambda>us. Inr \<lparr>user = us, client_uuid = uid, security = s, isAead = cfg_IsAead config\<rparr>)
                    (newAlterIDs C (newID C uid) (cfg_AlterID config))))"

section \<open>Key derivation and the sealed header\<close>

text \<open>\<open>hmac.New\<close> over a hash with blocks of 64 bytes, as SHA-256, MD5 and HMAC over them have.\<close>

definition HMAC :: "(byte list \<Rightarrow> byte list) \<Rightarrow> byte list \<Rightarrow> byte list \<Rightarrow> byte list" where
  "HMAC h k msg =
     (let k0 = (if length k > 64 then h k else k);
          pad = k0 @ replicate (64 - length k0) 0
      in h (map (\<lambda>b. b XOR 0x5c) pad @ h (map (\<lambda>b. b XOR 0x36) pad @ msg)))"

definition kdf :: "crypto \<Rightarrow> byte list \<Rightarrow> byte list list \<Rightarrow> byte list" where
  "kdf C k path = fold (\<lambda>v h. HMAC h v) path (HMAC (sha256 C) (string_to_bytes ''VMess AEAD KDF'')) k"

definition be64 :: "uint64 \<Rightarrow> byte list" where
  "be64 v = map (\<lambda>i. ucast (drop_bit (8 * i) v)) (rev [0..<8])"

definition be32 :: "uint32 \<Rightarrow> byte list" where
  "be32 v = map (\<lambda>i. ucast (drop_bit (8 * i) v)) (rev [0..<4])"

definition createAuthID :: "crypto \<Rightarrow> byte list \<Rightarrow> byte list \<Rightarrow> uint64 \<Rightarrow> byte list" where
  "createAuthID C random cmdKey time =
     (let buf = be64 time @ random
      in aes C (take 16 (kdf C cmdKey [string_to_bytes ''AES Auth ID Encryption''])) (buf @ be32 (crc32 C buf)))"

definition sealVMessAEADHeader :: "crypto \<Rightarrow> byte list \<Rightarrow> byte list \<Rightarrow> byte list \<Rightarrow> byte list \<Rightarrow> uint64 \<Rightarrow> byte list" where
  "sealVMessAEADHeader C random connectionNonce k data t =
     (let authID = createAuthID C random k t;
          derive = \<lambda>salt. kdf C k [string_to_bytes salt, authID, connectionNonce];
          lengthSealed = gcm_seal C (take 16 (derive ''VMess Header AEAD Key_Length'')) (take 12 (derive ''VMess Header AEAD Nonce_Length''))
            (PutUint16 (of_nat (length data))) authID;
          payloadSealed = gcm_seal C (take 16 (derive ''VMess Header AEAD Key'')) (take 12 (derive ''VMess Header AEAD Nonce'')) data authID
      in authID @ lengthSealed @ connectionNonce @ payloadSealed)"

section \<open>The request\<close>

record vmess_Conn =
  v_dst :: vmess_DstAddr
  v_id :: vmess_ID
  reqBodyIV :: "byte list"
  reqBodyKey :: "byte list"
  respBodyIV :: "byte list"
  respBodyKey :: "byte list"
  respV :: byte
  v_security :: byte
  v_isAead :: bool
  received :: bool

text \<open>FNV-1a of 32 bits.\<close>

definition fnv32a :: "byte list \<Rightarrow> uint32" where
  "fnv32a bs = foldl (\<lambda>h b. (h XOR ucast b) * 16777619) 2166136261 bs"

text \<open>The plain header; \<open>padding\<close> are the \<open>p < 16\<close> random bytes.\<close>

definition request_header :: "vmess_Conn \<Rightarrow> byte list \<Rightarrow> byte list" where
  "request_header vc padding =
     (let body = [vmess_Version] @ reqBodyIV vc @ reqBodyKey vc @ [respV vc] @ [OptionChunkStream] @
            [push_bit 4 (of_nat (length padding)) OR v_security vc] @ [0] @
            [if dst_UDP (v_dst vc) then vmess_CommandUDP else vmess_CommandTCP] @
            PutUint16 (ucast (dst_Port (v_dst vc))) @ [dst_AddrType (v_dst vc)] @ dst_Addr (v_dst vc) @ padding
      in body @ be32 (fnv32a body))"

definition hashTimestamp :: "crypto \<Rightarrow> uint64 \<Rightarrow> byte list" where
  "hashTimestamp C t = md5 C (be64 t @ be64 t @ be64 t @ be64 t)"

record vmess_random =
  rnd_padding :: "byte list"
  rnd_auth :: "byte list"
  rnd_nonce :: "byte list"

definition sendRequest :: "crypto \<Rightarrow> vmess_random \<Rightarrow> uint64 \<Rightarrow> vmess_Conn \<Rightarrow> (vmess_error, unit) io" where
  "sendRequest C R now vc =
     (let buf = request_header vc (rnd_padding R)
      in if \<not> v_isAead vc then
           Write VmessIO (HMAC (md5 C) (UUID (v_id vc)) (be64 now) @ cfb_encrypt C (CmdKey (v_id vc)) (hashTimestamp C now) buf)
         else
           Write VmessIO (sealVMessAEADHeader C (rnd_auth R) (rnd_nonce R) (take 16 (CmdKey (v_id vc) @ replicate 16 0)) buf now))"

section \<open>The response\<close>

definition recvResponse :: "crypto \<Rightarrow> vmess_Conn \<Rightarrow> (vmess_error, unit) io" where
  "recvResponse C vc =
     io_bind
       (if \<not> v_isAead vc then
          io_bind (ReadFull VmessIO 4) (\<lambda>buf. io_return (cfb_decrypt C (respBodyKey vc) (respBodyIV vc) buf))
        else
          io_bind (ReadFull VmessIO 18) (\<lambda>sealed.
            case gcm_open C (take 16 (kdf C (respBodyKey vc) [string_to_bytes ''AEAD Resp Header Len Key'']))
                   (take 12 (kdf C (respBodyIV vc) [string_to_bytes ''AEAD Resp Header Len IV''])) sealed [] of
              None \<Rightarrow> io_fail ErrOpen
            | Some lenBuf \<Rightarrow>
                io_bind (ReadFull VmessIO (unat (BE_Uint16 lenBuf + 16))) (\<lambda>sealed2.
                  case gcm_open C (take 16 (kdf C (respBodyKey vc) [string_to_bytes ''AEAD Resp Header Key'']))
                         (take 12 (kdf C (respBodyIV vc) [string_to_bytes ''AEAD Resp Header IV''])) sealed2 [] of
                    None \<Rightarrow> io_fail ErrOpen
                  | Some buf \<Rightarrow> if length buf < 4 then io_fail ErrBufferLength else io_return buf)))
       (\<lambda>buf. if buf ! 0 \<noteq> respV vc then io_fail ErrResponseHeader
              else if buf ! 2 \<noteq> 0 then io_fail ErrDynamicPort
              else io_return ())"

section \<open>newConn\<close>

datatype body_stream = ChunkBody chunkReader | AeadBody aeadReader aeadWriter

text \<open>The two 16-byte halves of the key of ChaCha20-Poly1305.\<close>

definition chacha_key :: "crypto \<Rightarrow> byte list \<Rightarrow> byte list" where
  "chacha_key C k = (let t = md5 C k in t @ md5 C (take 16 t))"

definition gcm_aead :: "crypto \<Rightarrow> byte list \<Rightarrow> AEAD" where
  "gcm_aead C k = \<lparr>Seal = (\<lambda>n p. gcm_seal C k n p []), Open = (\<lambda>n c. gcm_open C k n c []), Overhead = 16, NonceSize = 12\<rparr>"

definition newConn :: "crypto \<Rightarrow> byte list \<Rightarrow> vmess_random \<Rightarrow> uint64 \<Rightarrow> vmess_ID \<Rightarrow> vmess_DstAddr \<Rightarrow> byte \<Rightarrow> bool \<Rightarrow>
    (vmess_error, vmess_Conn \<times> body_stream option) io" where
  "newConn C randBytes R now i dst sec aead =
     (let riv = take 16 randBytes; rkey = take 16 (drop 16 randBytes);
          hash = (if aead then \<lambda>x. take 16 (sha256 C x) else md5 C);
          vc = \<lparr>v_dst = dst, v_id = i, reqBodyIV = riv, reqBodyKey = rkey, respBodyIV = hash riv, respBodyKey = hash rkey,
                respV = randBytes ! 32, v_security = sec, v_isAead = aead, received = False\<rparr>;
          body = (if sec = SecurityNone then Some (ChunkBody newChunkReader)
                  else if sec = SecurityAES128GCM then
                    Some (AeadBody (newAEADReader (gcm_aead C (hash rkey)) (hash riv)) (newAEADWriter (gcm_aead C rkey) riv))
                  else if sec = SecurityCHACHA20POLY1305 then
                    Some (AeadBody (newAEADReader (chacha20poly1305 C (chacha_key C (hash rkey))) (hash riv))
                            (newAEADWriter (chacha20poly1305 C (chacha_key C rkey)) riv))
                  else None)
      in io_bind (sendRequest C R now vc) (\<lambda>_. io_return (vc, body)))"

definition vmess_StreamConn :: "crypto \<Rightarrow> nat \<Rightarrow> byte list \<Rightarrow> vmess_random \<Rightarrow> uint64 \<Rightarrow> vmess_Client \<Rightarrow> vmess_DstAddr \<Rightarrow>
    (vmess_error, vmess_Conn \<times> body_stream option) io" where
  "vmess_StreamConn C r randBytes R now client dst = newConn C randBytes R now (user client ! r) dst (security client) (isAead client)"

text \<open>
  \<open>Read\<close> and \<open>Write\<close> of the connection. An unknown kind of security leaves both streams nil.
\<close>

fun body_Read :: "nat \<Rightarrow> body_stream option \<times> Conn \<Rightarrow> panic + (vmess_error + byte list) \<times> body_stream option \<times> Conn" where
  "body_Read n (None, c) = Inl NilDereference"
| "body_Read n (Some (ChunkBody cr), c) = (let (r, cr1, c1) = chunk_Read n (cr, c) in Inr (r, Some (ChunkBody cr1), c1))"
| "body_Read n (Some (AeadBody ar aw), c) = (let (r, ar1, c1) = aead_Read n (ar, c) in Inr (r, Some (AeadBody ar1 aw), c1))"

definition vmess_Read :: "crypto \<Rightarrow> nat \<Rightarrow> vmess_Conn \<times> body_stream option \<times> Conn \<Rightarrow>
    panic + (vmess_error + byte list) \<times> vmess_Conn \<times> body_stream option \<times> Conn" where
  "vmess_Read C n = (\<lambda>(vc, body, c).
     let (r, c1) = (if received vc then (Inr (), c) else recvResponse C vc c)
     in case r of
          Inl e \<Rightarrow> Inr (Inl e, vc, body, c1)
        | Inr _ \<Rightarrow> map_sum id (\<lambda>(out, body1, c2). (out, vc\<lparr>received := True\<rparr>, body1, c2)) (body_Read n (body, c1)))"

fun vmess_Write :: "byte list \<Rightarrow> body_stream option \<times> Conn \<Rightarrow> panic + (nat \<times> vmess_error option) \<times> body_stream option \<times> Conn" where
  "vmess_Write b (None, c) = Inl NilDereference"
| "vmess_Write b (Some (ChunkBody cr), c) = (let (r, c1) = chunk_Write b c in Inr (r, Some (ChunkBody cr), c1))"
| "vmess_Write b (Some (AeadBody ar aw), c) = (let (r, aw1, c1) = aead_Write b (aw, c) in Inr (r, Some (AeadBody ar aw1), c1))"

section \<open>parseVmessAddr\<close>

text \<open>\<open>parseVmessAddr\<close> of \<open>adapter/outbound/vmess.go\<close>; \<open>copy\<close> fills a zeroed slice.\<close>

definition copy_into :: "nat \<Rightarrow> byte list \<Rightarrow> byte list" where
  "copy_into n bs = take n (bs @ replicate n 0)"

definition parseVmessAddr :: "Metadata \<Rightarrow> vmess_DstAddr" where
  "parseVmessAddr md =
     (let (t, a) = (if AddrType md = AtypIPv4 then (vmess_AtypIPv4, copy_into 4 (To4 (DstIP md)))
                    else if AddrType md = AtypIPv6 then (vmess_AtypIPv6, copy_into 16 (To16 (DstIP md)))
                    else if AddrType md = AtypDomainName then (vmess_AtypDomainName, of_nat (length (Host md)) # string_to_bytes (Host md))
                    else (0, []));
          port = Atoi_value (DstPort md)
      in \<lparr>dst_UDP = (NetWork md = UDP), dst_AddrType = t, dst_Addr = a, dst_Port = word_of_int port\<rparr>)"

section \<open>The server understands the request\<close>

text \<open>
  What the protocol prescribes for the server: \<open>open_header\<close> opens the sealed header with the key of
  the user, \<open>parse_header\<close> checks the sum and reads the fields.
\<close>

record vmess_request =
  q_iv :: "byte list"
  q_key :: "byte list"
  q_respV :: byte
  q_option :: byte
  q_security :: byte
  q_command :: byte
  q_port :: uint16
  q_atyp :: byte
  q_addr :: "byte list"

definition parse_header :: "byte list \<Rightarrow> vmess_request option" where
  "parse_header bs =
     (let n = length bs - 4; body = take n bs; p = unat (drop_bit 4 (body ! 35)); rest = drop 41 body
      in if drop n bs \<noteq> be32 (fnv32a body) \<or> length body < 41 + p \<or> body ! 0 \<noteq> vmess_Version then None
         else Some \<lparr>q_iv = take 16 (drop 1 body), q_key = take 16 (drop 17 body), q_respV = body ! 33, q_option = body ! 34,
                q_security = body ! 35 AND 15, q_command = body ! 37, q_port = BE_Uint16 (drop 38 body), q_atyp = body ! 40,
                q_addr = take (length rest - p) rest\<rparr>)"

definition open_header :: "crypto \<Rightarrow> byte list \<Rightarrow> byte list \<Rightarrow> byte list option" where
  "open_header C k bs =
     (let authID = take 16 bs; nonce = take 8 (drop 34 bs);
          derive = \<lambda>salt. kdf C k [string_to_bytes salt, authID, nonce]
      in case gcm_open C (take 16 (derive ''VMess Header AEAD Key_Length'')) (take 12 (derive ''VMess Header AEAD Nonce_Length''))
                (take 18 (drop 16 bs)) authID of
           None \<Rightarrow> None
         | Some l \<Rightarrow>
             gcm_open C (take 16 (derive ''VMess Header AEAD Key'')) (take 12 (derive ''VMess Header AEAD Nonce''))
               (take (unat (BE_Uint16 l) + 16) (drop 42 bs)) authID)"

text \<open>What the Go library documents of AES and GCM: a block stays a block, and a sealed message opens with the same parameters.\<close>

definition crypto_ok :: "crypto \<Rightarrow> bool" where
  "crypto_ok C \<longleftrightarrow> (\<forall>k b. length b = 16 \<longrightarrow> length (aes C k b) = 16) \<and>
     (\<forall>k n p a. gcm_open C k n (gcm_seal C k n p a) a = Some p \<and> length (gcm_seal C k n p a) = length p + 16)"

lemma length_be [simp]: "length (be64 t) = 8" "length (be32 v) = 4"
  by (simp_all add: be64_def be32_def)

lemma open_sealed_header:
  assumes "crypto_ok C" "length random = 4" "length connectionNonce = 8" "length data < 65536"
  shows "open_header C k (sealVMessAEADHeader C random connectionNonce k data t @ rest) = Some data"
proof -
  let ?id = "createAuthID C random k t"
  have id: "length ?id = 16" using assms(1,2) by (simp add: createAuthID_def crypto_ok_def Let_def)
  have len: "unat (of_nat (length data) :: uint16) = length data" using assms(4) by (simp add: unat_of_nat)
  show ?thesis using assms(1,3) id len
    by (simp add: open_header_def sealVMessAEADHeader_def crypto_ok_def Let_def)
qed

lemma security_bits:
  assumes "p < 16" "s \<in> {SecurityAES128GCM, SecurityCHACHA20POLY1305, SecurityNone}"
  shows "unat (drop_bit 4 (push_bit 4 (of_nat p) OR s :: byte)) = p" "(push_bit 4 (of_nat p) OR s) AND 15 = s"
proof -
  have "\<forall>p \<in> set [0..<16]. \<forall>s \<in> set [3, 4, 5]. unat (drop_bit 4 (push_bit 4 (of_nat p) OR s :: byte)) = p \<and> (push_bit 4 (of_nat p) OR s) AND 15 = s"
    by code_simp
  moreover have "p \<in> set [0..<16]" "s \<in> set [3, 4, 5]"
    using assms by (auto simp: SecurityAES128GCM_def SecurityCHACHA20POLY1305_def SecurityNone_def)
  ultimately show "unat (drop_bit 4 (push_bit 4 (of_nat p) OR s :: byte)) = p" "(push_bit 4 (of_nat p) OR s) AND 15 = s" by blast+
qed

lemma parse_request_header:
  assumes "length (reqBodyIV vc) = 16" "length (reqBodyKey vc) = 16" "length padding < 16"
    and "v_security vc \<in> {SecurityAES128GCM, SecurityCHACHA20POLY1305, SecurityNone}"
  shows "parse_header (request_header vc padding) =
    Some \<lparr>q_iv = reqBodyIV vc, q_key = reqBodyKey vc, q_respV = respV vc, q_option = OptionChunkStream, q_security = v_security vc,
      q_command = (if dst_UDP (v_dst vc) then vmess_CommandUDP else vmess_CommandTCP),
      q_port = ucast (dst_Port (v_dst vc)), q_atyp = dst_AddrType (v_dst vc), q_addr = dst_Addr (v_dst vc)\<rparr>"
proof -
  have port: "BE_Uint16 (PutUint16 v @ xs) = v" for v xs using BE_Uint16_PutUint16 [of v] by (simp add: BE_Uint16_def PutUint16_def)
  let ?b = "push_bit 4 (of_nat (length padding)) OR v_security vc"
  let ?cmd = "if dst_UDP (v_dst vc) then vmess_CommandUDP else vmess_CommandTCP"
  define body where "body = [vmess_Version] @ reqBodyIV vc @ reqBodyKey vc @ [respV vc, OptionChunkStream, ?b, 0, ?cmd] @
     PutUint16 (ucast (dst_Port (v_dst vc))) @ [dst_AddrType (v_dst vc)] @ dst_Addr (v_dst vc) @ padding"
  have hdr: "request_header vc padding = body @ be32 (fnv32a body)" by (simp add: request_header_def body_def Let_def)
  have at: "body ! 0 = vmess_Version" "body ! 33 = respV vc" "body ! 34 = OptionChunkStream" "body ! 35 = ?b" "body ! 37 = ?cmd"
    "body ! 40 = dst_AddrType (v_dst vc)"
    using assms(1,2) by (simp_all add: body_def nth_append)
  have sub: "take 16 (drop 1 body) = reqBodyIV vc" "take 16 (drop 17 body) = reqBodyKey vc" "BE_Uint16 (drop 38 body) = ucast (dst_Port (v_dst vc))"
    "drop 41 body = dst_Addr (v_dst vc) @ padding" "length body = 41 + length (dst_Addr (v_dst vc)) + length padding"
    using assms(1,2) by (simp_all add: body_def port)
  have "unat (drop_bit 4 (body ! 35)) = length padding" "body ! 35 AND 15 = v_security vc"
    unfolding at by (rule security_bits [OF assms(3,4)])+
  with at sub show ?thesis unfolding hdr parse_header_def Let_def by simp
qed

text \<open>The metadata a VMess request can carry, and the address bytes it is carried in.\<close>

definition vmess_addressable :: "Metadata \<Rightarrow> bool" where
  "vmess_addressable md \<longleftrightarrow>
     AddrType md = AtypIPv4 \<and> length (To4 (DstIP md)) = 4 \<or> AddrType md = AtypIPv6 \<and> length (To16 (DstIP md)) = 16 \<or>
     AddrType md = AtypDomainName \<and> length (Host md) \<le> 255"

definition vmess_addr_bytes :: "Metadata \<Rightarrow> byte \<times> byte list" where
  "vmess_addr_bytes md =
     (if AddrType md = AtypIPv4 then (vmess_AtypIPv4, To4 (DstIP md))
      else if AddrType md = AtypIPv6 then (vmess_AtypIPv6, To16 (DstIP md))
      else (vmess_AtypDomainName, of_nat (length (Host md)) # string_to_bytes (Host md)))"

lemma parseVmessAddr_addr:
  "vmess_addressable md \<Longrightarrow> (dst_AddrType (parseVmessAddr md), dst_Addr (parseVmessAddr md)) = vmess_addr_bytes md \<and>
     length (dst_Addr (parseVmessAddr md)) \<le> 256"
  by (auto simp: vmess_addressable_def parseVmessAddr_def vmess_addr_bytes_def copy_into_def AtypIPv4_def AtypIPv6_def AtypDomainName_def)

lemma port_bits: "ucast (word_of_int p :: uint64) = (word_of_int p :: uint16)"
  by (rule bit_word_eqI) (simp add: bit_simps)


definition demo_crypto :: crypto where
  "demo_crypto = \<lparr>md5 = (\<lambda>_. replicate 16 0), sha256 = (\<lambda>_. replicate 32 0), crc32 = (\<lambda>_. 0), aes = (\<lambda>k b. b),
     cfb_encrypt = (\<lambda>k iv b. b), cfb_decrypt = (\<lambda>k iv b. b),
     gcm_seal = (\<lambda>k n p a. p @ replicate 16 0), gcm_open = (\<lambda>k n c a. Some (take (length c - 16) c)), chacha20poly1305 = (\<lambda>_. demo_aead)\<rparr>"

lemma demo_crypto_ok: "crypto_ok demo_crypto"
  by (simp add: crypto_ok_def demo_crypto_def)

definition demo_vmess_metadata :: Metadata where
  "demo_vmess_metadata = \<lparr>NetWork = TCP, Type = HTTP, SrcIP = [], DstIP = [], SrcPort = [], DstPort = ''443'', AddrType = AtypDomainName, Host = ''a.com''\<rparr>"


text \<open>
  C37: The client accepts exactly the response to its own request: of a response that the server sealed for
  this connection it takes the sealed bytes and no more, and it succeeds if and only if the first
  byte is the one the request asked for and there is no command.
\<close>

theorem vmess_response_checked:
  assumes "crypto_ok C" "v_isAead vc" "4 \<le> length h" "length h < 65520"
    and "lenSealed = gcm_seal C (take 16 (kdf C (respBodyKey vc) [string_to_bytes ''AEAD Resp Header Len Key'']))
      (take 12 (kdf C (respBodyIV vc) [string_to_bytes ''AEAD Resp Header Len IV''])) (PutUint16 (of_nat (length h))) []"
    and "hSealed = gcm_seal C (take 16 (kdf C (respBodyKey vc) [string_to_bytes ''AEAD Resp Header Key'']))
      (take 12 (kdf C (respBodyIV vc) [string_to_bytes ''AEAD Resp Header IV''])) h []"
  shows "recvResponse C vc \<lparr>rx = lenSealed @ hSealed @ rest, tx = t, budget = k\<rparr> =
    (if h ! 0 \<noteq> respV vc then Inl ErrResponseHeader else if h ! 2 \<noteq> 0 then Inl ErrDynamicPort else Inr (), \<lparr>rx = rest, tx = t, budget = k\<rparr>)"
proof -
  have l: "length lenSealed = 18" and h: "length hSealed = length h + 16" using assms(1) by (simp_all add: assms(5,6) crypto_ok_def)
  have "(of_nat (length h) :: uint16) + 16 = of_nat (length h + 16)" by simp
  then have n: "unat ((of_nat (length h) :: uint16) + 16) = length hSealed" using assms(4) h by (simp only: unat_of_nat) simp
  have o1: "gcm_open C (take 16 (kdf C (respBodyKey vc) [string_to_bytes ''AEAD Resp Header Len Key'']))
      (take 12 (kdf C (respBodyIV vc) [string_to_bytes ''AEAD Resp Header Len IV''])) lenSealed [] = Some (PutUint16 (of_nat (length h)))"
    and o2: "gcm_open C (take 16 (kdf C (respBodyKey vc) [string_to_bytes ''AEAD Resp Header Key'']))
      (take 12 (kdf C (respBodyIV vc) [string_to_bytes ''AEAD Resp Header IV''])) hSealed [] = Some h"
    using assms(1) by (simp_all add: assms(5,6) crypto_ok_def)
  show ?thesis using assms(2,3) l n o1 o2
    by (simp add: recvResponse_def io_bind_def io_return_def io_fail_def)
qed

theorem vmess_response_checked_witness:
  "fst (recvResponse demo_crypto \<lparr>v_dst = parseVmessAddr demo_vmess_metadata, v_id = newID demo_crypto [], reqBodyIV = [], reqBodyKey = [], respBodyIV = [], respBodyKey = [],
      respV = 7, v_security = SecurityNone, v_isAead = True, received = False\<rparr>
     \<lparr>rx = (PutUint16 4 @ replicate 16 0) @ ([7, 0, 0, 0] @ replicate 16 0) @ [1], tx = [], budget = 0\<rparr>) = Inr ()"
proof -
  let ?vc = "\<lparr>v_dst = parseVmessAddr demo_vmess_metadata, v_id = newID demo_crypto [], reqBodyIV = [], reqBodyKey = [], respBodyIV = [], respBodyKey = [],
      respV = 7, v_security = SecurityNone, v_isAead = True, received = False\<rparr>"
  have seal: "gcm_seal demo_crypto k n p a = p @ replicate 16 0" for k n p a by (simp add: demo_crypto_def)
  show ?thesis using vmess_response_checked [OF demo_crypto_ok _ _ _ refl refl, of ?vc "[7, 0, 0, 0]" "[1]" "[]" 0]
    unfolding seal by simp
qed

end
