(* ===== verification/Gun.thy ===== *)
theory Gun
  imports Go_Stream
begin

text \<open>
  \<open>transport/gun/gun.go\<close>: a stream inside the messages of a gRPC call. The HTTP/2 transport is outside:
  \<open>RoundTrip\<close> either fails or delivers the body of the response, which is what the connection reads,
  and the pipe of the request body is what it writes. Deadlines are timers that call \<open>Close\<close>.
\<close>

datatype gun_error = GunIO io_error | ErrInvalidLength | ErrClosed | ErrRoundTrip | ErrClosedPipe

record gun_Config =
  ServiceName :: string
  gun_Host :: string

record gun_Conn =
  g_once :: bool
  g_err :: "gun_error option"
  g_close :: bool
  g_response :: bool
  g_wclosed :: bool
  g_remain :: nat

definition new_gun_Conn :: gun_Conn where
  "new_gun_Conn = \<lparr>g_once = False, g_err = None, g_close = False, g_response = False, g_wclosed = False, g_remain = 0\<rparr>"

section \<open>Variable-length integers\<close>

fun PutUvarint :: "nat \<Rightarrow> byte list" where
  "PutUvarint x = (if x < 128 then [of_nat x] else of_nat (x mod 128 + 128) # PutUvarint (x div 128))"

declare PutUvarint.simps [simp del]

text \<open>
  \<open>binary.ReadUvarint\<close>: at most ten bytes, the last of them at most 1. \<open>None\<close> is an error, an overflow
  or the end of the stream; the second component is what is left.
\<close>

fun ReadUvarint :: "nat \<Rightarrow> nat \<Rightarrow> byte list \<Rightarrow> nat option \<times> byte list" where
  "ReadUvarint i x [] = (None, [])"
| "ReadUvarint i x (b # bs) =
     (if i = 10 then (None, b # bs)
      else if unat b < 128 then
        (if i = 9 \<and> unat b > 1 then (None, bs) else (Some (x + unat b * 128 ^ i), bs))
      else if i = 9 then (None, bs)
      else ReadUvarint (i + 1) (x + unat b mod 128 * 128 ^ i) bs)"

lemma ReadUvarint_PutUvarint:
  "n < 128 ^ m \<Longrightarrow> i + m \<le> 9 \<Longrightarrow> ReadUvarint i x (PutUvarint n @ rest) = (Some (x + n * 128 ^ i), rest)"
proof (induction n arbitrary: i x m rule: PutUvarint.induct)
  case (1 n)
  show ?case
  proof (cases "n < 128")
    case True
    then have "unat (of_nat n :: byte) = n" by (simp add: unat_of_nat)
    moreover have "i \<noteq> 10 \<and> (i = 9 \<longrightarrow> n \<le> 1)" using "1.prems" by (cases m) auto
    ultimately show ?thesis using True by (auto simp: PutUvarint.simps [of n])
  next
    case False
    then obtain m' where m: "m = Suc m'" using "1.prems"(1) by (cases m) auto
    have b: "unat (of_nat (n mod 128 + 128) :: byte) = n mod 128 + 128"
      by (simp add: unat_of_nat del: of_nat_add)
    have "n div 128 < 128 ^ m'" using "1.prems"(1) m by (simp add: less_mult_imp_div_less mult.commute)
    moreover have "i + 1 + m' \<le> 9" using "1.prems"(2) m by simp
    ultimately have "ReadUvarint (i + 1) (x + n mod 128 * 128 ^ i) (PutUvarint (n div 128) @ rest) =
        (Some (x + n mod 128 * 128 ^ i + n div 128 * 128 ^ (i + 1)), rest)"
      by (rule "1.IH" [OF False])
    moreover have "x + n mod 128 * 128 ^ i + n div 128 * 128 ^ (i + 1) = x + n * 128 ^ i"
    proof -
      have "n mod 128 * 128 ^ i + n div 128 * 128 ^ (i + 1) = (n mod 128 + n div 128 * 128) * 128 ^ i"
        by (simp only: power_add power_one_right) (simp only: algebra_simps)
      then show ?thesis by (simp only: mod_div_mult_eq add.assoc)
    qed
    moreover have "i \<noteq> 9" "i \<noteq> 10" using "1.prems"(2) m by simp_all
    ultimately show ?thesis using False b by (simp add: PutUvarint.simps [of n])
  qed
qed

section \<open>The connection\<close>

definition initRequest :: "bool \<Rightarrow> gun_Conn \<Rightarrow> gun_Conn" where
  "initRequest roundTrip g =
     (if g_once g then g
      else let g1 = g\<lparr>g_once := True\<rparr>
           in if \<not> roundTrip then g1\<lparr>g_err := Some ErrRoundTrip, g_wclosed := True\<rparr>
              else if \<not> g_close g1 then g1\<lparr>g_response := True\<rparr>
              else g1)"

definition PutUint32 :: "uint32 \<Rightarrow> byte list" where
  "PutUint32 v = [ucast (drop_bit 24 v), ucast (drop_bit 16 v), ucast (drop_bit 8 v), ucast v]"

lemma length_PutUint32 [simp]: "length (PutUint32 v) = 4"
  by (simp add: PutUint32_def)

text \<open>
  \<open>io.ReadFull\<close> with the number of bytes read when it fails. \<open>protobufPayloadLen\<close> is a \<open>uint64\<close> that is
  converted to an \<open>int\<close>: from \<open>2 ^ 63\<close> on the size is negative and the slice is out of range.
\<close>

definition gun_Read :: "bool \<Rightarrow> nat \<Rightarrow> gun_Conn \<times> Conn \<Rightarrow> panic + (gun_error + byte list) \<times> gun_Conn \<times> Conn" where
  "gun_Read roundTrip n = (\<lambda>(g0, c).
     let g = initRequest roundTrip g0
     in case g_err g of
          Some e \<Rightarrow> Inr (Inl e, g, c)
        | None \<Rightarrow>
            if g_remain g > 0 then
              (let sz = (if n < g_remain g then n else g_remain g)
               in case ReadFull GunIO sz c of
                    (Inl e, c1) \<Rightarrow> Inr (Inl e, g\<lparr>g_remain := g_remain g - length (rx c)\<rparr>, c1)
                  | (Inr b, c1) \<Rightarrow> Inr (Inr b, g\<lparr>g_remain := g_remain g - sz\<rparr>, c1))
            else if \<not> g_response g then Inr (Inl ErrClosed, g, c)
            else
              (case ReadFull GunIO 6 c of
                 (Inl e, c1) \<Rightarrow> Inr (Inl (GunIO EOF), g, c1)
               | (Inr _, c1) \<Rightarrow>
                   (case ReadUvarint 0 0 (rx c1) of
                      (None, rest) \<Rightarrow> Inr (Inl ErrInvalidLength, g, c1\<lparr>rx := rest\<rparr>)
                    | (Some payloadLen, rest) \<Rightarrow>
                        if payloadLen \<ge> 2 ^ 63 then Inl IndexOutOfRange
                        else let sz = (if n < payloadLen then n else payloadLen)
                             in case ReadFull GunIO sz (c1\<lparr>rx := rest\<rparr>) of
                                  (Inl e, c2) \<Rightarrow> Inr (Inl e, g, c2)
                                | (Inr b, c2) \<Rightarrow>
                                    Inr (Inr b, if payloadLen - sz > 0 then g\<lparr>g_remain := payloadLen - sz\<rparr> else g, c2))))"

definition gun_Write :: "byte list \<Rightarrow> gun_Conn \<times> Conn \<Rightarrow> (nat \<times> gun_error option) \<times> gun_Conn \<times> Conn" where
  "gun_Write b = (\<lambda>(g, c).
     let varint = PutUvarint (length b);
         grpcHeader = 0 # PutUint32 (of_nat (length varint + 1 + length b));
         (err, c1) = (if g_wclosed g then (Some ErrClosedPipe, c)
                      else case Write GunIO (grpcHeader @ [10] @ varint @ b) c of (Inl e, c1) \<Rightarrow> (Some e, c1) | (Inr _, c1) \<Rightarrow> (None, c1));
         err1 = (if err = Some ErrClosedPipe \<and> g_err g \<noteq> None then g_err g else err)
     in ((length b, err1), g, c1))"

definition gun_Close :: "gun_Conn \<Rightarrow> gun_Conn" where
  "gun_Close g = g\<lparr>g_close := True, g_wclosed := True\<rparr>"

text \<open>The path of the request that \<open>StreamGunWithTransport\<close> sends.\<close>

definition gun_path :: "gun_Config \<Rightarrow> string" where
  "gun_path cfg = ''/'' @ (if ServiceName cfg \<noteq> [] then ServiceName cfg else ''GunService'') @ ''/Tun''"

section \<open>Reading gives what was written\<close>

definition gun_message :: "byte list \<Rightarrow> byte list" where
  "gun_message p = 0 # PutUint32 (of_nat (length (PutUvarint (length p)) + 1 + length p)) @ 10 # PutUvarint (length p) @ p"

inductive messages :: "byte list \<Rightarrow> byte list \<Rightarrow> bool" where
  messages_Nil: "messages [] []"
| messages_Cons: "0 < length p \<Longrightarrow> length p < 128 ^ 8 \<Longrightarrow> messages enc ds \<Longrightarrow> messages (gun_message p @ enc) (p @ ds)"

lemma messages_append: "messages e1 d1 \<Longrightarrow> messages e2 d2 \<Longrightarrow> messages (e1 @ e2) (d1 @ d2)"
  by (induction rule: messages.induct) (auto intro: messages.intros)

lemma messages_first:
  "messages enc ds \<Longrightarrow> ds \<noteq> [] \<Longrightarrow> \<exists>p e d. ds = p @ d \<and> 0 < length p \<and> length p < 128 ^ 8 \<and> enc = gun_message p @ e \<and> messages e d"
  by (erule messages.cases) (simp, blast)

lemma messages_empty: "messages enc [] \<Longrightarrow> enc = []"
  by (erule messages.cases) simp_all

text \<open>The reads of a call that the server answered.\<close>

definition gun_read :: "nat \<Rightarrow> gun_Conn \<times> Conn \<Rightarrow> (gun_error option + byte list) \<times> gun_Conn \<times> Conn" where
  "gun_read n s = (case gun_Read True n s of Inl p \<Rightarrow> (Inl None, s) | Inr (Inl e, s1) \<Rightarrow> (Inl (Some e), s1) | Inr (Inr b, s1) \<Rightarrow> (Inr b, s1))"

definition gun_carries :: "gun_Conn \<times> Conn \<Rightarrow> byte list \<Rightarrow> bool" where
  "gun_carries = (\<lambda>(g, c) ds. g_err (initRequest True g) = None \<and> g_response (initRequest True g) \<and>
     (\<exists>pre enc rest. length pre = g_remain g \<and> rx c = pre @ enc \<and> messages enc rest \<and> ds = pre @ rest))"

lemma initRequest_remain [simp]: "g_remain (initRequest b g) = g_remain g"
  by (simp add: initRequest_def Let_def)

lemma initRequest_again: "g_once (initRequest b g) = True" "g_once g \<Longrightarrow> initRequest b' g = g"
  by (simp_all add: initRequest_def Let_def)

lemma gun_carriesI:
  "g_once g \<Longrightarrow> g_err g = None \<Longrightarrow> g_response g \<Longrightarrow> length pre = g_remain g \<Longrightarrow> rx c = pre @ enc \<Longrightarrow> messages enc rest \<Longrightarrow>
     gun_carries (g, c) (pre @ rest)"
  unfolding gun_carries_def using initRequest_again(2) [of g True] by auto

lemma gun_Read_message:
  assumes "g = initRequest True g0" "g_err g = None" "g_response g" "g_remain g = 0" "length p < 128 ^ 8"
    and "c = \<lparr>rx = gun_message p @ enc, tx = t, budget = k\<rparr>"
  shows "gun_read n (g0, c) = (Inr (take n p), if length p - n > 0 then g\<lparr>g_remain := length p - n\<rparr> else g, \<lparr>rx = drop n p @ enc, tx = t, budget = k\<rparr>)"
proof -
  let ?hd = "0 # PutUint32 (of_nat (length (PutUvarint (length p)) + 1 + length p)) @ [10]"
  have rf: "ReadFull GunIO 6 c = (Inr ?hd, \<lparr>rx = PutUvarint (length p) @ p @ enc, tx = t, budget = k\<rparr>)"
    by (simp add: assms(6) gun_message_def ReadFull_def PutUint32_def numeral_eq_Suc)
  have uv: "ReadUvarint 0 0 (PutUvarint (length p) @ p @ enc) = (Some (length p), p @ enc)"
    using ReadUvarint_PutUvarint [OF assms(5), of 0 0 "p @ enc"] by simp
  have "(128 :: nat) ^ 8 < 2 ^ 63" by simp
  then have "\<not> 2 ^ 63 \<le> length p" using assms(5) by linarith
  then show ?thesis using assms(1-4) rf uv
    by (simp add: gun_read_def gun_Read_def Let_def ReadFull_def [of GunIO "min n (length p)"] ReadFull_def min_def)
qed

interpretation gun_stream: stream_reader gun_read gun_carries 1
proof
  fix s :: "gun_Conn \<times> Conn" and ds :: "byte list" and n :: nat
  obtain g0 c where s: "s = (g0, c)" by (cases s)
  let ?g = "initRequest True g0"
  assume "gun_carries s ds" and ds0: "ds \<noteq> []" and n: "1 \<le> n"
  then obtain pre enc rest where g: "g_err ?g = None" "g_response ?g" and pre: "length pre = g_remain g0" and rx: "rx c = pre @ enc"
    and me: "messages enc rest" and ds: "ds = pre @ rest" by (auto simp: gun_carries_def s)
  show "\<exists>bs rest s'. gun_read n s = (Inr bs, s') \<and> bs \<noteq> [] \<and> length bs \<le> n \<and> ds = bs @ rest \<and> gun_carries s' rest"
  proof (cases "g_remain g0 = 0")
    case False
    let ?sz = "if n < g_remain g0 then n else g_remain g0"
    have "gun_read n s = (Inr (take ?sz pre), ?g\<lparr>g_remain := g_remain g0 - ?sz\<rparr>, c\<lparr>rx := drop ?sz pre @ enc\<rparr>)"
      using False g pre rx by (simp add: gun_read_def gun_Read_def s Let_def ReadFull_def)
    moreover have "gun_carries (?g\<lparr>g_remain := g_remain g0 - ?sz\<rparr>, c\<lparr>rx := drop ?sz pre @ enc\<rparr>) (drop ?sz pre @ rest)"
      by (rule gun_carriesI) (use g pre me initRequest_again(1) in simp_all)
    ultimately show ?thesis using False pre n ds by (intro exI [of _ "take ?sz pre"] exI [of _ "drop ?sz pre @ rest"]) auto
  next
    case True
    then have "pre = []" using pre by simp
    with ds ds0 have "rest \<noteq> []" by simp
    from messages_first [OF me this] obtain p e d where rest: "rest = p @ d" and p: "0 < length p" "length p < 128 ^ 8" and
      enc: "enc = gun_message p @ e" and d: "messages e d" by blast
    obtain t k where c: "c = \<lparr>rx = gun_message p @ e, tx = t, budget = k\<rparr>" using rx enc \<open>pre = []\<close> by (cases c) auto
    let ?g1 = "if length p - n > 0 then ?g\<lparr>g_remain := length p - n\<rparr> else ?g"
    have "gun_read n s = (Inr (take n p), ?g1, \<lparr>rx = drop n p @ e, tx = t, budget = k\<rparr>)"
      unfolding s by (rule gun_Read_message [OF refl g _ p(2) c]) (simp add: True)
    moreover have "gun_carries (?g1, \<lparr>rx = drop n p @ e, tx = t, budget = k\<rparr>) (drop n p @ d)"
      by (rule gun_carriesI) (use g d True initRequest_again(1) in auto)
    ultimately show ?thesis using p n ds rest \<open>pre = []\<close> by (intro exI [of _ "take n p"] exI [of _ "drop n p @ d"]) auto
  qed
next
  fix s :: "gun_Conn \<times> Conn" and n :: nat
  assume "gun_carries s []"
  moreover obtain g c where s: "s = (g, c)" by (cases s)
  ultimately have "g_remain g = 0" "rx c = []" "g_err (initRequest True g) = None" "g_response (initRequest True g)"
    by (auto simp: gun_carries_def dest: messages_empty)
  then show "\<exists>e s'. gun_read n s = (Inl e, s')" by (simp add: s gun_read_def gun_Read_def Let_def ReadFull_def)
qed

interpretation gun_codec: stream_codec gun_read gun_carries 1 gun_Write
  "\<lambda>g enc ds g1. messages enc ds \<and> g1 = g" "\<lambda>b. b \<noteq> [] \<and> length b < 128 ^ 8" "\<lambda>g. \<not> g_wclosed g" "\<lambda>_. True"
  "\<lambda>_ enc. (new_gun_Conn, \<lparr>rx = enc, tx = [], budget = 0\<rparr>)"
proof
  fix g :: gun_Conn and b :: "byte list" and c :: Conn
  assume g: "\<not> g_wclosed g" and b: "b \<noteq> [] \<and> length b < 128 ^ 8" and "length b \<le> budget c"
  then have "0 < budget c" by (cases "budget c") auto
  then have "gun_Write b (g, c) = ((length b, None), g, c\<lparr>tx := tx c @ gun_message b, budget := budget c - 1\<rparr>)"
    using g by (simp add: gun_Write_def gun_message_def Write_def Let_def)
  moreover have "messages (gun_message b) b" using messages_Cons [OF _ _ messages_Nil, of b] b by simp
  moreover have "budget c \<le> budget c - 1 + length b" using b by (cases b) auto
  ultimately show "\<exists>enc g1 c1. gun_Write b (g, c) = ((length b, None), g1, c1) \<and> \<not> g_wclosed g1 \<and> (messages enc b \<and> g1 = g) \<and>
      tx c1 = tx c @ enc \<and> budget c \<le> budget c1 + length b" using g by auto
qed (auto intro: messages_Nil messages_append simp: gun_carries_def new_gun_Conn_def initRequest_def)

text \<open>
  C39: The gRPC tunnel is transparent: what is written in messages of any length below \<open>2 ^ 56\<close> is read
  back in order from the body of the response, whatever the sizes of the read buffers.
\<close>

theorem gun_transparent:
  assumes "\<forall>b \<in> set bs. b \<noteq> [] \<and> length b < 128 ^ 8" "length (concat bs) \<le> budget c" "tx c = []"
    and "write_all gun_Write bs (new_gun_Conn, c) = (rs, g1, c1)"
    and "\<forall>n \<in> set ns. 1 \<le> n" "length (concat bs) \<le> length ns"
  shows "rs = map (\<lambda>b. (length b, None)) bs \<and> fst (drain gun_read ns (new_gun_Conn, \<lparr>rx = tx c1, tx = [], budget = 0\<rparr>)) = concat bs"
  using gun_codec.written_is_read [of new_gun_Conn bs c rs g1 c1 ns] assms by (simp add: new_gun_Conn_def)

theorem gun_transparent_witness:
  "fst (drain gun_read [1, 1, 5] (new_gun_Conn,
     \<lparr>rx = tx (snd (snd (write_all gun_Write [[1, 2], [3]] (new_gun_Conn, \<lparr>rx = [], tx = [], budget = 9\<rparr>)))), tx = [], budget = 0\<rparr>)) = [1, 2, 3]"
proof -
  obtain rs w1 c1 where w: "write_all gun_Write [[1, 2], [3]] (new_gun_Conn, \<lparr>rx = [], tx = [], budget = 9\<rparr>) = (rs, w1, c1)"
    using prod_cases3 by blast
  from gun_transparent [OF _ _ _ w, of "[1, 1, 5]"] show ?thesis by (simp add: w del: write_all.simps drain.simps)
qed

text \<open>A server that announces \<open>2 ^ 63\<close> bytes or more crashes the client.\<close>

lemma gun_length_panics:
  "gun_Read True 100 (new_gun_Conn, \<lparr>rx = [0, 0, 0, 0, 0, 0, 128, 128, 128, 128, 128, 128, 128, 128, 128, 1], tx = [], budget = 0\<rparr>) = Inl IndexOutOfRange"
  by (simp add: gun_Read_def new_gun_Conn_def initRequest_def Let_def ReadFull_def)

end
