(* ===== verification/Go_Http.thy ===== *)
theory Go_Http
  imports Go_Conn
begin

text \<open>
  What the program uses of Go's \<open>encoding/base64\<close> and of the headers of \<open>net/http\<close>: a header maps a
  key in canonical form to its values.
\<close>

section \<open>base64.StdEncoding\<close>

definition base64_char :: "nat \<Rightarrow> char" where
  "base64_char i = char_of (if i < 26 then 65 + i else if i < 52 then 71 + i else if i < 62 then i - 4 else if i = 62 then 43 else 47)"

fun base64_Encode :: "byte list \<Rightarrow> string" where
  "base64_Encode (a # b # c # rest) =
     (let v = unat a * 65536 + unat b * 256 + unat c
      in base64_char (v div 262144) # base64_char (v div 4096 mod 64) # base64_char (v div 64 mod 64) # base64_char (v mod 64) # base64_Encode rest)"
| "base64_Encode [a, b] =
     (let v = unat a * 65536 + unat b * 256
      in [base64_char (v div 262144), base64_char (v div 4096 mod 64), base64_char (v div 64 mod 64), CHR ''=''])"
| "base64_Encode [a] = (let v = unat a * 65536 in [base64_char (v div 262144), base64_char (v div 4096 mod 64), CHR ''='', CHR ''=''])"
| "base64_Encode [] = []"

definition base64_val :: "char \<Rightarrow> nat option" where
  "base64_val ch =
     (let n = (of_char ch :: nat)
      in if 65 \<le> n \<and> n \<le> 90 then Some (n - 65) else if 97 \<le> n \<and> n \<le> 122 then Some (n - 71)
         else if 48 \<le> n \<and> n \<le> 57 then Some (n + 4) else if n = 43 then Some 62 else if n = 47 then Some 63 else None)"

text \<open>Quanta of four characters, the last of them padded; the bits that padding leaves over are not checked.\<close>

fun decode_quanta :: "string \<Rightarrow> byte list option" where
  "decode_quanta [] = Some []"
| "decode_quanta (a # b # c # d # rest) =
     (case (base64_val a, base64_val b) of
        (Some i, Some j) \<Rightarrow>
          if c = CHR ''='' then (if d = CHR ''='' \<and> rest = [] then Some [of_nat ((i * 64 + j) div 16)] else None)
          else (case base64_val c of
                  None \<Rightarrow> None
                | Some k \<Rightarrow>
                    if d = CHR ''='' then (if rest = [] then let v = (i * 4096 + j * 64 + k) div 4 in Some [of_nat (v div 256), of_nat (v mod 256)] else None)
                    else (case base64_val d of
                            None \<Rightarrow> None
                          | Some l \<Rightarrow>
                              (let v = i * 262144 + j * 4096 + k * 64 + l
                               in map_option (\<lambda>bs. of_nat (v div 65536) # of_nat (v div 256 mod 256) # of_nat (v mod 256) # bs) (decode_quanta rest))))
      | _ \<Rightarrow> None)"
| "decode_quanta _ = None"

text \<open>\<open>DecodeString\<close> skips line breaks.\<close>

definition base64_Decode :: "string \<Rightarrow> byte list option" where
  "base64_Decode s = decode_quanta (filter (\<lambda>ch. ch \<noteq> CHR 0x0A \<and> ch \<noteq> CHR 0x0D) s)"

lemma base64_digit:
  assumes "i < 64"
  shows "base64_val (base64_char i) = Some i" "base64_char i \<noteq> CHR ''=''" "base64_char i \<noteq> CHR 0x0A" "base64_char i \<noteq> CHR 0x0D"
proof -
  have c: "(of_char (base64_char i) :: nat) = (if i < 26 then 65 + i else if i < 52 then 71 + i else if i < 62 then i - 4 else if i = 62 then 43 else 47)"
    using assms by (simp add: base64_char_def)
  show "base64_val (base64_char i) = Some i" using assms by (auto simp: base64_val_def c Let_def)
  have "base64_val (base64_char i) \<noteq> None" using \<open>base64_val (base64_char i) = Some i\<close> by simp
  then show "base64_char i \<noteq> CHR ''=''" "base64_char i \<noteq> CHR 0x0A" "base64_char i \<noteq> CHR 0x0D" by (auto simp: base64_val_def)
qed

lemma quanta_value:
  fixes a b c :: nat
  assumes "a < 256" "b < 256" "c < 256" and v: "v = a * 65536 + b * 256 + c"
  shows "v div 262144 < 64" "v div 4096 mod 64 < 64" "v div 64 mod 64 < 64" "v mod 64 < 64"
    "v div 262144 * 262144 + v div 4096 mod 64 * 4096 + v div 64 mod 64 * 64 + v mod 64 = v"
    "v div 65536 = a" "v div 256 mod 256 = b" "v mod 256 = c"
proof -
  show "v div 262144 < 64" "v div 4096 mod 64 < 64" "v div 64 mod 64 < 64" "v mod 64 < 64" using assms by (simp_all add: less_mult_imp_div_less)
  have v': "v = c + 256 * (a * 256 + b)" by (simp add: v)
  have 256: "v div 256 = a * 256 + b" "v mod 256 = c"
    unfolding v' using assms(3) by (simp_all only: div_mult_self2 mod_mult_self2) simp_all
  show "v div 65536 = a" "v div 256 mod 256 = b" "v mod 256 = c" using 256 assms(2) div_mult2_eq [of v 256 256] by simp_all
  have 64: "v div 4096 = v div 64 div 64" "v div 262144 = v div 64 div 64 div 64" by (simp_all add: div_mult2_eq [symmetric])
  show "v div 262144 * 262144 + v div 4096 mod 64 * 4096 + v div 64 mod 64 * 64 + v mod 64 = v"
    unfolding 64 using div_mult_mod_eq [of v 64] div_mult_mod_eq [of "v div 64" 64] div_mult_mod_eq [of "v div 64 div 64" 64] by linarith
qed

lemma zero_less_256: "(0 :: nat) < 256"
  by simp

lemma quanta_split:
  "(v :: nat) div 262144 * 64 + v div 4096 mod 64 = v div 4096"
  "v div 262144 * 4096 + v div 4096 mod 64 * 64 + v div 64 mod 64 = v div 64"
proof -
  have 64: "v div 4096 = v div 64 div 64" "v div 262144 = v div 64 div 64 div 64" by (simp_all add: div_mult2_eq [symmetric])
  show "v div 262144 * 64 + v div 4096 mod 64 = v div 4096"
    unfolding 64 using div_mult_mod_eq [of "v div 64 div 64" 64] by linarith
  then show "v div 262144 * 4096 + v div 4096 mod 64 * 64 + v div 64 mod 64 = v div 64"
    unfolding 64 using div_mult_mod_eq [of "v div 64" 64] by linarith
qed

lemma decode_quad:
  assumes "i < 64" "j < 64" "k < 64" "l < 64" "v = i * 262144 + j * 4096 + k * 64 + l"
  shows "decode_quanta (base64_char i # base64_char j # base64_char k # base64_char l # rest) =
     map_option (\<lambda>bs. of_nat (v div 65536) # of_nat (v div 256 mod 256) # of_nat (v mod 256) # bs) (decode_quanta rest)"
  using base64_digit [OF assms(1)] base64_digit [OF assms(2)] base64_digit [OF assms(3)] base64_digit [OF assms(4)] assms(5) by (simp add: Let_def)

lemma decode_triple:
  assumes "i < 64" "j < 64" "k < 64"
  shows "decode_quanta [base64_char i, base64_char j, base64_char k, CHR ''=''] =
     (let v = (i * 4096 + j * 64 + k) div 4 in Some [of_nat (v div 256), of_nat (v mod 256)])"
  using base64_digit [OF assms(1)] base64_digit [OF assms(2)] base64_digit [OF assms(3)] by simp

lemma decode_pair:
  assumes "i < 64" "j < 64"
  shows "decode_quanta [base64_char i, base64_char j, CHR ''='', CHR ''=''] = Some [of_nat ((i * 64 + j) div 16)]"
  using base64_digit [OF assms(1)] base64_digit [OF assms(2)] by simp

lemma no_breaks: "filter (\<lambda>ch. ch \<noteq> CHR 0x0A \<and> ch \<noteq> CHR 0x0D) (base64_Encode bs) = base64_Encode bs"
proof (induction bs rule: base64_Encode.induct)
  case (1 a b c rest)
  note q = quanta_value [OF byte_less_256 byte_less_256 byte_less_256 refl, of a b c]
  show ?case using 1 base64_digit(3,4) [OF q(1)] base64_digit(3,4) [OF q(2)] base64_digit(3,4) [OF q(3)] base64_digit(3,4) [OF q(4)]
    unfolding base64_Encode.simps Let_def by (simp only: filter.simps if_True simp_thms)
next
  case (2 a b)
  note q = quanta_value [OF byte_less_256 byte_less_256 zero_less_256 refl, of a b]
  show ?case using base64_digit(3,4) [OF q(1)] base64_digit(3,4) [OF q(2)] base64_digit(3,4) [OF q(3)]
    unfolding base64_Encode.simps Let_def add_0_right by simp
next
  case (3 a)
  note q = quanta_value [OF byte_less_256 zero_less_256 zero_less_256 refl, of a]
  show ?case using base64_digit(3,4) [OF q(1)] base64_digit(3,4) [OF q(2)]
    unfolding base64_Encode.simps Let_def add_0_right mult_zero_left by simp
qed simp

lemma decode_encoded: "decode_quanta (base64_Encode bs) = Some bs"
proof (induction bs rule: base64_Encode.induct)
  case (1 a b c rest)
  define v where "v = unat a * 65536 + unat b * 256 + unat c"
  note q = quanta_value [OF byte_less_256 byte_less_256 byte_less_256 v_def]
  have "decode_quanta (base64_Encode (a # b # c # rest)) =
      map_option (\<lambda>bs. of_nat (v div 65536) # of_nat (v div 256 mod 256) # of_nat (v mod 256) # bs) (decode_quanta (base64_Encode rest))"
    unfolding base64_Encode.simps Let_def v_def [symmetric] by (rule decode_quad [OF q(1-4) q(5) [symmetric]])
  then show ?case unfolding q(6-8) using "1.IH" [OF refl] by simp
next
  case (2 a b)
  define v where "v = unat a * 65536 + unat b * 256 + 0"
  note q = quanta_value [OF byte_less_256 byte_less_256 zero_less_256 v_def]
  have enc: "base64_Encode [a, b] = [base64_char (v div 262144), base64_char (v div 4096 mod 64), base64_char (v div 64 mod 64), CHR ''='']"
    by (simp only: base64_Encode.simps Let_def v_def add_0_right)
  have "v div 64 div 4 = v div 256" by (simp add: div_mult2_eq [symmetric])
  moreover have "v div 256 div 256 = unat a" using q(6) div_mult2_eq [of v 256 256] by simp
  ultimately show ?case unfolding enc decode_triple [OF q(1-3)] quanta_split(2) Let_def using q(7) by simp
next
  case (3 a)
  define v where "v = unat a * 65536 + 0 * 256 + 0"
  note q = quanta_value [OF byte_less_256 zero_less_256 zero_less_256 v_def]
  have enc: "base64_Encode [a] = [base64_char (v div 262144), base64_char (v div 4096 mod 64), CHR ''='', CHR ''='']"
    by (simp only: base64_Encode.simps Let_def v_def add_0_right mult_zero_left)
  have "v div 4096 div 16 = unat a" using q(6) by (simp add: div_mult2_eq [symmetric])
  then show ?case unfolding enc decode_pair [OF q(1,2)] quanta_split(1) by simp
qed simp

lemma base64_roundtrip: "base64_Decode (base64_Encode bs) = Some bs"
  by (simp add: base64_Decode_def no_breaks decode_encoded)

section \<open>Headers\<close>

text \<open>
  \<open>CanonicalMIMEHeaderKey\<close>: the first letter and each letter after a hyphen in upper case, the others in
  lower case; a key with a character that no token has is left alone.
\<close>

definition token_char :: "char \<Rightarrow> bool" where
  "token_char ch \<longleftrightarrow> (let n = (of_char ch :: nat)
     in 48 \<le> n \<and> n \<le> 57 \<or> 65 \<le> n \<and> n \<le> 90 \<or> 97 \<le> n \<and> n \<le> 122 \<or> ch \<in> set ''!#$%&*+-.^_`|~'' \<or> n = 39)"

definition upper_char :: "char \<Rightarrow> char" where
  "upper_char ch = (let n = (of_char ch :: nat) in if 97 \<le> n \<and> n \<le> 122 then char_of (n - 32) else ch)"

fun canon :: "bool \<Rightarrow> string \<Rightarrow> string" where
  "canon upper [] = []"
| "canon upper (ch # s) = (if upper then upper_char ch else lower_char ch) # canon (ch = CHR ''-'') s"

definition CanonicalKey :: "string \<Rightarrow> string" where
  "CanonicalKey k = (if list_all token_char k then canon True k else k)"

type_synonym Header = "string \<rightharpoonup> string list"

definition header_Get :: "Header \<Rightarrow> string \<Rightarrow> string" where
  "header_Get h k = (case h (CanonicalKey k) of Some (v # _) \<Rightarrow> v | _ \<Rightarrow> [])"

definition header_Set :: "string \<Rightarrow> string \<Rightarrow> Header \<Rightarrow> Header" where
  "header_Set k v h = h(CanonicalKey k \<mapsto> [v])"

definition header_Add :: "string \<Rightarrow> string \<Rightarrow> Header \<Rightarrow> Header" where
  "header_Add k v h = h(CanonicalKey k \<mapsto> (case h (CanonicalKey k) of Some vs \<Rightarrow> vs | None \<Rightarrow> []) @ [v])"

definition header_Del :: "string \<Rightarrow> Header \<Rightarrow> Header" where
  "header_Del k h = h(CanonicalKey k := None)"

lemma header_Del_apply: "header_Del k h x = (if x = CanonicalKey k then None else h x)"
  by (simp add: header_Del_def)

end
