(* ===== verification/Outbounds.thy ===== *)
theory Outbounds
  imports Proxy_Options Trojan Vmess_Conn Gun Inbound Proxy_Adapter Go_Http
begin

text \<open>
  The outbound proxies of \<open>adapter/outbound\<close>. What lies outside
  are the arguments in \<open>out_env\<close>: cryptography, the \<open>uuid\<close> package, name resolution, the dialer, the
  TLS handshake and the HTTP client. Sockets are numbered in the order they are opened, so that it
  can be said which of them stay open.
\<close>

section \<open>What lies outside\<close>

record Base =
  b_name :: string
  b_addr :: string
  b_tp :: AdapterType
  b_udp :: bool

record http_request =
  rq_Host :: string
  rq_Header :: "(string \<times> string) list"

record out_env =
  oe_crypto :: crypto
  oe_uuid :: "string \<Rightarrow> byte list option"
  oe_goarch :: string
  oe_sha224 :: "byte list \<Rightarrow> byte list"
  oe_resolve :: "string \<Rightarrow> IP option"
  oe_dial :: "string \<Rightarrow> Conn option"
  oe_listen :: bool
  oe_tls :: "tls_Config \<Rightarrow> Conn \<Rightarrow> bool"
  oe_http :: "http_request \<Rightarrow> Conn \<Rightarrow> (io_error + nat) \<times> Conn"

datatype out_error = ErrConnect string | ErrTLS | ErrSocks socks_error | ErrTrojan trojan_error | ErrHTTP io_error | ErrHTTPNeedAuth
  | ErrHTTPNotAllowed | ErrHTTPStatus nat | ErrHTTPCode nat | ErrListen | ErrBindAddress | ErrResolve | ErrReject | ErrTun | ErrNoSupport

record osock =
  s_conn :: Conn
  s_open :: bool

type_synonym sockets = "osock list"

definition dial_tcp :: "out_env \<Rightarrow> string \<Rightarrow> sockets \<Rightarrow> nat option \<times> sockets" where
  "dial_tcp env address s =
     (case oe_dial env address of
        None \<Rightarrow> (None, s)
      | Some c \<Rightarrow> (Some (length s), s @ [\<lparr>s_conn = c, s_open = True\<rparr>]))"

definition close_sock :: "nat \<Rightarrow> sockets \<Rightarrow> sockets" where
  "close_sock i s = s[i := (s ! i)\<lparr>s_open := False\<rparr>]"

definition set_conn :: "nat \<Rightarrow> Conn \<Rightarrow> sockets \<Rightarrow> sockets" where
  "set_conn i c s = s[i := (s ! i)\<lparr>s_conn := c\<rparr>]"

definition safeConnClose :: "nat \<Rightarrow> out_error option \<Rightarrow> sockets \<Rightarrow> sockets" where
  "safeConnClose i err s = (if err \<noteq> None then close_sock i s else s)"

section \<open>util.go\<close>

definition serializesSocksAddr :: "Metadata \<Rightarrow> byte list" where
  "serializesSocksAddr md =
     (let p = Atoi_value (DstPort md);
          port = [word_of_int (drop_bit 8 p), word_of_int (p AND 255)];
          aType = (word_of_int (AddrType md) :: byte)
      in if AddrType md = uint socks_AtypDomainName then [aType, of_nat (length (Host md))] @ string_to_bytes (Host md) @ port
         else if AddrType md = uint socks_AtypIPv4 then [aType] @ To4 (DstIP md) @ port
         else if AddrType md = uint socks_AtypIPv6 then [aType] @ To16 (DstIP md) @ port
         else [])"

text \<open>
  \<open>net.ResolveUDPAddr\<close> on an address literal and a decimal port: the port must fit 16 bits. The port
  always comes from \<open>strconv.Itoa\<close>, so that names of services do not occur.
\<close>

definition port_number :: "string \<Rightarrow> uint16 option" where
  "port_number port =
     (case Atoi port of
        None \<Rightarrow> None
      | Some p \<Rightarrow> if 0 \<le> p \<and> p \<le> 65535 then Some (word_of_int p) else None)"

definition resolveUDPAddr :: "out_env \<Rightarrow> string \<Rightarrow> (IP \<times> uint16) option" where
  "resolveUDPAddr env address =
     (case SplitHostPort address of
        None \<Rightarrow> None
      | Some (host, port) \<Rightarrow>
          (case oe_resolve env host of
             None \<Rightarrow> None
           | Some ip \<Rightarrow> map_option (\<lambda>p. (To16 ip, p)) (port_number port)))"

section \<open>Direct and Reject\<close>

definition NewDirect :: Base where
  "NewDirect = \<lparr>b_name = ''DIRECT'', b_addr = [], b_tp = AtDirect, b_udp = True\<rparr>"

definition NewReject :: Base where
  "NewReject = \<lparr>b_name = ''REJECT'', b_addr = [], b_tp = AtReject, b_udp = True\<rparr>"

text \<open>The dial by host is an argument of its own: it also uses the DNS results of the tunnel.\<close>

definition Direct_DialContext :: "(string \<Rightarrow> string \<Rightarrow> Conn option) \<Rightarrow> Metadata \<Rightarrow> sockets \<Rightarrow> (out_error + nat) \<times> sockets" where
  "Direct_DialContext dialHost md s =
     (if Type md = WINTUN then (Inl ErrTun, s)
      else let host = (if DstIP md \<noteq> [] then DstAddr md else Metadata_String md)
           in case dialHost host (DstPort md) of
                None \<Rightarrow> (Inl (ErrConnect host), s)
              | Some c \<Rightarrow> (Inr (length s), s @ [\<lparr>s_conn = c, s_open = True\<rparr>]))"

definition Direct_DialUDP :: "out_env \<Rightarrow> Metadata \<Rightarrow> out_error + unit" where
  "Direct_DialUDP env md = (if Type md = WINTUN then Inl ErrTun else if oe_listen env then Inr () else Inl ErrListen)"

definition Reject_DialContext :: "Metadata \<Rightarrow> out_error + nat" where
  "Reject_DialContext md = Inl ErrReject"

definition Reject_DialUDP :: "Metadata \<Rightarrow> out_error + nat" where
  "Reject_DialUDP md = Inl ErrReject"

section \<open>Socks5\<close>

record Socks5 =
  s5_Base :: Base
  s5_user :: string
  s5_pass :: string
  s5_tls :: bool
  s5_skipCertVerify :: bool
  s5_tlsConfig :: "tls_Config option"

definition NewSocks5 :: "Socks5Option \<Rightarrow> Socks5" where
  "NewSocks5 op =
     \<lparr>s5_Base = \<lparr>b_name = s5_Name op, b_addr = JoinHostPort (s5_Server op) (Itoa (s5_Port op)), b_tp = AtSocks5, b_udp = s5_UDP op\<rparr>,
      s5_user = s5_UserName op, s5_pass = s5_Password op, s5_tls = s5_TLS op, s5_skipCertVerify = s5_SkipCertVerify op,
      s5_tlsConfig = (if s5_TLS op then Some \<lparr>NextProtos = [], MinVersion = 0, InsecureSkipVerify = s5_SkipCertVerify op, ServerName = s5_Server op\<rparr> else None)\<rparr>"

definition socks5_user :: "Socks5 \<Rightarrow> User option" where
  "socks5_user ss = (if s5_user ss \<noteq> [] then Some \<lparr>Username = s5_user ss, Password = s5_pass ss\<rparr> else None)"

text \<open>TLS needs the configuration, which \<open>NewSocks5\<close> sets with the flag.\<close>

definition Socks5_StreamConn :: "out_env \<Rightarrow> Socks5 \<Rightarrow> Metadata \<Rightarrow> (out_error, unit) io" where
  "Socks5_StreamConn env ss md c =
     (if s5_tls ss \<and> \<not> oe_tls env (the (s5_tlsConfig ss)) c then (Inl ErrTLS, c)
      else case socks5_ClientHandshake (serializesSocksAddr md) CmdConnect (socks5_user ss) c of
             (Inl e, c1) \<Rightarrow> (Inl (ErrSocks e), c1)
           | (Inr _, c1) \<Rightarrow> (Inr (), c1))"

text \<open>
  The common shape of \<open>DialContext\<close>. The arguments of a deferred call are evaluated at the \<open>defer\<close>
  statement, where \<open>err\<close> is nil.
\<close>

definition dial_stream :: "out_env \<Rightarrow> string \<Rightarrow> (out_error, unit) io \<Rightarrow> sockets \<Rightarrow> (out_error + nat) \<times> sockets" where
  "dial_stream env address streamConn s =
     (case dial_tcp env address s of
        (None, s1) \<Rightarrow> (Inl (ErrConnect address), s1)
      | (Some i, s1) \<Rightarrow>
          (let deferred = safeConnClose i None;
               (r, c1) = streamConn (s_conn (s1 ! i))
           in (case r of Inl e \<Rightarrow> Inl e | Inr _ \<Rightarrow> Inr i, deferred (set_conn i c1 s1))))"

definition Socks5_DialContext :: "out_env \<Rightarrow> Socks5 \<Rightarrow> Metadata \<Rightarrow> sockets \<Rightarrow> (out_error + nat) \<times> sockets" where
  "Socks5_DialContext env ss md = dial_stream env (b_addr (s5_Base ss)) (Socks5_StreamConn env ss md)"

text \<open>
  A failed TLS handshake is only remembered for the deferred close; the SOCKS handshake goes on.
  The result is the address to send packets to.
\<close>

definition Socks5_DialUDP :: "out_env \<Rightarrow> Socks5 \<Rightarrow> Metadata \<Rightarrow> sockets \<Rightarrow> panic + (out_error + IP \<times> uint16) \<times> sockets" where
  "Socks5_DialUDP env ss md s =
     (case dial_tcp env (b_addr (s5_Base ss)) s of
        (None, s1) \<Rightarrow> Inr (Inl (ErrConnect (b_addr (s5_Base ss))), s1)
      | (Some i, s1) \<Rightarrow>
          (let err = (if s5_tls ss \<and> \<not> oe_tls env (the (s5_tlsConfig ss)) (s_conn (s1 ! i)) then Some ErrTLS else None);
               deferred = safeConnClose i err;
               (r, c1) = socks5_ClientHandshake (serializesSocksAddr md) CmdUDPAssociate (socks5_user ss) (s_conn (s1 ! i));
               s2 = set_conn i c1 s1
           in case r of
                Inl e \<Rightarrow> Inr (Inl (ErrSocks e), deferred s2)
              | Inr bindAddr \<Rightarrow>
                  if \<not> oe_listen env then Inr (Inl ErrListen, deferred s2)
                  else
                    and_then (Addr_UDPAddr bindAddr) (\<lambda>u.
                      case u of
                        None \<Rightarrow> Inr (Inl ErrBindAddress, deferred s2)
                      | Some (ip, port) \<Rightarrow>
                          if IsUnspecified ip then
                            (case resolveUDPAddr env (b_addr (s5_Base ss)) of
                               None \<Rightarrow> Inr (Inl ErrResolve, deferred s2)
                             | Some (sip, _) \<Rightarrow> Inr (Inr (sip, port), deferred s2))
                          else Inr (Inr (ip, port), deferred s2))))"

definition socksPacket_WriteTo :: "byte list \<Rightarrow> NetAddr \<Rightarrow> socks_error + byte list" where
  "socksPacket_WriteTo b addr = EncodeUDPPacket (ParseAddrToSocksAddr addr) b"

text \<open>
  \<open>ReadFrom\<close> decodes the whole buffer \<open>b\<close>, of which the packet fills the first \<open>n\<close> bytes; the count it
  returns leaves out the header.
\<close>

definition socksPacket_ReadFrom :: "nat \<Rightarrow> byte list \<Rightarrow> panic + (out_error + int \<times> (IP \<times> uint16) \<times> byte list)" where
  "socksPacket_ReadFrom n b =
     (case DecodeUDPPacket b of
        (_, _, Some e) \<Rightarrow> Inr (Inl (ErrSocks e))
      | (addr, payload, None) \<Rightarrow>
          and_then (Addr_UDPAddr addr) (\<lambda>u.
            case u of
              None \<Rightarrow> Inr (Inl ErrBindAddress)
            | Some ua \<Rightarrow> Inr (Inr (int n - int (length addr) - 3, ua, payload))))"

section \<open>Http\<close>

record Http =
  h_Base :: Base
  h_user :: string
  h_pass :: string
  h_tlsConfig :: "tls_Config option"

definition NewHttp :: "HttpOption \<Rightarrow> Http" where
  "NewHttp op =
     \<lparr>h_Base = \<lparr>b_name = ht_Name op, b_addr = JoinHostPort (ht_Server op) (Itoa (ht_Port op)), b_tp = AtHttp, b_udp = False\<rparr>,
      h_user = ht_UserName op, h_pass = ht_Password op,
      h_tlsConfig = (if ht_TLS op then
          Some \<lparr>NextProtos = [], MinVersion = 0, InsecureSkipVerify = ht_SkipCertVerify op,
            ServerName = (if ht_SNI op \<noteq> [] then ht_SNI op else ht_Server op)\<rparr>
        else None)\<rparr>"

definition connect_request :: "Http \<Rightarrow> Metadata \<Rightarrow> http_request" where
  "connect_request h md =
     \<lparr>rq_Host = RemoteAddress md,
      rq_Header = (''Proxy-Connection'', ''Keep-Alive'') #
        (if h_user h \<noteq> [] \<and> h_pass h \<noteq> [] then
           [(''Proxy-Authorization'', ''Basic '' @ base64_Encode (string_to_bytes (h_user h @ '':'' @ h_pass h)))]
         else [])\<rparr>"

definition shakeHand :: "out_env \<Rightarrow> Http \<Rightarrow> Metadata \<Rightarrow> (out_error, unit) io" where
  "shakeHand env h md c =
     (case oe_http env (connect_request h md) c of
        (Inl e, c1) \<Rightarrow> (Inl (ErrHTTP e), c1)
      | (Inr status, c1) \<Rightarrow>
          (if status = 200 then Inr ()
           else if status = 407 then Inl ErrHTTPNeedAuth
           else if status = 405 then Inl ErrHTTPNotAllowed
           else if status \<ge> 500 then Inl (ErrHTTPStatus status)
           else Inl (ErrHTTPCode status), c1))"

definition Http_StreamConn :: "out_env \<Rightarrow> Http \<Rightarrow> Metadata \<Rightarrow> (out_error, unit) io" where
  "Http_StreamConn env h md c =
     (case h_tlsConfig h of
        Some cfg \<Rightarrow> if \<not> oe_tls env cfg c then (Inl ErrTLS, c) else shakeHand env h md c
      | None \<Rightarrow> shakeHand env h md c)"

definition Http_DialContext :: "out_env \<Rightarrow> Http \<Rightarrow> Metadata \<Rightarrow> sockets \<Rightarrow> (out_error + nat) \<times> sockets" where
  "Http_DialContext env h md = dial_stream env (b_addr (h_Base h)) (Http_StreamConn env h md)"

section \<open>Trojan\<close>

record OutTrojan =
  ot_Base :: Base
  ot_instance :: Trojan
  gunTLSConfig :: "tls_Config option"
  gunConfig :: "gun_Config option"

definition NewTrojan :: "out_env \<Rightarrow> TrojanOption \<Rightarrow> OutTrojan" where
  "NewTrojan env op =
     (let sn = (if tr_SNI op \<noteq> [] then tr_SNI op else tr_Server op);
          inst = trojan_New (oe_sha224 env)
            \<lparr>t_Password = tr_Password op, t_ALPN = tr_ALPN op, t_ServerName = sn, t_SkipCertVerify = tr_SkipCertVerify op\<rparr>;
          grpc = (tr_Network op = ''grpc'')
      in \<lparr>ot_Base = \<lparr>b_name = tr_Name op, b_addr = JoinHostPort (tr_Server op) (Itoa (tr_Port op)), b_tp = AtTrojan, b_udp = tr_UDP op\<rparr>,
          ot_instance = inst,
          gunTLSConfig = (if grpc then Some \<lparr>NextProtos = tr_ALPN op, MinVersion = VersionTLS12, InsecureSkipVerify = tr_SkipCertVerify op, ServerName = sn\<rparr> else None),
          gunConfig = (if grpc then Some \<lparr>ServiceName = grpc_GrpcServiceName (tr_GrpcOpts op), gun_Host = sn\<rparr> else None)\<rparr>)"

text \<open>
  Without gRPC: TLS, then the header. Over gRPC the stream is a request of a transport: the shared one
  in the two dials, whose \<open>Conn\<close> is an argument, and one over the given connection in \<open>StreamConn\<close>, where
  the argument \<open>gunOver\<close> gives the stream. Opening such a stream does not fail.
\<close>

definition trojan_header :: "OutTrojan \<Rightarrow> byte \<Rightarrow> Metadata \<Rightarrow> (out_error, unit) io" where
  "trojan_header t command md c =
     (case WriteHeader (ot_instance t) command (serializesSocksAddr md) c of
        (Inl e, c1) \<Rightarrow> (Inl (ErrTrojan e), c1)
      | (Inr _, c1) \<Rightarrow> (Inr (), c1))"

definition trojan_tls_header :: "out_env \<Rightarrow> OutTrojan \<Rightarrow> byte \<Rightarrow> Metadata \<Rightarrow> (out_error, unit) io" where
  "trojan_tls_header env t command md c =
     (if \<not> oe_tls env (trojan_tlsConfig (ot_instance t)) c then (Inl ErrTLS, c) else trojan_header t command md c)"

definition Trojan_StreamConn :: "out_env \<Rightarrow> (Conn \<Rightarrow> Conn) \<Rightarrow> OutTrojan \<Rightarrow> Metadata \<Rightarrow> (out_error, unit) io" where
  "Trojan_StreamConn env gunOver t md c =
     (case gunConfig t of
        Some _ \<Rightarrow> trojan_header t CommandTCP md (gunOver c)
      | None \<Rightarrow> trojan_tls_header env t CommandTCP md c)"

definition Trojan_DialContext :: "out_env \<Rightarrow> Conn \<Rightarrow> (Conn \<Rightarrow> Conn) \<Rightarrow> OutTrojan \<Rightarrow> Metadata \<Rightarrow> sockets \<Rightarrow> (out_error + nat) \<times> sockets" where
  "Trojan_DialContext env gunStream gunOver t md s =
     (case gunConfig t of
        Some _ \<Rightarrow>
          (let i = length s; s1 = s @ [\<lparr>s_conn = gunStream, s_open = True\<rparr>]
           in case WriteHeader (ot_instance t) CommandTCP (serializesSocksAddr md) gunStream of
                (Inl e, c1) \<Rightarrow> (Inl (ErrTrojan e), close_sock i (set_conn i c1 s1))
              | (Inr _, c1) \<Rightarrow> (Inr i, set_conn i c1 s1))
      | None \<Rightarrow> dial_stream env (b_addr (ot_Base t)) (Trojan_StreamConn env gunOver t md) s)"

definition Trojan_DialUDP :: "out_env \<Rightarrow> Conn \<Rightarrow> OutTrojan \<Rightarrow> Metadata \<Rightarrow> sockets \<Rightarrow> (out_error + nat) \<times> sockets" where
  "Trojan_DialUDP env gunStream t md s =
     (case gunConfig t of
        Some _ \<Rightarrow>
          (let i = length s; s1 = s @ [\<lparr>s_conn = gunStream, s_open = True\<rparr>]; deferred = safeConnClose i None
           in case WriteHeader (ot_instance t) CommandUDP (serializesSocksAddr md) gunStream of
                (Inl e, c1) \<Rightarrow> (Inl (ErrTrojan e), deferred (set_conn i c1 s1))
              | (Inr _, c1) \<Rightarrow> (Inr i, deferred (set_conn i c1 s1)))
      | None \<Rightarrow> dial_stream env (b_addr (ot_Base t)) (trojan_tls_header env t CommandUDP md) s)"

section \<open>ReDirect\<close>

record ReDirect =
  r_Base :: Base
  targetHost :: string
  targetPort :: int
  targetPortStr :: string
  targetUDPAddr :: "IP \<times> int"

definition NewReDirect :: "out_env \<Rightarrow> ReDirectOption \<Rightarrow> out_error + ReDirect" where
  "NewReDirect env op =
     (case oe_resolve env (rd_Server op) of
        None \<Rightarrow> Inl ErrResolve
      | Some ip \<Rightarrow>
          Inr \<lparr>r_Base = \<lparr>b_name = rd_Name op, b_addr = [], b_tp = AtReDirect, b_udp = True\<rparr>,
               targetHost = rd_Server op, targetPort = rd_Port op, targetPortStr = Itoa (rd_Port op), targetUDPAddr = (ip, rd_Port op)\<rparr>)"

definition ReDirect_DialContext :: "out_env \<Rightarrow> ReDirect \<Rightarrow> Metadata \<Rightarrow> sockets \<Rightarrow> (out_error + nat) \<times> sockets" where
  "ReDirect_DialContext env d md s =
     (let address = JoinHostPort (targetHost d) (targetPortStr d)
      in case dial_tcp env address s of
           (None, s1) \<Rightarrow> (Inl (ErrConnect address), s1)
         | (Some i, s1) \<Rightarrow> (Inr i, s1))"

text \<open>The addresses a redirected packet connection sends to and claims to receive from.\<close>

definition ReDirect_DialUDP :: "out_env \<Rightarrow> ReDirect \<Rightarrow> Metadata \<Rightarrow> out_error + (IP \<times> int) \<times> (IP \<times> int)" where
  "ReDirect_DialUDP env d md =
     (if oe_listen env then Inr (targetUDPAddr d, (DstIP md, Atoi_value (DstPort md))) else Inl ErrListen)"

section \<open>Proxies in a chain agree\<close>

text \<open>The endpoint that metadata stand for on the wire.\<close>

definition md_port :: "Metadata \<Rightarrow> uint16" where
  "md_port md = word_of_int (Atoi_value (DstPort md))"

definition md_ep :: "Metadata \<Rightarrow> endpoint" where
  "md_ep md =
     (if AddrType md = AtypDomainName then EpDomain (string_to_bytes (Host md)) (md_port md)
      else if AddrType md = AtypIPv4 then EpIPv4 (To4 (DstIP md)) (md_port md)
      else EpIPv6 (To16 (DstIP md)) (md_port md))"

definition socks_addressable :: "Metadata \<Rightarrow> bool" where
  "socks_addressable md \<longleftrightarrow>
     AddrType md = AtypDomainName \<and> length (Host md) \<le> 252 \<or>
     AddrType md = AtypIPv4 \<and> To4 (DstIP md) \<noteq> [] \<or> AddrType md = AtypIPv6 \<and> To16 (DstIP md) \<noteq> []"

lemma length_To4: "To4 ip \<noteq> [] \<Longrightarrow> length (To4 ip) = 4"
  by (auto simp: To4_def split: if_splits)

lemma length_To16: "To16 ip \<noteq> [] \<Longrightarrow> length (To16 ip) = 16"
  by (auto simp: To16_def v4InV6Prefix_def split: if_splits)

lemma md_ep_wf: "socks_addressable md \<Longrightarrow> wf_ep (md_ep md) \<and> short_ep (md_ep md)"
  by (auto simp: socks_addressable_def md_ep_def length_To4 length_To16 AtypDomainName_def AtypIPv4_def AtypIPv6_def)

lemma port_bytes: "[word_of_int (drop_bit 8 p), word_of_int (p AND 255)] = PutUint16 (word_of_int p)"
proof -
  have "(word_of_int (drop_bit 8 p) :: byte) = ucast (drop_bit 8 (word_of_int p :: uint16))"
    by (rule bit_word_eqI) (simp add: bit_simps)
  moreover have "(word_of_int (p AND 255) :: byte) = ucast (word_of_int p :: uint16)"
  proof (rule bit_word_eqI)
    fix n
    assume "n < LENGTH(8)"
    then have "bit (255 :: int) n" by (auto simp: bit_iff_odd less_Suc_eq numeral_eq_Suc)
    with \<open>n < LENGTH(8)\<close> show "bit (word_of_int (p AND 255) :: byte) n = bit (ucast (word_of_int p :: uint16) :: byte) n"
      by (simp add: bit_simps)
  qed
  ultimately show ?thesis by (simp add: PutUint16_def)
qed

lemma serializes_md_ep: "socks_addressable md \<Longrightarrow> serializesSocksAddr md = encode_ep (md_ep md)"
  by (auto simp: socks_addressable_def serializesSocksAddr_def md_ep_def md_port_def port_bytes Let_def socks_consts
      AtypDomainName_def AtypIPv4_def AtypIPv6_def)

lemma Atoi_value_Itoa: "Atoi_value (Itoa (uint (p :: uint16))) = uint p"
proof -
  have "unat p < 65536" using unsigned_less [of p] by simp
  then have "int (unat p) < int 65536" by (simp only: of_nat_less_iff)
  also have "int 65536 < 2 ^ 63" by simp
  finally have "int (unat p) < 2 ^ 63" .
  then have "Atoi (utoa (unat p)) = Some (int (unat p))" by (rule Atoi_utoa)
  then show ?thesis by (simp add: Itoa_def nat_uint_eq)
qed

lemma Socks5_stream_server:
  assumes "socks_addressable md" "valid_addr (socks_ParseAddr loc)" "\<not> s5_tls ss"
    and "case authenticator of None \<Rightarrow> True
      | Some au \<Rightarrow> Verify au (s5_user ss) (s5_pass ss) \<and> s5_user ss \<noteq> [] \<and> length (s5_user ss) \<le> 255 \<and>
          s5_pass ss \<noteq> [] \<and> length (s5_pass ss) \<le> 255"
  shows "\<exists>req rep k1 k2.
    socks5_ServerHandshake authenticator loc \<lparr>rx = req @ up, tx = [], budget = 3\<rparr> =
      (Inr (encode_ep (md_ep md), CmdConnect), \<lparr>rx = up, tx = rep, budget = k1\<rparr>) \<and>
    Socks5_StreamConn env ss md \<lparr>rx = rep @ down, tx = [], budget = 3\<rparr> = (Inr (), \<lparr>rx = down, tx = req, budget = k2\<rparr>)"
proof -
  have v: "valid_addr (encode_ep (md_ep md))" using md_ep_wf [OF assms(1)] by (auto simp: valid_addr_iff)
  have "case authenticator of None \<Rightarrow> True
      | Some au \<Rightarrow> (case socks5_user ss of None \<Rightarrow> False
          | Some u \<Rightarrow> Verify au (Username u) (Password u) \<and> Username u \<noteq> [] \<and> length (Username u) \<le> 255 \<and>
              Password u \<noteq> [] \<and> length (Password u) \<le> 255)"
    using assms(4) by (cases authenticator) (simp_all add: socks5_user_def)
  from socks5_handshake_agree [OF v disjI1 [OF refl] assms(2) this, of up down] obtain req rep k1 k2 where
    "socks5_ServerHandshake authenticator loc \<lparr>rx = req @ up, tx = [], budget = 3\<rparr> =
      (Inr (encode_ep (md_ep md), CmdConnect), \<lparr>rx = up, tx = rep, budget = k1\<rparr>)"
    "socks5_ClientHandshake (encode_ep (md_ep md)) CmdConnect (socks5_user ss) \<lparr>rx = rep @ down, tx = [], budget = 3\<rparr> =
      (Inr (socks_ParseAddr loc), \<lparr>rx = down, tx = req, budget = k2\<rparr>)" by blast
  then show ?thesis using assms(1,3)
    by (intro exI [of _ req] exI [of _ rep] exI [of _ k1] exI [of _ k2]) (simp add: Socks5_StreamConn_def serializes_md_ep)
qed

text \<open>
  C8: Proxies can be chained. The bytes a \<open>Socks5\<close> outbound writes for a connection, with credentials the
  next proxy accepts where it asks for some, make the SOCKS5 listener of that proxy hand its tunnel a
  connection with the same destination: the same kind of address, the same port, the same IP and the
  same name without a final dot. The answer of the listener makes the outbound succeed, and
  neither side takes a byte of what follows the handshake.
\<close>

theorem socks5_chain:
  assumes "socks_addressable md" "DstPort md = Itoa (uint (p :: uint16))" "valid_addr (socks_ParseAddr loc)" "\<not> s5_tls ss"
    and "case authenticator of None \<Rightarrow> True
      | Some au \<Rightarrow> Verify au (s5_user ss) (s5_pass ss) \<and> s5_user ss \<noteq> [] \<and> length (s5_user ss) \<le> 255 \<and>
          s5_pass ss \<noteq> [] \<and> length (s5_pass ss) \<le> 255"
  shows "\<exists>req rep k1 k2 ctx m1.
    HandleSocks5 authenticator now \<lparr>sk_conn = \<lparr>rx = req @ up, tx = [], budget = 3\<rparr>, sk_local = loc, sk_remote = remote\<rparr> m =
      Inr (ToTunnel ctx, \<lparr>sk_conn = \<lparr>rx = up, tx = rep, budget = k1\<rparr>, sk_local = loc, sk_remote = remote\<rparr>, m1) \<and>
    Socks5_StreamConn env ss md \<lparr>rx = rep @ down, tx = [], budget = 3\<rparr> = (Inr (), \<lparr>rx = down, tx = req, budget = k2\<rparr>) \<and>
    AddrType (ctx_metadata ctx) = AddrType md \<and> DstPort (ctx_metadata ctx) = DstPort md \<and>
    (AddrType md = AtypDomainName \<longrightarrow> Host (ctx_metadata ctx) = TrimRight CHR ''.'' (Host md)) \<and>
    (AddrType md = AtypIPv4 \<longrightarrow> DstIP (ctx_metadata ctx) = To4 (DstIP md)) \<and>
    (AddrType md = AtypIPv6 \<longrightarrow> DstIP (ctx_metadata ctx) = To16 (DstIP md))"
proof -
  from Socks5_stream_server [OF assms(1,3-5), of up env down] obtain req rep k1 k2 where
    srv: "socks5_ServerHandshake authenticator loc \<lparr>rx = req @ up, tx = [], budget = 3\<rparr> =
      (Inr (encode_ep (md_ep md), CmdConnect), \<lparr>rx = up, tx = rep, budget = k1\<rparr>)"
    and cl: "Socks5_StreamConn env ss md \<lparr>rx = rep @ down, tx = [], budget = 3\<rparr> = (Inr (), \<lparr>rx = down, tx = req, budget = k2\<rparr>)" by blast
  let ?md = "with_source remote ((ep_metadata (md_ep md))\<lparr>NetWork := TCP, Type := SOCKS5\<rparr>)"
  obtain m1 where "NewConnContext ?md now m = Inr (\<lparr>ctx_metadata = ?md, ctx_tcp = Some (length (trackers m))\<rparr>, m1)"
    using NewConnContext_TCP [of ?md now m] by auto
  then have "HandleSocks5 authenticator now \<lparr>sk_conn = \<lparr>rx = req @ up, tx = [], budget = 3\<rparr>, sk_local = loc, sk_remote = remote\<rparr> m =
      Inr (ToTunnel \<lparr>ctx_metadata = ?md, ctx_tcp = Some (length (trackers m))\<rparr>,
        \<lparr>sk_conn = \<lparr>rx = up, tx = rep, budget = k1\<rparr>, sk_local = loc, sk_remote = remote\<rparr>, m1)"
    using srv parseSocksAddr_encode [of "md_ep md"] md_ep_wf [OF assms(1)]
    by (simp add: HandleSocks5_def NewSocket_def CmdConnect_def CmdUDPAssociate_def)
  moreover have "AddrType ?md = AddrType md \<and> DstPort ?md = DstPort md \<and> (AddrType md = AtypDomainName \<longrightarrow> Host ?md = TrimRight CHR ''.'' (Host md)) \<and>
    (AddrType md = AtypIPv4 \<longrightarrow> DstIP ?md = To4 (DstIP md)) \<and> (AddrType md = AtypIPv6 \<longrightarrow> DstIP ?md = To16 (DstIP md))"
    using assms(1,2) Atoi_value_Itoa [of p]
    by (auto simp: socks_addressable_def md_ep_def md_port_def with_source_def AtypDomainName_def AtypIPv4_def AtypIPv6_def
        split: option.split)
  ultimately show ?thesis using cl by (intro exI [of _ req] exI [of _ rep] exI [of _ k1] exI [of _ k2]) auto
qed

definition demo_socks5 :: Socks5 where
  "demo_socks5 = NewSocks5 \<lparr>s5_Name = ''p'', s5_Server = ''10.0.0.9'', s5_Port = 1080, s5_UserName = ''u'', s5_Password = ''pw'',
     s5_TLS = False, s5_UDP = False, s5_SkipCertVerify = False\<rparr>"

definition demo_env :: out_env where
  "demo_env = \<lparr>oe_crypto = demo_crypto, oe_uuid = (\<lambda>_. None), oe_goarch = ''amd64'', oe_sha224 = (\<lambda>_. replicate 28 0), oe_resolve = (\<lambda>_. None),
     oe_dial = (\<lambda>_. None), oe_listen = True, oe_tls = (\<lambda>_ _. True), oe_http = (\<lambda>_ c. (Inr 200, c))\<rparr>"

definition demo_destination :: Metadata where
  "demo_destination = no_metadata\<lparr>AddrType := AtypDomainName, Host := ''a.com'', DstPort := Itoa (uint (443 :: uint16))\<rparr>"

theorem socks5_chain_witness:
  "\<exists>req rep k1 k2 ctx m1.
    HandleSocks5 (Some demo_auth) 0 \<lparr>sk_conn = \<lparr>rx = req @ [1], tx = [], budget = 3\<rparr>, sk_local = ''127.0.0.1:1080'', sk_remote = ''10.0.0.2:5000''\<rparr> DefaultManager =
      Inr (ToTunnel ctx, \<lparr>sk_conn = \<lparr>rx = [1], tx = rep, budget = k1\<rparr>, sk_local = ''127.0.0.1:1080'', sk_remote = ''10.0.0.2:5000''\<rparr>, m1) \<and>
    Socks5_StreamConn demo_env demo_socks5 demo_destination \<lparr>rx = rep @ [2], tx = [], budget = 3\<rparr> = (Inr (), \<lparr>rx = [2], tx = req, budget = k2\<rparr>) \<and>
    Host (ctx_metadata ctx) = ''a.com''"
proof -
  have "socks_addressable demo_destination" "DstPort demo_destination = Itoa (uint (443 :: uint16))" "\<not> s5_tls demo_socks5"
    "valid_addr (socks_ParseAddr ''127.0.0.1:1080'')"
    by (simp_all add: socks_addressable_def demo_destination_def demo_socks5_def NewSocks5_def demo_local valid_addr_def SplitAddr_def socks_consts)
  moreover have "case Some demo_auth of None \<Rightarrow> True
      | Some au \<Rightarrow> Verify au (s5_user demo_socks5) (s5_pass demo_socks5) \<and> s5_user demo_socks5 \<noteq> [] \<and> length (s5_user demo_socks5) \<le> 255 \<and>
          s5_pass demo_socks5 \<noteq> [] \<and> length (s5_pass demo_socks5) \<le> 255"
    by (simp add: demo_socks5_def NewSocks5_def demo_auth_def Verify_def)
  moreover have "TrimRight CHR ''.'' (Host demo_destination) = ''a.com''" "AddrType demo_destination = AtypDomainName"
    by (simp_all add: demo_destination_def TrimRight_def)
  ultimately show ?thesis
    using socks5_chain [of demo_destination 443 "''127.0.0.1:1080''" demo_socks5 "Some demo_auth" 0 "[1]" "''10.0.0.2:5000''" DefaultManager demo_env "[2]"]
    by (simp only: simp_thms) blast
qed

section \<open>What stays open\<close>

text \<open>
  The close that \<open>dial_stream\<close> defers never happens: when the handshake fails, the socket stays open,
  while the caller only gets an error.
\<close>

lemma dial_stream_leaks:
  assumes "oe_dial env address = Some c" "streamConn c = (Inl e, c1)"
  shows "dial_stream env address streamConn s = (Inl e, s @ [\<lparr>s_conn = c1, s_open = True\<rparr>])"
  using assms by (simp add: dial_stream_def dial_tcp_def safeConnClose_def set_conn_def Let_def)

end
