(* ===== verification/Proxy_Parser.thy ===== *)
theory Proxy_Parser
  imports Proxy_Groups Outbounds
begin

text \<open>
  How the proxies, providers and groups of a configuration come into being: \<open>adapter/parser.go\<close>,
  \<open>NewVmess\<close> of \<open>adapter/outbound/vmess.go\<close>, \<open>adapter/provider/parser.go\<close>, \<open>fetcher.go\<close>, \<open>vehicle.go\<close> and
  \<open>provider.go\<close>, \<open>adapter/outboundgroup/parser.go\<close>, and \<open>parseProxies\<close> of \<open>config/config.go\<close>. The objects
  are numbered in the order they are made. A result is \<open>None\<close> when the search for alternative VMess
  identifiers does not end, a panic, an error, or a value.
\<close>

section \<open>Results\<close>

type_synonym ('e, 'a) run = "(panic + ('e + 'a)) option"

definition run_ok :: "'a \<Rightarrow> ('e, 'a) run" where
  "run_ok x = Some (Inr (Inr x))"

definition run_err :: "'e \<Rightarrow> ('e, 'a) run" where
  "run_err e = Some (Inr (Inl e))"

fun run_bind :: "('e, 'a) run \<Rightarrow> ('a \<Rightarrow> ('e, 'b) run) \<Rightarrow> ('e, 'b) run" where
  "run_bind None f = None"
| "run_bind (Some (Inl p)) f = Some (Inl p)"
| "run_bind (Some (Inr (Inl e))) f = Some (Inr (Inl e))"
| "run_bind (Some (Inr (Inr x))) f = f x"

definition run_wrap :: "('e \<Rightarrow> 'f) \<Rightarrow> ('e, 'a) run \<Rightarrow> ('f, 'a) run" where
  "run_wrap f = map_option (map_sum id (map_sum f id))"

section \<open>VMess\<close>

record Vmess =
  vo_Base :: Base
  vo_client :: vmess_Client
  vo_option :: VmessOption
  vo_gunTLSConfig :: "tls_Config option"
  vo_gunConfig :: "gun_Config option"

datatype parse_error = MissingType | UnsupportedProxy string | BadOption decode_error | BadClient client_error | TLSRequired
  | BadOutbound out_error

text \<open>The name of the server for gRPC: the configured one, else the host of the address.\<close>

definition vmess_gun_host :: "VmessOption \<Rightarrow> string \<Rightarrow> string" where
  "vmess_gun_host op address =
     (if vm_ServerName op = [] then (case SplitHostPort address of Some (h, _) \<Rightarrow> h | None \<Rightarrow> []) else vm_ServerName op)"

definition NewVmess :: "out_env \<Rightarrow> VmessOption \<Rightarrow> (parse_error, Vmess) run" where
  "NewVmess env op =
     (case NewClient (oe_crypto env) (oe_uuid env) (oe_goarch env)
        \<lparr>cfg_UUID = vm_UUID op, cfg_AlterID = word_of_int (vm_AlterID op), cfg_Security = ToLower (vm_Cipher op),
         cfg_Port = Itoa (vm_Port op), cfg_HostName = vm_Server op, cfg_IsAead = (vm_AlterID op = 0)\<rparr> of
        None \<Rightarrow> None
      | Some (Inl e) \<Rightarrow> run_err (BadClient e)
      | Some (Inr client) \<Rightarrow>
          if vm_Network op \<in> {''h2'', ''grpc''} \<and> \<not> vm_TLS op then run_err TLSRequired
          else
            (let address = JoinHostPort (vm_Server op) (Itoa (vm_Port op));
                 grpc = (vm_Network op = ''grpc'');
                 h2 = vm_HTTP2Opts op;
                 op1 = (if vm_Network op = ''h2'' \<and> h2_Host h2 = [] then op\<lparr>vm_HTTP2Opts := h2\<lparr>h2_Host := [''www.example.com'']\<rparr>\<rparr> else op);
                 sn = vmess_gun_host op address
             in run_ok \<lparr>vo_Base = \<lparr>b_name = vm_Name op, b_addr = address, b_tp = AtVmess, b_udp = vm_UDP op\<rparr>,
                        vo_client = client, vo_option = op1,
                        vo_gunTLSConfig = (if grpc then Some \<lparr>NextProtos = [], MinVersion = 0, InsecureSkipVerify = vm_SkipCertVerify op, ServerName = sn\<rparr> else None),
                        vo_gunConfig = (if grpc then Some \<lparr>ServiceName = grpc_GrpcServiceName (vm_GrpcOpts op), gun_Host = sn\<rparr> else None)\<rparr>))"

section \<open>ParseProxy\<close>

datatype outbound = ODirect Base | OReject Base | OSocks5 Socks5 | OHttp Http | OVmess Vmess | OTrojan OutTrojan | OReDirect ReDirect

fun out_Base :: "outbound \<Rightarrow> Base" where
  "out_Base (ODirect b) = b"
| "out_Base (OReject b) = b"
| "out_Base (OSocks5 s) = s5_Base s"
| "out_Base (OHttp h) = h_Base h"
| "out_Base (OVmess v) = vo_Base v"
| "out_Base (OTrojan t) = ot_Base t"
| "out_Base (OReDirect r) = r_Base r"

type_synonym raw = "string \<rightharpoonup> gdata"

definition raw_option :: "gfields \<Rightarrow> ('o \<Rightarrow> gval) \<Rightarrow> (gval \<Rightarrow> 'o) \<Rightarrow> raw \<Rightarrow> 'o \<Rightarrow> (parse_error, 'o) run" where
  "raw_option fs to_val of_val src dflt = Some (map_sum id (map_sum BadOption id) (decode_option fs to_val of_val src dflt))"

definition zero_Socks5Option :: Socks5Option where
  "zero_Socks5Option = \<lparr>s5_Name = [], s5_Server = [], s5_Port = 0, s5_UserName = [], s5_Password = [], s5_TLS = False, s5_UDP = False, s5_SkipCertVerify = False\<rparr>"

definition zero_HttpOption :: HttpOption where
  "zero_HttpOption = \<lparr>ht_Name = [], ht_Server = [], ht_Port = 0, ht_UserName = [], ht_Password = [], ht_TLS = False, ht_SNI = [], ht_SkipCertVerify = False\<rparr>"

definition zero_ReDirectOption :: ReDirectOption where
  "zero_ReDirectOption = \<lparr>rd_Name = [], rd_Server = [], rd_Port = 0\<rparr>"

definition zero_TrojanOption :: TrojanOption where
  "zero_TrojanOption = \<lparr>tr_Name = [], tr_Server = [], tr_Port = 0, tr_Password = [], tr_ALPN = [], tr_SNI = [], tr_SkipCertVerify = False,
     tr_UDP = False, tr_Network = [], tr_GrpcOpts = \<lparr>grpc_GrpcServiceName = []\<rparr>\<rparr>"

text \<open>The default of the HTTP options is \<open>GET /\<close>.\<close>

definition default_VmessOption :: VmessOption where
  "default_VmessOption = \<lparr>vm_Name = [], vm_Server = [], vm_Port = 0, vm_UUID = [], vm_AlterID = 0, vm_Cipher = [], vm_TLS = False, vm_UDP = False,
     vm_Network = [], vm_HTTPOpts = \<lparr>ho_Method = ''GET'', ho_Path = [''/''], ho_Headers = None\<rparr>, vm_HTTP2Opts = \<lparr>h2_Host = [], h2_Path = []\<rparr>,
     vm_GrpcOpts = \<lparr>grpc_GrpcServiceName = []\<rparr>, vm_WSOpts = \<lparr>ws_Path = [], ws_Headers = None, ws_MaxEarlyData = 0, ws_EarlyDataHeaderName = []\<rparr>,
     vm_WSPath = [], vm_WSHeaders = None, vm_SkipCertVerify = False, vm_ServerName = []\<rparr>"

definition ParseProxy :: "out_env \<Rightarrow> raw \<Rightarrow> (parse_error, outbound) run" where
  "ParseProxy env src =
     (case src ''type'' of
        Some (DString proxyType) \<Rightarrow>
          if proxyType = ''socks5'' then
            run_bind (raw_option Socks5Option_fields of_Socks5Option to_Socks5Option src zero_Socks5Option) (\<lambda>op. run_ok (OSocks5 (NewSocks5 op)))
          else if proxyType = ''http'' then
            run_bind (raw_option HttpOption_fields of_HttpOption to_HttpOption src zero_HttpOption) (\<lambda>op. run_ok (OHttp (NewHttp op)))
          else if proxyType = ''vmess'' then
            run_bind (raw_option VmessOption_fields of_VmessOption to_VmessOption src default_VmessOption) (\<lambda>op.
              run_bind (NewVmess env op) (\<lambda>v. run_ok (OVmess v)))
          else if proxyType = ''trojan'' then
            run_bind (raw_option TrojanOption_fields of_TrojanOption to_TrojanOption src zero_TrojanOption) (\<lambda>op. run_ok (OTrojan (NewTrojan env op)))
          else if proxyType = ''redirect'' then
            run_bind (raw_option ReDirectOption_fields of_ReDirectOption to_ReDirectOption src zero_ReDirectOption) (\<lambda>op.
              case NewReDirect env op of Inl e \<Rightarrow> run_err (BadOutbound e) | Inr r \<Rightarrow> run_ok (OReDirect r))
          else run_err (UnsupportedProxy proxyType)
      | _ \<Rightarrow> run_err MissingType)"

section \<open>Objects\<close>

text \<open>
  What lies outside: the outbounds' environment, the YAML decoder on the file of a provider (\<open>None\<close>
  is an error, \<open>Some None\<close> a file without the field \<open>proxies\<close>), the download of a URL, which files can
  be read and written, their modification times, and the resolution of a path.
\<close>

record fetch_env =
  fe_out :: out_env
  fe_yaml :: "byte list \<Rightarrow> raw list option option"
  fe_get :: "string \<Rightarrow> byte list option"
  fe_readable :: "string \<Rightarrow> bool"
  fe_writable :: "string \<Rightarrow> bool"
  fe_mtime :: "string \<Rightarrow> int"
  fe_resolve :: "string \<Rightarrow> string"

datatype vehicle = FileVehicle string | HTTPDownload string string

record fetcher =
  f_name :: string
  f_vehicle :: vehicle
  f_updatedAt :: "int option"
  f_ticker :: "int option"
  f_hash :: "byte list"

text \<open>
  The objects made so far, the maps of \<open>parseProxies\<close> and the files on disk. Objects with a number
  from \<open>b_next\<close> or \<open>b_vnext\<close> on do not exist yet.
\<close>

record build =
  b_world :: world
  b_next :: pid
  b_vnext :: vid
  b_objs :: "pid \<rightharpoonup> outbound"
  b_fetchers :: "vid \<rightharpoonup> fetcher"
  b_proxies :: "string \<rightharpoonup> pid"
  b_providers :: "(string \<times> vid) list"
  b_files :: "string \<rightharpoonup> byte list"

definition base_adapter :: "Base \<Rightarrow> adapter" where
  "base_adapter b = \<lparr>name = b_name b, addr = b_addr b, tp = b_tp b, udp = b_udp b, disableUDP = False, single = NewSingle 0, providers = [], grp = Outbound\<rparr>"

definition new_proxy :: "int \<Rightarrow> adapter \<Rightarrow> build \<Rightarrow> pid \<times> build" where
  "new_proxy now a st =
     (let p = b_next st
      in (p, st\<lparr>b_world := upd_ad p a (upd_px p (NewProxy now) (b_world st)), b_next := p + 1\<rparr>))"

definition new_outbound :: "int \<Rightarrow> outbound \<Rightarrow> build \<Rightarrow> pid \<times> build" where
  "new_outbound now ob st =
     (let (p, st1) = new_proxy now (base_adapter (out_Base ob)) st in (p, st1\<lparr>b_objs := (b_objs st1)(p \<mapsto> ob)\<rparr>))"

definition new_provider :: "provider \<Rightarrow> build \<Rightarrow> vid \<times> build" where
  "new_provider q st =
     (let v = b_vnext st in (v, st\<lparr>b_world := upd_pv v q (b_world st), b_vnext := v + 1\<rparr>))"

section \<open>Providers\<close>

datatype provider_error = BadSchema decode_error | errVehicleType string | ReadFailed | BadYaml | NoProxiesField | EntryError nat parse_error
  | NoValidProxy | WriteFailed

fun parse_entries :: "out_env \<Rightarrow> int \<Rightarrow> nat \<Rightarrow> raw list \<Rightarrow> build \<Rightarrow> (provider_error, pid list \<times> build) run" where
  "parse_entries env now idx [] st = run_ok ([], st)"
| "parse_entries env now idx (m # ms) st =
     run_bind (run_wrap (EntryError idx) (ParseProxy env m)) (\<lambda>ob.
       let (p, st1) = new_outbound now ob st
       in run_bind (parse_entries env now (idx + 1) ms st1) (\<lambda>(ps, st2). run_ok (p # ps, st2)))"

definition proxiesParse :: "fetch_env \<Rightarrow> int \<Rightarrow> byte list \<Rightarrow> build \<Rightarrow> (provider_error, pid list \<times> build) run" where
  "proxiesParse env now buf st =
     (case fe_yaml env buf of
        None \<Rightarrow> run_err BadYaml
      | Some None \<Rightarrow> run_err NoProxiesField
      | Some (Some ms) \<Rightarrow>
          run_bind (parse_entries (fe_out env) now 0 ms st) (\<lambda>(ps, st1). if ps = [] then run_err NoValidProxy else run_ok (ps, st1)))"

fun vehicle_Path :: "vehicle \<Rightarrow> string" where
  "vehicle_Path (FileVehicle p) = p"
| "vehicle_Path (HTTPDownload _ p) = p"

fun vehicle_Type :: "vehicle \<Rightarrow> VehicleType" where
  "vehicle_Type (FileVehicle _) = File"
| "vehicle_Type (HTTPDownload _ _) = HTTPVehicle"

definition ReadFile :: "fetch_env \<Rightarrow> string \<Rightarrow> build \<Rightarrow> byte list option" where
  "ReadFile env path st = (if fe_readable env path then b_files st path else None)"

fun vehicle_Read :: "fetch_env \<Rightarrow> vehicle \<Rightarrow> build \<Rightarrow> byte list option" where
  "vehicle_Read env (FileVehicle path) st = ReadFile env path st"
| "vehicle_Read env (HTTPDownload url _) st = fe_get env url"

definition safeWrite :: "fetch_env \<Rightarrow> vehicle \<Rightarrow> byte list \<Rightarrow> build \<Rightarrow> (provider_error, build) run" where
  "safeWrite env vh buf st =
     (if vehicle_Type vh = File then run_ok st
      else if fe_writable env (vehicle_Path vh) then run_ok (st\<lparr>b_files := (b_files st)(vehicle_Path vh \<mapsto> buf)\<rparr>)
      else run_err WriteFailed)"

definition time_Duration :: "nat \<Rightarrow> int" where
  "time_Duration seconds = sint (of_nat seconds * 1000000000 :: 64 word)"

definition NewTicker :: "int \<Rightarrow> panic + int" where
  "NewTicker d = (if d \<le> 0 then Inl NonPositiveTicker else Inr d)"

definition newFetcher :: "string \<Rightarrow> int \<Rightarrow> vehicle \<Rightarrow> panic + fetcher" where
  "newFetcher nm d vh =
     (if d \<noteq> 0 then map_sum id (\<lambda>t. \<lparr>f_name = nm, f_vehicle = vh, f_updatedAt = None, f_ticker = Some t, f_hash = replicate 16 0\<rparr>) (NewTicker d)
      else Inr \<lparr>f_name = nm, f_vehicle = vh, f_updatedAt = None, f_ticker = None, f_hash = replicate 16 0\<rparr>)"

text \<open>The local copy counts first; a copy that does not parse is replaced by what the vehicle reads.\<close>

definition parse_fetched :: "fetch_env \<Rightarrow> int \<Rightarrow> vehicle \<Rightarrow> build \<Rightarrow> (provider_error, byte list \<times> pid list \<times> bool \<times> build) run" where
  "parse_fetched env now vh st =
     (let isLocal = (b_files st (vehicle_Path vh) \<noteq> None)
      in case (if isLocal then ReadFile env (vehicle_Path vh) st else vehicle_Read env vh st) of
           None \<Rightarrow> run_err ReadFailed
         | Some buf \<Rightarrow>
             (case proxiesParse env now buf st of
                Some (Inr (Inl e)) \<Rightarrow>
                  if \<not> isLocal then run_err e
                  else (case vehicle_Read env vh st of
                          None \<Rightarrow> run_err ReadFailed
                        | Some buf1 \<Rightarrow> run_bind (proxiesParse env now buf1 st) (\<lambda>(ps, st1). run_ok (buf1, ps, False, st1)))
              | r \<Rightarrow> run_bind r (\<lambda>(ps, st1). run_ok (buf, ps, isLocal, st1))))"

definition fetcher_Initial :: "fetch_env \<Rightarrow> int \<Rightarrow> fetcher \<Rightarrow> build \<Rightarrow> (provider_error, pid list \<times> fetcher \<times> build) run" where
  "fetcher_Initial env now f st =
     run_bind (parse_fetched env now (f_vehicle f) st) (\<lambda>(buf, ps, isLocal, st1).
       let path = vehicle_Path (f_vehicle f);
           f1 = (if b_files st path \<noteq> None then f\<lparr>f_updatedAt := Some (fe_mtime env path)\<rparr> else f)
       in run_bind (if isLocal then run_ok st1 else safeWrite env (f_vehicle f) buf st1) (\<lambda>st2.
            run_ok (ps, f1\<lparr>f_hash := md5 (oe_crypto (fe_out env)) buf\<rparr>, st2)))"

text \<open>\<open>None\<close> for the members is that they have not changed.\<close>

definition fetcher_Update :: "fetch_env \<Rightarrow> int \<Rightarrow> fetcher \<Rightarrow> build \<Rightarrow> (provider_error, pid list option \<times> fetcher \<times> build) run" where
  "fetcher_Update env now f st =
     (case vehicle_Read env (f_vehicle f) st of
        None \<Rightarrow> run_err ReadFailed
      | Some buf \<Rightarrow>
          (let hash = md5 (oe_crypto (fe_out env)) buf
           in if f_hash f = hash then run_ok (None, f\<lparr>f_updatedAt := Some now\<rparr>, st)
              else run_bind (proxiesParse env now buf st) (\<lambda>(ps, st1).
                     run_bind (safeWrite env (f_vehicle f) buf st1) (\<lambda>st2.
                       run_ok (Some ps, f\<lparr>f_updatedAt := Some now, f_hash := hash\<rparr>, st2)))))"

definition onUpdate :: "vid \<Rightarrow> pid list \<Rightarrow> fetcher \<Rightarrow> build \<Rightarrow> build" where
  "onUpdate v ps f st =
     st\<lparr>b_world := upd_pv v (fst (setProxies ps (pv (b_world st) v))) (b_world st), b_fetchers := (b_fetchers st)(v \<mapsto> f)\<rparr>"

text \<open>\<open>Initial\<close> of a provider; the one of a group has nothing to do.\<close>

definition provider_Initial :: "fetch_env \<Rightarrow> int \<Rightarrow> vid \<Rightarrow> build \<Rightarrow> (provider_error, build) run" where
  "provider_Initial env now v st =
     (case b_fetchers st v of
        None \<Rightarrow> run_ok st
      | Some f \<Rightarrow> run_bind (fetcher_Initial env now f st) (\<lambda>(ps, f1, st1). run_ok (onUpdate v ps f1 st1)))"

text \<open>\<open>Update\<close> of a provider, and what a tick of its \<open>pullLoop\<close> does: a failure leaves everything as it was.\<close>

definition provider_Update :: "fetch_env \<Rightarrow> int \<Rightarrow> vid \<Rightarrow> build \<Rightarrow> (provider_error, build) run" where
  "provider_Update env now v st =
     (case b_fetchers st v of
        None \<Rightarrow> run_ok st
      | Some f \<Rightarrow>
          run_bind (fetcher_Update env now f st) (\<lambda>(r, f1, st1).
            run_ok (case r of Some ps \<Rightarrow> onUpdate v ps f1 st1 | None \<Rightarrow> st1\<lparr>b_fetchers := (b_fetchers st1)(v \<mapsto> f1)\<rparr>)))"

definition pull_tick :: "fetch_env \<Rightarrow> int \<Rightarrow> vid \<Rightarrow> build \<Rightarrow> (panic + build) option" where
  "pull_tick env now v st =
     (case provider_Update env now v st of
        None \<Rightarrow> None | Some (Inl p) \<Rightarrow> Some (Inl p) | Some (Inr (Inl _)) \<Rightarrow> Some (Inr st) | Some (Inr (Inr st1)) \<Rightarrow> Some (Inr st1))"

definition go_uint :: "int \<Rightarrow> nat" where
  "go_uint i = unat (word_of_int i :: 64 word)"

text \<open>The ticker that \<open>process\<close>, started for a check with an interval, makes first.\<close>

definition start_process :: "HealthCheck \<Rightarrow> panic + int option" where
  "start_process hc = (if auto_check hc then map_sum id Some (NewTicker (time_Duration (interval hc))) else Inr None)"

definition NewProxySetProvider :: "string \<Rightarrow> int \<Rightarrow> vehicle \<Rightarrow> HealthCheck \<Rightarrow> build \<Rightarrow> (provider_error, vid \<times> build) run" where
  "NewProxySetProvider nm d vh hc st =
     (case start_process hc of
        Inl p \<Rightarrow> Some (Inl p)
      | Inr _ \<Rightarrow>
          (case newFetcher nm d vh of
             Inl p \<Rightarrow> Some (Inl p)
           | Inr f \<Rightarrow>
               (let (v, st1) = new_provider \<lparr>pv_name = nm, pv_vehicle = vehicle_Type vh, healthCheck = hc, pv_proxies = []\<rparr> st
                in run_ok (v, st1\<lparr>b_fetchers := (b_fetchers st1)(v \<mapsto> f)\<rparr>))))"

definition default_ProxyProviderSchema :: ProxyProviderSchema where
  "default_ProxyProviderSchema = \<lparr>pps_Type = [], pps_Path = [], pps_URL = [], pps_Interval = 0,
     pps_HealthCheck = \<lparr>hcs_Enable = False, hcs_URL = [], hcs_Interval = 0, hcs_Lazy = True\<rparr>\<rparr>"

definition ParseProxyProvider :: "fetch_env \<Rightarrow> string \<Rightarrow> raw \<Rightarrow> build \<Rightarrow> (provider_error, vid \<times> build) run" where
  "ParseProxyProvider env nm src st =
     run_bind (Some (map_sum id (map_sum BadSchema id)
         (decode_option ProxyProviderSchema_fields of_ProxyProviderSchema to_ProxyProviderSchema src default_ProxyProviderSchema))) (\<lambda>schema.
       let check = pps_HealthCheck schema;
           hc = NewHealthCheck [] (hcs_URL check) (if hcs_Enable check then go_uint (hcs_Interval check) else 0) (hcs_Lazy check);
           path = fe_resolve env (pps_Path schema);
           d = time_Duration (go_uint (pps_Interval schema))
       in if pps_Type schema = ''file'' then NewProxySetProvider nm d (FileVehicle path) hc st
          else if pps_Type schema = ''http'' then NewProxySetProvider nm d (HTTPDownload (pps_URL schema) path) hc st
          else run_err (errVehicleType (pps_Type schema)))"

section \<open>Groups\<close>

datatype group_error = errFormat | errMissProxy | ProxyNotFound string | errDuplicateProvider | errMissHealthCheck | NeedProxy
  | UsesGroup string | errType string | errStrategy string

fun getProxies :: "(string \<rightharpoonup> pid) \<Rightarrow> string list \<Rightarrow> (group_error, pid list) run" where
  "getProxies m [] = run_ok []"
| "getProxies m (nm # ns) =
     (case m nm of
        None \<Rightarrow> run_err (ProxyNotFound nm)
      | Some p \<Rightarrow> run_bind (getProxies m ns) (\<lambda>ps. run_ok (p # ps)))"

fun getProviders :: "build \<Rightarrow> string list \<Rightarrow> (group_error, vid list) run" where
  "getProviders st [] = run_ok []"
| "getProviders st (nm # ns) =
     (case map_of (b_providers st) nm of
        None \<Rightarrow> run_err (ProxyNotFound nm)
      | Some v \<Rightarrow>
          if pv_vehicle (pv (b_world st) v) = Compatible then run_err (UsesGroup nm)
          else run_bind (getProviders st ns) (\<lambda>vs. run_ok (v # vs)))"

definition parseStrategy :: "raw \<Rightarrow> string" where
  "parseStrategy config = (case config ''strategy'' of Some (DString s) \<Rightarrow> s | _ \<Rightarrow> ''consistent-hashing'')"

definition parseURLTestOption :: "raw \<Rightarrow> uint16" where
  "parseURLTestOption config = (case config ''tolerance'' of Some (DInt t) \<Rightarrow> word_of_int t | _ \<Rightarrow> 0)"

text \<open>A provider for the members listed by name, with its health check running.\<close>

definition compatible_provider :: "string \<Rightarrow> pid list \<Rightarrow> HealthCheck \<Rightarrow> build \<Rightarrow> (group_error, vid \<times> build) run" where
  "compatible_provider nm ps hc st =
     (case NewCompatibleProvider nm ps hc of
        None \<Rightarrow> run_err NeedProxy
      | Some q \<Rightarrow> (case start_process hc of Inl p \<Rightarrow> Some (Inl p) | Inr _ \<Rightarrow> run_ok (new_provider q st)))"

definition put_provider :: "string \<Rightarrow> vid \<Rightarrow> build \<Rightarrow> build" where
  "put_provider nm v st = st\<lparr>b_providers := AList.update nm v (b_providers st)\<rparr>"

text \<open>The provider of a group's own members; with \<open>use\<close> it is not listed and has no health check.\<close>

definition own_provider :: "GroupCommonOption \<Rightarrow> build \<Rightarrow> (group_error, vid list \<times> build) run" where
  "own_provider op st =
     (if GroupProxies op = [] then run_ok ([], st)
      else run_bind (getProxies (b_proxies st) (GroupProxies op)) (\<lambda>ps.
        if Use op \<noteq> [] then
          run_bind (compatible_provider (Name op) ps (NewHealthCheck ps [] 0 True) st) (\<lambda>(v, st1). run_ok ([v], st1))
        else if map_of (b_providers st) (Name op) \<noteq> None then run_err errDuplicateProvider
        else if GroupType op = ''select'' \<or> GroupType op = ''relay'' then
          run_bind (compatible_provider (Name op) ps (NewHealthCheck ps [] 0 True) st) (\<lambda>(v, st1). run_ok ([v], put_provider (Name op) v st1))
        else if GroupURL op = [] \<or> Interval op = 0 then run_err errMissHealthCheck
        else
          run_bind (compatible_provider (Name op) ps (NewHealthCheck ps (GroupURL op) (go_uint (Interval op)) (Lazy op)) st)
            (\<lambda>(v, st1). run_ok ([v], put_provider (Name op) v st1))))"

definition make_group :: "GroupCommonOption \<Rightarrow> raw \<Rightarrow> vid list \<Rightarrow> world \<Rightarrow> (group_error, adapter) run" where
  "make_group op config vs w =
     (if GroupType op = ''url-test'' then Some (map_sum id Inr (NewURLTest (Name op) (DisableUDP op) (parseURLTestOption config) vs w))
      else if GroupType op = ''select'' then Some (map_sum id Inr (NewSelector (Name op) (DisableUDP op) vs w))
      else if GroupType op = ''fallback'' then run_ok (NewFallback (Name op) (DisableUDP op) vs)
      else if GroupType op = ''load-balance'' then
        (case NewLoadBalance (Name op) (DisableUDP op) vs (parseStrategy config) of
           None \<Rightarrow> run_err (errStrategy (parseStrategy config)) | Some a \<Rightarrow> run_ok a)
      else if GroupType op = ''relay'' then run_ok (NewRelay (Name op) vs)
      else run_err (errType (GroupType op)))"

definition zero_GroupCommonOption :: GroupCommonOption where
  "zero_GroupCommonOption = \<lparr>Name = [], GroupType = [], GroupProxies = [], Use = [], GroupURL = [], Interval = 0, Lazy = False, DisableUDP = False\<rparr>"

definition group_option :: "bool \<Rightarrow> raw \<Rightarrow> panic + decode_error + GroupCommonOption" where
  "group_option lz config =
     decode_option GroupCommonOption_fields of_GroupCommonOption to_GroupCommonOption config (zero_GroupCommonOption\<lparr>Lazy := lz\<rparr>)"

definition use_providers :: "GroupCommonOption \<Rightarrow> build \<Rightarrow> (group_error, vid list) run" where
  "use_providers op st = (if Use op \<noteq> [] then getProviders st (Use op) else run_ok [])"

definition ParseProxyGroup :: "raw \<Rightarrow> build \<Rightarrow> (group_error, adapter \<times> build) run" where
  "ParseProxyGroup config st =
     run_bind (Some (map_sum id (map_sum (\<lambda>_. errFormat) id) (group_option True config))) (\<lambda>op.
       if GroupType op = [] \<or> Name op = [] then run_err errFormat
       else if GroupProxies op = [] \<and> Use op = [] then run_err errMissProxy
       else run_bind (own_provider op st) (\<lambda>(vs, st1).
         run_bind (use_providers op st1) (\<lambda>us.
           run_bind (make_group op config (vs @ us) (b_world st1)) (\<lambda>a. run_ok (a, st1)))))"

section \<open>parseProxies\<close>

datatype config_error = ProxyError nat parse_error | DuplicateProxy string | MissingGroupName nat | SortError sort_error | ReservedProvider
  | ProviderError string provider_error | InitialError provider_error | GroupError nat group_error | DuplicateName string

definition ReservedName :: string where
  "ReservedName = ''default''"

definition put_proxy :: "string \<Rightarrow> pid \<Rightarrow> build \<Rightarrow> build" where
  "put_proxy nm p st = st\<lparr>b_proxies := (b_proxies st)(nm \<mapsto> p)\<rparr>"

fun parse_proxy_list :: "fetch_env \<Rightarrow> int \<Rightarrow> nat \<Rightarrow> raw list \<Rightarrow> string list \<Rightarrow> build \<Rightarrow> (config_error, string list \<times> build) run" where
  "parse_proxy_list env now idx [] names st = run_ok (names, st)"
| "parse_proxy_list env now idx (m # ms) names st =
     run_bind (run_wrap (ProxyError idx) (ParseProxy (fe_out env) m)) (\<lambda>ob.
       let nm = b_name (out_Base ob); (p, st1) = new_outbound now ob st
       in if b_proxies st nm \<noteq> None then run_err (DuplicateProxy nm)
          else parse_proxy_list env now (idx + 1) ms (names @ [nm]) (put_proxy nm p st1))"

fun listed_groups :: "nat \<Rightarrow> raw list \<Rightarrow> (config_error, string list) run" where
  "listed_groups idx [] = run_ok []"
| "listed_groups idx (m # ms) =
     (case m ''name'' of
        Some (DString nm) \<Rightarrow> run_bind (listed_groups (idx + 1) ms) (\<lambda>ns. run_ok (nm # ns))
      | _ \<Rightarrow> run_err (MissingGroupName idx))"

text \<open>
  The sort stops at the first mapping that it cannot take, so a panic of the decoder comes before the
  errors of later mappings and after those of earlier ones. The text of a decoding error is left out.
\<close>

definition sort_decode :: "raw \<Rightarrow> string + GroupCommonOption" where
  "sort_decode m = (case group_option False m of Inr (Inr op) \<Rightarrow> Inr op | _ \<Rightarrow> Inl [])"

definition sort_groups :: "(string list \<Rightarrow> string list) \<Rightarrow> raw list \<Rightarrow> (config_error, raw list) run" where
  "sort_groups perm ms =
     (let pre = takeWhile (\<lambda>m. \<not> isl (group_option False m)) ms
      in if length pre = length ms then Some (map_sum id (map_sum SortError id) (proxyGroupsDagSort perm sort_decode ms))
         else (case build_graph sort_decode pre [] of
                 Inl e \<Rightarrow> run_err (SortError e)
               | Inr _ \<Rightarrow> (case group_option False (ms ! length pre) of
                            Inl p \<Rightarrow> Some (Inl p) | Inr _ \<Rightarrow> None)))"

fun parse_providers :: "fetch_env \<Rightarrow> (string \<times> raw) list \<Rightarrow> build \<Rightarrow> (config_error, build) run" where
  "parse_providers env [] st = run_ok st"
| "parse_providers env ((nm, m) # ms) st =
     (if nm = ReservedName then run_err ReservedProvider
      else run_bind (run_wrap (ProviderError nm) (ParseProxyProvider env nm m st)) (\<lambda>(v, st1). parse_providers env ms (put_provider nm v st1)))"

fun init_providers :: "fetch_env \<Rightarrow> int \<Rightarrow> vid list \<Rightarrow> build \<Rightarrow> (config_error, build) run" where
  "init_providers env now [] st = run_ok st"
| "init_providers env now (v # vs) st = run_bind (run_wrap InitialError (provider_Initial env now v st)) (init_providers env now vs)"

fun parse_groups :: "int \<Rightarrow> nat \<Rightarrow> raw list \<Rightarrow> build \<Rightarrow> (config_error, build) run" where
  "parse_groups now idx [] st = run_ok st"
| "parse_groups now idx (m # ms) st =
     run_bind (run_wrap (GroupError idx) (ParseProxyGroup m st)) (\<lambda>(a, st1).
       if b_proxies st1 (name a) \<noteq> None then run_err (DuplicateName (name a))
       else let (p, st2) = new_proxy now a st1 in parse_groups now (idx + 1) ms (put_proxy (name a) p st2))"

definition add_builtin :: "int \<Rightarrow> string \<Rightarrow> outbound \<Rightarrow> build \<Rightarrow> build" where
  "add_builtin now nm ob st = (let (p, st1) = new_outbound now ob st in put_proxy nm p st1)"

text \<open>The group \<open>GLOBAL\<close> of all proxies. Every listed name is in the map by now.\<close>

definition add_global :: "int \<Rightarrow> string list \<Rightarrow> build \<Rightarrow> (config_error, build) run" where
  "add_global now names st =
     (let ps = List.map_filter (b_proxies st) names;
          (v, st1) = new_provider \<lparr>pv_name = ReservedName, pv_vehicle = Compatible, healthCheck = NewHealthCheck ps [] 0 True, pv_proxies = ps\<rparr> st
      in case NewSelector ''GLOBAL'' False [v] (b_world st1) of
           Inl p \<Rightarrow> Some (Inl p)
         | Inr a \<Rightarrow> (let (g, st2) = new_proxy now a (put_provider ReservedName v st1) in run_ok (put_proxy ''GLOBAL'' g st2)))"

definition empty_world :: world where
  "empty_world = \<lparr>px = (\<lambda>_. NewProxy 0), ad = (\<lambda>_. base_adapter NewDirect),
     pv = (\<lambda>_. \<lparr>pv_name = [], pv_vehicle = Compatible, healthCheck = NewHealthCheck [] [] 0 True, pv_proxies = []\<rparr>)\<rparr>"

definition empty_build :: "(string \<rightharpoonup> byte list) \<Rightarrow> build" where
  "empty_build files = \<lparr>b_world = empty_world, b_next = 0, b_vnext = 0, b_objs = Map.empty, b_fetchers = Map.empty,
     b_proxies = Map.empty, b_providers = [], b_files = files\<rparr>"

text \<open>
  \<open>perm\<close> and \<open>order\<close> are the orders in which Go visits the graph of the groups and the map of providers.
  The second round of \<open>Initial\<close>, over the providers of groups, does nothing.
\<close>

definition parseProxies :: "fetch_env \<Rightarrow> int \<Rightarrow> (string list \<Rightarrow> string list) \<Rightarrow> (vid list \<Rightarrow> vid list) \<Rightarrow>
    raw list \<Rightarrow> raw list \<Rightarrow> (string \<times> raw) list \<Rightarrow> (string \<rightharpoonup> byte list) \<Rightarrow> (config_error, build) run" where
  "parseProxies env now perm order proxiesConfig groupsConfig providersConfig files =
     (let st = add_builtin now ''REJECT'' (OReject NewReject) (add_builtin now ''DIRECT'' (ODirect NewDirect) (empty_build files))
      in run_bind (parse_proxy_list env now 0 proxiesConfig [''DIRECT'', ''REJECT''] st) (\<lambda>(names, st1).
         run_bind (listed_groups 0 groupsConfig) (\<lambda>gs.
         run_bind (sort_groups perm groupsConfig) (\<lambda>sorted.
         run_bind (parse_providers env providersConfig st1) (\<lambda>st2.
         run_bind (init_providers env now (order (map snd (b_providers st2))) st2) (\<lambda>st3.
         run_bind (parse_groups now 0 sorted st3) (\<lambda>st4.
         add_global now (names @ gs) st4)))))))"

section \<open>Groups refer to older objects\<close>

text \<open>
  A group is made after its members, and a provider that is fetched again has outbounds only. So the
  number of a group, and zero for an outbound, bounds the depth of groups inside groups.
\<close>

definition group_rank :: "world \<Rightarrow> pid \<Rightarrow> nat" where
  "group_rank w p = (if grp (ad w p) = Outbound then 0 else Suc p)"

definition adapter_ok :: "pid \<Rightarrow> vid \<Rightarrow> adapter \<Rightarrow> bool" where
  "adapter_ok n m a \<longleftrightarrow> (grp a = Outbound \<longrightarrow> providers a = []) \<and> (\<forall>v \<in> set (providers a). v < m) \<and> cached (single a) = None \<and>
     (case grp a of Selector _ p \<Rightarrow> p < n | URLTestGroup _ p \<Rightarrow> p < n | _ \<Rightarrow> True)"

definition build_ok :: "build \<Rightarrow> bool" where
  "build_ok st \<longleftrightarrow> ranked (group_rank (b_world st)) (b_world st) \<and>
     (\<forall>i. adapter_ok (b_next st) (b_vnext st) (ad (b_world st) i)) \<and>
     (\<forall>i \<ge> b_next st. grp (ad (b_world st) i) = Outbound) \<and>
     (\<forall>v < b_vnext st. \<forall>p \<in> set (Proxies v (b_world st)). p < b_next st) \<and>
     (\<forall>v. b_fetchers st v \<noteq> None \<longrightarrow> v < b_vnext st \<and> (\<forall>p \<in> set (Proxies v (b_world st)). grp (ad (b_world st) p) = Outbound)) \<and>
     (\<forall>nm v. map_of (b_providers st) nm = Some v \<longrightarrow> v < b_vnext st) \<and>
     (\<forall>nm p. b_proxies st nm = Some p \<longrightarrow> p < b_next st)"

lemma build_okD:
  assumes "build_ok st"
  shows "ranked (group_rank (b_world st)) (b_world st)" "adapter_ok (b_next st) (b_vnext st) (ad (b_world st) i)"
    "b_next st \<le> i \<Longrightarrow> grp (ad (b_world st) i) = Outbound"
    "v < b_vnext st \<Longrightarrow> p \<in> set (Proxies v (b_world st)) \<Longrightarrow> p < b_next st"
    "b_fetchers st v = Some f \<Longrightarrow> v < b_vnext st" "b_fetchers st v = Some f \<Longrightarrow> p \<in> set (Proxies v (b_world st)) \<Longrightarrow> grp (ad (b_world st) p) = Outbound"
    "map_of (b_providers st) nm = Some v \<Longrightarrow> v < b_vnext st" "b_proxies st nm = Some p \<Longrightarrow> p < b_next st"
  using assms unfolding build_ok_def by (blast | simp)+

lemma member_bound:
  assumes "build_ok st" "c \<in> members (b_world st) i"
  shows "c < b_next st"
proof -
  from build_okD(2) [OF assms(1), of i] have a: "adapter_ok (b_next st) (b_vnext st) (ad (b_world st) i)" .
  from assms(2) consider "c \<in> (case grp (ad (b_world st) i) of Selector _ p \<Rightarrow> {p} | URLTestGroup _ p \<Rightarrow> {p} | _ \<Rightarrow> {})"
    | v where "v \<in> set (providers (ad (b_world st) i))" "c \<in> set (Proxies v (b_world st))"
    using a by (auto simp: members_def adapter_ok_def)
  then show ?thesis
  proof cases
    case 1
    then show ?thesis using a by (auto simp: adapter_ok_def split: group.splits)
  next
    case 2
    then show ?thesis using a build_okD(4) [OF assms(1), of v c] by (auto simp: adapter_ok_def)
  qed
qed

lemma adapter_ok_mono: "adapter_ok n m a \<Longrightarrow> n \<le> n' \<Longrightarrow> m \<le> m' \<Longrightarrow> adapter_ok n' m' a"
  by (auto simp: adapter_ok_def split: group.splits)

lemma members_new_adapter:
  "members (upd_ad p a w) i = (if i = p then members (w\<lparr>ad := (ad w)(p := a)\<rparr>) p else members w i)"
  by (simp add: members_def upd_ad_def Proxies_def)

lemma new_proxy_ok:
  assumes st: "build_ok st" and a: "adapter_ok (b_next st) (b_vnext st) a"
  shows "build_ok (snd (new_proxy now a st))"
proof -
  let ?n = "b_next st" and ?w = "b_world st"
  let ?w1 = "upd_ad ?n a (upd_px ?n (NewProxy now) ?w)"
  have pr [simp]: "Proxies v ?w1 = Proxies v ?w" for v by (simp add: Proxies_def upd_ad_def upd_px_def)
  have adn: "ad ?w1 i = (if i = ?n then a else ad ?w i)" for i by (simp add: upd_ad_def upd_px_def)
  have mem: "members ?w1 i = members ?w i" if "i \<noteq> ?n" for i using that by (simp add: members_new_adapter)
  have memn: "c < ?n" if "c \<in> members ?w1 ?n" for c
  proof -
    from that consider "c \<in> (case grp a of Selector _ p \<Rightarrow> {p} | URLTestGroup _ p \<Rightarrow> {p} | _ \<Rightarrow> {})"
      | v where "v \<in> set (providers a)" "c \<in> set (Proxies v ?w)"
      using a unfolding members_def adn by (auto simp: adapter_ok_def)
    then show ?thesis using a build_okD(4) [OF st, of _ c] by cases (auto simp: adapter_ok_def split: group.splits)
  qed
  have none: "members ?w1 ?n = {}" if "grp a = Outbound"
    using a that unfolding members_def adn by (simp add: adapter_ok_def)
  have rank: "group_rank ?w1 c = group_rank ?w c" if "c \<noteq> ?n" for c using that by (simp add: group_rank_def adn)
  have small: "group_rank ?w c < Suc ?n" if "c < ?n" for c using that by (simp add: group_rank_def)
  have "group_rank ?w1 c < group_rank ?w1 i" if "c \<in> members ?w1 i" for c i
  proof (cases "i = ?n")
    case True
    with that memn have c: "c < ?n" by blast
    moreover from that none True have "grp a \<noteq> Outbound" by auto
    ultimately show ?thesis using True small [OF c] rank [of c] by (simp add: group_rank_def [of ?w1 ?n] adn)
  next
    case False
    with that have m: "c \<in> members ?w i" by (simp add: mem)
    then have "c < ?n" by (rule member_bound [OF st])
    then show ?thesis using m False rank [of c] rank [of i] build_okD(1) [OF st] by (simp add: ranked_def)
  qed
  then have "ranked (group_rank ?w1) ?w1" by (simp add: ranked_def)
  moreover have "adapter_ok (Suc ?n) (b_vnext st) (ad ?w1 i)" for i
    using a build_okD(2) [OF st, of i] by (auto simp: adn intro: adapter_ok_mono)
  moreover have "grp (ad ?w1 i) = Outbound" if "Suc ?n \<le> i" for i using that build_okD(3) [OF st, of i] by (simp add: adn)
  moreover have "p < Suc ?n" if "v < b_vnext st" "p \<in> set (Proxies v ?w)" for v p using build_okD(4) [OF st that] by simp
  moreover have "grp (ad ?w1 p) = Outbound" if "b_fetchers st v = Some f" "p \<in> set (Proxies v ?w)" for v p f
    using build_okD(4) [OF st build_okD(5) [OF st that(1)] that(2)] build_okD(6) [OF st that] by (simp add: adn)
  moreover have "p < Suc ?n" if "b_proxies st nm = Some p" for nm p using build_okD(8) [OF st that] by simp
  ultimately show ?thesis
    using build_okD(5, 7) [OF st] by (auto simp: build_ok_def new_proxy_def Let_def)
qed

lemma base_adapter_ok [simp]: "adapter_ok n m (base_adapter b)"
  by (simp add: adapter_ok_def base_adapter_def NewSingle_def)

lemma build_ok_objs [simp]: "build_ok (st\<lparr>b_objs := x\<rparr>) = build_ok st" "build_ok (st\<lparr>b_files := y\<rparr>) = build_ok st"
  by (simp_all add: build_ok_def)

lemma build_ok_put_proxy: "build_ok st \<Longrightarrow> p < b_next st \<Longrightarrow> build_ok (put_proxy nm p st)"
  by (auto simp: build_ok_def put_proxy_def)

lemma build_ok_put_provider: "build_ok st \<Longrightarrow> v < b_vnext st \<Longrightarrow> build_ok (put_provider nm v st)"
  by (auto simp: build_ok_def put_provider_def update_conv')

text \<open>What the making of outbounds leaves alone.\<close>

definition grows :: "build \<Rightarrow> build \<Rightarrow> bool" where
  "grows st st1 \<longleftrightarrow> b_vnext st1 = b_vnext st \<and> b_fetchers st1 = b_fetchers st \<and> b_providers st1 = b_providers st \<and> b_proxies st1 = b_proxies st \<and>
     b_next st \<le> b_next st1 \<and> pv (b_world st1) = pv (b_world st) \<and> (\<forall>i < b_next st. ad (b_world st1) i = ad (b_world st) i)"

lemma grows_refl [simp]: "grows st st"
  by (simp add: grows_def)

lemma grows_trans: "grows a b \<Longrightarrow> grows b c \<Longrightarrow> grows a c"
  by (simp add: grows_def)

lemma new_outbound_spec:
  assumes "build_ok st" "new_outbound now ob st = (p, st1)"
  shows "build_ok st1" "grows st st1" "p = b_next st" "b_next st1 = Suc p" "ad (b_world st1) p = base_adapter (out_Base ob)"
  using assms new_proxy_ok [OF assms(1), of "base_adapter (out_Base ob)" now]
  by (auto simp: new_outbound_def new_proxy_def grows_def upd_ad_def upd_px_def Let_def)

lemma run_bind_ok: "run_bind m f = Some (Inr (Inr y)) \<longleftrightarrow> (\<exists>x. m = Some (Inr (Inr x)) \<and> f x = Some (Inr (Inr y)))"
  by (cases "(m, f)" rule: run_bind.cases) auto

lemma run_wrap_ok [simp]: "run_wrap g m = Some (Inr (Inr y)) \<longleftrightarrow> m = Some (Inr (Inr y))"
  by (cases m rule: option.exhaust) (auto simp: run_wrap_def map_sum_def split: sum.splits)

lemma run_ok_iff [simp]: "run_ok x = Some (Inr (Inr y)) \<longleftrightarrow> x = y" "run_err e \<noteq> Some (Inr (Inr y))" "run_bind (run_ok x) f = f x"
  by (simp_all add: run_ok_def run_err_def)

definition outbounds_in :: "pid list \<Rightarrow> build \<Rightarrow> bool" where
  "outbounds_in ps st \<longleftrightarrow> (\<forall>p \<in> set ps. p < b_next st \<and> grp (ad (b_world st) p) = Outbound)"

lemma parse_entries_spec:
  assumes "parse_entries env now idx ms st = Some (Inr (Inr (ps, st1)))" "build_ok st"
  shows "build_ok st1 \<and> grows st st1 \<and> outbounds_in ps st1"
  using assms
proof (induction env now idx ms st arbitrary: ps rule: parse_entries.induct)
  case (1 env now idx st)
  then show ?case by (simp add: outbounds_in_def)
next
  case (2 env now idx m ms st)
  from "2.prems"(1) obtain ob where ob: "ParseProxy env m = Some (Inr (Inr ob))" by (auto simp: run_bind_ok)
  obtain p sta where s1: "new_outbound now ob st = (p, sta)" by fastforce
  with ob "2.prems"(1) obtain qs where s2: "parse_entries env now (idx + 1) ms sta = Some (Inr (Inr (qs, st1)))" "ps = p # qs"
    by (auto simp: run_bind_ok)
  note s = s1 s2
  note n = new_outbound_spec [OF "2.prems"(2) s(1)]
  have "build_ok st1 \<and> grows sta st1 \<and> outbounds_in qs st1" using "2.IH" [OF s(1) [symmetric] _ s(2) n(1)] by simp
  moreover from this have "p < b_next st1 \<and> ad (b_world st1) p = base_adapter (out_Base ob)"
    using n(4, 5) by (auto simp: grows_def)
  ultimately show ?case using n(2) s(3) by (auto simp: outbounds_in_def base_adapter_def intro: grows_trans)
qed

lemma proxiesParse_spec:
  assumes "proxiesParse env now buf st = Some (Inr (Inr (ps, st1)))" "build_ok st"
  shows "build_ok st1 \<and> grows st st1 \<and> outbounds_in ps st1 \<and> ps \<noteq> []"
  using assms parse_entries_spec by (auto simp: proxiesParse_def run_bind_ok split: option.splits if_splits)

lemma safeWrite_spec: "safeWrite env vh buf st = Some (Inr (Inr st1)) \<Longrightarrow> \<exists>y. st1 = st\<lparr>b_files := y\<rparr>"
  by (cases st) (auto simp: safeWrite_def split: if_splits)

lemma files_frame [simp]: "grows st (st1\<lparr>b_files := y\<rparr>) = grows st st1" "outbounds_in ps (st1\<lparr>b_files := y\<rparr>) = outbounds_in ps st1"
  by (simp_all add: grows_def outbounds_in_def)

lemma parse_fetched_spec:
  assumes "parse_fetched env now vh st = Some (Inr (Inr (buf, ps, loc, st1)))" "build_ok st"
  shows "build_ok st1 \<and> grows st st1 \<and> outbounds_in ps st1 \<and> ps \<noteq> []"
proof -
  obtain b where "proxiesParse env now b st = Some (Inr (Inr (ps, st1)))"
    using assms(1) by (fastforce simp: parse_fetched_def Let_def run_bind_ok split: option.splits sum.splits if_splits)
  then show ?thesis using assms(2) by (rule proxiesParse_spec)
qed

lemma fetcher_Initial_spec:
  assumes "fetcher_Initial env now f st = Some (Inr (Inr (ps, f1, st1)))" "build_ok st"
  shows "build_ok st1 \<and> grows st st1 \<and> outbounds_in ps st1 \<and> ps \<noteq> []"
proof -
  obtain buf loc st0 where p: "parse_fetched env now (f_vehicle f) st = Some (Inr (Inr (buf, ps, loc, st0)))"
    and w: "(if loc then run_ok st0 else safeWrite env (f_vehicle f) buf st0) = Some (Inr (Inr st1))"
    using assms(1) by (auto simp: fetcher_Initial_def run_bind_ok Let_def)
  have "st1 = st0 \<or> (\<exists>y. st1 = st0\<lparr>b_files := y\<rparr>)" using w by (auto split: if_splits dest: safeWrite_spec)
  then show ?thesis using parse_fetched_spec [OF p assms(2)] by auto
qed

lemma fetcher_Update_spec:
  assumes "fetcher_Update env now f st = Some (Inr (Inr (r, f1, st1)))" "build_ok st"
  shows "build_ok st1 \<and> grows st st1 \<and> (\<forall>ps. r = Some ps \<longrightarrow> outbounds_in ps st1 \<and> ps \<noteq> [])"
proof (cases r)
  case None
  then show ?thesis using assms by (auto simp: fetcher_Update_def run_bind_ok Let_def split: option.splits if_splits)
next
  case (Some ps)
  then obtain buf st0 where p: "proxiesParse env now buf st = Some (Inr (Inr (ps, st0)))" and w: "safeWrite env (f_vehicle f) buf st0 = Some (Inr (Inr st1))"
    using assms(1) by (auto simp: fetcher_Update_def run_bind_ok Let_def split: option.splits if_splits)
  show ?thesis using proxiesParse_spec [OF p assms(2)] safeWrite_spec [OF w] Some by auto
qed

lemma onUpdate_ok:
  assumes st: "build_ok st" and ps: "outbounds_in ps st" and v: "b_fetchers st v \<noteq> None"
  shows "build_ok (onUpdate v ps f st)"
proof -
  let ?w = "b_world st" and ?w1 = "b_world (onUpdate v ps f st)"
  have adw: "ad ?w1 = ad ?w" by (simp add: onUpdate_def upd_pv_def)
  have pr: "Proxies u ?w1 = (if u = v then ps else Proxies u ?w)" for u
    by (simp add: onUpdate_def upd_pv_def Proxies_def setProxies_def Let_def)
  have fb: "b_fetchers (onUpdate v ps f st) = (b_fetchers st)(v \<mapsto> f)" by (simp add: onUpdate_def)
  have rk: "group_rank ?w1 = group_rank ?w" by (simp add: group_rank_def adw fun_eq_iff)
  have "group_rank ?w c < group_rank ?w i" if "c \<in> members ?w1 i" for c i
  proof (cases "c \<in> members ?w i")
    case True
    then show ?thesis using build_okD(1) [OF st] by (simp add: ranked_def)
  next
    case False
    with that have c: "c \<in> set ps" "v \<in> set (providers (ad ?w i))" by (auto simp: members_def adw pr split: if_splits)
    moreover have "grp (ad ?w i) \<noteq> Outbound" using c(2) build_okD(2) [OF st, of i] by (auto simp: adapter_ok_def)
    ultimately show ?thesis using ps by (simp add: group_rank_def outbounds_in_def)
  qed
  moreover have "u < b_vnext st" if "b_fetchers (onUpdate v ps f st) u \<noteq> None" for u
    using that v build_okD(5) [OF st] by (auto simp: fb split: if_splits)
  moreover have "grp (ad ?w p) = Outbound" if "b_fetchers (onUpdate v ps f st) u \<noteq> None" "p \<in> set (Proxies u ?w1)" for u p
    using that ps build_okD(6) [OF st] unfolding fb pr by (auto simp: outbounds_in_def split: if_splits)
  moreover have "p < b_next st" if "u < b_vnext st" "p \<in> set (Proxies u ?w1)" for u p
    using that ps build_okD(4) [OF st] unfolding pr by (auto simp: outbounds_in_def split: if_splits)
  ultimately show ?thesis
    using build_okD(2, 3, 7, 8) [OF st] unfolding build_ok_def rk adw ranked_def by (auto simp: onUpdate_def)
qed

lemma fetchers_frame:
  assumes "build_ok st" "b_fetchers st v \<noteq> None"
  shows "build_ok (st\<lparr>b_fetchers := (b_fetchers st)(v \<mapsto> f)\<rparr>)"
  using assms by (auto simp: build_ok_def)

lemma provider_Initial_ok:
  assumes "provider_Initial env now v st = Some (Inr (Inr st1))" "build_ok st"
  shows "build_ok st1"
  using assms fetcher_Initial_spec [OF _ assms(2)]
  by (fastforce simp: provider_Initial_def run_bind_ok grows_def split: option.splits intro!: onUpdate_ok)

lemma provider_Update_ok:
  assumes "provider_Update env now v st = Some (Inr (Inr st1))" "build_ok st"
  shows "build_ok st1"
proof (cases "b_fetchers st v")
  case None
  then show ?thesis using assms by (simp add: provider_Update_def)
next
  case (Some f)
  then obtain r f1 st0 where u: "fetcher_Update env now f st = Some (Inr (Inr (r, f1, st0)))"
    and s: "st1 = (case r of Some ps \<Rightarrow> onUpdate v ps f1 st0 | None \<Rightarrow> st0\<lparr>b_fetchers := (b_fetchers st0)(v \<mapsto> f1)\<rparr>)"
    using assms(1) by (auto simp: provider_Update_def run_bind_ok)
  from fetcher_Update_spec [OF u assms(2)] Some show ?thesis
    using fetchers_frame [of st0 v f1] by (auto simp: s grows_def intro: onUpdate_ok split: option.split)
qed

lemma pull_tick_ok: "pull_tick env now v st = Some (Inr st1) \<Longrightarrow> build_ok st \<Longrightarrow> build_ok st1"
  using provider_Update_ok by (auto simp: pull_tick_def split: option.splits sum.splits)

lemma new_provider_spec:
  assumes st: "build_ok st" and q: "\<forall>p \<in> set (pv_proxies q). p < b_next st" and n: "new_provider q st = (v, st1)"
  shows "build_ok st1" "v < b_vnext st1" "b_next st1 = b_next st" "b_proxies st1 = b_proxies st" "ad (b_world st1) = ad (b_world st)"
    "b_providers st1 = b_providers st" "b_vnext st1 = Suc v" "b_fetchers st1 v = None" "Proxies v (b_world st1) = pv_proxies q"
proof -
  have s: "st1 = st\<lparr>b_world := upd_pv v q (b_world st), b_vnext := Suc v\<rparr>" "v = b_vnext st"
    using n by (auto simp: new_provider_def Let_def)
  then show "v < b_vnext st1" "b_next st1 = b_next st" "b_proxies st1 = b_proxies st" "ad (b_world st1) = ad (b_world st)"
    "b_providers st1 = b_providers st" "b_vnext st1 = Suc v" "Proxies v (b_world st1) = pv_proxies q" by (simp_all add: upd_pv_def Proxies_def)
  show "b_fetchers st1 v = None" using build_okD(5) [OF st, of v] s by (cases "b_fetchers st v") simp_all
  let ?w = "b_world st" and ?w1 = "upd_pv v q (b_world st)"
  have adw: "ad ?w1 = ad ?w" by (simp add: upd_pv_def)
  have pr: "Proxies u ?w1 = (if u = v then pv_proxies q else Proxies u ?w)" for u by (simp add: upd_pv_def Proxies_def)
  have old: "u \<in> set (providers (ad ?w i)) \<Longrightarrow> u < v" for u i using build_okD(2) [OF st, of i] s(2) by (simp add: adapter_ok_def)
  then have "u \<in> set (providers (ad ?w i)) \<Longrightarrow> Proxies u ?w1 = Proxies u ?w" for u i by (auto simp: pr)
  then have mem: "members ?w1 = members ?w" by (auto simp: members_def adw fun_eq_iff)
  have rk: "group_rank ?w1 = group_rank ?w" by (simp add: group_rank_def adw fun_eq_iff)
  have "p < b_next st" if "u < Suc v" "p \<in> set (Proxies u ?w1)" for u p
    using that q build_okD(4) [OF st, of u p] s(2) unfolding pr by (auto split: if_splits)
  moreover have "grp (ad ?w p) = Outbound" if "b_fetchers st u \<noteq> None" "p \<in> set (Proxies u ?w1)" for u p
    using that build_okD(5) [OF st, of u] build_okD(6) [OF st, of u _ p] s(2) unfolding pr by (auto split: if_splits)
  moreover have "u < Suc v" if "b_fetchers st u = Some f" for u f using build_okD(5) [OF st that] s(2) by simp
  moreover have "u < Suc v" if "map_of (b_providers st) nm = Some u" for u nm using build_okD(7) [OF st that] s(2) by simp
  moreover have "adapter_ok (b_next st) (Suc v) (ad ?w i)" for i using build_okD(2) [OF st, of i] s(2) by (auto intro: adapter_ok_mono)
  ultimately show "build_ok st1"
    using build_okD(1, 3, 8) [OF st] unfolding s(1) build_ok_def by (auto simp: ranked_def rk mem adw)
qed

lemma ParseProxyProvider_ok:
  assumes "ParseProxyProvider env nm src st = Some (Inr (Inr (v, st1)))" "build_ok st"
  shows "build_ok st1" "v < b_vnext st1" "ad (b_world st1) = ad (b_world st)" "b_proxies st1 = b_proxies st"
proof -
  obtain d vh hc where "NewProxySetProvider nm d vh hc st = Some (Inr (Inr (v, st1)))"
    using assms(1) by (fastforce simp: ParseProxyProvider_def run_bind_ok Let_def split: if_splits)
  then obtain f st0 where n: "new_provider \<lparr>pv_name = nm, pv_vehicle = vehicle_Type vh, healthCheck = hc, pv_proxies = []\<rparr> st = (v, st0)"
    and s: "st1 = st0\<lparr>b_fetchers := (b_fetchers st0)(v \<mapsto> f)\<rparr>"
    by (auto simp: NewProxySetProvider_def split: sum.splits prod.splits)
  note q = new_provider_spec [OF assms(2) _ n, simplified]
  show "v < b_vnext st1" "ad (b_world st1) = ad (b_world st)" "b_proxies st1 = b_proxies st" using q s by simp_all
  show "build_ok st1" using q(1, 2, 9) by (auto simp: build_ok_def s)
qed

lemma compatible_provider_ok:
  assumes "compatible_provider nm ps hc st = Some (Inr (Inr (v, st1)))" "build_ok st" "\<forall>p \<in> set ps. p < b_next st"
  shows "build_ok st1" "v < b_vnext st1" "b_next st1 = b_next st" "b_proxies st1 = b_proxies st" "ad (b_world st1) = ad (b_world st)"
proof -
  obtain q where "new_provider q st = (v, st1)" "pv_proxies q = ps"
    using assms(1) by (auto simp: compatible_provider_def NewCompatibleProvider_def split: option.splits sum.splits if_splits)
  then show "build_ok st1" "v < b_vnext st1" "b_next st1 = b_next st" "b_proxies st1 = b_proxies st" "ad (b_world st1) = ad (b_world st)"
    using new_provider_spec [OF assms(2), of q v st1] assms(3) by simp_all
qed

lemma list_all2_range: "list_all2 R xs ys \<Longrightarrow> y \<in> set ys \<Longrightarrow> \<exists>x \<in> set xs. R x y"
  by (induction rule: list_all2_induct) auto

lemma getProxies_spec: "getProxies m ns = Some (Inr (Inr ps)) \<Longrightarrow> list_all2 (\<lambda>nm p. m nm = Some p) ns ps"
  by (induction m ns arbitrary: ps rule: getProxies.induct) (auto simp: run_bind_ok split: option.splits)

lemma getProviders_spec: "getProviders st ns = Some (Inr (Inr vs)) \<Longrightarrow> list_all2 (\<lambda>nm v. map_of (b_providers st) nm = Some v) ns vs"
  by (induction st ns arbitrary: vs rule: getProviders.induct) (auto simp: run_bind_ok split: option.splits if_splits)

lemma own_provider_ok:
  assumes "own_provider op st = Some (Inr (Inr (vs, st1)))" "build_ok st"
  shows "build_ok st1 \<and> (\<forall>v \<in> set vs. v < b_vnext st1) \<and> b_next st1 = b_next st \<and> b_proxies st1 = b_proxies st \<and> ad (b_world st1) = ad (b_world st)"
proof (cases "GroupProxies op = []")
  case True
  then show ?thesis using assms by (simp add: own_provider_def)
next
  case False
  then obtain ps where ps: "getProxies (b_proxies st) (GroupProxies op) = Some (Inr (Inr ps))"
    using assms(1) by (auto simp: own_provider_def run_bind_ok)
  have b: "\<forall>p \<in> set ps. p < b_next st"
    using list_all2_range [OF getProxies_spec [OF ps]] build_okD(8) [OF assms(2)] by blast
  obtain hc v st0 where c: "compatible_provider (Name op) ps hc st = Some (Inr (Inr (v, st0)))" "vs = [v]" "st1 = st0 \<or> st1 = put_provider (Name op) v st0"
    using assms(1) False ps by (auto simp: own_provider_def run_bind_ok split: if_splits)
  note q = compatible_provider_ok [OF c(1) assms(2) b]
  have "build_ok st1" using c(3) q(1, 2) build_ok_put_provider by blast
  then show ?thesis using c(2, 3) q by (auto simp: put_provider_def)
qed

lemma first_member_bound:
  assumes "first_member vs w = Inr p" "\<forall>v \<in> set vs. \<forall>q \<in> set (Proxies v w). q < n"
  shows "p < n"
  using assms by (cases vs) (auto simp: first_member_def first_or_panic_def split: list.splits)

lemma make_group_ok:
  assumes "make_group op config vs w = Some (Inr (Inr a))" "\<forall>v \<in> set vs. v < m" "\<forall>v \<in> set vs. \<forall>q \<in> set (Proxies v w). q < n"
  shows "adapter_ok n m a \<and> grp a \<noteq> Outbound \<and> name a = Name op"
proof -
  have "adapter_ok n m (group_adapter nm t dis vs g) \<and> grp (group_adapter nm t dis vs g) \<noteq> Outbound \<and> name (group_adapter nm t dis vs g) = nm"
    if "case g of Selector _ p \<Rightarrow> p < n | URLTestGroup _ p \<Rightarrow> p < n | Outbound \<Rightarrow> False | _ \<Rightarrow> True" for nm t dis g
    using that assms(2) by (auto simp: adapter_ok_def group_adapter_def NewSingle_def split: group.splits)
  then show ?thesis
    using assms(1) first_member_bound [OF _ assms(3)]
    by (auto simp: make_group_def NewURLTest_def NewSelector_def NewFallback_def NewLoadBalance_def NewRelay_def map_sum_def
        split: if_splits sum.splits option.splits)
qed

lemma ParseProxyGroup_ok:
  assumes "ParseProxyGroup config st = Some (Inr (Inr (a, st1)))" "build_ok st"
  shows "build_ok st1 \<and> adapter_ok (b_next st1) (b_vnext st1) a \<and> grp a \<noteq> Outbound \<and> b_proxies st1 = b_proxies st \<and> ad (b_world st1) = ad (b_world st) \<and> b_next st1 = b_next st"
proof -
  obtain op vs us where o1: "own_provider op st = Some (Inr (Inr (vs, st1)))"
    and u: "use_providers op st1 = Some (Inr (Inr us))"
    and g: "make_group op config (vs @ us) (b_world st1) = Some (Inr (Inr a))"
    using assms(1) by (auto simp: ParseProxyGroup_def run_bind_ok simp del: map_sum.simps split: if_splits)
  note op = own_provider_ok [OF o1 assms(2)]
  have "\<forall>v \<in> set us. v < b_vnext st1"
    using u list_all2_range [OF getProviders_spec, of st1 "Use op" us] build_okD(7) [of st1] op by (fastforce simp: use_providers_def split: if_splits)
  with op have v: "\<forall>v \<in> set (vs @ us). v < b_vnext st1" by auto
  have "\<forall>v \<in> set (vs @ us). \<forall>q \<in> set (Proxies v (b_world st1)). q < b_next st1"
    using v build_okD(4) [of st1] op by blast
  from make_group_ok [OF g v this] op show ?thesis by simp
qed

section \<open>The sort keeps every group\<close>

definition has_data :: "'m graph \<Rightarrow> string \<Rightarrow> bool" where
  "has_data g k \<longleftrightarrow> (\<exists>node. map_of g k = Some node \<and> data node \<noteq> None)"

lemma has_data_update [simp]: "has_data (AList.update a n g) k = (if k = a then data n \<noteq> None else has_data g k)"
  by (simp add: has_data_def update_conv')

lemma add_edges_data [simp]: "has_data (add_edges ps g) k = has_data g k"
  by (induction ps g rule: add_edges.induct) (simp_all split: option.split, auto simp: has_data_def)

lemma build_graph_success:
  assumes "build_graph dec ms g = Inr g1"
  shows "(\<forall>m \<in> set ms. dec m = Inr (option_of dec m) \<and> \<not> has_data g (name_of dec m)) \<and> distinct (map (name_of dec) ms)"
  using assms
proof (induction ms arbitrary: g)
  case (Cons m ms)
  obtain op where op: "dec m = Inr op" using Cons.prems by (auto split: sum.splits)
  obtain node where b: "build_graph dec ms (add_edges (GroupProxies op) (AList.update (Name op) node g)) = Inr g1" "data node \<noteq> None" "\<not> has_data g (Name op)"
    using Cons.prems op by (fastforce simp: has_data_def split: option.splits if_splits)
  have nm: "name_of dec m = Name op" "option_of dec m = op" using op by (simp_all add: name_of_def option_of_def)
  from Cons.IH [OF b(1)] b(2, 3) op nm show ?case by (auto split: if_splits)
qed simp

lemma sort_groups_spec:
  assumes "sort_groups perm ms = Some (Inr (Inr ms1))" "\<forall>xs. mset (perm xs) = mset xs"
  shows "mset ms1 = mset ms" "\<forall>m \<in> set ms. sort_decode m = Inr (option_of sort_decode m)"
    "i < length ms1 \<Longrightarrow> p \<in> set (proxies_of sort_decode (ms1 ! i)) \<Longrightarrow> p \<in> name_of sort_decode ` set ms \<Longrightarrow> \<exists>j < i. name_of sort_decode (ms1 ! j) = p"
proof -
  have s: "proxyGroupsDagSort perm sort_decode ms = Inr (Inr ms1)"
    using assms(1) by (auto simp: sort_groups_def Let_def map_sum_def run_err_def split: if_splits sum.splits)
  then obtain g where g: "build_graph sort_decode ms [] = Inr g"
    and t: "topo_loop 0 (nodes_with perm (\<lambda>node. indegree node = 0) g) g ms = Inr ([], ms1)"
    by (auto simp: proxyGroupsDagSort_def map_sum_def split: sum.splits if_splits)
  from build_graph_success [OF g] have dec: "\<forall>m \<in> set ms. sort_decode m = Inr (option_of sort_decode m)" and dist: "distinct (map (name_of sort_decode) ms)" by auto
  have "built sort_decode [] []" by (simp add: built_def in_view_def edges_in_def data_in_def opt_in_def)
  from build_graph_built [OF this dec] dist g have "built sort_decode ms g" by simp
  from topo_complete [OF this dist assms(2) t] dec show "mset ms1 = mset ms" "\<forall>m \<in> set ms. sort_decode m = Inr (option_of sort_decode m)"
    "i < length ms1 \<Longrightarrow> p \<in> set (proxies_of sort_decode (ms1 ! i)) \<Longrightarrow> p \<in> name_of sort_decode ` set ms \<Longrightarrow> \<exists>j < i. name_of sort_decode (ms1 ! j) = p" by auto
qed

lemma group_option_name:
  assumes "group_option lz m = Inr (Inr op)" "m ''name'' = Some (DString nm)"
  shows "Name op = nm"
  using assms
  by (auto simp: group_option_def decode_option_def Decode_def GroupCommonOption_fields_def of_GroupCommonOption_def to_GroupCommonOption_def
      zero_GroupCommonOption_def map_sum_def Let_def split: sum.splits)

section \<open>What a parsed configuration contains\<close>

text \<open>Every name in the map belongs to the proxy it leads to.\<close>

definition config_ok :: "build \<Rightarrow> bool" where
  "config_ok st \<longleftrightarrow> build_ok st \<and> (\<forall>nm p. b_proxies st nm = Some p \<longrightarrow> name (ad (b_world st) p) = nm)"

definition knows :: "build \<Rightarrow> string set \<Rightarrow> bool" where
  "knows st ns \<longleftrightarrow> ns \<subseteq> dom (b_proxies st)"

lemma config_ok_add:
  assumes "config_ok st" "build_ok st1" "p = b_next st" "b_next st1 = Suc p" "b_proxies st1 = b_proxies st"
    "\<forall>i < b_next st. ad (b_world st1) i = ad (b_world st) i" "name (ad (b_world st1) p) = nm"
  shows "config_ok (put_proxy nm p st1)" "knows st ns \<Longrightarrow> knows (put_proxy nm p st1) (insert nm ns)"
proof -
  have "build_ok (put_proxy nm p st1)" using assms(2, 4) by (intro build_ok_put_proxy) simp_all
  moreover have "name (ad (b_world st1) q) = k" if "b_proxies st k = Some q" for k q
    using that assms(1, 6) build_okD(8) [of st k q] by (auto simp: config_ok_def)
  ultimately show "config_ok (put_proxy nm p st1)" using assms(5, 7) by (auto simp: config_ok_def put_proxy_def)
  show "knows (put_proxy nm p st1) (insert nm ns)" if "knows st ns" using that assms(5) by (auto simp: knows_def put_proxy_def)
qed

lemma add_outbound_ok:
  assumes "config_ok st" "new_outbound now ob st = (p, st1)"
  shows "config_ok (put_proxy (b_name (out_Base ob)) p st1)" "knows st ns \<Longrightarrow> knows (put_proxy (b_name (out_Base ob)) p st1) (insert (b_name (out_Base ob)) ns)"
proof -
  have b: "build_ok st" using assms(1) by (simp add: config_ok_def)
  note n = new_outbound_spec [OF b assms(2)]
  have g: "b_proxies st1 = b_proxies st" "\<forall>i < b_next st. ad (b_world st1) i = ad (b_world st) i" using n(2) by (auto simp: grows_def)
  have nm: "name (ad (b_world st1) p) = b_name (out_Base ob)" using n(5) by (simp add: base_adapter_def)
  show "config_ok (put_proxy (b_name (out_Base ob)) p st1)" "knows st ns \<Longrightarrow> knows (put_proxy (b_name (out_Base ob)) p st1) (insert (b_name (out_Base ob)) ns)"
    using config_ok_add [OF assms(1) n(1, 3, 4) g nm] by blast+
qed

text \<open>The names a configuration gives to its proxies and groups.\<close>

definition proxy_names :: "fetch_env \<Rightarrow> raw list \<Rightarrow> string set" where
  "proxy_names env ms = {b_name (out_Base ob) | m ob. m \<in> set ms \<and> ParseProxy (fe_out env) m = Some (Inr (Inr ob))}"

definition raw_names :: "raw list \<Rightarrow> string set" where
  "raw_names ms = {nm. \<exists>m \<in> set ms. m ''name'' = Some (DString nm)}"

lemma parse_proxy_list_ok:
  assumes "parse_proxy_list env now idx ms names st = Some (Inr (Inr (ns, st1)))" "config_ok st" "knows st (set names)"
  shows "config_ok st1 \<and> knows st1 (set ns) \<and> set names \<subseteq> set ns \<and> proxy_names env ms \<subseteq> set ns"
  using assms
proof (induction env now idx ms names st rule: parse_proxy_list.induct)
  case (2 env now idx m ms names st)
  from "2.prems"(1) obtain ob where ob: "ParseProxy (fe_out env) m = Some (Inr (Inr ob))" by (auto simp: run_bind_ok)
  obtain p sta where s1: "new_outbound now ob st = (p, sta)" by fastforce
  let ?nm = "b_name (out_Base ob)"
  have s2: "parse_proxy_list env now (idx + 1) ms (names @ [?nm]) (put_proxy ?nm p sta) = Some (Inr (Inr (ns, st1)))" "b_proxies st ?nm = None"
    using "2.prems"(1) ob s1 by (auto simp: run_bind_ok Let_def split: if_splits)
  note a = add_outbound_ok [OF "2.prems"(2) s1]
  have "knows (put_proxy ?nm p sta) (set (names @ [?nm]))" using a(2) [OF "2.prems"(3)] by simp
  from "2.IH" [OF refl s1 [symmetric] _ _ s2(1) a(1) this] s2(2) ob show ?case by (auto simp: proxy_names_def)
qed (auto simp: proxy_names_def)

lemma parse_providers_ok:
  assumes "parse_providers env ms st = Some (Inr (Inr st1))" "config_ok st"
  shows "config_ok st1 \<and> b_proxies st1 = b_proxies st"
  using assms
proof (induction env ms st rule: parse_providers.induct)
  case (2 env nm m ms st)
  then obtain v sta where p: "ParseProxyProvider env nm m st = Some (Inr (Inr (v, sta)))" "nm \<noteq> ReservedName"
    "parse_providers env ms (put_provider nm v sta) = Some (Inr (Inr st1))" by (auto simp: run_bind_ok split: if_splits)
  have "build_ok st" using "2.prems"(2) by (simp add: config_ok_def)
  note q = ParseProxyProvider_ok [OF p(1) this]
  have "config_ok (put_provider nm v sta)"
    using q "2.prems"(2) build_ok_put_provider [OF q(1, 2)] by (simp add: config_ok_def put_provider_def)
  from "2.IH" [OF p(2, 3) this] show ?case using q(4) by (simp add: put_provider_def)
qed simp

lemma provider_Initial_frame:
  assumes "provider_Initial env now v st = Some (Inr (Inr st1))" "build_ok st"
  shows "b_proxies st1 = b_proxies st \<and> (\<forall>i < b_next st. ad (b_world st1) i = ad (b_world st) i)"
proof (cases "b_fetchers st v")
  case (Some f)
  then obtain ps f1 st0 where "fetcher_Initial env now f st = Some (Inr (Inr (ps, f1, st0)))" "st1 = onUpdate v ps f1 st0"
    using assms(1) by (auto simp: provider_Initial_def run_bind_ok)
  with fetcher_Initial_spec [OF this(1) assms(2)] show ?thesis by (auto simp: grows_def onUpdate_def upd_pv_def)
qed (use assms in \<open>simp add: provider_Initial_def\<close>)

lemma init_providers_ok:
  assumes "init_providers env now vs st = Some (Inr (Inr st1))" "config_ok st"
  shows "config_ok st1 \<and> b_proxies st1 = b_proxies st"
  using assms
proof (induction env now vs st rule: init_providers.induct)
  case (2 env now v vs st)
  then obtain sta where p: "provider_Initial env now v st = Some (Inr (Inr sta))" "init_providers env now vs sta = Some (Inr (Inr st1))"
    by (auto simp: run_bind_ok)
  have b: "build_ok st" using "2.prems"(2) by (simp add: config_ok_def)
  have "config_ok sta" using provider_Initial_ok [OF p(1) b] provider_Initial_frame [OF p(1) b] "2.prems"(2) build_okD(8) [OF b]
    by (auto simp: config_ok_def)
  from "2.IH" [OF p(2) this] show ?case using provider_Initial_frame [OF p(1) b] by simp
qed simp

lemma ParseProxyGroup_name:
  assumes "ParseProxyGroup m st = Some (Inr (Inr (a, st1)))" "m ''name'' = Some (DString nm)"
  shows "name a = nm"
proof -
  obtain op vs where g: "group_option True m = Inr (Inr op)" "make_group op m vs (b_world st1) = Some (Inr (Inr a))"
    using assms(1) by (auto simp: ParseProxyGroup_def run_bind_ok map_sum_def split: if_splits sum.splits)
  have "name a = Name op"
    using g(2) by (auto simp: make_group_def NewURLTest_def NewSelector_def NewFallback_def NewLoadBalance_def NewRelay_def group_adapter_def map_sum_def
        split: if_splits sum.splits option.splits)
  then show ?thesis using group_option_name [OF g(1) assms(2)] by simp
qed

lemma parse_groups_ok:
  assumes "parse_groups now idx ms st = Some (Inr (Inr st1))" "config_ok st" "knows st ns"
  shows "config_ok st1 \<and> knows st1 (ns \<union> raw_names ms)"
  using assms
proof (induction now idx ms st arbitrary: ns rule: parse_groups.induct)
  case (2 now idx m ms st)
  from "2.prems"(1) obtain a sta where g: "ParseProxyGroup m st = Some (Inr (Inr (a, sta)))" by (auto simp: run_bind_ok)
  obtain p stb where n: "new_proxy now a sta = (p, stb)" by fastforce
  have s: "parse_groups now (idx + 1) ms (put_proxy (name a) p stb) = Some (Inr (Inr st1))" "b_proxies sta (name a) = None"
    using "2.prems"(1) g n by (auto simp: run_bind_ok split: if_splits)
  have b: "build_ok st" using "2.prems"(2) by (simp add: config_ok_def)
  note q = ParseProxyGroup_ok [OF g b]
  have c: "config_ok sta" "knows sta ns" using q "2.prems"(2, 3) by (auto simp: config_ok_def knows_def)
  have nb: "build_ok stb" "p = b_next sta" "b_next stb = Suc p" "b_proxies stb = b_proxies sta" "\<forall>i < b_next sta. ad (b_world stb) i = ad (b_world sta) i"
    "name (ad (b_world stb) p) = name a"
    using new_proxy_ok [of sta a now] q n by (auto simp: new_proxy_def upd_ad_def upd_px_def Let_def)
  note a = config_ok_add [OF c(1) nb]
  have "insert (name a) ns \<union> raw_names ms \<supseteq> ns \<union> raw_names (m # ms)"
    using ParseProxyGroup_name [OF g] by (auto simp: raw_names_def)
  moreover have "config_ok st1 \<and> knows st1 (insert (name a) ns \<union> raw_names ms)"
    using "2.IH" [OF _ refl n [symmetric] s(1) a(1) a(2) [OF c(2)]] s(2) by simp
  ultimately show ?case unfolding knows_def by (meson subset_trans)
qed (auto simp: raw_names_def)

lemma listed_groups_spec: "listed_groups idx ms = Some (Inr (Inr gs)) \<Longrightarrow> list_all2 (\<lambda>m nm. m ''name'' = Some (DString nm)) ms gs"
  by (induction idx ms arbitrary: gs rule: listed_groups.induct) (auto simp: run_bind_ok split: option.splits gdata.splits)

lemma empty_build_ok: "config_ok (empty_build files)" "knows (empty_build files) {}"
proof -
  have "members empty_world i = {}" for i by (simp add: members_def empty_world_def base_adapter_def NewSingle_def)
  then show "config_ok (empty_build files)"
    by (auto simp: config_ok_def build_ok_def ranked_def empty_build_def) (simp_all add: empty_world_def, simp add: base_adapter_def)
qed (simp add: knows_def)

lemma add_builtin_ok:
  assumes "config_ok st" "knows st ns" "nm = b_name (out_Base ob)"
  shows "config_ok (add_builtin now nm ob st)" "knows (add_builtin now nm ob st) (insert nm ns)"
proof -
  obtain p st1 where n: "new_outbound now ob st = (p, st1)" by fastforce
  then show "config_ok (add_builtin now nm ob st)" "knows (add_builtin now nm ob st) (insert nm ns)"
    using add_outbound_ok [OF assms(1) n] assms(2, 3) by (simp_all add: add_builtin_def)
qed

lemma map_filter_bound: "build_ok st \<Longrightarrow> p \<in> set (List.map_filter (b_proxies st) names) \<Longrightarrow> p < b_next st"
  using build_okD(8) by (fastforce simp: List.map_filter_def)

lemma add_global_ok:
  assumes "add_global now names st = Some (Inr (Inr st1))" "config_ok st" "knows st ns"
  shows "config_ok st1 \<and> knows st1 (insert ''GLOBAL'' ns)"
proof -
  let ?ps = "List.map_filter (b_proxies st) names"
  have b: "build_ok st" using assms(2) by (simp add: config_ok_def)
  obtain v sta where n: "new_provider \<lparr>pv_name = ReservedName, pv_vehicle = Compatible, healthCheck = NewHealthCheck ?ps [] 0 True, pv_proxies = ?ps\<rparr> st = (v, sta)"
    by fastforce
  have "\<forall>p \<in> set ?ps. p < b_next st" using map_filter_bound [OF b] by blast
  note q = new_provider_spec [OF b _ n, simplified, OF this]
  obtain a where a: "NewSelector ''GLOBAL'' False [v] (b_world sta) = Inr a"
    using assms(1) n by (auto simp: add_global_def split: sum.splits)
  obtain p stb where g: "new_proxy now a (put_provider ReservedName v sta) = (p, stb)" by fastforce
  have s: "st1 = put_proxy ''GLOBAL'' p stb" using assms(1) n a g by (simp add: add_global_def)
  have st0: "build_ok (put_provider ReservedName v sta)" using q(1, 2) by (rule build_ok_put_provider)
  have "\<forall>u \<in> set [v]. \<forall>r \<in> set (Proxies u (b_world sta)). r < b_next sta" using build_okD(4) [OF q(1, 2)] by simp
  then have aok: "adapter_ok (b_next sta) (b_vnext sta) a" "name a = ''GLOBAL''"
    using a q(2) first_member_bound [of "[v]" "b_world sta"]
    by (auto simp: NewSelector_def adapter_ok_def group_adapter_def NewSingle_def map_sum_def split: sum.splits)
  have nb: "build_ok stb" "p = b_next (put_provider ReservedName v sta)" "b_next stb = Suc p" "b_proxies stb = b_proxies (put_provider ReservedName v sta)"
    "\<forall>i < b_next (put_provider ReservedName v sta). ad (b_world stb) i = ad (b_world (put_provider ReservedName v sta)) i" "name (ad (b_world stb) p) = ''GLOBAL''"
    using new_proxy_ok [OF st0, of a now] aok g by (auto simp: new_proxy_def upd_ad_def upd_px_def put_provider_def Let_def)
  have c: "config_ok (put_provider ReservedName v sta)" using st0 q(4, 5) assms(2) by (simp add: config_ok_def put_provider_def)
  have k: "knows (put_provider ReservedName v sta) ns" using q(4) assms(3) by (simp add: knows_def put_provider_def)
  show ?thesis unfolding s using config_ok_add [OF c nb] k by blast
qed

lemma parseProxies_ok:
  assumes "parseProxies env now perm order pcs gcs vcs files = Some (Inr (Inr st))" "\<forall>xs. mset (perm xs) = mset xs"
  shows "config_ok st \<and> knows st ({''DIRECT'', ''REJECT'', ''GLOBAL''} \<union> proxy_names env pcs \<union> raw_names gcs)"
proof -
  let ?st = "add_builtin now ''REJECT'' (OReject NewReject) (add_builtin now ''DIRECT'' (ODirect NewDirect) (empty_build files))"
  have d: "''DIRECT'' = b_name (out_Base (ODirect NewDirect))" "''REJECT'' = b_name (out_Base (OReject NewReject))"
    by (simp_all add: NewDirect_def NewReject_def)
  note b1 = add_builtin_ok [OF empty_build_ok d(1)]
  note b2 = add_builtin_ok [OF b1 d(2)]
  obtain names st1 gs ms st2 st3 st4 where p: "parse_proxy_list env now 0 pcs [''DIRECT'', ''REJECT''] ?st = Some (Inr (Inr (names, st1)))"
    and s: "sort_groups perm gcs = Some (Inr (Inr ms))" and v: "parse_providers env vcs st1 = Some (Inr (Inr st2))"
    and i: "init_providers env now (order (map snd (b_providers st2))) st2 = Some (Inr (Inr st3))"
    and g: "parse_groups now 0 ms st3 = Some (Inr (Inr st4))" and l: "add_global now (names @ gs) st4 = Some (Inr (Inr st))"
    using assms(1) unfolding parseProxies_def Let_def by (auto simp: run_bind_ok)
  have "knows ?st (set [''DIRECT'', ''REJECT''])" using b2(2) by (auto simp: knows_def)
  note p1 = parse_proxy_list_ok [OF p b2(1) this]
  note v1 = parse_providers_ok [OF v conjunct1 [OF p1]]
  note i1 = init_providers_ok [OF i conjunct1 [OF v1]]
  have "knows st3 (set names)" using p1 v1 i1 by (simp add: knows_def)
  note g1 = parse_groups_ok [OF g conjunct1 [OF i1] this]
  note l1 = add_global_ok [OF l conjunct1 [OF g1] conjunct2 [OF g1]]
  have "set ms = set gcs" using sort_groups_spec(1) [OF s assms(2)] by (metis set_mset_mset)
  then have "raw_names ms = raw_names gcs" by (simp add: raw_names_def)
  then show ?thesis using l1 p1 by (auto simp: knows_def)
qed

section \<open>Dialling in a configured world\<close>

fun pulls :: "fetch_env \<Rightarrow> (int \<times> vid) list \<Rightarrow> build \<Rightarrow> (panic + build) option" where
  "pulls env [] st = Some (Inr st)"
| "pulls env ((now, v) # ts) st =
     (case pull_tick env now v st of None \<Rightarrow> None | Some (Inl p) \<Rightarrow> Some (Inl p) | Some (Inr st1) \<Rightarrow> pulls env ts st1)"

lemma provider_Update_frame:
  assumes "provider_Update env now v st = Some (Inr (Inr st1))" "build_ok st"
  shows "b_proxies st1 = b_proxies st \<and> (\<forall>i < b_next st. ad (b_world st1) i = ad (b_world st) i)"
proof (cases "b_fetchers st v")
  case (Some f)
  then obtain r f1 st0 where u: "fetcher_Update env now f st = Some (Inr (Inr (r, f1, st0)))"
    and s: "st1 = (case r of Some ps \<Rightarrow> onUpdate v ps f1 st0 | None \<Rightarrow> st0\<lparr>b_fetchers := (b_fetchers st0)(v \<mapsto> f1)\<rparr>)"
    using assms(1) by (auto simp: provider_Update_def run_bind_ok)
  with fetcher_Update_spec [OF u assms(2)] show ?thesis by (auto simp: grows_def onUpdate_def upd_pv_def split: option.split)
qed (use assms in \<open>simp add: provider_Update_def\<close>)

lemma pull_tick_config:
  assumes "pull_tick env now v st = Some (Inr st1)" "config_ok st"
  shows "config_ok st1 \<and> b_proxies st1 = b_proxies st"
proof (cases "st1 = st")
  case False
  then have u: "provider_Update env now v st = Some (Inr (Inr st1))"
    using assms(1) by (auto simp: pull_tick_def split: option.splits sum.splits)
  have b: "build_ok st" using assms(2) by (simp add: config_ok_def)
  show ?thesis using provider_Update_ok [OF u b] provider_Update_frame [OF u b] assms(2) build_okD(8) [OF b] by (auto simp: config_ok_def)
qed (use assms in simp)

lemma pulls_config: "pulls env ts st = Some (Inr st1) \<Longrightarrow> config_ok st \<Longrightarrow> config_ok st1 \<and> b_proxies st1 = b_proxies st"
proof (induction env ts st rule: pulls.induct)
  case (2 env now v ts st)
  then obtain sta where "pull_tick env now v st = Some (Inr sta)" "pulls env ts sta = Some (Inr st1)"
    by (auto split: option.splits sum.splits)
  with 2 pull_tick_config show ?case by metis
qed simp

lemma group_rank_bound: "build_ok st \<Longrightarrow> group_rank (b_world st) i < Suc (b_next st)"
  using build_okD(3) [of st i] by (cases "b_next st \<le> i") (simp_all add: group_rank_def)

text \<open>
  C3: A configuration that is accepted has a proxy under each name it defines and under \<open>DIRECT\<close>,
  \<open>REJECT\<close> and \<open>GLOBAL\<close>, and the proxy bears that name. Dialling any proxy comes to an end, however the
  groups are nested, also after the providers have been fetched again any number of times: the number
  of proxies bounds the depth. A connection has been through at least one proxy, and the last entry of
  its chain is the proxy that was asked, unless that is a relay.
\<close>

theorem config_dials_end:
  assumes "parseProxies env now perm order pcs gcs vcs files = Some (Inr (Inr st))" "\<forall>xs. mset (perm xs) = mset xs"
    "pulls env ts st = Some (Inr st1)"
  shows "(\<forall>nm \<in> {''DIRECT'', ''REJECT'', ''GLOBAL''} \<union> proxy_names env pcs \<union> raw_names gcs.
      \<exists>p. b_proxies st1 nm = Some p \<and> name (ad (b_world st1) p) = nm) \<and>
    (\<exists>r. dial (Suc (b_next st1)) net t1 t2 md i (b_world st1) = Some r \<and>
      (\<forall>c w1. r = Inr (Inr c, w1) \<longrightarrow> c \<noteq> [] \<and> (grp (ad (b_world st1) i) \<noteq> Relay \<longrightarrow> last c = name (ad (b_world st1) i))))"
proof
  note p = parseProxies_ok [OF assms(1, 2)]
  note q = pulls_config [OF assms(3) conjunct1 [OF p]]
  show "\<forall>nm \<in> {''DIRECT'', ''REJECT'', ''GLOBAL''} \<union> proxy_names env pcs \<union> raw_names gcs.
      \<exists>p. b_proxies st1 nm = Some p \<and> name (ad (b_world st1) p) = nm"
    using p q by (fastforce simp: knows_def config_ok_def dom_def)
  have b: "build_ok st1" using q by (simp add: config_ok_def)
  show "\<exists>r. dial (Suc (b_next st1)) net t1 t2 md i (b_world st1) = Some r \<and>
      (\<forall>c w1. r = Inr (Inr c, w1) \<longrightarrow> c \<noteq> [] \<and> (grp (ad (b_world st1) i) \<noteq> Relay \<longrightarrow> last c = name (ad (b_world st1) i)))"
    using dial_ends [of "group_rank (b_world st1)" "Suc (b_next st1)" net t1 t2 md] build_okD(1) [OF b] group_rank_bound [OF b, of i] by blast
qed

lemma run_bind_err: "run_bind m f = Some (Inr (Inl e)) \<longleftrightarrow> m = Some (Inr (Inl e)) \<or> (\<exists>x. m = Some (Inr (Inr x)) \<and> f x = Some (Inr (Inl e)))"
  by (cases "(m, f)" rule: run_bind.cases) auto

lemma run_err_iff [simp]: "run_err e = Some (Inr (Inl e')) \<longleftrightarrow> e = e'" "run_ok x \<noteq> Some (Inr (Inl e))"
  by (auto simp: run_ok_def run_err_def)

lemma getProxies_err: "getProxies m ns = Some (Inr (Inl e)) \<Longrightarrow> \<exists>nm. e = ProxyNotFound nm \<and> nm \<in> set ns \<and> m nm = None"
  by (induction m ns rule: getProxies.induct) (auto simp: run_bind_err split: option.splits)

lemma getProviders_err: "getProviders st ns = Some (Inr (Inl (ProxyNotFound nm))) \<Longrightarrow> nm \<in> set ns"
  by (induction st ns rule: getProviders.induct) (auto simp: run_bind_err split: option.splits if_splits)

lemma compatible_provider_err: "compatible_provider nm ps hc st \<noteq> Some (Inr (Inl (ProxyNotFound k)))"
  by (auto simp: compatible_provider_def split: option.splits sum.splits)

lemma make_group_err: "make_group op config vs w \<noteq> Some (Inr (Inl (ProxyNotFound k)))"
  by (auto simp: make_group_def map_sum_def split: if_splits sum.splits option.splits)

lemma ParseProxyGroup_not_found:
  assumes "ParseProxyGroup m st = Some (Inr (Inl (ProxyNotFound nm)))"
  shows "\<exists>op. group_option True m = Inr (Inr op) \<and> (nm \<in> set (GroupProxies op) \<and> b_proxies st nm = None \<or> nm \<in> set (Use op))"
proof -
  obtain op where op: "group_option True m = Inr (Inr op)"
    and e: "own_provider op st = Some (Inr (Inl (ProxyNotFound nm))) \<or> (\<exists>st1. use_providers op st1 = Some (Inr (Inl (ProxyNotFound nm))))"
    using assms make_group_err by (auto simp: ParseProxyGroup_def run_bind_err map_sum_def split: if_splits sum.splits)
  then show ?thesis
    using getProxies_err getProviders_err compatible_provider_err
    by (fastforce simp: own_provider_def use_providers_def run_bind_err split: if_splits)
qed

lemma Decode_fields_bool:
  assumes "Decode_fields weak src fs vs = Inr (Inr xs)" "length vs = length fs" "i < length fs" "snd (snd (fs ! i)) = TBool"
  shows "\<exists>ys. Decode_fields weak src fs (vs[i := v]) = Inr (Inr ys) \<and> (\<forall>j. j \<noteq> i \<longrightarrow> ys ! j = xs ! j)"
  using assms
proof (induction fs arbitrary: vs xs i)
  case (Cons f fs)
  obtain nm tag t where f: "f = (nm, tag, t)" using prod_cases3 by blast
  obtain u us where vs: "vs = u # us" using Cons.prems(2) by (cases vs) auto
  let ?str = "SplitN2 (CHR '','') tag"
  let ?dec = "\<lambda>u. case src (hd ?str) of
       Some d \<Rightarrow> if d = DNil then (if length ?str > 1 \<and> ?str ! 1 = ''omitempty'' then Inr (Inr u) else Inr (Inl (MissingKey (hd ?str)))) else decode weak (PKey (hd ?str)) d t u
     | None \<Rightarrow> if length ?str > 1 \<and> ?str ! 1 = ''omitempty'' then Inr (Inr u) else Inr (Inl (MissingKey (hd ?str)))"
  have D: "Decode_fields weak src (f # fs) (w # ws) = (case ?dec w of Inl p \<Rightarrow> Inl p | Inr (Inl e) \<Rightarrow> Inr (Inl e)
      | Inr (Inr x) \<Rightarrow> (case Decode_fields weak src fs ws of Inl p \<Rightarrow> Inl p | Inr (Inl e) \<Rightarrow> Inr (Inl e) | Inr (Inr xs) \<Rightarrow> Inr (Inr (x # xs))))" for w ws
    unfolding f Decode_fields.simps Let_def ..
  obtain x zs where x: "?dec u = Inr (Inr x)" "Decode_fields weak src fs us = Inr (Inr zs)" "xs = x # zs"
    using Cons.prems(1) unfolding vs D by (auto split: sum.splits)
  show ?case
  proof (cases i)
    case 0
    then have "t = TBool" using Cons.prems(4) f by simp
    then obtain y where y: "?dec v = Inr (Inr y)" using x(1) by (auto split: option.splits if_splits)
    then have "Decode_fields weak src (f # fs) (vs[i := v]) = Inr (Inr (y # zs))"
      by (simp only: vs 0 list_update.simps nat.case D y x(2) sum.case)
    then show ?thesis using x(3) 0 by (auto simp: nth_Cons split: nat.split)
  next
    case (Suc k)
    with Cons.IH [OF x(2), of k] Cons.prems vs obtain ys where y: "Decode_fields weak src fs (us[k := v]) = Inr (Inr ys)" "\<forall>j. j \<noteq> k \<longrightarrow> ys ! j = zs ! j" by auto
    then have "Decode_fields weak src (f # fs) (vs[i := v]) = Inr (Inr (x # ys))" by (simp only: vs Suc list_update.simps nat.case D x(1) y(1) sum.case)
    then show ?thesis using x(3) Suc y(2) by (auto simp: nth_Cons split: nat.split)
  qed
qed simp

text \<open>The two decoders of a group differ in the default of one flag only.\<close>

lemma sort_decode_same:
  assumes "group_option True m = Inr (Inr op)"
  shows "\<exists>op1. sort_decode m = Inr op1 \<and> GroupProxies op1 = GroupProxies op \<and> Use op1 = Use op \<and> Name op1 = Name op"
proof -
  let ?vs = "\<lambda>lz. [VString [], VString [], of_strs [], of_strs [], VString [], VInt 0, VBool lz, VBool False]"
  have o: "group_option lz m = (case Decode_fields True m GroupCommonOption_fields (?vs lz) of
      Inl p \<Rightarrow> Inl p | Inr (Inl e) \<Rightarrow> Inr (Inl e) | Inr (Inr xs) \<Rightarrow> Inr (Inr (to_GroupCommonOption (VStruct xs))))" for lz
    by (simp add: group_option_def decode_option_def Decode_def of_GroupCommonOption_def zero_GroupCommonOption_def split: sum.split)
  obtain xs where xs: "Decode_fields True m GroupCommonOption_fields (?vs True) = Inr (Inr xs)" "op = to_GroupCommonOption (VStruct xs)"
    using assms unfolding o by (auto split: sum.splits)
  have "?vs False = (?vs True)[6 := VBool False]" by (simp add: numeral_eq_Suc)
  moreover have "snd (snd (GroupCommonOption_fields ! 6)) = TBool" "length GroupCommonOption_fields = 8" by (simp_all add: GroupCommonOption_fields_def)
  ultimately obtain ys where ys: "Decode_fields True m GroupCommonOption_fields (?vs False) = Inr (Inr ys)" "\<forall>j. j \<noteq> 6 \<longrightarrow> ys ! j = xs ! j"
    using Decode_fields_bool [OF xs(1), of 6 "VBool False"] by auto
  show ?thesis using ys xs(2) unfolding sort_decode_def o by (simp add: to_GroupCommonOption_def)
qed

lemma run_wrap_err: "run_wrap g m = Some (Inr (Inl e)) \<longleftrightarrow> (\<exists>e1. m = Some (Inr (Inl e1)) \<and> e = g e1)"
  by (cases m rule: option.exhaust) (auto simp: run_wrap_def map_sum_def split: sum.splits)

lemma ParseProxyGroup_sort_name:
  assumes "ParseProxyGroup m st = Some (Inr (Inr (a, st1)))"
  shows "name a = name_of sort_decode m"
proof -
  obtain op vs where g: "group_option True m = Inr (Inr op)" "make_group op m vs (b_world st1) = Some (Inr (Inr a))"
    using assms(1) by (auto simp: ParseProxyGroup_def run_bind_ok map_sum_def split: if_splits sum.splits)
  have "name a = Name op"
    using g(2) by (auto simp: make_group_def NewURLTest_def NewSelector_def NewFallback_def NewLoadBalance_def NewRelay_def group_adapter_def map_sum_def
        split: if_splits sum.splits option.splits)
  then show ?thesis using sort_decode_same [OF g(1)] by (auto simp: name_of_def option_of_def)
qed

lemma parse_groups_not_found:
  assumes "parse_groups now idx ms st = Some (Inr (Inl (GroupError k (ProxyNotFound nm))))" "build_ok st"
  shows "\<exists>i < length ms. nm \<in> set (Use (option_of sort_decode (ms ! i))) \<or>
    nm \<in> set (proxies_of sort_decode (ms ! i)) \<and> b_proxies st nm = None \<and> (\<forall>j < i. name_of sort_decode (ms ! j) \<noteq> nm)"
  using assms
proof (induction ms arbitrary: idx st)
  case (Cons m ms)
  show ?case
  proof (cases "ParseProxyGroup m st = Some (Inr (Inl (ProxyNotFound nm)))")
    case True
    from ParseProxyGroup_not_found [OF this] obtain op where op: "group_option True m = Inr (Inr op)"
      "nm \<in> set (GroupProxies op) \<and> b_proxies st nm = None \<or> nm \<in> set (Use op)" by blast
    from sort_decode_same [OF op(1)] op(2) show ?thesis
      by (intro exI [of _ 0]) (auto simp: proxies_of_def option_of_def)
  next
    case False
    then obtain a sta where g: "ParseProxyGroup m st = Some (Inr (Inr (a, sta)))"
      using Cons.prems(1) by (auto simp: run_bind_err run_wrap_err)
    obtain p stb where n: "new_proxy now a sta = (p, stb)" by fastforce
    have s: "parse_groups now (idx + 1) ms (put_proxy (name a) p stb) = Some (Inr (Inl (GroupError k (ProxyNotFound nm))))"
      using Cons.prems(1) g n by (auto simp: run_bind_err run_wrap_err split: if_splits)
    note q = ParseProxyGroup_ok [OF g Cons.prems(2)]
    have nb: "build_ok stb" "p < b_next stb" "b_proxies stb = b_proxies st"
      using new_proxy_ok [of sta a now] q n by (auto simp: new_proxy_def Let_def)
    from Cons.IH [OF s build_ok_put_proxy [OF nb(1, 2)]] obtain i where i: "i < length ms"
      "nm \<in> set (Use (option_of sort_decode (ms ! i))) \<or> nm \<in> set (proxies_of sort_decode (ms ! i)) \<and>
        b_proxies (put_proxy (name a) p stb) nm = None \<and> (\<forall>j < i. name_of sort_decode (ms ! j) \<noteq> nm)" by blast
    then show ?thesis using ParseProxyGroup_sort_name [OF g] nb(3)
      by (intro exI [of _ "Suc i"]) (auto simp: put_proxy_def nth_Cons split: nat.splits if_splits)
  qed
qed simp

lemma sort_decode_Inr: "sort_decode m = Inr op \<Longrightarrow> group_option False m = Inr (Inr op)"
  by (auto simp: sort_decode_def split: sum.splits)

lemma raw_names_sorted:
  assumes "\<forall>m \<in> set gcs. sort_decode m = Inr (option_of sort_decode m)"
  shows "raw_names gcs \<subseteq> name_of sort_decode ` set gcs"
proof
  fix nm
  assume "nm \<in> raw_names gcs"
  then obtain m where m: "m \<in> set gcs" "m ''name'' = Some (DString nm)" by (auto simp: raw_names_def)
  then have "group_option False m = Inr (Inr (option_of sort_decode m))"
    using assms by (intro sort_decode_Inr) blast
  from group_option_name [OF this m(2)] m(1) show "nm \<in> name_of sort_decode ` set gcs" by (force simp: name_of_def)
qed

lemma no_group_error:
  "parse_proxy_list env now idx ms names st \<noteq> Some (Inr (Inl (GroupError k e)))" "listed_groups idx ms \<noteq> Some (Inr (Inl (GroupError k e)))"
  "sort_groups perm ms \<noteq> Some (Inr (Inl (GroupError k e)))" "parse_providers env vms st \<noteq> Some (Inr (Inl (GroupError k e)))"
  "init_providers env now vs st \<noteq> Some (Inr (Inl (GroupError k e)))" "add_global now names st \<noteq> Some (Inr (Inl (GroupError k e)))"
proof -
  show "parse_proxy_list env now idx ms names st \<noteq> Some (Inr (Inl (GroupError k e)))"
    by (induction env now idx ms names st rule: parse_proxy_list.induct) (auto simp: run_bind_err run_wrap_err Let_def split: prod.splits if_splits)
  show "listed_groups idx ms \<noteq> Some (Inr (Inl (GroupError k e)))"
    by (induction idx ms rule: listed_groups.induct) (auto simp: run_bind_err split: option.splits gdata.splits)
  show "sort_groups perm ms \<noteq> Some (Inr (Inl (GroupError k e)))"
    by (auto simp: sort_groups_def Let_def map_sum_def split: if_splits sum.splits)
  show "parse_providers env vms st \<noteq> Some (Inr (Inl (GroupError k e)))"
    by (induction env vms st rule: parse_providers.induct) (auto simp: run_bind_err run_wrap_err split: if_splits)
  show "init_providers env now vs st \<noteq> Some (Inr (Inl (GroupError k e)))"
    by (induction env now vs st rule: init_providers.induct) (auto simp: run_bind_err run_wrap_err)
  show "add_global now names st \<noteq> Some (Inr (Inl (GroupError k e)))"
    by (auto simp: add_global_def Let_def split: prod.splits sum.splits)
qed

lemma refused_by_groups:
  assumes "parseProxies env now perm order pcs gcs vcs files = Some (Inr (Inl (GroupError k e)))"
  shows "\<exists>names st1 ms st2 st3. parse_proxy_list env now 0 pcs [''DIRECT'', ''REJECT'']
      (add_builtin now ''REJECT'' (OReject NewReject) (add_builtin now ''DIRECT'' (ODirect NewDirect) (empty_build files))) = Some (Inr (Inr (names, st1))) \<and>
    sort_groups perm gcs = Some (Inr (Inr ms)) \<and> parse_providers env vcs st1 = Some (Inr (Inr st2)) \<and>
    init_providers env now (order (map snd (b_providers st2))) st2 = Some (Inr (Inr st3)) \<and> parse_groups now 0 ms st3 = Some (Inr (Inl (GroupError k e)))"
  using assms unfolding parseProxies_def Let_def by (auto simp: run_bind_err no_group_error)

text \<open>
  C19: When a configuration is refused because the member of a group is not found, then that name is
  none of the configured proxies or groups (nor \<open>DIRECT\<close> or \<open>REJECT\<close>), unless a group asks for it as a
  provider: sorting the groups puts every group after those it refers to, so the order in the file does
  not matter.
\<close>

theorem config_references_resolve:
  assumes "parseProxies env now perm order pcs gcs vcs files = Some (Inr (Inl (GroupError k (ProxyNotFound nm))))" "\<forall>xs. mset (perm xs) = mset xs"
  shows "nm \<notin> {''DIRECT'', ''REJECT''} \<union> proxy_names env pcs \<union> raw_names gcs \<or> (\<exists>m \<in> set gcs. nm \<in> set (Use (option_of sort_decode m)))"
proof -
  let ?st = "add_builtin now ''REJECT'' (OReject NewReject) (add_builtin now ''DIRECT'' (ODirect NewDirect) (empty_build files))"
  have d: "''DIRECT'' = b_name (out_Base (ODirect NewDirect))" "''REJECT'' = b_name (out_Base (OReject NewReject))"
    by (simp_all add: NewDirect_def NewReject_def)
  note b1 = add_builtin_ok [OF empty_build_ok d(1)]
  note b2 = add_builtin_ok [OF b1 d(2)]
  obtain names st1 ms st2 st3 where p: "parse_proxy_list env now 0 pcs [''DIRECT'', ''REJECT''] ?st = Some (Inr (Inr (names, st1)))"
    and s: "sort_groups perm gcs = Some (Inr (Inr ms))" and v: "parse_providers env vcs st1 = Some (Inr (Inr st2))"
    and i: "init_providers env now (order (map snd (b_providers st2))) st2 = Some (Inr (Inr st3))"
    and g: "parse_groups now 0 ms st3 = Some (Inr (Inl (GroupError k (ProxyNotFound nm))))"
    using refused_by_groups [OF assms(1)] by blast
  have "knows ?st (set [''DIRECT'', ''REJECT''])" using b2(2) by (auto simp: knows_def)
  note p1 = parse_proxy_list_ok [OF p b2(1) this]
  note v1 = parse_providers_ok [OF v conjunct1 [OF p1]]
  note i1 = init_providers_ok [OF i conjunct1 [OF v1]]
  have known: "{''DIRECT'', ''REJECT''} \<union> proxy_names env pcs \<subseteq> dom (b_proxies st3)" using p1 v1 i1 by (auto simp: knows_def)
  have set: "set ms = set gcs" using sort_groups_spec(1) [OF s assms(2)] by (metis set_mset_mset)
  from parse_groups_not_found [OF g] i1 obtain j where j: "j < length ms" "nm \<in> set (Use (option_of sort_decode (ms ! j))) \<or>
      nm \<in> set (proxies_of sort_decode (ms ! j)) \<and> b_proxies st3 nm = None \<and> (\<forall>l < j. name_of sort_decode (ms ! l) \<noteq> nm)" by (auto simp: config_ok_def)
  then show ?thesis
    using known set raw_names_sorted [OF sort_groups_spec(2) [OF s assms(2)]] sort_groups_spec(3) [OF s assms(2) j(1), of nm] nth_mem [OF j(1)] by blast
qed

section \<open>A small configuration\<close>

definition demo_fetch_env :: fetch_env where
  "demo_fetch_env = \<lparr>fe_out = demo_env, fe_yaml = (\<lambda>_. None), fe_get = (\<lambda>_. None), fe_readable = (\<lambda>_. True), fe_writable = (\<lambda>_. True),
     fe_mtime = (\<lambda>_. 0), fe_resolve = id\<rparr>"

definition demo_raw :: "string \<Rightarrow> string list \<Rightarrow> raw" where
  "demo_raw nm ps = [''name'' \<mapsto> DString nm, ''type'' \<mapsto> DString ''select'', ''proxies'' \<mapsto> DSlice (map DString ps)]"

definition parse_demo :: "raw list \<Rightarrow> (config_error, build) run" where
  "parse_demo ms = parseProxies demo_fetch_env 0 id id [] ms [] Map.empty"

lemma parse_demo_ok: "case parse_demo [demo_raw ''a'' [''b''], demo_raw ''b'' [''DIRECT'']] of Some (Inr (Inr st)) \<Rightarrow> b_next st = 5 | _ \<Rightarrow> False"
  by code_simp

lemma parse_demo_refused: "case parse_demo [demo_raw ''a'' [''b''], demo_raw ''b'' [''c'']] of Some (Inr (Inl (GroupError i (ProxyNotFound nm)))) \<Rightarrow> nm = ''c'' | _ \<Rightarrow> False"
  by code_simp

theorem config_dials_end_witness:
  "\<exists>st. parse_demo [demo_raw ''a'' [''b''], demo_raw ''b'' [''DIRECT'']] = Some (Inr (Inr st)) \<and>
     (\<exists>p. b_proxies st ''a'' = Some p \<and> name (ad (b_world st) p) = ''a'' \<and>
       (\<exists>r. dial (Suc (b_next st)) \<lparr>etld1 = (\<lambda>_. None), out_dial = (\<lambda>_ _. None :: unit option), direct_dial = (\<lambda>_. None), hops_dial = (\<lambda>_ _. None)\<rparr>
          7 8 demo_metadata p (b_world st) = Some r))"
proof -
  let ?ms = "[demo_raw ''a'' [''b''], demo_raw ''b'' [''DIRECT'']]"
  obtain st where st: "parseProxies demo_fetch_env 0 id id [] ?ms [] Map.empty = Some (Inr (Inr st))"
    using parse_demo_ok by (auto simp: parse_demo_def split: option.splits sum.splits)
  have "''a'' \<in> raw_names ?ms" by (simp add: raw_names_def demo_raw_def)
  then have a: "''a'' \<in> {''DIRECT'', ''REJECT'', ''GLOBAL''} \<union> proxy_names demo_fetch_env [] \<union> raw_names ?ms" by blast
  have pu: "pulls demo_fetch_env [] st = Some (Inr st)" "\<forall>xs. mset (id xs :: string list) = mset xs" by simp_all
  note D = config_dials_end [OF st pu(2, 1)]
  from D a obtain p where "b_proxies st ''a'' = Some p \<and> name (ad (b_world st) p) = ''a''" by blast
  then show ?thesis using D st unfolding parse_demo_def by blast
qed

lemma demo_no_use: "Use (option_of sort_decode (demo_raw ''a'' [''b''])) = []" "Use (option_of sort_decode (demo_raw ''b'' [''c''])) = []"
  by code_simp+

theorem config_references_resolve_witness:
  "\<exists>i. parse_demo [demo_raw ''a'' [''b''], demo_raw ''b'' [''c'']] = Some (Inr (Inl (GroupError i (ProxyNotFound ''c'')))) \<and>
     ''c'' \<notin> {''DIRECT'', ''REJECT''} \<union> proxy_names demo_fetch_env [] \<union> raw_names [demo_raw ''a'' [''b''], demo_raw ''b'' [''c'']]"
proof -
  let ?ms = "[demo_raw ''a'' [''b''], demo_raw ''b'' [''c'']]"
  obtain i where i: "parse_demo ?ms = Some (Inr (Inl (GroupError i (ProxyNotFound ''c''))))"
    using parse_demo_refused by (auto split: option.splits sum.splits config_error.splits group_error.splits)
  have "\<forall>xs. mset (id xs :: string list) = mset xs" by simp
  from config_references_resolve [OF i [unfolded parse_demo_def] this] demo_no_use i show ?thesis by auto
qed

section \<open>Where the code does something else\<close>

text \<open>
  A negative interval is accepted for the health check of a group; as an unsigned number of seconds it
  makes a negative duration, and the ticker panics.
\<close>

lemma negative_interval_panics:
  assumes "-9223372036 \<le> i" "i < 0"
  shows "start_process (NewHealthCheck ps url (go_uint i) lz) = Inl NonPositiveTicker"
proof -
  have w: "(of_nat (go_uint i) :: 64 word) = word_of_int i" by (simp add: go_uint_def)
  have "(word_of_int i * 1000000000 :: 64 word) = word_of_int (i * 1000000000)" by simp
  then have "time_Duration (go_uint i) = (i * 1000000000 + 2 ^ 63) mod 2 ^ 64 - 2 ^ 63"
    using int_word_sint [of "i * 1000000000", where 'a = 64] by (simp only: time_Duration_def w) simp
  then have d: "time_Duration (go_uint i) = i * 1000000000" using assms by (simp add: mod_pos_pos_trivial)
  moreover have "go_uint i \<noteq> 0"
  proof
    assume "go_uint i = 0"
    then have "time_Duration (go_uint i) = 0" by (simp add: time_Duration_def)
    with d assms(2) show False by simp
  qed
  ultimately show ?thesis using assms(2) by (simp add: start_process_def auto_check_def NewHealthCheck_def NewTicker_def)
qed

end
