(* ===== verification/Http_Listener.thy ===== *)
theory Http_Listener
  imports Outbounds
begin

text \<open>
  The HTTP listener \<open>listener/http\<close> with its cache of credentials \<open>common/cache/cache.go\<close>, and the mixed
  listener \<open>listener/mixed/mixed.go\<close>. \<open>net/http\<close> parses the requests and talks to the server, so that a
  connection is the sequence of requests it delivers; the bodies pass through it untouched.
\<close>

section \<open>common/cache\<close>

text \<open>Only booleans are stored. Time is in nanoseconds; the janitor calls \<open>cleanup\<close> now and then.\<close>

record element =
  Expired :: int
  Payload :: bool

type_synonym auth_cache = "string \<rightharpoonup> element"

definition cache_New :: auth_cache where
  "cache_New = Map.empty"

definition cache_Put :: "string \<Rightarrow> bool \<Rightarrow> int \<Rightarrow> int \<Rightarrow> auth_cache \<Rightarrow> auth_cache" where
  "cache_Put k payload ttl now c = c(k \<mapsto> \<lparr>Expired = now + ttl, Payload = payload\<rparr>)"

definition cache_GetWithExpire :: "string \<Rightarrow> int \<Rightarrow> auth_cache \<Rightarrow> (bool \<times> int) option \<times> auth_cache" where
  "cache_GetWithExpire k now c =
     (case c k of
        None \<Rightarrow> (None, c)
      | Some elm \<Rightarrow> if now - Expired elm > 0 then (None, c(k := None)) else (Some (Payload elm, Expired elm), c))"

definition cache_Get :: "string \<Rightarrow> int \<Rightarrow> auth_cache \<Rightarrow> bool option \<times> auth_cache" where
  "cache_Get k now c =
     (case c k of
        None \<Rightarrow> (None, c)
      | Some elm \<Rightarrow> if now - Expired elm > 0 then (None, c(k := None)) else (Some (Payload elm), c))"

definition cache_cleanup :: "int \<Rightarrow> auth_cache \<Rightarrow> auth_cache" where
  "cache_cleanup now c = (\<lambda>k. case c k of Some elm \<Rightarrow> if now - Expired elm > 0 then None else Some elm | None \<Rightarrow> None)"

section \<open>utils.go\<close>

definition is_space :: "char \<Rightarrow> bool" where
  "is_space ch \<longleftrightarrow> (let n = (of_char ch :: nat) in n = 32 \<or> 9 \<le> n \<and> n \<le> 13)"

definition TrimSpace :: "string \<Rightarrow> string" where
  "TrimSpace s = rev (dropWhile is_space (rev (dropWhile is_space s)))"

definition hop_by_hop :: "string list" where
  "hop_by_hop = [''Proxy-Connection'', ''Proxy-Authenticate'', ''Proxy-Authorization'', ''TE'', ''Trailers'', ''Transfer-Encoding'', ''Upgrade'']"

definition RemoveHopByHopHeaders :: "Header \<Rightarrow> Header" where
  "RemoveHopByHopHeaders h =
     (let h1 = fold header_Del hop_by_hop h;
          connections = header_Get h1 ''Connection'';
          h2 = header_Del ''Connection'' h1
      in if connections = [] then h2
         else fold (\<lambda>n. header_Del (TrimSpace n)) (Split CHR '','' connections) h2)"

record HttpRequest =
  hr_Method :: string
  hr_Proto :: "nat \<times> nat"
  hr_Host :: string
  hr_Scheme :: string
  hr_URLHost :: string
  hr_RequestURI :: string
  hr_Header :: Header

definition RemoveExtraHTTPHostPort :: "HttpRequest \<Rightarrow> HttpRequest" where
  "RemoveExtraHTTPHostPort req =
     (let host = (if hr_Host req = [] then hr_URLHost req else hr_Host req);
          host = (case SplitHostPort host of Some (pHost, port) \<Rightarrow> if port = ''80'' then pHost else host | None \<Rightarrow> host)
      in req\<lparr>hr_Host := host, hr_URLHost := host\<rparr>)"

definition ParseBasicProxyAuthorization :: "HttpRequest \<Rightarrow> string" where
  "ParseBasicProxyAuthorization req =
     (let value = header_Get (hr_Header req) ''Proxy-Authorization''
      in if \<not> HasPrefix value ''Basic '' then [] else drop 6 value)"

definition DecodeBasicProxyAuthorization :: "string \<Rightarrow> (string \<times> string) option" where
  "DecodeBasicProxyAuthorization credential =
     (case base64_Decode credential of
        None \<Rightarrow> None
      | Some plain \<Rightarrow>
          (case Split CHR '':'' (bytes_to_string plain) of
             [u, pass] \<Rightarrow> Some (u, pass)
           | _ \<Rightarrow> None))"

section \<open>proxy.go\<close>

record HttpResponse =
  hs_StatusCode :: nat
  hs_Header :: Header
  hs_Close :: bool

definition responseWith :: "nat \<Rightarrow> HttpResponse" where
  "responseWith statusCode = \<lparr>hs_StatusCode = statusCode, hs_Header = Map.empty, hs_Close = False\<rparr>"

text \<open>\<open>time.Minute\<close>.\<close>

definition credential_ttl :: int where
  "credential_ttl = 60 * 10 ^ 9"

definition authenticate :: "Authenticator option \<Rightarrow> int \<Rightarrow> HttpRequest \<Rightarrow> auth_cache \<Rightarrow> HttpResponse option \<times> auth_cache" where
  "authenticate authenticator now req ac =
     (case authenticator of
        None \<Rightarrow> (None, ac)
      | Some au \<Rightarrow>
          (let credential = ParseBasicProxyAuthorization req
           in if credential = [] then
                (Some ((responseWith 407)\<lparr>hs_Header := header_Set ''Proxy-Authenticate'' ''Basic'' Map.empty\<rparr>), ac)
              else
                (let (hit, c1) = cache_Get credential now ac;
                     (authed, c2) =
                       (case hit of
                          Some b \<Rightarrow> (b, c1)
                        | None \<Rightarrow>
                            (let b = (case DecodeBasicProxyAuthorization credential of
                                        Some (u, pass) \<Rightarrow> Verify au u pass
                                      | None \<Rightarrow> False)
                             in (b, cache_Put credential b credential_ttl now c1)))
                 in if \<not> authed then (Some (responseWith 403), c2) else (None, c2))))"

text \<open>
  \<open>DialContext\<close> of the client (\<open>client.go\<close>): the tunnel gets one end of a pipe. \<open>None\<close> is an address that
  the client refuses.
\<close>

definition client_dial :: "string \<Rightarrow> int \<Rightarrow> string \<Rightarrow> string \<Rightarrow> Manager \<Rightarrow> panic + ConnContext option \<times> Manager" where
  "client_dial source now network address m =
     (if network \<noteq> ''tcp'' \<and> network \<noteq> ''tcp4'' \<and> network \<noteq> ''tcp6'' then Inr (None, m)
      else let dstAddr = socks_ParseAddr address
           in if dstAddr = [] then Inr (None, m)
              else map_sum id (\<lambda>(ctx, m1). (Some ctx, m1)) (NewHTTP dstAddr source now m))"

text \<open>
  What \<open>client.Do\<close> of \<open>net/http\<close> does with a request: the connection it dials, if it has no idle one, and
  the response, if there is one.
\<close>

record http_env =
  he_source :: string
  he_au :: "Authenticator option"
  he_dials :: "HttpRequest \<Rightarrow> (string \<times> string) option"
  he_do :: "HttpRequest \<Rightarrow> HttpResponse option"

datatype http_event = Established "nat \<times> nat" | Hijacked ConnContext | Dialled ConnContext | Forwarded HttpRequest | Answered HttpResponse | Closed

definition client_Do :: "http_env \<Rightarrow> int \<Rightarrow> HttpRequest \<Rightarrow> Manager \<Rightarrow> panic + http_event list \<times> HttpResponse option \<times> Manager" where
  "client_Do env now req m =
     (case he_dials env req of
        None \<Rightarrow> Inr ([Forwarded req], he_do env req, m)
      | Some (network, address) \<Rightarrow>
          and_then (client_dial (he_source env) now network address m) (\<lambda>(ctx, m1).
            case ctx of
              None \<Rightarrow> Inr ([], None, m1)
            | Some x \<Rightarrow> Inr ([Dialled x, Forwarded req], he_do env req, m1)))"

text \<open>A plain request of a trusted client.\<close>

definition forward :: "http_env \<Rightarrow> int \<Rightarrow> HttpRequest \<Rightarrow> Manager \<Rightarrow> panic + http_event list \<times> HttpResponse \<times> Manager" where
  "forward env now req m =
     (let host = header_Get (hr_Header req) ''Host'';
          req1 = (if host \<noteq> [] then req\<lparr>hr_Host := host\<rparr> else req);
          req2 = req1\<lparr>hr_RequestURI := [], hr_Header := RemoveHopByHopHeaders (hr_Header req1)\<rparr>;
          req3 = RemoveExtraHTTPHostPort req2
      in if hr_Scheme req3 = [] \<or> hr_URLHost req3 = [] then Inr ([], responseWith 400, m)
         else and_then (client_Do env now req3 m) (\<lambda>(evs, resp, m1).
           Inr (evs, case resp of Some r \<Rightarrow> r | None \<Rightarrow> responseWith 502, m1)))"

definition finish_response :: "bool \<Rightarrow> HttpResponse \<Rightarrow> HttpResponse" where
  "finish_response keepAlive resp =
     (let h = RemoveHopByHopHeaders (hs_Header resp);
          h = (if keepAlive then header_Set ''Keep-Alive'' ''timeout=4'' (header_Set ''Connection'' ''keep-alive'' (header_Set ''Proxy-Connection'' ''keep-alive'' h)) else h)
      in resp\<lparr>hs_Header := h, hs_Close := \<not> keepAlive\<rparr>)"

text \<open>A request with the time it is handled at and whether the answer to it can be written.\<close>

record exchange =
  ex_request :: HttpRequest
  ex_now :: int
  ex_writable :: bool

definition keep_alive :: "HttpRequest \<Rightarrow> bool" where
  "keep_alive req \<longleftrightarrow> TrimSpace (ToLower (header_Get (hr_Header req) ''Proxy-Connection'')) = ''keep-alive''"

text \<open>The loop of \<open>HandleConn\<close>; the end of the list is the first request that cannot be read.\<close>

primrec http_loop :: "http_env \<Rightarrow> exchange list \<Rightarrow> bool \<Rightarrow> auth_cache \<Rightarrow> Manager \<Rightarrow> panic + http_event list \<times> auth_cache \<times> Manager" where
  "http_loop env [] trusted ac m = Inr ([Closed], ac, m)"
| "http_loop env (ex # exs) trusted ac m =
     (let req = ex_request ex;
          keepAlive = keep_alive req;
          (refusal, cache1) = (if trusted then (None, ac) else authenticate (he_au env) (ex_now ex) req ac);
          answer = \<lambda>evs resp m1.
            (let sent = Answered (finish_response keepAlive resp)
             in if \<not> ex_writable ex then Inr (evs @ [Closed], cache1, m1)
                else if \<not> keepAlive then Inr (evs @ [sent, Closed], cache1, m1)
                else and_then (http_loop env exs (refusal = None) cache1 m1) (\<lambda>(rest, cache2, m2). Inr (evs @ [sent] @ rest, cache2, m2)))
      in case refusal of
           Some resp \<Rightarrow> answer [] resp m
         | None \<Rightarrow>
             if hr_Method req = ''CONNECT'' then
               (if \<not> ex_writable ex then Inr ([Closed], cache1, m)
                else and_then (NewHTTPS (hr_URLHost req) (he_source env) (ex_now ex) m) (\<lambda>(ctx, m1).
                  Inr ([Established (hr_Proto req), Hijacked ctx], cache1, m1)))
             else and_then (forward env (ex_now ex) req m) (\<lambda>(evs, resp, m1). answer evs resp m1))"

definition HandleConn :: "http_env \<Rightarrow> exchange list \<Rightarrow> auth_cache option \<Rightarrow> Manager \<Rightarrow> panic + http_event list \<times> auth_cache \<times> Manager" where
  "HandleConn env exs ac m =
     http_loop env exs (ac = None) (case ac of Some c \<Rightarrow> c | None \<Rightarrow> cache_New) m"

section \<open>mixed.go\<close>

text \<open>The first byte decides; it is only peeked at. The requests are what \<open>net/http\<close> parses of the bytes.\<close>

datatype mixed_result = MixedClosed | MixedSocks "accepted \<times> sock \<times> Manager" | MixedHttp "http_event list \<times> auth_cache \<times> Manager"

definition handleConn :: "http_env \<Rightarrow> (byte list \<Rightarrow> exchange list) \<Rightarrow> int \<Rightarrow> sock \<Rightarrow> auth_cache option \<Rightarrow> Manager \<Rightarrow> panic + mixed_result" where
  "handleConn env requests now sk ac m =
     (case rx (sk_conn sk) of
        [] \<Rightarrow> Inr MixedClosed
      | b # _ \<Rightarrow>
          if b = 4 then map_sum id MixedSocks (HandleSocks4 (he_au env) now sk m)
          else if b = 5 then map_sum id MixedSocks (HandleSocks5 (he_au env) now sk m)
          else map_sum id MixedHttp (HandleConn env (requests (rx (sk_conn sk))) ac m))"

section \<open>Headers that concern one hop only\<close>

lemma fold_header_Del: "fold (\<lambda>n. header_Del (f n)) ns h x = (if \<exists>n\<in>set ns. x = CanonicalKey (f n) then None else h x)"
  by (induction ns arbitrary: h) (auto simp: header_Del_apply)

text \<open>The headers that the first \<open>Connection\<close> line names.\<close>

definition named_by_connection :: "Header \<Rightarrow> string list" where
  "named_by_connection h =
     (let v = header_Get h ''Connection'' in if v = [] then [] else map (\<lambda>n. CanonicalKey (TrimSpace n)) (Split CHR '','' v))"

lemma Connection_no_hop: "\<forall>n\<in>set hop_by_hop. CanonicalKey ''Connection'' \<noteq> CanonicalKey n"
  by (simp add: hop_by_hop_def CanonicalKey_def token_char_def upper_char_def lower_char_def)

lemma header_Get_fold_Del:
  "\<forall>n\<in>set ns. CanonicalKey k \<noteq> CanonicalKey n \<Longrightarrow> header_Get (fold header_Del ns h) k = header_Get h k"
  using fold_header_Del [of "\<lambda>n. n" ns h "CanonicalKey k"] by (simp add: header_Get_def)

lemma RemoveHopByHopHeaders_apply:
  "RemoveHopByHopHeaders h x =
     (if x \<in> CanonicalKey ` set (''Connection'' # hop_by_hop) \<or> x \<in> set (named_by_connection h) then None else h x)"
  using fold_header_Del [of "\<lambda>n. n" hop_by_hop h x] header_Get_fold_Del [OF Connection_no_hop, of h]
  by (auto simp: RemoveHopByHopHeaders_def Let_def fold_header_Del header_Del_apply named_by_connection_def)

section \<open>Who is let in\<close>

definition valid_credential :: "Authenticator \<Rightarrow> string \<Rightarrow> bool" where
  "valid_credential au credential \<longleftrightarrow>
     (case DecodeBasicProxyAuthorization credential of Some (u, pass) \<Rightarrow> Verify au u pass | None \<Rightarrow> False)"

definition authorized :: "Authenticator \<Rightarrow> HttpRequest \<Rightarrow> bool" where
  "authorized au req \<longleftrightarrow> ParseBasicProxyAuthorization req \<noteq> [] \<and> valid_credential au (ParseBasicProxyAuthorization req)"

text \<open>The cache of a listener remembers right answers only.\<close>

definition cache_ok :: "Authenticator \<Rightarrow> auth_cache \<Rightarrow> bool" where
  "cache_ok au c \<longleftrightarrow> (\<forall>k elm. c k = Some elm \<longrightarrow> Payload elm = valid_credential au k)"

lemma authenticate_result:
  assumes "cache_ok au c"
  shows "fst (authenticate (Some au) now req c) = None \<longleftrightarrow> authorized au req" "cache_ok au (snd (authenticate (Some au) now req c))"
    "fst (authenticate (Some au) now req c) = Some resp \<Longrightarrow> hs_StatusCode resp \<in> {407, 403}"
  using assms
  by (auto simp: authenticate_def authorized_def valid_credential_def cache_ok_def cache_Get_def cache_Put_def Let_def responseWith_def
      split: option.splits if_splits prod.splits)

definition refused :: "http_event \<Rightarrow> bool" where
  "refused e \<longleftrightarrow> (case e of Closed \<Rightarrow> True | Answered r \<Rightarrow> hs_StatusCode r = 407 \<or> hs_StatusCode r = 403 | _ \<Rightarrow> False)"

lemma http_loop_refuses:
  assumes "he_au env = Some au" "cache_ok au c" "\<forall>ex\<in>set exs. \<not> authorized au (ex_request ex)"
  shows "\<exists>evs c'. http_loop env exs False c m = Inr (evs, c', m) \<and> cache_ok au c' \<and> (\<forall>e\<in>set evs. refused e)"
  using assms(2,3)
proof (induction exs arbitrary: c)
  case Nil
  then show ?case by (simp add: refused_def)
next
  case (Cons ex exs)
  obtain r c1 where a: "authenticate (Some au) (ex_now ex) (ex_request ex) c = (r, c1)" by (cases "authenticate (Some au) (ex_now ex) (ex_request ex) c")
  note res = authenticate_result [OF Cons.prems(1), of "ex_now ex" "ex_request ex", unfolded a fst_conv snd_conv]
  obtain resp where r: "r = Some resp" using res(1) Cons.prems(2) by (cases r) auto
  have sent: "refused (Answered (finish_response k resp))" for k
    using res(3) [OF r] by (auto simp: refused_def finish_response_def Let_def)
  obtain evs c' where "http_loop env exs False c1 m = Inr (evs, c', m)" "cache_ok au c'" "\<forall>e\<in>set evs. refused e"
    using Cons.IH [OF res(2)] Cons.prems(2) by auto
  then show ?case using a r sent res(2) assms(1) by (auto simp: Let_def refused_def)
qed

text \<open>
  C4: the HTTP listener lets nobody in without a password. As long as no request on a connection carries the
  credentials of a user, every request is answered with 407 or 403 and nothing reaches the tunnel or
  a server, whatever the cache of earlier connections holds; and the cache stays right.
\<close>

theorem http_refuses_strangers:
  assumes "he_au env = Some au" "cache_ok au c" "\<forall>ex\<in>set exs. \<not> authorized au (ex_request ex)"
  shows "\<exists>evs c'. HandleConn env exs (Some c) m = Inr (evs, c', m) \<and> cache_ok au c' \<and> (\<forall>e\<in>set evs. refused e)"
  using http_loop_refuses [OF assms] by (simp add: HandleConn_def)

section \<open>HTTP proxies in a chain agree\<close>

text \<open>The request of the \<open>Http\<close> outbound as \<open>net/http\<close> delivers it to the listener.\<close>

definition received_request :: "http_request \<Rightarrow> HttpRequest" where
  "received_request rq =
     \<lparr>hr_Method = ''CONNECT'', hr_Proto = (1, 1), hr_Host = rq_Host rq, hr_Scheme = [], hr_URLHost = rq_Host rq, hr_RequestURI = rq_Host rq,
      hr_Header = fold (\<lambda>(k, v). header_Add k v) (rq_Header rq) Map.empty\<rparr>"

lemma canonical_names:
  "CanonicalKey ''Proxy-Connection'' = ''Proxy-Connection''" "CanonicalKey ''Proxy-Authorization'' = ''Proxy-Authorization''"
  "CanonicalKey ''Connection'' = ''Connection''"
  by (simp_all add: CanonicalKey_def token_char_def upper_char_def lower_char_def)

lemma base64_not_Nil: "bs \<noteq> [] \<Longrightarrow> base64_Encode bs \<noteq> []"
  by (induction bs rule: base64_Encode.induct) (simp_all add: Let_def)

lemma connect_credential:
  assumes "h_user h \<noteq> []" "h_pass h \<noteq> []"
  shows "ParseBasicProxyAuthorization (received_request (connect_request h md)) = base64_Encode (string_to_bytes (h_user h @ '':'' @ h_pass h))"
  using assms
  by (simp add: ParseBasicProxyAuthorization_def received_request_def connect_request_def header_Get_def header_Add_def canonical_names HasPrefix_def Let_def)

lemma decode_login:
  "DecodeBasicProxyAuthorization (base64_Encode (string_to_bytes s)) = (case Split CHR '':'' s of [u, pass] \<Rightarrow> Some (u, pass) | _ \<Rightarrow> None)"
  by (simp add: DecodeBasicProxyAuthorization_def base64_roundtrip)

lemma connect_authorized:
  assumes "h_user h \<noteq> []" "h_pass h \<noteq> []" "CHR '':'' \<notin> set (h_user h)" "CHR '':'' \<notin> set (h_pass h)"
  shows "authorized au (received_request (connect_request h md)) \<longleftrightarrow> Verify au (h_user h) (h_pass h)"
  using assms base64_not_Nil [of "string_to_bytes (h_user h @ '':'' @ h_pass h)"] Split_append_sep [OF assms(3), of "h_pass h"] Split_single [OF assms(4)]
  by (simp add: authorized_def valid_credential_def connect_credential decode_login)

lemma url_split_join:
  assumes "bracketless host" "port \<noteq> []" "list_all is_digit port"
  shows "url_splitHostPort (JoinHostPort host port) = (host, port)"
proof -
  have port: "CHR '':'' \<notin> set port" using assms(3) by (auto simp: list_all_iff is_digit_def)
  show ?thesis
  proof (cases "CHR '':'' \<in> set host")
    case True
    have "last_index_of CHR '':'' (''['' @ host @ '']:'' @ port) = Some (length host + 2)"
      using last_index_of_append [OF port, of "CHR ''['' # host @ '']''"] by simp
    then show ?thesis using True assms(3) by (simp add: JoinHostPort_def url_splitHostPort_def validOptionalPort_def Let_def)
  next
    case False
    have "last_index_of CHR '':'' (host @ '':'' @ port) = Some (length host)" using last_index_of_append [OF port, of host] by simp
    moreover have "host = [] \<or> hd host \<noteq> CHR ''[''" using assms(1) by (cases host) (auto simp: bracketless_def)
    ultimately show ?thesis using False assms(3) by (auto simp: JoinHostPort_def url_splitHostPort_def validOptionalPort_def Let_def)
  qed
qed


section \<open>What is forwarded\<close>

definition stripped :: "HttpRequest \<Rightarrow> string \<Rightarrow> HttpRequest" where
  "stripped req host = req\<lparr>hr_Host := host, hr_URLHost := host, hr_RequestURI := [], hr_Header := RemoveHopByHopHeaders (hr_Header req)\<rparr>"

lemma stripped_simps:
  "hr_Header (stripped req host) = RemoveHopByHopHeaders (hr_Header req)" "hr_Method (stripped req host) = hr_Method req"
  "hr_Host (stripped req host) = host" "hr_URLHost (stripped req host) = host" "hr_Scheme (stripped req host) = hr_Scheme req"
  by (simp_all add: stripped_def)

lemma client_Do_Forwarded: "client_Do env now req m = Inr (evs, resp, m1) \<Longrightarrow> Forwarded r \<in> set evs \<Longrightarrow> r = req"
  by (auto simp: client_Do_def and_then_def split: option.splits sum.splits prod.splits)

lemma RemoveExtra_stripped:
  "\<exists>host. RemoveExtraHTTPHostPort (req\<lparr>hr_Host := h, hr_RequestURI := [], hr_Header := RemoveHopByHopHeaders (hr_Header req)\<rparr>) = stripped req host"
  by (cases req) (simp add: RemoveExtraHTTPHostPort_def stripped_def Let_def)

lemma forward_Forwarded:
  assumes "forward env now req m = Inr (evs, resp, m1)" "Forwarded r \<in> set evs"
  shows "\<exists>host. r = stripped req host \<and> host \<noteq> [] \<and> hr_Scheme req \<noteq> []"
proof -
  define req3 where "req3 = RemoveExtraHTTPHostPort
    ((if header_Get (hr_Header req) ''Host'' \<noteq> [] then req\<lparr>hr_Host := header_Get (hr_Header req) ''Host''\<rparr> else req)
       \<lparr>hr_RequestURI := [], hr_Header := RemoveHopByHopHeaders (hr_Header req)\<rparr>)"
  obtain host where host: "req3 = stripped req host"
    using RemoveExtra_stripped [of req "header_Get (hr_Header req) ''Host''"] RemoveExtra_stripped [of req "hr_Host req"]
    by (cases "header_Get (hr_Header req) ''Host'' = []") (auto simp: req3_def)
  have fwd: "forward env now req m = (if hr_Scheme req3 = [] \<or> hr_URLHost req3 = [] then Inr ([], responseWith 400, m)
      else and_then (client_Do env now req3 m) (\<lambda>(evs, resp, m1). Inr (evs, case resp of Some r \<Rightarrow> r | None \<Rightarrow> responseWith 502, m1)))"
    by (simp add: forward_def req3_def Let_def)
  obtain r' where "hr_Scheme req3 \<noteq> []" "hr_URLHost req3 \<noteq> []" "client_Do env now req3 m = Inr (evs, r', m1)"
    using assms unfolding fwd by (cases "client_Do env now req3 m") (auto simp: and_then_def split: if_splits)
  then show ?thesis using client_Do_Forwarded [OF _ assms(2)] host by (auto simp: stripped_def)
qed


definition demo_http_env :: http_env where
  "demo_http_env = \<lparr>he_source = ''10.0.0.2:5000'', he_au = Some demo_auth, he_dials = (\<lambda>_. None), he_do = (\<lambda>_. None)\<rparr>"

definition demo_get :: HttpRequest where
  "demo_get = \<lparr>hr_Method = ''GET'', hr_Proto = (1, 1), hr_Host = ''a.com:80'', hr_Scheme = ''http'', hr_URLHost = ''a.com:80'', hr_RequestURI = [],
     hr_Header = [''Connection'' \<mapsto> [''X-A''], ''X-A'' \<mapsto> [''1''], ''Accept'' \<mapsto> [''2'']]\<rparr>"

lemma demo_split: "SplitHostPort ''a.com:80'' = Some (''a.com'', ''80'')"
  by (simp add: SplitHostPort_def last_index_of_def Let_def)

lemma demo_forward:
  "forward demo_http_env 0 demo_get DefaultManager =
     Inr ([Forwarded (RemoveExtraHTTPHostPort (demo_get\<lparr>hr_RequestURI := [], hr_Header := RemoveHopByHopHeaders (hr_Header demo_get)\<rparr>))], responseWith 502, DefaultManager)"
proof -
  have "header_Get (hr_Header demo_get) ''Host'' = []" by (simp add: header_Get_def demo_get_def CanonicalKey_def token_char_def upper_char_def lower_char_def)
  then show ?thesis
    by (simp add: forward_def client_Do_def demo_http_env_def RemoveExtraHTTPHostPort_def demo_get_def demo_split Let_def and_then_def)
qed


theorem http_refuses_strangers_witness:
  "\<exists>evs c'. HandleConn demo_http_env [\<lparr>ex_request = demo_get, ex_now = 0, ex_writable = True\<rparr>] (Some cache_New) DefaultManager =
      Inr (evs, c', DefaultManager) \<and> cache_ok demo_auth c' \<and> (\<forall>e\<in>set evs. refused e)"
proof (rule http_refuses_strangers)
  show "\<forall>ex\<in>set [\<lparr>ex_request = demo_get, ex_now = 0, ex_writable = True\<rparr>]. \<not> authorized demo_auth (ex_request ex)"
    by (simp add: authorized_def ParseBasicProxyAuthorization_def header_Get_def demo_get_def canonical_names HasPrefix_def)
qed (simp_all add: demo_http_env_def cache_ok_def cache_New_def)

definition demo_http :: Http where
  "demo_http = \<lparr>h_Base = \<lparr>b_name = ''h'', b_addr = ''1.1.1.1:80'', b_tp = AtHttp, b_udp = False\<rparr>, h_user = s5_user demo_socks5, h_pass = s5_pass demo_socks5, h_tlsConfig = None\<rparr>"


section \<open>What goes wrong\<close>

text \<open>A password with a colon, which the scheme allows, is always refused.\<close>

lemma colon_password_refused:
  assumes "CHR '':'' \<in> set (h_pass h)" "h_user h \<noteq> []"
  shows "\<not> authorized au (received_request (connect_request h md))"
proof -
  have "h_pass h \<noteq> []" using assms(1) by auto
  obtain p q where p: "h_pass h = p @ CHR '':'' # q" "CHR '':'' \<notin> set p" using assms(1) by (metis split_list_first)
  have "length (Split CHR '':'' (u @ CHR '':'' # p @ CHR '':'' # q)) \<ge> 3" for u
  proof (induction u)
    case Nil
    then show ?case using Split_append_sep [OF p(2), of q] by (cases "Split CHR '':'' q") simp_all
  next
    case (Cons ch u)
    then show ?case by (auto split: list.splits)
  qed
  from this [of "h_user h"] show ?thesis
    by (auto simp: authorized_def valid_credential_def connect_credential [OF assms(2) \<open>h_pass h \<noteq> []\<close>] decode_login p(1) split: list.splits)
qed

text \<open>Only the first \<open>Connection\<close> line counts.\<close>

lemma second_connection_line:
  "RemoveHopByHopHeaders [''Connection'' \<mapsto> [''close'', ''X-Secret''], ''X-Secret'' \<mapsto> [''1'']] ''X-Secret'' = Some [''1'']"
  by (simp add: RemoveHopByHopHeaders_apply named_by_connection_def header_Get_def canonical_names hop_by_hop_def TrimSpace_def is_space_def
      CanonicalKey_def token_char_def upper_char_def lower_char_def)

text \<open>The cache outlives a change of the users: a credential it holds is accepted without asking.\<close>

lemma credential_outlives_user:
  assumes "ParseBasicProxyAuthorization req \<noteq> []" "c (ParseBasicProxyAuthorization req) = Some \<lparr>Expired = t, Payload = True\<rparr>" "now \<le> t"
  shows "authenticate (Some au) now req c = (None, c)"
  using assms by (simp add: authenticate_def cache_Get_def Let_def)

end
