(* ===== verification/Dns.thy ===== *)
theory Dns
  imports Resolver Go_Conn
begin

text \<open>
  The DNS part of the program: \<open>dns/util.go\<close>, \<open>dns/filters.go\<close>, \<open>dns/resolver.go\<close>, \<open>dns/middleware.go\<close>
  and the picker \<open>common/picker/picker.go\<close>. The messages belong to a third-party library; of them the
  model has the fields that the program reads or writes. The functions of that library and the
  exchange with a server are the arguments in \<open>dns_lib\<close>. Time is in nanoseconds; the cache keeps
  seconds.
\<close>

section \<open>Messages\<close>

datatype RR = RR_A string (rr_ttl: uint32) IP | RR_AAAA string (rr_ttl: uint32) IP | RR_other string (rr_ttl: uint32)

record Question =
  q_Name :: string
  q_Qtype :: nat
  q_Qclass :: nat

record Msg =
  Question :: "Question list"
  Answer :: "RR list"
  Ns :: "RR list"
  Extra :: "RR list"
  Rcode :: nat
  Authoritative :: bool
  RecursionAvailable :: bool

definition empty_msg :: Msg where
  "empty_msg = \<lparr>Question = [], Answer = [], Ns = [], Extra = [], Rcode = 0, Authoritative = False, RecursionAvailable = False\<rparr>"

definition TypeA :: nat where "TypeA = 1"
definition TypeAAAA :: nat where "TypeAAAA = 28"
definition TypeSVCB :: nat where "TypeSVCB = 64"
definition TypeHTTPS :: nat where "TypeHTTPS = 65"
definition ClassINET :: nat where "ClassINET = 1"
definition RcodeServerFailure :: nat where "RcodeServerFailure = 2"
definition RcodeNameError :: nat where "RcodeNameError = 3"
definition RcodeRefused :: nat where "RcodeRefused = 5"
definition dnsDefaultTTL :: uint32 where "dnsDefaultTTL = 600"

lemmas dns_consts = TypeA_def TypeAAAA_def TypeSVCB_def TypeHTTPS_def ClassINET_def RcodeServerFailure_def RcodeNameError_def RcodeRefused_def

datatype dnsClient = DohClient string | DhcpClient string | PlainClient string string string bool

text \<open>
  \<open>race\<close> is the order in which the servers asked at the same time answer, by their position.
\<close>

record dns_lib =
  SetRcode :: "Msg \<Rightarrow> Msg \<Rightarrow> nat \<Rightarrow> Msg"
  Question_String :: "Question \<Rightarrow> string"
  Fqdn :: "string \<Rightarrow> string"
  client_Exchange :: "dnsClient \<Rightarrow> Msg \<Rightarrow> string + Msg"
  race :: "dnsClient list \<Rightarrow> Msg \<Rightarrow> nat list"
  dns_Country :: "IP \<Rightarrow> string option"
  dns_Intn :: "nat \<Rightarrow> nat"

datatype dns_error = ErrNoQuestion | ErrAllFailed "string option" | ErrNotFound | ErrVersion

section \<open>util.go\<close>

fun set_ttl :: "uint32 \<Rightarrow> RR \<Rightarrow> RR" where
  "set_ttl t (RR_A n _ ip) = RR_A n t ip"
| "set_ttl t (RR_AAAA n _ ip) = RR_AAAA n t ip"
| "set_ttl t (RR_other n _) = RR_other n t"

definition setMsgTTL :: "Msg \<Rightarrow> uint32 \<Rightarrow> Msg" where
  "setMsgTTL msg t = msg\<lparr>Answer := map (set_ttl t) (Answer msg), Ns := map (set_ttl t) (Ns msg), Extra := map (set_ttl t) (Extra msg)\<rparr>"

definition msg_ttl :: "Msg \<Rightarrow> uint32 option" where
  "msg_ttl msg =
     (case Answer msg of rr # _ \<Rightarrow> Some (rr_ttl rr)
      | [] \<Rightarrow> (case Ns msg of rr # _ \<Rightarrow> Some (rr_ttl rr)
              | [] \<Rightarrow> (case Extra msg of rr # _ \<Rightarrow> Some (rr_ttl rr) | [] \<Rightarrow> None)))"

definition second :: int where "second = 10 ^ 9"

type_synonym msg_cache = "(string, Msg) LruCache"

definition putMsgToCache :: "int \<Rightarrow> string \<Rightarrow> Msg \<Rightarrow> msg_cache \<Rightarrow> msg_cache" where
  "putMsgToCache now k msg c =
     (case msg_ttl msg of
        None \<Rightarrow> c
      | Some t \<Rightarrow> SetWithExpire (now div second) k msg ((now + second * uint t) div second) c)"

definition isIPRequest :: "Question \<Rightarrow> bool" where
  "isIPRequest q \<longleftrightarrow> q_Qclass q = ClassINET \<and> (q_Qtype q = TypeA \<or> q_Qtype q = TypeAAAA)"

record NameServer =
  ns_Net :: string
  ns_Addr :: string

text \<open>The flag of a plain client tells whether it has a resolver for the name of its server.\<close>

definition transform :: "NameServer list \<Rightarrow> bool \<Rightarrow> dnsClient list" where
  "transform servers resolver =
     map (\<lambda>s. if ns_Net s = ''https'' then DohClient (ns_Addr s)
              else if ns_Net s = ''dhcp'' then DhcpClient (ns_Addr s)
              else case SplitHostPort (ns_Addr s) of
                     Some (h, p) \<Rightarrow> PlainClient (ns_Net s) h p resolver
                   | None \<Rightarrow> PlainClient (ns_Net s) [] [] resolver) servers"

definition handleMsgWithEmptyAnswer :: "dns_lib \<Rightarrow> Msg \<Rightarrow> Msg" where
  "handleMsgWithEmptyAnswer L r = (SetRcode L empty_msg r 0)\<lparr>Authoritative := True, RecursionAvailable := True\<rparr>"

fun rr_ip :: "RR \<Rightarrow> IP option" where
  "rr_ip (RR_AAAA _ _ ip) = Some ip"
| "rr_ip (RR_A _ _ ip) = Some ip"
| "rr_ip (RR_other _ _) = None"

definition msgToIP :: "Msg \<Rightarrow> IP list" where
  "msgToIP msg = List.map_filter rr_ip (Answer msg)"

section \<open>filters.go\<close>

datatype fallbackIPFilter = geoipFilter string | ipnetFilter IPNet

fun ipfilter_Match :: "dns_lib \<Rightarrow> fallbackIPFilter \<Rightarrow> IP \<Rightarrow> panic + bool" where
  "ipfilter_Match L (geoipFilter code) ip =
     (case dns_Country L ip of
        None \<Rightarrow> Inl NilDereference
      | Some isoCode \<Rightarrow> Inr (\<not> EqualFold isoCode code \<and> \<not> IsPrivate ip))"
| "ipfilter_Match L (ipnetFilter n) ip = Inr (IPNet_Contains n ip)"

type_synonym domainFilter = "unit Node"

definition NewDomainFilter :: "string list \<Rightarrow> domainFilter" where
  "NewDomainFilter domains = fold (\<lambda>d t. case Insert d (Some ()) t of Inr t1 \<Rightarrow> t1 | Inl _ \<Rightarrow> t) domains New_trie"

definition domainFilter_Match :: "domainFilter \<Rightarrow> string \<Rightarrow> bool" where
  "domainFilter_Match df domain \<longleftrightarrow> Search domain df \<noteq> None"

section \<open>picker.go\<close>

text \<open>
  The picker after its functions have returned, in the order they did: the first success is the
  result, the first failure the error.
\<close>

fun picker_run :: "('e + 'a) list \<Rightarrow> 'a option \<times> 'e option" where
  "picker_run [] = (None, None)"
| "picker_run (Inr a # rest) = (Some a, snd (picker_run rest))"
| "picker_run (Inl e # rest) = (fst (picker_run rest), Some e)"

section \<open>resolver.go\<close>

record dns_Resolver =
  r_ipv6 :: bool
  r_hosts :: "hosts_data Node option"
  r_main :: "dnsClient list"
  r_fallback :: "dnsClient list option"
  fallbackDomainFilters :: "domainFilter list"
  fallbackIPFilters :: "fallbackIPFilter list"
  lruCache :: msg_cache
  r_policy :: "dnsClient list Node option"

fun any_filter :: "dns_lib \<Rightarrow> fallbackIPFilter list \<Rightarrow> IP \<Rightarrow> panic + bool" where
  "any_filter L [] ip = Inr False"
| "any_filter L (f # fs) ip = and_then (ipfilter_Match L f ip) (\<lambda>b. if b then Inr True else any_filter L fs ip)"

definition shouldIPFallback :: "dns_lib \<Rightarrow> dns_Resolver \<Rightarrow> IP \<Rightarrow> panic + bool" where
  "shouldIPFallback L r ip = any_filter L (fallbackIPFilters r) ip"

definition client_result :: "dns_lib \<Rightarrow> Msg \<Rightarrow> dnsClient \<Rightarrow> string + Msg" where
  "client_result L m cl =
     (case client_Exchange L cl m of
        Inl e \<Rightarrow> Inl e
      | Inr msg \<Rightarrow>
          if Rcode msg = RcodeServerFailure \<or> Rcode msg = RcodeRefused \<or> Rcode msg = RcodeNameError then Inl ''server failure''
          else Inr msg)"

definition batchExchange :: "dns_lib \<Rightarrow> dnsClient list \<Rightarrow> Msg \<Rightarrow> dns_error + Msg" where
  "batchExchange L clients m =
     (case picker_run (map (\<lambda>i. client_result L m (clients ! i)) (filter (\<lambda>i. i < length clients) (race L clients m))) of
        (Some msg, _) \<Rightarrow> Inr msg
      | (None, err) \<Rightarrow> Inl (ErrAllFailed err))"

definition msgToDomain :: "Msg \<Rightarrow> string" where
  "msgToDomain msg = (case Question msg of q # _ \<Rightarrow> TrimRight CHR ''.'' (q_Name q) | [] \<Rightarrow> [])"

definition matchPolicy :: "dns_Resolver \<Rightarrow> Msg \<Rightarrow> dnsClient list" where
  "matchPolicy r m =
     (case r_policy r of
        None \<Rightarrow> []
      | Some policy \<Rightarrow>
          (let domain = msgToDomain m
           in if domain = [] then []
              else case find_domain domain policy of None \<Rightarrow> [] | Some cls \<Rightarrow> cls))"

definition shouldOnlyQueryFallback :: "dns_Resolver \<Rightarrow> Msg \<Rightarrow> bool" where
  "shouldOnlyQueryFallback r m \<longleftrightarrow>
     (if r_fallback r = None \<or> fallbackDomainFilters r = [] then False
      else let domain = msgToDomain m
           in domain \<noteq> [] \<and> list_ex (\<lambda>df. domainFilter_Match df domain) (fallbackDomainFilters r))"

definition ipExchange :: "dns_lib \<Rightarrow> dns_Resolver \<Rightarrow> Msg \<Rightarrow> panic + (dns_error + Msg)" where
  "ipExchange L r m =
     (let matched = matchPolicy r m
      in if matched \<noteq> [] then Inr (batchExchange L matched m)
         else if shouldOnlyQueryFallback r m then Inr (batchExchange L (case r_fallback r of Some fb \<Rightarrow> fb | None \<Rightarrow> []) m)
         else case r_fallback r of
                None \<Rightarrow> Inr (batchExchange L (r_main r) m)
              | Some fb \<Rightarrow>
                  (case batchExchange L (r_main r) m of
                     Inl _ \<Rightarrow> Inr (batchExchange L fb m)
                   | Inr msg \<Rightarrow>
                       (case msgToIP msg of
                          [] \<Rightarrow> Inr (batchExchange L fb m)
                        | ip # _ \<Rightarrow>
                            and_then (shouldIPFallback L r ip) (\<lambda>b. if \<not> b then Inr (Inr msg) else Inr (batchExchange L fb m)))))"

text \<open>
  One call at a time, so that \<open>singleflight\<close> shares nothing; concurrent callers get a copy of the
  same result.
\<close>

definition exchangeWithoutCache :: "dns_lib \<Rightarrow> int \<Rightarrow> Msg \<Rightarrow> dns_Resolver \<Rightarrow> panic + (dns_error + Msg) \<times> dns_Resolver" where
  "exchangeWithoutCache L now m r =
     (case Question m of
        [] \<Rightarrow> Inl IndexOutOfRange
      | q # _ \<Rightarrow>
          and_then (if isIPRequest q then ipExchange L r m
                    else Inr (batchExchange L (if matchPolicy r m \<noteq> [] then matchPolicy r m else r_main r) m)) (\<lambda>res.
            case res of
              Inl e \<Rightarrow> Inr (Inl e, r)
            | Inr msg \<Rightarrow> Inr (Inr msg, r\<lparr>lruCache := putMsgToCache now (Question_String L q) msg (lruCache r)\<rparr>)))"

text \<open>
  The last component tells whether a fetch was started in the background, which is a call of
  \<open>exchangeWithoutCache\<close> at some later time.
\<close>

definition ExchangeContext :: "dns_lib \<Rightarrow> int \<Rightarrow> Msg \<Rightarrow> dns_Resolver \<Rightarrow> panic + (dns_error + Msg) \<times> dns_Resolver \<times> bool" where
  "ExchangeContext L now m r =
     (case Question m of
        [] \<Rightarrow> Inr (Inl ErrNoQuestion, r, False)
      | q # _ \<Rightarrow>
          (case GetWithExpire (now div second) (Question_String L q) (lruCache r) of
             (Some (msg, ex), c1) \<Rightarrow>
               if ex * second < now then Inr (Inr (setMsgTTL msg 2), r\<lparr>lruCache := c1\<rparr>, True)
               else Inr (Inr (setMsgTTL msg (word_of_int ((ex * second - now) div second))), r\<lparr>lruCache := c1\<rparr>, False)
           | (None, c1) \<Rightarrow>
               map_sum id (\<lambda>(res, r1). (res, r1, False)) (exchangeWithoutCache L now m (r\<lparr>lruCache := c1\<rparr>))))"

definition resolveIP :: "dns_lib \<Rightarrow> int \<Rightarrow> string \<Rightarrow> nat \<Rightarrow> dns_Resolver \<Rightarrow> panic + (dns_error + IP) \<times> dns_Resolver" where
  "resolveIP L now h dnsType r =
     (let ip = ParseIP h; isIPv4 = To4 ip \<noteq> []
      in if ip \<noteq> [] then
           (if dnsType = TypeAAAA \<and> \<not> isIPv4 then Inr (Inr ip, r)
            else if dnsType = TypeA \<and> isIPv4 then Inr (Inr ip, r)
            else Inr (Inl ErrVersion, r))
         else
           and_then (ExchangeContext L now (empty_msg\<lparr>Question := [\<lparr>q_Name = Fqdn L h, q_Qtype = dnsType, q_Qclass = ClassINET\<rparr>]\<rparr>) r) (\<lambda>(res, r1, _).
             case res of
               Inl e \<Rightarrow> Inr (Inl e, r1)
             | Inr msg \<Rightarrow>
                 (let ips = msgToIP msg; i = dns_Intn L (length ips)
                  in if ips = [] then Inr (Inl ErrNotFound, r1)
                     else and_then (index ips i) (\<lambda>x. Inr (Inr x, r1)))))"

text \<open>\<open>ResolveIP\<close> asks for both kinds at once and prefers the first; here the query for \<open>AAAA\<close> runs first.\<close>

definition dns_ResolveIP :: "dns_lib \<Rightarrow> int \<Rightarrow> string \<Rightarrow> dns_Resolver \<Rightarrow> panic + (dns_error + IP) \<times> dns_Resolver" where
  "dns_ResolveIP L now h r =
     and_then (resolveIP L now h TypeAAAA r) (\<lambda>(six, r1).
     and_then (resolveIP L now h TypeA r1) (\<lambda>(four, r2).
       case four of
         Inr ip \<Rightarrow> Inr (Inr ip, r2)
       | Inl _ \<Rightarrow> (case six of Inr ip \<Rightarrow> Inr (Inr ip, r2) | Inl _ \<Rightarrow> Inr (Inl ErrNotFound, r2))))"

record FallbackFilter =
  ff_GeoIP :: bool
  ff_GeoIPCode :: string
  ff_IPCIDR :: "IPNet list"
  ff_Domain :: "string list"

record dns_Config =
  dc_Main :: "NameServer list"
  dc_Fallback :: "NameServer list"
  dc_Default :: "NameServer list"
  dc_IPv6 :: bool
  dc_FallbackFilter :: FallbackFilter
  dc_Hosts :: "hosts_data Node option"
  dc_Policy :: "(string \<times> NameServer) list"

text \<open>The policy is a Go map, here in the order it is visited; the error of \<open>Insert\<close> is ignored.\<close>

definition NewResolver :: "dns_Config \<Rightarrow> dns_Resolver" where
  "NewResolver cfg =
     \<lparr>r_ipv6 = dc_IPv6 cfg, r_hosts = dc_Hosts cfg, r_main = transform (dc_Main cfg) True,
      r_fallback = (if dc_Fallback cfg \<noteq> [] then Some (transform (dc_Fallback cfg) True) else None),
      fallbackDomainFilters = (if ff_Domain (dc_FallbackFilter cfg) \<noteq> [] then [NewDomainFilter (ff_Domain (dc_FallbackFilter cfg))] else []),
      fallbackIPFilters =
        (if ff_GeoIP (dc_FallbackFilter cfg) then [geoipFilter (ff_GeoIPCode (dc_FallbackFilter cfg))] else []) @
        map ipnetFilter (ff_IPCIDR (dc_FallbackFilter cfg)),
      lruCache = NewLRUCache [WithSize 4096, WithStale True],
      r_policy = (if dc_Policy cfg \<noteq> [] then
          Some (fold (\<lambda>(d, ns) t. case Insert d (Some (transform [ns] True)) t of Inr t1 \<Rightarrow> t1 | Inl _ \<Rightarrow> t) (dc_Policy cfg) New_trie)
        else None)\<rparr>"

section \<open>middleware.go\<close>

record DNSContext =
  dx_tp :: string
  dx_raddr :: string
  dx_Host :: string

definition NewDNSContext :: "string \<Rightarrow> DNSContext" where
  "NewDNSContext raddr = \<lparr>dx_tp = [], dx_raddr = raddr, dx_Host = []\<rparr>"

definition DNSTypeHost :: string where "DNSTypeHost = ''host''"
definition DNSTypeFakeIP :: string where "DNSTypeFakeIP = ''fakeip''"
definition DNSTypeRaw :: string where "DNSTypeRaw = ''raw''"

text \<open>
  The state a handler works on: the resolver, the enhancer and the cache of blocked domains, with what
  it offers to the queue of new mappings and the fetches it leaves to the background.
\<close>

record 'ac dns_state =
  ds_resolver :: dns_Resolver
  ds_mapper :: ResolverEnhancer
  ds_blocked :: 'ac
  ds_process :: process_cache
  ds_maps :: "(string \<times> string \<times> uint32) list"
  ds_fetches :: "Msg list"

text \<open>\<open>None\<close> is a search of the address pool that does not end.\<close>

type_synonym 'ac handler = "DNSContext \<Rightarrow> Msg \<Rightarrow> 'ac dns_state \<Rightarrow> (panic + (dns_error + Msg) \<times> DNSContext \<times> 'ac dns_state) option"

record 'ac dns_env =
  de_lib :: dns_lib
  de_rules :: rule_env
  de_api :: "('ac, string, bool) lru_api"
  ADGurdRules :: "Rule list"

definition question0 :: "Msg \<Rightarrow> (Question \<Rightarrow> (panic + 'a) option) \<Rightarrow> (panic + 'a) option" where
  "question0 r f = (case Question r of [] \<Rightarrow> Some (Inl IndexOutOfRange) | q # _ \<Rightarrow> f q)"

definition withPreHandle :: "'ac handler \<Rightarrow> 'ac handler" where
  "withPreHandle next ctx r st = question0 r (\<lambda>q. next (ctx\<lparr>dx_Host := TrimRight CHR ''.'' (q_Name q)\<rparr>) r st)"

definition host_answer :: "bool \<Rightarrow> Question \<Rightarrow> IP list \<Rightarrow> RR list" where
  "host_answer ipv6 q ips = List.map_filter (\<lambda>ip.
     if To4 ip \<noteq> [] \<and> q_Qtype q = TypeA then Some (RR_A (q_Name q) dnsDefaultTTL (To4 ip))
     else if To4 ip = [] \<and> ipv6 \<and> To16 ip \<noteq> [] \<and> q_Qtype q = TypeAAAA then Some (RR_AAAA (q_Name q) dnsDefaultTTL (To16 ip))
     else None) ips"

definition withHosts :: "dns_lib \<Rightarrow> hosts_data Node \<Rightarrow> bool \<Rightarrow> 'ac handler \<Rightarrow> 'ac handler" where
  "withHosts L hosts ipv6 next ctx r st = question0 r (\<lambda>q.
     if \<not> isIPRequest q then next ctx r st
     else case find_domain (TrimRight CHR ''.'' (q_Name q)) hosts of
            None \<Rightarrow> next ctx r st
          | Some (HostIP _) \<Rightarrow> Some (Inl TypeAssertion)
          | Some (HostIPs ips) \<Rightarrow>
              Some (Inr (Inr ((SetRcode L (r\<lparr>Answer := host_answer ipv6 q ips\<rparr>) r 0)\<lparr>Authoritative := True, RecursionAvailable := True\<rparr>),
                ctx\<lparr>dx_tp := DNSTypeHost\<rparr>, st)))"

definition withADGurd :: "'ac dns_env \<Rightarrow> int \<Rightarrow> 'ac handler \<Rightarrow> 'ac handler" where
  "withADGurd env now next ctx r st =
     (case ADGurdMatch (de_rules env) (de_api env) (now div second) (ADGurdRules env) (dx_Host ctx) (ds_blocked st) (ds_process st) of
        Inl p \<Rightarrow> Some (Inl p)
      | Inr (b, ac1, pc1) \<Rightarrow>
          (let st1 = st\<lparr>ds_blocked := ac1, ds_process := pc1\<rparr>
           in if b then Some (Inr (Inr r, ctx, st1)) else next ctx r st1))"

text \<open>The loop of \<open>withMapping\<close> over the answers.\<close>

fun map_answers :: "int \<Rightarrow> string \<Rightarrow> RR list \<Rightarrow> (string, string) LruCache \<Rightarrow> (string, string) LruCache \<times> (string \<times> string \<times> uint32) list" where
  "map_answers now h [] mp = (mp, [])"
| "map_answers now h (rr # rrs) mp =
     (case rr_ip rr of
        None \<Rightarrow> map_answers now h rrs mp
      | Some ip \<Rightarrow>
          (let (old, mp1) = Get (now div second) (IP_String ip) mp;
               mp2 = SetWithExpire (now div second) (IP_String ip) h ((now + second * uint (rr_ttl rr)) div second) mp1;
               (mp3, maps) = map_answers now h rrs mp2
           in (mp3, if old = Some h then maps else (IP_String ip, h, rr_ttl rr) # maps)))"

definition withMapping :: "int \<Rightarrow> 'ac handler \<Rightarrow> 'ac handler" where
  "withMapping now next ctx r st = question0 r (\<lambda>q.
     if \<not> isIPRequest q then next ctx r st
     else case next ctx r st of
            None \<Rightarrow> None
          | Some (Inl p) \<Rightarrow> Some (Inl p)
          | Some (Inr (Inl e, ctx1, st1)) \<Rightarrow> Some (Inr (Inl e, ctx1, st1))
          | Some (Inr (Inr msg, ctx1, st1)) \<Rightarrow>
              (case mapping (ds_mapper st1) of
                 None \<Rightarrow> if msgToIP msg = [] then Some (Inr (Inr msg, ctx1, st1)) else Some (Inl NilDereference)
               | Some mp \<Rightarrow>
                   (let (mp1, maps) = map_answers now (dx_Host ctx1) (Answer msg) mp
                    in Some (Inr (Inr msg, ctx1, st1\<lparr>ds_mapper := (ds_mapper st1)\<lparr>mapping := Some mp1\<rparr>, ds_maps := ds_maps st1 @ maps\<rparr>)))))"

definition withFakeIP :: "dns_lib \<Rightarrow> int \<Rightarrow> 'ac handler \<Rightarrow> 'ac handler" where
  "withFakeIP L now next ctx r st = question0 r (\<lambda>q.
     case fakePool (ds_mapper st) of
       None \<Rightarrow> Some (Inl NilDereference)
     | Some p \<Rightarrow>
         if LookupHost (dx_Host ctx) p then next ctx r st
         else if q_Qtype q \<in> {TypeAAAA, TypeSVCB, TypeHTTPS} then Some (Inr (Inr (handleMsgWithEmptyAnswer L r), ctx, st))
         else if q_Qtype q \<noteq> TypeA then next ctx r st
         else case Lookup (now div second) (dx_Host ctx) p of
                None \<Rightarrow> None
              | Some (Inl e) \<Rightarrow> Some (Inl e)
              | Some (Inr (ip, p1)) \<Rightarrow>
                  (let msg = setMsgTTL (r\<lparr>Answer := [RR_A (q_Name q) dnsDefaultTTL ip]\<rparr>) 1
                   in Some (Inr (Inr ((SetRcode L msg r 0)\<lparr>Authoritative := True, RecursionAvailable := True\<rparr>),
                        ctx\<lparr>dx_tp := DNSTypeFakeIP\<rparr>, st\<lparr>ds_mapper := (ds_mapper st)\<lparr>fakePool := Some p1\<rparr>\<rparr>))))"

text \<open>\<open>Exchange\<close> on the state of the handlers.\<close>

definition ds_exchange :: "dns_lib \<Rightarrow> int \<Rightarrow> Msg \<Rightarrow> 'ac dns_state \<Rightarrow> panic + (dns_error + Msg) \<times> 'ac dns_state" where
  "ds_exchange L now m st =
     map_sum id (\<lambda>(res, r1, bg). (res, st\<lparr>ds_resolver := r1, ds_fetches := ds_fetches st @ (if bg then [m] else [])\<rparr>))
       (ExchangeContext L now m (ds_resolver st))"

text \<open>
  The two queries of \<open>dualQuery\<close>, here one after the other. A failed one leaves no message; the others are
  told apart by the question in the answer.
\<close>

definition sort_result :: "dns_error + Msg \<Rightarrow> Msg option \<times> Msg option \<Rightarrow> Msg option \<times> Msg option" where
  "sort_result res = (\<lambda>(a, aaaa).
     case res of
       Inl _ \<Rightarrow> (a, aaaa)
     | Inr msg \<Rightarrow> (case Question msg of [] \<Rightarrow> (a, aaaa) | q # _ \<Rightarrow> if q_Qtype q = TypeA then (Some msg, aaaa) else (a, Some msg)))"

definition merge_results :: "Msg option \<Rightarrow> Msg option \<Rightarrow> Msg option" where
  "merge_results a aaaa =
     (case (a, aaaa) of
        (Some ma, Some mb) \<Rightarrow>
          if Rcode ma = 0 then
            (if Answer mb \<noteq> [] then Some (ma\<lparr>Answer := Answer ma @ Answer mb, Ns := Ns ma @ Ns mb, Extra := Extra ma @ Extra mb\<rparr>) else Some ma)
          else if Rcode mb = 0 then Some mb else Some ma
      | (Some ma, None) \<Rightarrow> Some ma
      | (None, Some mb) \<Rightarrow> if Rcode mb = 0 then Some mb else None
      | (None, None) \<Rightarrow> None)"

definition final_msg :: "dns_lib \<Rightarrow> Msg \<Rightarrow> Msg \<Rightarrow> Msg" where
  "final_msg L r msg = (SetRcode L msg r (Rcode msg))\<lparr>Authoritative := True, RecursionAvailable := True\<rparr>"

definition dualQuery :: "dns_lib \<Rightarrow> int \<Rightarrow> Question \<Rightarrow> Msg \<Rightarrow> 'ac dns_state \<Rightarrow> panic + (dns_error + Msg) \<times> 'ac dns_state" where
  "dualQuery L now q r st =
     and_then (ds_exchange L now r st) (\<lambda>(res4, st1).
     and_then (ds_exchange L now (r\<lparr>Question := q\<lparr>q_Qtype := TypeAAAA\<rparr> # tl (Question r)\<rparr>) st1) (\<lambda>(res6, st2).
       let (a, aaaa) = sort_result res6 (sort_result res4 (None, None))
       in Inr (Inr (case merge_results a aaaa of None \<Rightarrow> handleMsgWithEmptyAnswer L r | Some msg \<Rightarrow> final_msg L r msg), st2)))"

definition withResolver :: "dns_lib \<Rightarrow> int \<Rightarrow> 'ac handler" where
  "withResolver L now ctx r st = question0 r (\<lambda>q.
     let ctx1 = ctx\<lparr>dx_tp := DNSTypeRaw\<rparr>; ipv6 = r_ipv6 (ds_resolver st)
     in if \<not> ipv6 \<and> q_Qtype q = TypeAAAA then Some (Inr (Inr (handleMsgWithEmptyAnswer L r), ctx1, st))
        else Some (map_sum id (\<lambda>(res, st1). (res, ctx1, st1))
          (if ipv6 \<and> q_Qtype q = TypeA then dualQuery L now q r st
           else map_sum id (map_prod (map_sum id (final_msg L r)) id) (ds_exchange L now r st))))"

definition compose :: "('ac handler \<Rightarrow> 'ac handler) list \<Rightarrow> 'ac handler \<Rightarrow> 'ac handler" where
  "compose middlewares endpoint = foldr (\<lambda>mw h. mw h) middlewares endpoint"

text \<open>The chain is built once from the resolver and the mode; \<open>now\<close> is the time of the request.\<close>

definition newHandler :: "'ac dns_env \<Rightarrow> int \<Rightarrow> dns_Resolver \<Rightarrow> EnhancedMode \<Rightarrow> 'ac handler" where
  "newHandler env now r mode =
     compose
       ([withPreHandle] @
        (case r_hosts r of Some hosts \<Rightarrow> [withHosts (de_lib env) hosts (r_ipv6 r)] | None \<Rightarrow> []) @
        (if ADGurdRules env \<noteq> [] then [withADGurd env now] else []) @
        (if mode = FAKEIP then [withFakeIP (de_lib env) now] else []) @
        (if mode \<noteq> NORMAL then [withMapping now] else []))
       (withResolver (de_lib env) now)"

definition handlerWithContext :: "'ac handler \<Rightarrow> Msg \<Rightarrow> string \<Rightarrow> 'ac dns_state \<Rightarrow>
    (panic + (dns_error + Msg) \<times> DNSContext \<times> 'ac dns_state) option" where
  "handlerWithContext h msg raddr st =
     (if Question msg = [] then Some (Inr (Inl ErrNoQuestion, NewDNSContext raddr, st)) else h (NewDNSContext raddr) msg st)"

section \<open>Answers come from the cache while they live\<close>

lemma NewLRUCache_dns: "lru_inv 4096 (NewLRUCache [WithSize 4096, WithStale True] :: ('k, 'v) LruCache)"
  by (simp add: lru_inv_def NewLRUCache_wf) (simp add: NewLRUCache_def)

lemma GetWithExpire_after_put:
  assumes "lru_inv n c" "msg_ttl msg = Some t"
  shows "\<exists>c1. GetWithExpire now1 k (putMsgToCache now k msg c) = (Some (msg, (now + second * uint t) div second), c1)"
  using get_after_SetWithExpire [OF assms(1), of now1 k "now div second" msg "(now + second * uint t) div second"] assms(2)
  by (cases "get now1 k (putMsgToCache now k msg c)") (simp add: GetWithExpire_def putMsgToCache_def)

text \<open>An answer is fresh until a second before its time is over; then the remaining time is at most the original one.\<close>

lemma remaining_ttl:
  fixes t :: uint32
  assumes "now \<le> now1" "now1 + second \<le> now + second * uint t"
  defines "ex \<equiv> (now + second * uint t) div second"
  shows "\<not> ex * second < now1" "word_of_int ((ex * second - now1) div second) \<le> t"
proof -
  have s: "0 < second" by (simp add: second_def)
  have ex: "ex * second \<le> now + second * uint t" "now + second * uint t < ex * second + second"
    using div_mult_mod_eq [of "now + second * uint t" second] pos_mod_bound [OF s, of "now + second * uint t"] pos_mod_sign [OF s, of "now + second * uint t"]
    by (simp_all add: ex_def)
  show fresh: "\<not> ex * second < now1" using ex(2) assms(2) by linarith
  have "ex * second - now1 \<le> uint t * second" using ex(1) assms(1) by (simp add: mult.commute)
  then have "(ex * second - now1) div second \<le> uint t" using zdiv_mono1 [OF _ s] nonzero_mult_div_cancel_right [of second "uint t"] s by fastforce
  moreover have "0 \<le> (ex * second - now1) div second" using fresh s by (simp add: pos_imp_zdiv_nonneg_iff)
  ultimately show "word_of_int ((ex * second - now1) div second) \<le> t"
    using uint_lt2p [of t] by (simp add: word_le_def uint_word_of_int)
qed

lemma exchangeWithoutCache_Inr:
  assumes "exchangeWithoutCache L now m r = Inr (Inr msg, r1)" "Question m = q # qs"
  shows "r1 = r\<lparr>lruCache := putMsgToCache now (Question_String L q) msg (lruCache r)\<rparr>"
  using assms by (auto simp: exchangeWithoutCache_def and_then_def split: sum.splits if_splits)


section \<open>Fallback servers\<close>

lemma picker_run_Some: "fst (picker_run rs) = Some a \<Longrightarrow> Inr a \<in> set rs"
  by (induction rs rule: picker_run.induct) auto

lemma batchExchange_Inr: "batchExchange L clients m = Inr msg \<Longrightarrow> \<exists>cl\<in>set clients. client_result L m cl = Inr msg"
  by (auto simp: batchExchange_def split: prod.splits option.splits dest!: arg_cong [of _ _ fst] picker_run_Some)
    (metis nth_mem)


section \<open>From the answer back to the name\<close>

text \<open>The \<open>j\<close> newest entries of a cache, all with the same value, for the keys in \<open>K\<close>.\<close>

definition newest :: "nat \<Rightarrow> 'v \<Rightarrow> 'k set \<Rightarrow> ('k, 'v) LruCache \<Rightarrow> bool" where
  "newest j v K c \<longleftrightarrow> (\<exists>pre suf. lru_items c = pre @ suf \<and> length suf \<le> j \<and> K \<subseteq> fst ` set suf \<and> (\<forall>e\<in>set suf. snd e = v))"

lemma refresh_items:
  assumes "lru_inv n c"
  shows "lru_items (SetWithExpire now1 k v ex (snd (Get now k c))) =
    (if k \<in> fst ` set (lru_items c) then without k (lru_items c)
     else if length (lru_items c) = n then tl (lru_items c) else lru_items c) @ [(k, v)]"
proof -
  have "lru_inv n (snd (Get now k c))" using Get_lru_inv [OF assms] by simp
  note set = SetWithExpire_lru_items [OF this, of now1 k v ex, unfolded Get_fst_snd]
  show ?thesis
  proof (cases "map_of (lru_items c) k")
    case None
    then have "lru_items (snd (Get now k c)) = lru_items c" using bounded.lookup_items [OF assms, of now k] by simp
    then show ?thesis using None by (simp add: set map_of_eq_None_iff)
  next
    case (Some w)
    then have "lru_items (snd (Get now k c)) = without k (lru_items c) @ [(k, w)]" using bounded.lookup_items [OF assms, of now k] by simp
    moreover have "k \<in> fst ` set (lru_items c)" using Some by (metis map_of_eq_None_iff option.distinct(1))
    ultimately show ?thesis by (simp add: set) (simp add: without_def)
  qed
qed

lemma newest_refresh:
  assumes "lru_inv n c" "newest j v K c" "j < n"
  shows "newest (Suc j) v (insert k K) (SetWithExpire now1 k v ex (snd (Get now k c)))"
proof -
  obtain pre suf where items: "lru_items c = pre @ suf" "length suf \<le> j" "K \<subseteq> fst ` set suf" "\<forall>e\<in>set suf. snd e = v"
    using assms(2) by (auto simp: newest_def)
  let ?suf = "without k suf @ [(k, v)]"
  have "tl (pre @ suf) = tl pre @ suf" if "length (pre @ suf) = n" using that items(2) assms(3) by (cases pre) auto
  moreover have "without k suf = suf" if "k \<notin> fst ` set (lru_items c)" using that items(1) by (force simp: without_def filter_id_conv)
  ultimately have "\<exists>pre1. lru_items (SetWithExpire now1 k v ex (snd (Get now k c))) = pre1 @ ?suf"
    unfolding refresh_items [OF assms(1)] using items(1) by (auto simp: without_def)
  moreover have "length ?suf \<le> Suc j" using le_trans [OF length_filter_le items(2)] by (simp add: without_def)
  moreover have "insert k K \<subseteq> fst ` set ?suf" "\<forall>e\<in>set ?suf. snd e = v" using items(3,4) by (force simp: without_def)+
  ultimately show ?thesis unfolding newest_def by blast
qed

lemma map_answers_newest:
  assumes "lru_inv n mp" "newest j h K mp" "j + length rrs \<le> n"
  shows "lru_inv n (fst (map_answers now h rrs mp)) \<and>
    newest (j + length rrs) h (K \<union> IP_String ` set (List.map_filter rr_ip rrs)) (fst (map_answers now h rrs mp))"
  using assms
proof (induction rrs arbitrary: mp j K)
  case Nil
  then show ?case by simp
next
  case (Cons rr rrs)
  show ?case
  proof (cases "rr_ip rr")
    case None
    have "newest (Suc j) h K mp" using Cons.prems(2) le_SucI by (fastforce simp: newest_def)
    then show ?thesis using Cons.IH [OF Cons.prems(1), of "Suc j" K] Cons.prems(3) None
      by (simp add: map_filter_simps)
  next
    case (Some ip)
    let ?mp = "SetWithExpire (now div second) (IP_String ip) h ((now + second * uint (rr_ttl rr)) div second) (snd (Get (now div second) (IP_String ip) mp))"
    have "lru_inv n ?mp" using Cons.prems(1) by (simp add: SetWithExpire_lru_inv Get_lru_inv)
    moreover have "newest (Suc j) h (insert (IP_String ip) K) ?mp" using newest_refresh [OF Cons.prems(1,2)] Cons.prems(3) by simp
    ultimately have IH: "lru_inv n (fst (map_answers now h rrs ?mp)) \<and> newest (Suc j + length rrs) h
        (insert (IP_String ip) K \<union> IP_String ` set (List.map_filter rr_ip rrs)) (fst (map_answers now h rrs ?mp))"
      by (rule Cons.IH) (use Cons.prems(3) in simp)
    have "fst (map_answers now h (rr # rrs) mp) = fst (map_answers now h rrs ?mp)"
      using Some by (simp add: Let_def case_prod_unfold)
    moreover have "K \<union> IP_String ` set (List.map_filter rr_ip (rr # rrs)) =
        insert (IP_String ip) K \<union> IP_String ` set (List.map_filter rr_ip rrs)" using Some by (simp add: map_filter_simps)
    ultimately show ?thesis using IH by simp
  qed
qed

lemma mapped_host:
  assumes "lru_inv n mp" "length rrs \<le> n" "rr \<in> set rrs" "rr_ip rr = Some ip"
  shows "fst (Get now1 (IP_String ip) (fst (map_answers now h rrs mp))) = Some h"
proof -
  let ?mp = "fst (map_answers now h rrs mp)"
  have "newest 0 h {} mp" by (auto simp: newest_def)
  then have inv: "lru_inv n ?mp" and "newest (length rrs) h (IP_String ` set (List.map_filter rr_ip rrs)) ?mp"
    using map_answers_newest [OF assms(1), of 0 h "{}" rrs] assms(2) by simp_all
  then obtain v where "(IP_String ip, v) \<in> set (lru_items ?mp)" "v = h" using assms(3,4) by (fastforce simp: newest_def map_filter_def image_iff)
  then show ?thesis using bounded.lookup_hit [OF inv, of "IP_String ip" h now1] by simp
qed

text \<open>A handler whose answers of type \<open>raw\<close> come out of \<open>withMapping\<close>: every middleware in front either answers itself or passes the request on.\<close>

definition maps_answers :: "nat \<Rightarrow> 'ac handler \<Rightarrow> bool" where
  "maps_answers n h \<longleftrightarrow> (\<forall>ctx r st msg ctx1 st1 q qs mp.
     h ctx r st = Some (Inr (Inr msg, ctx1, st1)) \<longrightarrow> dx_tp ctx1 = DNSTypeRaw \<longrightarrow> dx_tp ctx \<noteq> DNSTypeRaw \<longrightarrow>
     Question r = q # qs \<longrightarrow> isIPRequest q \<longrightarrow> mapping (ds_mapper st) = Some mp \<longrightarrow> lru_inv n mp \<longrightarrow>
     dx_Host ctx1 = dx_Host ctx \<and> fakePool (ds_mapper st1) = fakePool (ds_mapper st) \<and>
     (\<exists>now. mapping (ds_mapper st1) = Some (fst (map_answers now (dx_Host ctx) (Answer msg) mp))))"

lemma ds_exchange_mapper: "ds_exchange L now m st = Inr (res, st1) \<Longrightarrow> ds_mapper st1 = ds_mapper st"
  by (cases "ExchangeContext L now m (ds_resolver st)") (auto simp: ds_exchange_def)

lemma dualQuery_mapper: "dualQuery L now q r st = Inr (res, st1) \<Longrightarrow> ds_mapper st1 = ds_mapper st"
  by (auto simp: dualQuery_def and_then_def Let_def split: sum.splits prod.splits dest!: ds_exchange_mapper)

lemma withResolver_frame:
  assumes "withResolver L now ctx r st = Some (Inr (res, ctx1, st1))"
  shows "dx_Host ctx1 = dx_Host ctx \<and> ds_mapper st1 = ds_mapper st"
proof -
  obtain q qs where "Question r = q # qs" using assms by (cases "Question r") (auto simp: withResolver_def question0_def)
  then show ?thesis using assms
    by (cases "ds_exchange L now r st"; cases "dualQuery L now q r st")
      (auto simp: withResolver_def question0_def Let_def split: if_splits dest: ds_exchange_mapper dualQuery_mapper)
qed

lemma withMapping_maps: "maps_answers n (withMapping now (withResolver L now))"
  unfolding maps_answers_def
proof (intro allI impI)
  fix ctx r msg q qs mp and st :: "'a dns_state" and ctx1 st1
  assume res: "withMapping now (withResolver L now) ctx r st = Some (Inr (Inr msg, ctx1, st1))" "Question r = q # qs" "isIPRequest q"
    "mapping (ds_mapper st) = Some mp"
  then obtain ctx2 st2 where "withResolver L now ctx r st = Some (Inr (Inr msg, ctx2, st2))"
    "withMapping now (withResolver L now) ctx r st = (case mapping (ds_mapper st2) of
       None \<Rightarrow> if msgToIP msg = [] then Some (Inr (Inr msg, ctx2, st2)) else Some (Inl NilDereference)
     | Some mp \<Rightarrow> (let (mp1, maps) = map_answers now (dx_Host ctx2) (Answer msg) mp
        in Some (Inr (Inr msg, ctx2, st2\<lparr>ds_mapper := (ds_mapper st2)\<lparr>mapping := Some mp1\<rparr>, ds_maps := ds_maps st2 @ maps\<rparr>))))"
    by (auto simp: withMapping_def question0_def split: option.splits sum.splits prod.splits if_splits)
  then show "dx_Host ctx1 = dx_Host ctx \<and> fakePool (ds_mapper st1) = fakePool (ds_mapper st) \<and>
      (\<exists>now. mapping (ds_mapper st1) = Some (fst (map_answers now (dx_Host ctx) (Answer msg) mp)))"
    using res withResolver_frame [of L now ctx r st "Inr msg" ctx2 st2] by (auto simp: Let_def split: prod.splits intro!: exI [of _ now])
qed

lemma dns_types: "DNSTypeHost \<noteq> DNSTypeRaw" "DNSTypeFakeIP \<noteq> DNSTypeRaw"
  by (simp_all add: DNSTypeHost_def DNSTypeFakeIP_def DNSTypeRaw_def)

lemma withHosts_maps: "maps_answers n h \<Longrightarrow> maps_answers n (withHosts L hosts v6 h)"
  unfolding maps_answers_def withHosts_def question0_def
  by (intro allI impI) (auto simp: dns_types split: option.splits hosts_data.splits if_splits)

lemma withADGurd_maps: "maps_answers n h \<Longrightarrow> maps_answers n (withADGurd env now h)"
  unfolding maps_answers_def withADGurd_def
  by (intro allI impI) (auto simp: Let_def split: sum.splits prod.splits if_splits)

lemma withFakeIP_maps: "maps_answers n h \<Longrightarrow> maps_answers n (withFakeIP L now h)"
  unfolding maps_answers_def withFakeIP_def question0_def
  by (intro allI impI) (auto simp: Let_def dns_types split: option.splits sum.splits prod.splits if_splits)

lemma handler_tail_maps:
  fixes env :: "'ac dns_env"
  assumes "mode \<noteq> NORMAL"
  shows "\<exists>h. newHandler env now r mode = withPreHandle h \<and> maps_answers n h"
proof -
  let ?core = "withMapping now (withResolver (de_lib env) now) :: 'ac handler"
  define f where "f = (if mode = FAKEIP then withFakeIP (de_lib env) now ?core else ?core)"
  define g where "g = (if ADGurdRules env \<noteq> [] then withADGurd env now f else f)"
  define h where "h = (case r_hosts r of Some hosts \<Rightarrow> withHosts (de_lib env) hosts (r_ipv6 r) g | None \<Rightarrow> g)"
  have "maps_answers n f" by (simp add: f_def withMapping_maps withFakeIP_maps)
  then have "maps_answers n g" by (simp add: g_def withADGurd_maps)
  then have "maps_answers n h" by (simp add: h_def withHosts_maps split: option.split)
  moreover have "newHandler env now r mode = withPreHandle h"
    using assms by (simp add: newHandler_def compose_def f_def g_def h_def split: option.split)
  ultimately show ?thesis by blast
qed


section \<open>Witnesses\<close>

definition demo_msg :: Msg where
  "demo_msg = empty_msg\<lparr>Question := [\<lparr>q_Name = ''a.com.'', q_Qtype = TypeA, q_Qclass = ClassINET\<rparr>], Answer := [RR_A ''a.com.'' 60 [1, 1, 1, 1]]\<rparr>"

definition demo_query :: Msg where
  "demo_query = empty_msg\<lparr>Question := [\<lparr>q_Name = ''a.com.'', q_Qtype = TypeA, q_Qclass = ClassINET\<rparr>]\<rparr>"

definition demo_lib :: dns_lib where
  "demo_lib = \<lparr>SetRcode = (\<lambda>msg r c. msg\<lparr>Rcode := c\<rparr>), Question_String = q_Name, Fqdn = (\<lambda>h. h @ ''.''), client_Exchange = (\<lambda>_ _. Inr demo_msg),
     race = (\<lambda>cls _. [0..<length cls]), dns_Country = (\<lambda>_. Some ''US''), dns_Intn = (\<lambda>_. 0)\<rparr>"

definition demo_resolver :: dns_Resolver where
  "demo_resolver = NewResolver \<lparr>dc_Main = [\<lparr>ns_Net = ''https'', ns_Addr = ''m''\<rparr>], dc_Fallback = [\<lparr>ns_Net = ''https'', ns_Addr = ''f''\<rparr>], dc_Default = [], dc_IPv6 = False,
     dc_FallbackFilter = \<lparr>ff_GeoIP = True, ff_GeoIPCode = ''CN'', ff_IPCIDR = [], ff_Domain = []\<rparr>, dc_Hosts = None, dc_Policy = []\<rparr>"

lemma demo_main: "batchExchange demo_lib [DohClient a] m = Inr demo_msg"
  by (simp add: batchExchange_def client_result_def demo_lib_def demo_msg_def empty_msg_def dns_consts)

lemma demo_resolver_fields:
  "r_main demo_resolver = [DohClient ''m'']" "r_fallback demo_resolver = Some [DohClient ''f'']" "r_policy demo_resolver = None" "r_hosts demo_resolver = None"
  "r_ipv6 demo_resolver = False" "fallbackDomainFilters demo_resolver = []" "fallbackIPFilters demo_resolver = [geoipFilter ''CN'']"
  "lruCache demo_resolver = NewLRUCache [WithSize 4096, WithStale True]"
  by (simp_all add: demo_resolver_def NewResolver_def transform_def)

lemma demo_policy: "matchPolicy demo_resolver m = []"
  by (simp add: matchPolicy_def demo_resolver_fields)

lemma demo_exchange: "ipExchange demo_lib demo_resolver m = Inr (Inr demo_msg)"
proof -
  have "shouldIPFallback demo_lib demo_resolver ip = Inr b \<Longrightarrow> ipExchange demo_lib demo_resolver m = Inr (Inr demo_msg)" if "msgToIP demo_msg = [ip]" for ip b
    using that by (simp add: ipExchange_def demo_policy shouldOnlyQueryFallback_def demo_resolver_fields demo_main)
  moreover have "msgToIP demo_msg = [[1, 1, 1, 1]]" by (simp add: msgToIP_def demo_msg_def map_filter_simps)
  moreover have "\<exists>b. shouldIPFallback demo_lib demo_resolver ip = Inr b" for ip
    by (auto simp: shouldIPFallback_def demo_resolver_fields demo_lib_def)
  ultimately show ?thesis by blast
qed

lemma demo_ip: "isIPRequest \<lparr>q_Name = ''a.com.'', q_Qtype = TypeA, q_Qclass = ClassINET\<rparr>"
  by (simp add: isIPRequest_def)

lemma demo_without_cache:
  "exchangeWithoutCache demo_lib 0 demo_query demo_resolver =
     Inr (Inr demo_msg, demo_resolver\<lparr>lruCache := putMsgToCache 0 ''a.com.'' demo_msg (lruCache demo_resolver)\<rparr>)"
  by (simp add: exchangeWithoutCache_def demo_query_def demo_ip demo_exchange [unfolded demo_query_def]) (simp add: demo_lib_def)



definition demo_dns_env :: "(string, bool) LruCache dns_env" where
  "demo_dns_env = \<lparr>de_lib = demo_lib, de_rules = \<lparr>Country = (\<lambda>_. None), FindProcessName = (\<lambda>_ _ _. [])\<rparr>, de_api = own_api 8, ADGurdRules = []\<rparr>"

definition demo_dns_state :: "(string, bool) LruCache dns_state" where
  "demo_dns_state = \<lparr>ds_resolver = demo_resolver, ds_mapper = NewEnhancer MAPPING None, ds_blocked = NewLRUCache [WithSize 8], ds_process = processCache, ds_maps = [], ds_fetches = []\<rparr>"

lemma demo_cold: "GetWithExpire now k (NewLRUCache [WithSize 4096, WithStale True]) = (None, NewLRUCache [WithSize 4096, WithStale True])"
  by (simp add: GetWithExpire_def get_def NewLRUCache_def)

lemma demo_handler:
  "\<exists>st1. handlerWithContext (newHandler demo_dns_env 0 demo_resolver MAPPING) demo_query ''c'' demo_dns_state =
     Some (Inr (Inr (demo_msg\<lparr>Authoritative := True, RecursionAvailable := True\<rparr>), \<lparr>dx_tp = DNSTypeRaw, dx_raddr = ''c'', dx_Host = TrimRight CHR ''.'' ''a.com.''\<rparr>, st1))"
proof -
  let ?q = "\<lparr>q_Name = ''a.com.'', q_Qtype = TypeA, q_Qclass = ClassINET\<rparr>"
  have q: "Question demo_query = [?q]" by (simp add: demo_query_def)
  have "demo_resolver\<lparr>lruCache := NewLRUCache [WithSize 4096, WithStale True]\<rparr> = demo_resolver" using demo_resolver_fields(8) by (metis dns_Resolver.surjective dns_Resolver.update_convs(7) dns_Resolver.select_convs(7))
  then obtain r1 where "ExchangeContext demo_lib 0 demo_query demo_resolver = Inr (Inr demo_msg, r1, False)"
    using demo_without_cache by (simp add: ExchangeContext_def q demo_resolver_fields(8) demo_cold)
  then have ex: "ds_exchange demo_lib 0 demo_query demo_dns_state = Inr (Inr demo_msg, demo_dns_state\<lparr>ds_resolver := r1, ds_fetches := []\<rparr>)"
    by (simp add: ds_exchange_def demo_dns_state_def)
  have fin: "final_msg demo_lib demo_query demo_msg = demo_msg\<lparr>Authoritative := True, RecursionAvailable := True\<rparr>"
    by (simp add: final_msg_def demo_lib_def)
  show ?thesis
    by (simp add: handlerWithContext_def newHandler_def compose_def withPreHandle_def withMapping_def withResolver_def question0_def q demo_ip
        demo_resolver_fields demo_dns_env_def ex fin TypeA_def TypeAAAA_def NewDNSContext_def Let_def split: prod.split option.split)
      (simp add: demo_dns_state_def demo_resolver_fields ex [unfolded demo_dns_state_def] fin NewEnhancer_def)
qed


section \<open>What goes wrong\<close>

text \<open>When both queries of \<open>dualQuery\<close> fail, the client is told that the name exists and has no address.\<close>

lemma dual_failure_hidden:
  assumes "ds_exchange L now r st = Inr (Inl e, st1)"
    and "ds_exchange L now (r\<lparr>Question := q\<lparr>q_Qtype := TypeAAAA\<rparr> # tl (Question r)\<rparr>) st1 = Inr (Inl e1, st2)"
  shows "dualQuery L now q r st = Inr (Inr (handleMsgWithEmptyAnswer L r), st2)"
  using assms by (simp add: dualQuery_def sort_result_def merge_results_def Let_def)

text \<open>No enhancer is ever in fake-ip mode, so that the middleware for it is never used.\<close>

lemma fakeip_mode_lost: "emode (NewEnhancer cfgMode pool) \<noteq> FAKEIP"
  by (cases cfgMode) (simp_all add: NewEnhancer_def)

end
