(* ===== verification/Configuration.thy ===== *)
theory Configuration
  imports Proxy_Parser Http_Listener Dns
begin

text \<open>
  \<open>config/config.go\<close> from the decoded file on: rules, hosts, name servers, the DNS section and the users,
  and \<open>hub/executor/executor.go\<close> with \<open>dns/server.go\<close> and \<open>dns/dnsSaveDB.go\<close> as far as they put the DNS
  section into effect. The YAML decoder, the URL parser, the files and the database are arguments. A Go
  map is the list of its entries in the order they are visited.
\<close>

section \<open>Rules\<close>

datatype cfg_error = ErrExternalUI string | ErrProxies config_error | ErrRuleFormat nat string | ErrRuleProxy nat string string | ErrRule nat string rule_error
  | ErrHost string | ErrNameServer nat | ErrNameServerScheme nat string | ErrPolicyDomain string | ErrNoNameServer | ErrNoDefaultServer
  | ErrDefaultServerName | ErrFakeRange | ErrFakePool fakeip_error

definition trimArr :: "string list \<Rightarrow> string list" where
  "trimArr arr = map (Trim CHR '' '') arr"

text \<open>Payload, target and parameters of a line, by the number of its fields.\<close>

fun rule_fields :: "string list \<Rightarrow> (string \<times> string \<times> string list) option" where
  "rule_fields [_, target] = Some ([], target, [])"
| "rule_fields [_, payload, target] = Some (payload, target, [])"
| "rule_fields (_ # payload # target # params) = Some (payload, target, params)"
| "rule_fields _ = None"

fun parse_rule_lines :: "(string \<rightharpoonup> 'p) \<Rightarrow> nat \<Rightarrow> string list \<Rightarrow> panic + (cfg_error + Rule list)" where
  "parse_rule_lines proxies idx [] = Inr (Inr [])"
| "parse_rule_lines proxies idx (line # ls) =
     (let rule = trimArr (Split CHR '','' line)
      in case rule_fields rule of
           None \<Rightarrow> Inr (Inl (ErrRuleFormat idx line))
         | Some (payload, target, params) \<Rightarrow>
             if proxies target = None then Inr (Inl (ErrRuleProxy idx line target))
             else (case ParseRule (hd (trimArr rule)) payload target (trimArr params) of
                     Inl p \<Rightarrow> Inl p
                   | Inr (Inl e) \<Rightarrow> Inr (Inl (ErrRule idx line e))
                   | Inr (Inr parsed) \<Rightarrow> map_sum id (map_sum id (\<lambda>rs. parsed # rs)) (parse_rule_lines proxies (idx + 1) ls)))"

definition parseRules :: "string list \<Rightarrow> (string \<rightharpoonup> 'p) \<Rightarrow> panic + (cfg_error + Rule list)" where
  "parseRules rulesConfig proxies = parse_rule_lines proxies 0 rulesConfig"

section \<open>Hosts\<close>

definition host_ips :: "string \<Rightarrow> IP list option" where
  "host_ips ipStr =
     (if CHR '','' \<in> set ipStr then Some (map ParseIP (filter (\<lambda>ip. ip \<noteq> []) (map TrimSpace (Split CHR '','' ipStr))))
      else let ip = ParseIP (TrimSpace ipStr) in if ip = [] then None else Some [ip])"

fun parse_host_entries :: "(string \<times> string) list \<Rightarrow> hosts_data Node \<Rightarrow> cfg_error + hosts_data Node" where
  "parse_host_entries [] tree = Inr tree"
| "parse_host_entries ((domain, ipStr) # hs) tree =
     (case host_ips ipStr of
        None \<Rightarrow> Inl (ErrHost ipStr)
      | Some ipList \<Rightarrow> parse_host_entries hs (put_domain domain (HostIPs ipList) tree))"

definition parseHosts :: "(string \<times> string) list \<Rightarrow> cfg_error + hosts_data Node" where
  "parseHosts hosts = parse_host_entries hosts (put_domain ''localhost'' (HostIP [127, 0, 0, 1]) New_trie)"

section \<open>Name servers\<close>

record ns_url =
  nu_Scheme :: string
  nu_Host :: string
  nu_Path :: string

record cfg_env =
  ce_fetch :: fetch_env
  ce_url :: "string \<Rightarrow> ns_url option"
  ce_url_String :: "ns_url \<Rightarrow> string"
  ce_exists :: "string \<Rightarrow> bool"

definition hostWithDefaultPort :: "string \<Rightarrow> string \<Rightarrow> string option" where
  "hostWithDefaultPort h defPort =
     (let h1 = (if CHR '':'' \<notin> set h then h @ '':'' else h)
      in map_option (\<lambda>(hostname, port). JoinHostPort hostname (if port = [] then defPort else port)) (SplitHostPort h1))"

definition name_server :: "cfg_env \<Rightarrow> nat \<Rightarrow> ns_url \<Rightarrow> cfg_error + NameServer" where
  "name_server env idx u =
     (let with_port = (\<lambda>net port. case hostWithDefaultPort (nu_Host u) port of
            None \<Rightarrow> Inl (ErrNameServer idx) | Some address \<Rightarrow> Inr \<lparr>ns_Net = net, ns_Addr = address\<rparr>)
      in if nu_Scheme u = ''udp'' then with_port [] ''53''
         else if nu_Scheme u = ''tcp'' then with_port ''tcp'' ''53''
         else if nu_Scheme u = ''tls'' then with_port ''tcp-tls'' ''853''
         else if nu_Scheme u = ''https'' then
           Inr \<lparr>ns_Net = ''https'', ns_Addr = ce_url_String env \<lparr>nu_Scheme = ''https'', nu_Host = nu_Host u, nu_Path = nu_Path u\<rparr>\<rparr>
         else if nu_Scheme u = ''dhcp'' then Inr \<lparr>ns_Net = ''dhcp'', ns_Addr = nu_Host u\<rparr>
         else Inl (ErrNameServerScheme idx (nu_Scheme u)))"

fun parse_servers :: "cfg_env \<Rightarrow> nat \<Rightarrow> string list \<Rightarrow> cfg_error + NameServer list" where
  "parse_servers env idx [] = Inr []"
| "parse_servers env idx (server # ss) =
     (case ce_url env (if Contains server ''://'' then server else ''udp://'' @ server) of
        None \<Rightarrow> Inl (ErrNameServer idx)
      | Some u \<Rightarrow>
          (case name_server env idx u of
             Inl e \<Rightarrow> Inl e
           | Inr ns \<Rightarrow> map_sum id (\<lambda>r. ns # r) (parse_servers env (idx + 1) ss)))"

definition parseNameServer :: "cfg_env \<Rightarrow> string list \<Rightarrow> cfg_error + NameServer list" where
  "parseNameServer env servers = parse_servers env 0 servers"

fun parseNameServerPolicy :: "cfg_env \<Rightarrow> (string \<times> string) list \<Rightarrow> cfg_error + (string \<times> NameServer) list" where
  "parseNameServerPolicy env [] = Inr []"
| "parseNameServerPolicy env ((domain, server) # ps) =
     (case parseNameServer env [server] of
        Inl e \<Rightarrow> Inl e
      | Inr nameservers \<Rightarrow>
          if ValidAndSplitDomain domain = None then Inl (ErrPolicyDomain domain)
          else map_sum id (\<lambda>policy. (domain, hd nameservers) # policy) (parseNameServerPolicy env ps))"

text \<open>\<open>None\<close> is an error, whose position in the list nobody reads.\<close>

definition parseFallbackIPCIDR :: "string list \<Rightarrow> IPNet list option" where
  "parseFallbackIPCIDR ips = those (map ParseCIDR ips)"

section \<open>The DNS section\<close>

record RawFallbackFilter =
  rff_GeoIP :: bool
  rff_GeoIPCode :: string
  rff_IPCIDR :: "string list"
  rff_Domain :: "string list"

record RawDNS =
  rdn_Enable :: bool
  rdn_IPv6 :: bool
  rdn_UseHosts :: bool
  rdn_NameServer :: "string list"
  rdn_Fallback :: "string list"
  rdn_FallbackFilter :: RawFallbackFilter
  rdn_Listen :: string
  rdn_EnhancedMode :: EnhancedMode
  rdn_FakeIPRange :: string
  rdn_FakeIPFilter :: "string list"
  rdn_DefaultNameserver :: "string list"
  rdn_NameServerPolicy :: "(string \<times> string) list"
  rdn_ADGuard :: "string list"

record DNS =
  dn_Enable :: bool
  dn_IPv6 :: bool
  dn_NameServer :: "NameServer list"
  dn_Fallback :: "NameServer list"
  dn_FallbackFilter :: FallbackFilter
  dn_Listen :: string
  dn_EnhancedMode :: EnhancedMode
  dn_DefaultNameserver :: "NameServer list"
  dn_FakeIPRange :: "Pool option"
  dn_Hosts :: "hosts_data Node option"
  dn_NameServerPolicy :: "(string \<times> NameServer) list"
  dn_ADGuard :: "string list"

definition pure_ip :: "NameServer \<Rightarrow> bool" where
  "pure_ip ns = (case SplitHostPort (ns_Addr ns) of None \<Rightarrow> False | Some (h, _) \<Rightarrow> ParseIP h \<noteq> [])"

definition fake_pool :: "RawDNS \<Rightarrow> panic + (cfg_error + Pool option)" where
  "fake_pool cfg =
     (if rdn_EnhancedMode cfg \<noteq> FAKEIP then Inr (Inr None)
      else case ParseCIDR (rdn_FakeIPRange cfg) of
             None \<Rightarrow> Inr (Inl ErrFakeRange)
           | Some net \<Rightarrow>
               map_sum id (map_sum ErrFakePool Some)
                 (New_pool net 1000
                   (if rdn_FakeIPFilter cfg \<noteq> [] then Some (fold (\<lambda>d. put_domain d True) (rdn_FakeIPFilter cfg) New_trie) else None)))"

definition fallback_filter :: "RawFallbackFilter \<Rightarrow> FallbackFilter" where
  "fallback_filter f = \<lparr>ff_GeoIP = rff_GeoIP f, ff_GeoIPCode = rff_GeoIPCode f,
     ff_IPCIDR = (case parseFallbackIPCIDR (rff_IPCIDR f) of Some ns \<Rightarrow> ns | None \<Rightarrow> []), ff_Domain = rff_Domain f\<rparr>"

definition parseDNS :: "cfg_env \<Rightarrow> RawDNS \<Rightarrow> hosts_data Node \<Rightarrow> panic + (cfg_error + DNS)" where
  "parseDNS env cfg hosts =
     (if rdn_Enable cfg \<and> rdn_NameServer cfg = [] then Inr (Inl ErrNoNameServer)
      else case parseNameServer env (rdn_NameServer cfg) of Inl e \<Rightarrow> Inr (Inl e)
      | Inr ns \<Rightarrow> (case parseNameServer env (rdn_Fallback cfg) of Inl e \<Rightarrow> Inr (Inl e)
      | Inr fb \<Rightarrow> (case parseNameServerPolicy env (rdn_NameServerPolicy cfg) of Inl e \<Rightarrow> Inr (Inl e)
      | Inr policy \<Rightarrow>
          if rdn_DefaultNameserver cfg = [] then Inr (Inl ErrNoDefaultServer)
          else (case parseNameServer env (rdn_DefaultNameserver cfg) of Inl e \<Rightarrow> Inr (Inl e)
          | Inr dflt \<Rightarrow>
              if \<not> list_all pure_ip dflt then Inr (Inl ErrDefaultServerName)
              else map_sum id (map_sum id (\<lambda>pool.
                \<lparr>dn_Enable = rdn_Enable cfg, dn_IPv6 = rdn_IPv6 cfg, dn_NameServer = ns, dn_Fallback = fb,
                 dn_FallbackFilter = fallback_filter (rdn_FallbackFilter cfg), dn_Listen = rdn_Listen cfg,
                 dn_EnhancedMode = rdn_EnhancedMode cfg, dn_DefaultNameserver = dflt, dn_FakeIPRange = pool,
                 dn_Hosts = (if rdn_UseHosts cfg then Some hosts else None), dn_NameServerPolicy = policy, dn_ADGuard = rdn_ADGuard cfg\<rparr>)) (fake_pool cfg)))))"

section \<open>Users\<close>

definition parseAuthentication :: "string list \<Rightarrow> AuthUser list" where
  "parseAuthentication rawRecords =
     List.map_filter (\<lambda>line. case SplitN2 CHR '':'' line of [u, p] \<Rightarrow> Some \<lparr>User = u, Pass = p\<rparr> | _ \<Rightarrow> None) rawRecords"

section \<open>The whole file\<close>

record General =
  ge_Port :: int
  ge_SocksPort :: int
  ge_RedirPort :: int
  ge_TProxyPort :: int
  ge_MixedPort :: int
  ge_AllowLan :: bool
  ge_BindAddress :: string
  ge_TunDevice :: string
  ge_TUNPreUp :: "string list"
  ge_TUNPostUp :: "string list"
  ge_ExternalController :: string
  ge_ExternalUI :: string
  ge_Secret :: string
  ge_ExternalCMD :: string
  ge_Mode :: TunnelMode
  ge_LogLevel :: LogLevel
  ge_IPv6 :: bool
  ge_Interface :: string
  ge_MaxConns :: int

text \<open>The general settings of the raw configuration have the same fields as the section they go to.\<close>

record RawConfig =
  rc_General :: General
  rc_Authentication :: "string list"
  rc_ProxyProvider :: "(string \<times> raw) list"
  rc_Hosts :: "(string \<times> string) list"
  rc_DNS :: RawDNS
  rc_StoreSelected :: bool
  rc_Proxy :: "raw list"
  rc_ProxyGroup :: "raw list"
  rc_Rule :: "string list"

record Config =
  cf_General :: General
  cf_DNS :: DNS
  cf_Hosts :: "hosts_data Node"
  cf_StoreSelected :: bool
  cf_Rules :: "Rule list"
  cf_Users :: "AuthUser list"
  cf_Build :: build

text \<open>The limit of connections is not read from the file.\<close>

definition parseGeneral :: "cfg_env \<Rightarrow> General \<Rightarrow> cfg_error + General" where
  "parseGeneral env g =
     (let ui = fe_resolve (ce_fetch env) (ge_ExternalUI g)
      in if ge_ExternalUI g \<noteq> [] \<and> \<not> ce_exists env ui then Inl (ErrExternalUI ui) else Inr (g\<lparr>ge_MaxConns := 0\<rparr>))"

definition ParseRawConfig :: "cfg_env \<Rightarrow> int \<Rightarrow> (string list \<Rightarrow> string list) \<Rightarrow> (vid list \<Rightarrow> vid list) \<Rightarrow> (string \<rightharpoonup> byte list) \<Rightarrow>
    RawConfig \<Rightarrow> (cfg_error, Config) run" where
  "ParseRawConfig env now perm order files rc =
     run_bind (Some (Inr (parseGeneral env (rc_General rc)))) (\<lambda>general.
     run_bind (run_wrap ErrProxies (parseProxies (ce_fetch env) now perm order (rc_Proxy rc) (rc_ProxyGroup rc) (rc_ProxyProvider rc) files)) (\<lambda>b.
     run_bind (Some (parseRules (rc_Rule rc) (b_proxies b))) (\<lambda>rs.
     run_bind (Some (Inr (parseHosts (rc_Hosts rc)))) (\<lambda>hosts.
     run_bind (Some (parseDNS env (rc_DNS rc) hosts)) (\<lambda>d.
     run_ok \<lparr>cf_General = general, cf_DNS = d, cf_Hosts = hosts, cf_StoreSelected = rc_StoreSelected rc, cf_Rules = rs,
             cf_Users = parseAuthentication (rc_Authentication rc), cf_Build = b\<rparr>)))))"

section \<open>Blocked domains\<close>

text \<open>
  \<open>FindString\<close> of the pattern \<open>\|\|.+\^\<close>: the first \<open>||\<close> with a \<open>^\<close> behind it, at least one character
  between them, up to the last such \<open>^\<close>.
\<close>

definition upto_last :: "char \<Rightarrow> string \<Rightarrow> string" where
  "upto_last c s = rev (dropWhile (\<lambda>x. x \<noteq> c) (rev s))"

fun find_block :: "string \<Rightarrow> string" where
  "find_block [] = []"
| "find_block (x # xs) =
     (if HasPrefix (x # xs) ''||'' \<and> CHR ''^'' \<in> set (drop 2 xs) then ''||'' @ take 1 (drop 1 xs) @ upto_last CHR ''^'' (drop 2 xs)
      else find_block xs)"

text \<open>\<open>strings.Replace (s, "||", "", -1)\<close>.\<close>

fun remove_bars :: "string \<Rightarrow> string" where
  "remove_bars (x # y # xs) = (if x = CHR ''|'' \<and> y = CHR ''|'' then remove_bars xs else x # remove_bars (y # xs))"
| "remove_bars s = s"

definition adgurd_line :: "string \<Rightarrow> Rule option" where
  "adgurd_line line =
     (if Contains line ''@@||'' then None
      else let st = find_block line
           in if st = [] then None
              else (case ParseRule ''DOMAIN-SUFFIX'' (filter (\<lambda>c. c \<noteq> CHR ''^'') (remove_bars st)) ''ADGURD_MATCH'' [[]] of
                      Inr (Inr rule) \<Rightarrow> Some rule | _ \<Rightarrow> None))"

text \<open>The file is an argument, by its lines; without it nothing is added.\<close>

definition AdgurdFile2Rule :: "(string \<Rightarrow> string list option) \<Rightarrow> string \<Rightarrow> Rule list \<Rightarrow> Rule list" where
  "AdgurdFile2Rule lines_of file rs = (case lines_of file of None \<Rightarrow> rs | Some ls \<Rightarrow> rs @ List.map_filter adgurd_line ls)"

section \<open>Every rule has its proxy\<close>

lemma apply_IPCIDROption_Adapter: "rule_Adapter (apply_IPCIDROption ci r) = rule_Adapter r"
  by (cases "(ci, r)" rule: apply_IPCIDROption.cases) simp_all

lemma fold_IPCIDROption_Adapter: "rule_Adapter (fold apply_IPCIDROption opts r) = rule_Adapter r"
  by (induction opts arbitrary: r) (simp_all add: apply_IPCIDROption_Adapter)

definition names_target :: "string \<Rightarrow> panic + (rule_error + Rule) \<Rightarrow> bool" where
  "names_target target x \<longleftrightarrow> (\<forall>r. x = Inr (Inr r) \<longrightarrow> r = NilDomainAndPort \<or> rule_Adapter r = Inr target)"

lemma names_target_if: "names_target t x \<Longrightarrow> names_target t y \<Longrightarrow> names_target t (if c then x else y)"
  by simp

lemma ParseRule_Adapter: "names_target target (ParseRule kind payload target params)"
  unfolding ParseRule_def Let_def
  by (intro names_target_if)
    (simp_all add: names_target_def NewDomain_def NewDomainSuffix_def NewDomainKeyword_def NewGEOIP_def NewIPCIDR_def NewPort_def NewProcess_def
      NewMatch_def NewAllIP_def NewDomainAndPort_def fold_IPCIDROption_Adapter apply_IPCIDROption_Adapter split: option.split list.split)

lemma parse_rule_lines_spec:
  assumes "parse_rule_lines proxies idx ls = Inr (Inr rs)"
  shows "length rs = length ls \<and> (\<forall>r \<in> set rs. r = NilDomainAndPort \<or> (\<exists>a \<in> dom proxies. rule_Adapter r = Inr a))"
  using assms
proof (induction ls arbitrary: idx rs)
  case (Cons l ls)
  from Cons.prems obtain payload target params r rest where p: "proxies target \<noteq> None"
    "ParseRule (hd (trimArr (trimArr (Split CHR '','' l)))) payload target (trimArr params) = Inr (Inr r)"
    "parse_rule_lines proxies (idx + 1) ls = Inr (Inr rest)" "rs = r # rest"
    by (auto simp: Let_def map_sum_def split: option.splits prod.splits if_splits sum.splits) blast
  have "r = NilDomainAndPort \<or> rule_Adapter r = Inr target" using ParseRule_Adapter p(2) unfolding names_target_def by metis
  with Cons.IH [OF p(3)] p(1, 4) show ?case by auto
qed simp

text \<open>
  C18: A configuration that is accepted has one rule for each line, and the proxy a rule names is there
  under that name and can be dialled: it comes to an end with a connection or an error. The exception is
  the rule on a domain and a port whose port is no number, which is nil.
\<close>

theorem config_rules_have_proxies:
  assumes "ParseRawConfig env now perm order files rc = Some (Inr (Inr cfg))" "\<forall>xs. mset (perm xs) = mset xs"
  shows "length (cf_Rules cfg) = length (rc_Rule rc) \<and>
    (\<forall>r \<in> set (cf_Rules cfg). r = NilDomainAndPort \<or>
      (\<exists>a p. rule_Adapter r = Inr a \<and> b_proxies (cf_Build cfg) a = Some p \<and> name (ad (b_world (cf_Build cfg)) p) = a \<and>
        (\<exists>res. dial (Suc (b_next (cf_Build cfg))) net t1 t2 md p (b_world (cf_Build cfg)) = Some res)))"
proof -
  obtain b where b: "parseProxies (ce_fetch env) now perm order (rc_Proxy rc) (rc_ProxyGroup rc) (rc_ProxyProvider rc) files = Some (Inr (Inr b))"
    and r: "parse_rule_lines (b_proxies b) 0 (rc_Rule rc) = Inr (Inr (cf_Rules cfg))" and c: "cf_Build cfg = b"
    using assms(1) by (auto simp: ParseRawConfig_def run_bind_ok parseRules_def)
  from parseProxies_ok [OF b assms(2)] have ok: "build_ok b" "\<And>nm p. b_proxies b nm = Some p \<Longrightarrow> name (ad (b_world b) p) = nm" by (auto simp: config_ok_def)
  have "\<exists>res. dial (Suc (b_next b)) net t1 t2 md p (b_world b) = Some res" for p
    using dial_ends [of "group_rank (b_world b)" "Suc (b_next b)" net t1 t2 md] build_okD(1) [OF ok(1)] group_rank_bound [OF ok(1), of p] by blast
  then show ?thesis using parse_rule_lines_spec [OF r] ok(2) unfolding c by (fastforce simp: dom_def)
qed

section \<open>Hosts are answered\<close>

lemma parse_host_entries_fold:
  "parse_host_entries hs tree = Inr tree1 \<Longrightarrow>
   tree1 = fold (\<lambda>(d, x). put_domain d x) (map (\<lambda>(d, s). (d, HostIPs (the (host_ips s)))) hs) tree \<and> (\<forall>(d, s) \<in> set hs. host_ips s \<noteq> None)"
  by (induction hs tree rule: parse_host_entries.induct) (auto split: option.splits)

lemma parseHosts_find:
  assumes "parseHosts hs = Inr tree" "\<forall>(d, s) \<in> set hs. plain d" "distinct (map fst hs)" "(d, s) \<in> set hs"
  shows "\<exists>ips. host_ips s = Some ips \<and> find_domain d tree = Some (HostIPs ips)"
proof -
  let ?xs = "map (\<lambda>(d, s). (d, HostIPs (the (host_ips s)))) hs"
  from parse_host_entries_fold [OF assms(1) [unfolded parseHosts_def]]
  have t: "tree = fold (\<lambda>(d, x). put_domain d x) ?xs (put_domain ''localhost'' (HostIP [127, 0, 0, 1]) New_trie)"
    and s: "\<forall>(d, s) \<in> set hs. host_ips s \<noteq> None" by auto
  have "\<forall>(d, x) \<in> set ?xs. plain d" "distinct (map fst ?xs)" "(d, HostIPs (the (host_ips s))) \<in> set ?xs"
    using assms(2-4) by (force simp: comp_def split_beta)+
  from domains.find_fold_put [OF this] t have "find_domain d tree = Some (HostIPs (the (host_ips s)))" by simp
  then show ?thesis using s assms(4) by fastforce
qed


section \<open>Users\<close>

lemma SplitN2_colon: "SplitN2 c s = [u, p] \<longleftrightarrow> s = u @ c # p \<and> c \<notin> set u"
proof (induction s arbitrary: u)
  case (Cons x xs)
  show ?case
  proof (cases "x = c")
    case False
    obtain y ys where y: "SplitN2 c xs = y # ys" using SplitN2_two [of c xs] by auto
    show ?thesis using False Cons.IH [of y] y SplitN2_two [of c xs] Cons.IH [of "tl u"] by (cases u) auto
  qed (cases u; auto)
qed simp

lemma parseAuthentication_snoc:
  "parseAuthentication (ls @ [l]) = parseAuthentication ls @ (case SplitN2 CHR '':'' l of [u, p] \<Rightarrow> [\<lparr>User = u, Pass = p\<rparr>] | _ \<Rightarrow> [])"
  by (auto simp: parseAuthentication_def List.map_filter_def split: list.splits)

definition credentials :: "AuthUser list \<Rightarrow> string \<rightharpoonup> string" where
  "credentials us = fold (\<lambda>x s. s(User x \<mapsto> Pass x)) us Map.empty"

lemma credentials_snoc [simp]: "credentials [] = Map.empty" "credentials (us @ [x]) = (credentials us)(User x \<mapsto> Pass x)"
  by (simp_all add: credentials_def)

lemma parseAuthentication_lookup:
  assumes "CHR '':'' \<notin> set u"
  shows "credentials (parseAuthentication ls) u = Some p \<longleftrightarrow>
    (\<exists>xs ys. ls = xs @ (u @ '':'' @ p) # ys \<and> (\<forall>l \<in> set ys. \<forall>p1. l \<noteq> u @ '':'' @ p1))" (is "?get ls \<longleftrightarrow> ?last ls")
proof (induction ls rule: rev_induct)
  case (snoc l ls)
  have last: "?last (ls @ [l]) \<longleftrightarrow> (if \<exists>p1. l = u @ '':'' @ p1 then l = u @ '':'' @ p else ?last ls)"
  proof (cases "\<exists>p1. l = u @ '':'' @ p1")
    case True
    have "l = u @ '':'' @ p" if "ls @ [l] = xs @ (u @ '':'' @ p) # ys" "\<forall>k \<in> set ys. \<forall>p1. k \<noteq> u @ '':'' @ p1" for xs ys
      using that True by (cases ys rule: rev_cases) auto
    moreover have "?last (ls @ [l])" if "l = u @ '':'' @ p"
      using that by (intro exI [of _ ls] exI [of _ "[]"]) simp
    ultimately show ?thesis using True by auto
  next
    case False
    have "?last ls" if "ls @ [l] = xs @ (u @ '':'' @ p) # ys" "\<forall>k \<in> set ys. \<forall>p1. k \<noteq> u @ '':'' @ p1" for xs ys
    proof (cases ys rule: rev_cases)
      case (snoc zs z)
      with that show ?thesis by (intro exI [of _ xs] exI [of _ zs]) auto
    qed (use that False in auto)
    moreover have "?last (ls @ [l])" if "ls = xs @ (u @ '':'' @ p) # ys" "\<forall>k \<in> set ys. \<forall>p1. k \<noteq> u @ '':'' @ p1" for xs ys
      using that False by (intro exI [of _ xs] exI [of _ "ys @ [l]"]) auto
    ultimately show ?thesis using False by meson
  qed
  have get: "?get (ls @ [l]) \<longleftrightarrow> (if \<exists>p1. l = u @ '':'' @ p1 then l = u @ '':'' @ p else ?get ls)"
  proof (cases "SplitN2 CHR '':'' l")
    case (Cons a as)
    with SplitN2_two [of "CHR '':''" l] consider "SplitN2 CHR '':'' l = [a]" | b where "SplitN2 CHR '':'' l = [a, b]" by auto
    then show ?thesis
    proof cases
      case 1
      then have "l \<noteq> u @ '':'' @ p1" for p1 using assms SplitN2_colon [of "CHR '':''" l u p1] by auto
      then show ?thesis using 1 by (simp add: parseAuthentication_snoc)
    next
      case 2
      then have "l = a @ '':'' @ b" "CHR '':'' \<notin> set a" using SplitN2_colon [of "CHR '':''" l a b] by auto
      moreover have "(\<exists>p1. l = u @ '':'' @ p1) \<longleftrightarrow> a = u" "l = u @ '':'' @ p \<longleftrightarrow> a = u \<and> b = p"
        using 2 assms SplitN2_colon [of "CHR '':''" l u] by auto
      ultimately show ?thesis using 2 by (simp add: parseAuthentication_snoc)
    qed
  qed (use SplitN2_two [of "CHR '':''" l] in auto)
  show ?case unfolding last get using snoc.IH by auto
qed (simp add: parseAuthentication_def List.map_filter_def)

text \<open>
  C21: The users of the configuration are the users the listeners let in: a name without a colon and a
  password are accepted exactly when a line of the list reads \<open>name:password\<close> and no later line is for
  that name. Passwords may contain colons.
\<close>

theorem config_users_verified:
  assumes "NewAuthenticator (parseAuthentication ls) = Some au" "CHR '':'' \<notin> set u"
  shows "Verify au u p \<longleftrightarrow> (\<exists>xs ys. ls = xs @ (u @ '':'' @ p) # ys \<and> (\<forall>l \<in> set ys. \<forall>p1. l \<noteq> u @ '':'' @ p1))"
proof -
  have "storage au = credentials (parseAuthentication ls)"
    using assms(1) by (auto simp: NewAuthenticator_def credentials_def split: if_splits)
  then have "Verify au u p \<longleftrightarrow> credentials (parseAuthentication ls) u = Some p" by (simp add: Verify_def split: option.split)
  then show ?thesis by (simp only: parseAuthentication_lookup [OF assms(2)])
qed

section \<open>A small configuration\<close>

definition demo_cfg_env :: cfg_env where
  "demo_cfg_env = \<lparr>ce_fetch = demo_fetch_env, ce_url = (\<lambda>s. Some \<lparr>nu_Scheme = ''udp'', nu_Host = drop 6 s, nu_Path = []\<rparr>),
     ce_url_String = (\<lambda>_. []), ce_exists = (\<lambda>_. True)\<rparr>"

definition demo_raw_dns :: RawDNS where
  "demo_raw_dns = \<lparr>rdn_Enable = True, rdn_IPv6 = False, rdn_UseHosts = True, rdn_NameServer = [''1.1.1.1''], rdn_Fallback = [],
     rdn_FallbackFilter = \<lparr>rff_GeoIP = False, rff_GeoIPCode = [], rff_IPCIDR = [], rff_Domain = []\<rparr>, rdn_Listen = [], rdn_EnhancedMode = NORMAL,
     rdn_FakeIPRange = [], rdn_FakeIPFilter = [], rdn_DefaultNameserver = [''8.8.8.8''], rdn_NameServerPolicy = [], rdn_ADGuard = []\<rparr>"

definition demo_general :: General where
  "demo_general = \<lparr>ge_Port = 0, ge_SocksPort = 0, ge_RedirPort = 0, ge_TProxyPort = 0, ge_MixedPort = 7890, ge_AllowLan = False, ge_BindAddress = ''*'',
     ge_TunDevice = [], ge_TUNPreUp = [], ge_TUNPostUp = [], ge_ExternalController = [], ge_ExternalUI = [], ge_Secret = [], ge_ExternalCMD = [],
     ge_Mode = Metadata.TunnelMode.Rule, ge_LogLevel = INFO, ge_IPv6 = False, ge_Interface = [], ge_MaxConns = 0\<rparr>"

definition demo_config :: RawConfig where
  "demo_config = \<lparr>rc_General = demo_general, rc_Authentication = [], rc_ProxyProvider = [], rc_Hosts = [(''a.com'', ''1.2.3.4'')], rc_DNS = demo_raw_dns,
     rc_StoreSelected = True, rc_Proxy = [], rc_ProxyGroup = [demo_raw ''g'' [''DIRECT'']], rc_Rule = [''DOMAIN,b.com,g'', ''MATCH, DIRECT'']\<rparr>"

lemma demo_config_ok: "case ParseRawConfig demo_cfg_env 0 id id Map.empty demo_config of Some (Inr (Inr cfg)) \<Rightarrow> length (cf_Rules cfg) = 2 \<and> (case hd (cf_Rules cfg) of Domain d a b \<Rightarrow> a = ''g'' | _ \<Rightarrow> False) | _ \<Rightarrow> False"
  by code_simp

theorem config_rules_have_proxies_witness:
  "\<exists>cfg p. ParseRawConfig demo_cfg_env 0 id id Map.empty demo_config = Some (Inr (Inr cfg)) \<and> length (cf_Rules cfg) = 2 \<and>
     rule_Adapter (hd (cf_Rules cfg)) = Inr ''g'' \<and> b_proxies (cf_Build cfg) ''g'' = Some p \<and> name (ad (b_world (cf_Build cfg)) p) = ''g''"
proof -
  obtain cfg d b where c: "ParseRawConfig demo_cfg_env 0 id id Map.empty demo_config = Some (Inr (Inr cfg))" "length (cf_Rules cfg) = 2"
    "hd (cf_Rules cfg) = Domain d ''g'' b"
    using demo_config_ok by (auto split: option.splits sum.splits Rule.splits)
  then have "Domain d ''g'' b \<in> set (cf_Rules cfg)" by (cases "cf_Rules cfg") auto
  moreover  have "\<forall>xs. mset (id xs :: string list) = mset xs" by simp
  ultimately show ?thesis using config_rules_have_proxies [OF c(1)] c by fastforce
qed


theorem config_users_verified_witness:
  "\<exists>au. NewAuthenticator (parseAuthentication [''a:b:c'', ''d'']) = Some au \<and> Verify au ''a'' ''b:c'' \<and> \<not> Verify au ''d'' []"
proof -
  obtain au where au: "NewAuthenticator (parseAuthentication [''a:b:c'', ''d'']) = Some au"
    by (simp add: NewAuthenticator_def parseAuthentication_def List.map_filter_def)
  have "Verify au ''a'' ''b:c''" using config_users_verified [OF au, of "''a''" "''b:c''"]
    by (auto intro: exI [of _ "[]"] exI [of _ "[''d'']"])
  moreover have "\<not> Verify au ''d'' []" using config_users_verified [OF au, of "''d''" "[]"] by (auto simp: Cons_eq_append_conv)
  ultimately show ?thesis using au by blast
qed

section \<open>Where the code does something else\<close>

text \<open>
  The default entry for \<open>localhost\<close> is an address, where every reader expects a list of addresses. A
  question for it makes the DNS server panic.
\<close>

lemma localhost_query_panics:
  assumes "parseHosts hs = Inr tree" "\<forall>(d, s) \<in> set hs. plain d \<and> d \<noteq> ''localhost''" "distinct (map fst hs)"
    and "r_hosts r = Some tree" "Question msg = q # qs" "TrimRight CHR ''.'' (q_Name q) = ''localhost''" "isIPRequest q"
  shows "handlerWithContext (newHandler denv now r mode) msg raddr st = Some (Inl TypeAssertion)"
proof -
  let ?xs = "map (\<lambda>(d, s). (d, HostIPs (the (host_ips s)))) hs" and ?t = "put_domain ''localhost'' (HostIP [127, 0, 0, 1]) New_trie :: hosts_data Node"
  from parse_host_entries_fold [OF assms(1) [unfolded parseHosts_def]]
  have t: "tree = fold (\<lambda>(d, x). put_domain d x) ?xs ?t" by simp
  have pl: "plain ''localhost''" by code_simp
  have xs: "\<forall>(d, x) \<in> set ?xs. plain d" "distinct (map fst ?xs)" "map_of ?xs ''localhost'' = None"
    using assms(2, 3) by (auto simp: comp_def split_beta map_of_eq_None_iff)
  have "exact tree ''localhost'' = Some (HostIP [127, 0, 0, 1])"
    using domains.fold_put_entry [OF xs(1, 2) pl, of ?t] xs(3) domains.put_entry [OF pl pl, of "HostIP [127, 0, 0, 1]" New_trie] t by simp
  then have "find_domain ''localhost'' tree = Some (HostIP [127, 0, 0, 1])" by (rule domains.find_entry [OF pl])
  then show ?thesis using assms(4-7)
    by (simp add: handlerWithContext_def newHandler_def compose_def withPreHandle_def withHosts_def question0_def)
qed

text \<open>One network that does not parse, and none of the networks of the fallback filter is used.\<close>

lemma bad_cidr_drops_filters: "ParseCIDR bad = None \<Longrightarrow> bad \<in> set (rff_IPCIDR f) \<Longrightarrow> ff_IPCIDR (fallback_filter f) = []"
proof -
  have "those xs = None" if "None \<in> set xs" for xs :: "IPNet option list" using that by (induction xs) (auto split: option.split)
  moreover assume "ParseCIDR bad = None" "bad \<in> set (rff_IPCIDR f)"
  ultimately have "parseFallbackIPCIDR (rff_IPCIDR f) = None" by (force simp: parseFallbackIPCIDR_def)
  then show ?thesis by (simp add: fallback_filter_def)
qed

text \<open>A rule with a bad port is accepted as nil, and one without its parameter panics.\<close>

lemma bad_port_accepted: "parseRules [''DOMAIN-DST-PORT,a.com,DIRECT,http''] [''DIRECT'' \<mapsto> 0 :: nat] = Inr (Inr [NilDomainAndPort])"
  by code_simp

lemma missing_port_panics: "parseRules [''DST-IP-PORT,1.1.1.1/32,DIRECT''] [''DIRECT'' \<mapsto> 0 :: nat] = Inl IndexOutOfRange"
  by code_simp

text \<open>In a list of addresses for a host nobody checks that they are addresses.\<close>

lemma host_list_unchecked: "host_ips ''1.2.3.4'' \<noteq> None \<and> host_ips ''bad'' = None \<and> host_ips ''bad,'' = Some [[]]"
  by code_simp

end
