(* ===== verification/Spec2Isabelle.thy ===== *)
theory Spec2Isabelle
  imports Match_Spec Handlers Obfs Configuration
begin

text \<open>
  A verification library for the rule-based proxy under \<open>src/\<close>, a program in Go that accepts
  connections on local listeners (HTTP, SOCKS4, SOCKS5), decides by a list of rules which outbound
  proxy carries each of them, and relays the traffic.

  \<^bold>\<open>How the parts interact.\<close> A configuration is parsed (\<open>config/config.go\<close>): proxies, providers and
  groups become objects that refer to each other, the groups are sorted by their references, and
  rules, hosts, name servers and users are read. A listener turns a client's request into metadata
  (\<open>constant/metadata.go\<close>) and hands it to the tunnel (\<open>tunnel/tunnel.go\<close>). The tunnel maps a fake
  address back to its name, matches the rules through a cache, and dials the chosen proxy, which may
  be a group that chooses among its members; the outbound speaks its protocol over the dialled
  stream. Trackers (\<open>tunnel/statistic\<close>) account for the traffic. The DNS server answers the client's
  questions, and its mapping is what leads addresses back to names.

  \<^bold>\<open>Conventions.\<close> A Go panic is the left side of \<open>panic + 'a\<close>, a Go error a value of the component's error
  type. A record holds the fields of a struct; a map is a partial function, or an association list
  where the order of a loop over it can be observed, and the order that Go chooses is then an argument
  or the order of the list. Integers of fixed width are words. Objects behind pointers that are shared
  are numbered and kept in a store. A slice of bytes is a list, and a nil slice the empty list. The clock
  is an argument, as are random numbers, sockets, files, the database and every third-party package;
  what the code relies on is stated as hypotheses. A stream is a record of what will be read and what has been
  written, and a read may return less than asked. Goroutines that race are inductive step relations.

  \<^bold>\<open>The theories, and what they show.\<close>

  \<^item> \<open>Proxy_Prelude\<close>, \<open>Go_Strings\<close>, \<open>Go_Net\<close>, \<open>Go_Conn\<close>, \<open>Go_Stream\<close>, \<open>Go_Http\<close>: the panics, and the parts of
    Go's library that the program uses (strings, addresses and networks, connections, stream readers,
    headers), with round trips of printing and parsing. The locales \<open>stream_reader\<close> and \<open>stream_codec\<close> say
    once what it means that a reader returns what a writer wrote, however the reads are cut.
  \<^item> \<open>Lru_Cache\<close>: \<open>common/cache/lrucache.go\<close>. Every run of operations refines a list of entries in the
    order of their use. \<open>Lru_Api\<close> is the contract of the third-party cache (locale \<open>golang_lru\<close>), which
    the program's own cache satisfies.
  \<^item> \<open>Domain_Trie\<close>: \<open>component/trie\<close>. A search returns the first pattern in the order of precedence that covers
    the domain; the locale \<open>domain_table\<close> is what its users rely on.
  \<^item> \<open>Fake_Ip\<close>: \<open>component/fakeip/pool.go\<close>. The address handed out for a host leads back to it, two hosts
    never share one, and it stays while it is remembered. The search for a free address ends in a pool of any size.
  \<^item> \<open>Metadata\<close>, \<open>Rules\<close>: \<open>constant/metadata.go\<close>, \<open>constant/rule.go\<close>, \<open>rule/\<close>. Every kind of rule with its
    constructor, match and parser, and on what of a connection a match depends.
  \<^item> \<open>Resolver\<close>: \<open>component/resolver\<close>, \<open>dns/enhancer.go\<close>, the matching of blocked domains.
  \<^item> \<open>Dns\<close>: \<open>dns/util.go\<close>, \<open>filters.go\<close>, \<open>resolver.go\<close>, \<open>middleware.go\<close>, \<open>common/picker\<close>. Answers come from the
    cache while they live, an answer that a filter objects to is replaced by one of a fallback server,
    and every address in an answer leads back to the name that was asked.
  \<^item> \<open>Tunnel\<close>, \<open>Rule_Cache\<close>, \<open>Match_Spec\<close>: \<open>tunnel/tunnel.go\<close>, \<open>matchRuleCache.go\<close>, \<open>rulesSaveDB.go\<close>. Matching
    picks the first rule that applies, and the cache in front of it never changes the decision.
  \<^item> \<open>Statistic\<close>, \<open>Handlers\<close>: \<open>tunnel/statistic\<close>, the handlers of TCP connections and UDP packets, \<open>component/nat\<close>.
    No traffic is counted twice or lost, a connection is tracked from its dial to its end, a UDP
    session is reused.
  \<^item> \<open>Breaker\<close>: the limit of concurrent relays in \<open>tunnel/connection.go\<close> under every interleaving.
  \<^item> \<open>Auth\<close>, \<open>Socks5\<close>, \<open>Socks4\<close>, \<open>Inbound\<close>, \<open>Http_Listener\<close>: \<open>component/auth\<close>, \<open>transport/socks5\<close>,
    \<open>transport/socks4\<close>, \<open>adapter/inbound\<close>, \<open>listener/socks\<close>, \<open>listener/http\<close>, \<open>listener/mixed\<close>,
    \<open>common/cache/cache.go\<close>. Both ends of each handshake fit together, and nobody
    without credentials gets through.
  \<^item> \<open>Structure\<close>, \<open>Proxy_Options\<close>: \<open>common/structure\<close>, the decoder of option structs by reflection, and the
    option structs (locale \<open>option_struct\<close>). Decoding keeps the declared types.
  \<^item> \<open>Proxy_Adapter\<close>, \<open>Hashing\<close>, \<open>Proxy_Groups\<close>, \<open>Group_Sort\<close>: \<open>adapter/adapter.go\<close>, \<open>common/queue\<close>, \<open>common/murmur3\<close>,
    \<open>adapter/outboundgroup\<close>, \<open>adapter/provider\<close>, \<open>common/singledo\<close>, \<open>config/utils.go\<close>. The delay of a proxy is that of its last test, a failing proxy
    is dialled at most three times at once, the strategies choose as they promise, and the
    sort puts every group after its members or names a loop.
  \<^item> \<open>Trojan\<close>, \<open>Vmess_Stream\<close>, \<open>Vmess_Conn\<close>, \<open>Gun\<close>, \<open>Obfs\<close>, \<open>Outbounds\<close>: \<open>transport/trojan\<close>, \<open>transport/vmess\<close>,
    \<open>transport/gun\<close>, \<open>transport/simple-obfs\<close>, \<open>transport/v2ray-plugin\<close>, \<open>adapter/outbound\<close>. What is written at one end is
    read at the other, and the request tells the server the destination of the connection.
  \<^item> \<open>Proxy_Parser\<close>: \<open>adapter/parser.go\<close>, \<open>adapter/provider/parser.go\<close>, \<open>fetcher.go\<close>, \<open>vehicle.go\<close>,
    \<open>adapter/outboundgroup/parser.go\<close>, \<open>parseProxies\<close>. An accepted configuration has a proxy
    under each of its names, dialling ends however groups are nested and whenever providers
    are fetched again, and references are found in whatever order the groups are written.
  \<^item> \<open>Configuration\<close>: the rest of \<open>config/config.go\<close> and the list of blocked domains of \<open>dns/server.go\<close>.
    Rules name proxies that exist, listed hosts are answered with their addresses, and the users are those listed.

  \<^bold>\<open>Bounds and fuel.\<close> \<open>dial\<close>, \<open>unwrap_all\<close> and \<open>SupportUDP\<close> take a number that bounds the depth of groups inside groups;
  \<open>config_dials_end\<close> shows that one more than the number of proxies is enough in every configuration the
  parser accepts. The search for a free fake address and for alternative VMess identifiers are partial functions
  whose value \<open>None\<close> is not returning; the first is shown to return, the second depends on a hash that is an
  argument. All other loops are total functions.

  \<^bold>\<open>Not modelled, and why.\<close> The copying between two sockets, deadlines and zero copy (\<open>tunnel/connection.go\<close>,
  \<open>tunnel/idleconn.go\<close>), accepting connections, socket options, transparent and redirected listeners, process
  lookup, interfaces and DHCP are system calls. YAML and JSON decoding, the embedded database, the country
  database, the HTTP, HTTP/2, websocket and TLS stacks and the DNS messages belong to other packages and are arguments.
  The control interface (\<open>hub/route\<close>) prints state as JSON through a third-party router; \<open>hub/executor\<close> and \<open>listener/listener.go\<close>
  put a parsed configuration into global variables and open sockets. The dials of the VMess outbound are left
  out beyond the construction, since they wrap connections of those packages. Buffer and object pools, logging and the
  observable only reuse memory or print. The waiting of concurrent callers of \<open>singledo\<close> and the
  cancelling in \<open>picker\<close> are left out; one caller at a time is modelled.
\<close>

end
